(* ===== verification/Prelude.thy ===== *)
theory Prelude
  imports Main "HOL-Library.Word" "HOL-Library.Signed_Division"
begin

unbundle bit_operations_syntax

text \<open>
  Shared material of the development.

  \<^item> C integers. A signed C integer is a HOL \<open>int\<close> that is wrapped explicitly at every store
    (\<open>s32\<close> for \<open>int32_t\<close>, \<open>s16\<close> for \<open>int16_t\<close>, \<open>u32\<close> for \<open>uint32_t\<close>); wire formats use
    \<open>8 word\<close>, \<open>16 word\<close>, \<open>32 word\<close> and \<open>64 word\<close>. Signed overflow, which C leaves undefined, is
    modelled as the two's complement wrap-around of the targets; C division and remainder are
    \<open>sdiv\<close> and \<open>smod\<close>, which truncate towards zero.
  \<^item> Buffers. A C byte array is an \<open>8 word list\<close>; \<open>put_bytes\<close> is a store of consecutive bytes
    (\<open>memcpy\<close>, or a store through a cast pointer on a little endian machine), \<open>get_bytes\<close> a load.
  \<^item> Two interfaces used by several components: a fixed width field codec (read after write,
    and frame, for fields of a packet buffer) and a step system (an invariant kept by every step
    holds in every reachable state).
\<close>

named_theorems c_int \<open>laws that remove wrap-around where a value is in range\<close>
named_theorems buf_simps \<open>loads and stores on byte buffers\<close>

subsection \<open>C integers\<close>

type_synonym u8 = "8 word"
type_synonym u16 = "16 word"
type_synonym u32w = "32 word"
type_synonym u64 = "64 word"
type_synonym bytes = "8 word list"

definition s16 :: "int \<Rightarrow> int" where
  "s16 x = signed_take_bit 15 x"

definition s32 :: "int \<Rightarrow> int" where
  "s32 x = signed_take_bit 31 x"

definition u32 :: "int \<Rightarrow> int" where
  "u32 x = take_bit 32 x"

lemma s32_id [c_int]: "- 2147483648 \<le> x \<Longrightarrow> x \<le> 2147483647 \<Longrightarrow> s32 x = x"
  by (simp add: s32_def signed_take_bit_int_eq_self)

lemma s32_ge: "- 2147483648 \<le> s32 x"
  using signed_take_bit_int_greater_eq_minus_exp [of 31 x] by (simp add: s32_def)

lemma s32_le: "s32 x \<le> 2147483647"
  using signed_take_bit_int_less_exp [of 31 x] by (simp add: s32_def)

lemma s32_0 [simp]: "s32 0 = 0"
  by (simp add: s32_def)

lemma s16_id [c_int]: "- 32768 \<le> x \<Longrightarrow> x \<le> 32767 \<Longrightarrow> s16 x = x"
  by (simp add: s16_def signed_take_bit_int_eq_self)

lemma u32_id [c_int]: "0 \<le> x \<Longrightarrow> x < 4294967296 \<Longrightarrow> u32 x = x"
  by (simp add: u32_def take_bit_int_eq_self)

lemma u32_range: "0 \<le> u32 x" "u32 x < 4294967296"
  using take_bit_int_less_exp [of 32 x] by (simp_all add: u32_def)

definition in_s32 :: "int \<Rightarrow> bool" where
  "in_s32 x \<longleftrightarrow> - 2147483648 \<le> x \<and> x \<le> 2147483647"

lemma in_s32_s32 [simp]: "in_s32 (s32 x)"
  by (simp add: in_s32_def s32_ge s32_le)

lemma s32_in [c_int]: "in_s32 x \<Longrightarrow> s32 x = x"
  by (simp add: in_s32_def s32_id)

text \<open>Shifts of \<open>int32_t\<close> values: \<open>>>\<close> is arithmetic, \<open><<\<close> drops the bits above bit 31.\<close>

definition shr32 :: "int \<Rightarrow> int \<Rightarrow> int" where
  "shr32 x k = x div 2 ^ nat k"

definition shl32 :: "int \<Rightarrow> int \<Rightarrow> int" where
  "shl32 x k = s32 (x * 2 ^ nat k)"

subsection \<open>Byte buffers\<close>

fun put_bytes :: "nat \<Rightarrow> 'a list \<Rightarrow> 'a list \<Rightarrow> 'a list" where
  "put_bytes off [] buf = buf"
| "put_bytes off (x # xs) buf = put_bytes (Suc off) xs (buf[off := x])"

definition get_bytes :: "nat \<Rightarrow> nat \<Rightarrow> 'a list \<Rightarrow> 'a list" where
  "get_bytes off n buf = take n (drop off buf)"

lemma length_put_bytes [simp]: "length (put_bytes off xs buf) = length buf"
  by (induction off xs buf rule: put_bytes.induct) simp_all

lemma nth_put_bytes [buf_simps]:
  "k < length buf \<Longrightarrow>
   put_bytes off xs buf ! k = (if off \<le> k \<and> k < off + length xs then xs ! (k - off) else buf ! k)"
proof (induction off xs buf rule: put_bytes.induct)
  case (1 off buf)
  then show ?case by auto
next
  case (2 off x xs buf)
  show ?case
  proof (cases "k = off")
    case True
    with 2 show ?thesis by simp
  next
    case False
    from 2 have IH: "put_bytes off (x # xs) buf ! k =
        (if Suc off \<le> k \<and> k < Suc off + length xs then xs ! (k - Suc off) else buf[off := x] ! k)"
      by simp
    show ?thesis
    proof (cases "Suc off \<le> k")
      case True
      then have "k - off = Suc (k - Suc off)" by simp
      with IH True show ?thesis by simp
    next
      case False
      with IH \<open>k \<noteq> off\<close> show ?thesis by simp
    qed
  qed
qed

declare put_bytes.simps [simp del]

lemma length_get_bytes [simp]: "off + n \<le> length buf \<Longrightarrow> length (get_bytes off n buf) = n"
  by (simp add: get_bytes_def)

lemma nth_get_bytes [buf_simps]:
  "off + n \<le> length buf \<Longrightarrow> k < n \<Longrightarrow> get_bytes off n buf ! k = buf ! (off + k)"
  by (simp add: get_bytes_def)

lemma get_put_same [buf_simps]:
  assumes "off + length xs \<le> length buf"
  shows "get_bytes off (length xs) (put_bytes off xs buf) = xs"
  using assms by (auto intro!: nth_equalityI simp: nth_get_bytes nth_put_bytes)

lemma get_put_other:
  assumes "off' + n \<le> off \<or> off + length xs \<le> off'" "off' + n \<le> length buf"
  shows "get_bytes off' n (put_bytes off xs buf) = get_bytes off' n buf"
  using assms by (auto intro!: nth_equalityI simp: nth_get_bytes nth_put_bytes)

text \<open>
  A field of a packet: an encoder of constant width and a decoder that inverts it. Whatever the
  field is, reading it back after writing it gives the value written, and writing it leaves every
  disjoint range of the buffer alone.
\<close>

locale field_codec =
  fixes enc :: "'v \<Rightarrow> bytes" and dec :: "bytes \<Rightarrow> 'v" and width :: nat
  assumes enc_width: "length (enc v) = width"
    and dec_enc: "dec (enc v) = v"
begin

lemma load_store: "off + width \<le> length buf \<Longrightarrow> dec (get_bytes off width (put_bytes off (enc v) buf)) = v"
  using get_put_same [of off "enc v" buf] by (simp add: enc_width dec_enc)

lemma load_store_other:
  "off' + n \<le> off \<or> off + width \<le> off' \<Longrightarrow> off' + n \<le> length buf \<Longrightarrow>
   get_bytes off' n (put_bytes off (enc v) buf) = get_bytes off' n buf"
  by (rule get_put_other) (simp_all add: enc_width)

lemma enc_inj: "enc v = enc w \<Longrightarrow> v = w"
  by (metis dec_enc)

end

subsection \<open>Exclusive or\<close>

lemma xor_cancel: "(a :: 'a::len word) XOR b = a XOR c \<longleftrightarrow> b = c"
proof
  assume "a XOR b = a XOR c"
  then have "a XOR (a XOR b) = a XOR (a XOR c)" by simp
  then show "b = c" by (simp add: xor.assoc [symmetric])
qed simp

lemma xor_eq_0: "(a :: 'a::len word) XOR b = 0 \<longleftrightarrow> a = b"
  using xor_cancel [of a b a] by auto

subsection \<open>Decimal numbers\<close>

text \<open>The digits that \<open>printf\<close> writes for a number, and that a number is read from.\<close>

function decimal :: "nat \<Rightarrow> bytes" where
  "decimal n = (if n < 10 then [of_nat (48 + n)] else decimal (n div 10) @ [of_nat (48 + n mod 10)])"
  by pat_completeness auto
termination
  by (relation "measure id") auto

declare decimal.simps [simp del]

lemma decimal_nonempty [simp]: "decimal n \<noteq> []"
  by (subst decimal.simps) simp

lemma decimal_digit: "c \<in> set (decimal n) \<Longrightarrow> \<exists>k<10. c = of_nat (48 + k)"
proof (induction n rule: decimal.induct)
  case (1 n)
  then show ?case
    by (subst (asm) (2) decimal.simps) (auto split: if_splits intro: exI [of _ n] exI [of _ "n mod 10"])
qed

definition digits_value :: "bytes \<Rightarrow> nat" where
  "digits_value ds = foldl (\<lambda>v c. v * 10 + (unat c - 48)) 0 ds"

lemma unat_digit: "k < 10 \<Longrightarrow> unat (of_nat (48 + k) :: u8) = 48 + k"
  by (simp only: unat_of_nat) simp

lemma digits_value_decimal: "digits_value (decimal n) = n"
proof (induction n rule: decimal.induct)
  case (1 n)
  then show ?case
    using unat_digit [of n] unat_digit [of "n mod 10"]
    by (subst decimal.simps) (auto simp: digits_value_def)
qed

subsection \<open>Step systems\<close>

text \<open>
  A component whose operations are steps from state to state. An invariant that holds in the
  initial states and is kept by every step holds in every reachable state.
\<close>

locale step_system =
  fixes init :: "'s \<Rightarrow> bool" and step :: "'s \<Rightarrow> 's \<Rightarrow> bool" and inv :: "'s \<Rightarrow> bool"
  assumes inv_init: "init s \<Longrightarrow> inv s"
    and inv_step: "inv s \<Longrightarrow> step s t \<Longrightarrow> inv t"
begin

lemma inv_steps: "step\<^sup>*\<^sup>* s t \<Longrightarrow> inv s \<Longrightarrow> inv t"
  by (induction rule: rtranclp_induct) (auto intro: inv_step)

lemma inv_reachable: "init s \<Longrightarrow> step\<^sup>*\<^sup>* s t \<Longrightarrow> inv t"
  by (blast intro: inv_init inv_steps)

end

end
