(* ===== verification/PtpTypes.thy ===== *)
theory PtpTypes
  imports Prelude
begin

text \<open>
  Data model of the PTP daemon: the structures of
  \<^verbatim>\<open>src/supports/lwip/lwip/src/include/ptp/datatypes.h\<close> and \<^verbatim>\<open>datatypes_dep.h\<close>, and the constants of
  \<^verbatim>\<open>constants.h\<close> and \<^verbatim>\<open>constants_dep.h\<close>. A structure is a record with the fields of the source
  (prefixed where two structures share a name); fields that travel on the wire are words of their
  width, times and servo values are C integers (see theory \<open>Prelude\<close>), the small enumerations of
  states and delay mechanisms are datatypes. The union \<open>msgTmp\<close> of \<open>PtpClock\<close> has one field per
  layout of its members (\<open>sync\<close> and \<open>follow\<close> are one time stamp; \<open>resp\<close>, \<open>presp\<close> and \<open>prespfollow\<close>
  a time stamp and a port identity): every read of a member in the sources follows a write of the
  same member in the same handler. Array indices of the foreign master data set, which the code only ever resets, bumps
  under a guard or reduces modulo the capacity, are natural numbers.
\<close>

subsection \<open>Constants\<close>

abbreviation (input) CLOCK_IDENTITY_LENGTH :: nat where "CLOCK_IDENTITY_LENGTH \<equiv> 8"
abbreviation (input) FLAG_FIELD_LENGTH :: nat where "FLAG_FIELD_LENGTH \<equiv> 2"
abbreviation (input) PTP_PACKET_SIZE :: nat where "PTP_PACKET_SIZE \<equiv> 300"
abbreviation (input) PTP_PBUF_QUEUE_SIZE :: nat where "PTP_PBUF_QUEUE_SIZE \<equiv> 4"
abbreviation (input) HEADER_LENGTH :: int where "HEADER_LENGTH \<equiv> 34"
abbreviation (input) ANNOUNCE_LENGTH :: int where "ANNOUNCE_LENGTH \<equiv> 64"
abbreviation (input) SYNC_LENGTH :: int where "SYNC_LENGTH \<equiv> 44"
abbreviation (input) FOLLOW_UP_LENGTH :: int where "FOLLOW_UP_LENGTH \<equiv> 44"
abbreviation (input) PDELAY_REQ_LENGTH :: int where "PDELAY_REQ_LENGTH \<equiv> 54"
abbreviation (input) DELAY_REQ_LENGTH :: int where "DELAY_REQ_LENGTH \<equiv> 44"
abbreviation (input) DELAY_RESP_LENGTH :: int where "DELAY_RESP_LENGTH \<equiv> 54"
abbreviation (input) PDELAY_RESP_LENGTH :: int where "PDELAY_RESP_LENGTH \<equiv> 54"
abbreviation (input) PDELAY_RESP_FOLLOW_UP_LENGTH :: int where "PDELAY_RESP_FOLLOW_UP_LENGTH \<equiv> 54"

abbreviation (input) SYNC :: u8 where "SYNC \<equiv> 0"
abbreviation (input) DELAY_REQ :: u8 where "DELAY_REQ \<equiv> 1"
abbreviation (input) PDELAY_REQ :: u8 where "PDELAY_REQ \<equiv> 2"
abbreviation (input) PDELAY_RESP :: u8 where "PDELAY_RESP \<equiv> 3"
abbreviation (input) FOLLOW_UP :: u8 where "FOLLOW_UP \<equiv> 8"
abbreviation (input) DELAY_RESP :: u8 where "DELAY_RESP \<equiv> 9"
abbreviation (input) PDELAY_RESP_FOLLOW_UP :: u8 where "PDELAY_RESP_FOLLOW_UP \<equiv> 10"
abbreviation (input) ANNOUNCE :: u8 where "ANNOUNCE \<equiv> 11"
abbreviation (input) SIGNALING :: u8 where "SIGNALING \<equiv> 12"
abbreviation (input) MANAGEMENT :: u8 where "MANAGEMENT \<equiv> 13"

abbreviation (input) CTRL_SYNC :: u8 where "CTRL_SYNC \<equiv> 0"
abbreviation (input) CTRL_DELAY_REQ :: u8 where "CTRL_DELAY_REQ \<equiv> 1"
abbreviation (input) CTRL_FOLLOW_UP :: u8 where "CTRL_FOLLOW_UP \<equiv> 2"
abbreviation (input) CTRL_DELAY_RESP :: u8 where "CTRL_DELAY_RESP \<equiv> 3"
abbreviation (input) CTRL_OTHER :: u8 where "CTRL_OTHER \<equiv> 5"

abbreviation (input) FLAG0_TWO_STEP :: u8 where "FLAG0_TWO_STEP \<equiv> 2"
abbreviation (input) FLAG1_LEAP61 :: u8 where "FLAG1_LEAP61 \<equiv> 1"
abbreviation (input) FLAG1_LEAP59 :: u8 where "FLAG1_LEAP59 \<equiv> 2"
abbreviation (input) FLAG1_UTC_OFFSET_VALID :: u8 where "FLAG1_UTC_OFFSET_VALID \<equiv> 4"
abbreviation (input) FLAG1_PTP_TIMESCALE :: u8 where "FLAG1_PTP_TIMESCALE \<equiv> 8"
abbreviation (input) FLAG1_TIME_TRACEABLE :: u8 where "FLAG1_TIME_TRACEABLE \<equiv> 16"
abbreviation (input) FLAG1_FREQUENCY_TRACEABLE :: u8 where "FLAG1_FREQUENCY_TRACEABLE \<equiv> 32"

abbreviation (input) STATE_DECISION_EVENT :: u32w where "STATE_DECISION_EVENT \<equiv> 0x0040"
abbreviation (input) SYNCHRONIZATION_FAULT :: u32w where "SYNCHRONIZATION_FAULT \<equiv> 0x0200"
abbreviation (input) MASTER_CLOCK_SELECTED :: u32w where "MASTER_CLOCK_SELECTED \<equiv> 0x0400"
abbreviation (input) MASTER_CLOCK_CHANGED :: u32w where "MASTER_CLOCK_CHANGED \<equiv> 0x0800"

abbreviation (input) INTERNAL_OSCILLATOR :: u8 where "INTERNAL_OSCILLATOR \<equiv> 0xA0"
abbreviation (input) DEFAULT_DELAYREQ_INTERVAL :: u8 where "DEFAULT_DELAYREQ_INTERVAL \<equiv> 3"
abbreviation (input) DEFAULT_PDELAYREQ_INTERVAL :: u8 where "DEFAULT_PDELAYREQ_INTERVAL \<equiv> 1"
abbreviation (input) DEFAULT_ANNOUNCE_RECEIPT_TIMEOUT :: u8 where "DEFAULT_ANNOUNCE_RECEIPT_TIMEOUT \<equiv> 6"
abbreviation (input) DEFAULT_MAX_FOREIGN_RECORDS :: nat where "DEFAULT_MAX_FOREIGN_RECORDS \<equiv> 5"
abbreviation (input) DEFAULT_CALIBRATED_OFFSET_NS :: int where "DEFAULT_CALIBRATED_OFFSET_NS \<equiv> 10000"
abbreviation (input) DEFAULT_UNCALIBRATED_OFFSET_NS :: int where "DEFAULT_UNCALIBRATED_OFFSET_NS \<equiv> 1000000"
abbreviation (input) MAX_ADJ_OFFSET_NS :: int where "MAX_ADJ_OFFSET_NS \<equiv> 100000000"
abbreviation (input) ADJ_FREQ_MAX :: int where "ADJ_FREQ_MAX \<equiv> 512000"
abbreviation (input) INT_MAX :: int where "INT_MAX \<equiv> 2147483647"

text \<open>The bit field macros of \<open>ptpd_dep.h\<close>.\<close>

definition getFlag :: "'a::len word \<Rightarrow> 'a word \<Rightarrow> bool" where
  "getFlag flags m \<longleftrightarrow> flags AND m = m"

definition setFlag :: "'a::len word \<Rightarrow> 'a word \<Rightarrow> 'a word" where
  "setFlag flags m = flags OR m"

definition clearFlag :: "'a::len word \<Rightarrow> 'a word \<Rightarrow> 'a word" where
  "clearFlag flags m = flags AND NOT m"

lemma getFlag_setFlag [simp]: "getFlag (setFlag f m) m"
  by (auto simp: getFlag_def setFlag_def bit_eq_iff bit_simps)

lemma getFlag_clearFlag [simp]: "m \<noteq> 0 \<Longrightarrow> \<not> getFlag (clearFlag f m) m"
  by (auto simp: getFlag_def clearFlag_def bit_eq_iff bit_simps)

subsection \<open>Structures\<close>

datatype port_state = PTP_INITIALIZING | PTP_FAULTY | PTP_DISABLED | PTP_LISTENING
  | PTP_PRE_MASTER | PTP_MASTER | PTP_PASSIVE | PTP_UNCALIBRATED | PTP_SLAVE

datatype delay_mechanism = E2E | P2P | DELAY_DISABLED

datatype timer_id = PDELAYREQ_INTERVAL_TIMER | DELAYREQ_INTERVAL_TIMER | SYNC_INTERVAL_TIMER
  | ANNOUNCE_RECEIPT_TIMER | ANNOUNCE_INTERVAL_TIMER | QUALIFICATION_TIMEOUT

record TimeInternal =
  seconds :: int
  nanoseconds :: int

record Timestamp =
  secondsField_lsb :: u32w
  secondsField_msb :: u16
  nanosecondsField :: u32w

record PortIdentity =
  clockIdentity :: bytes
  portNumber :: u16

record ClockQuality =
  clockClass :: u8
  clockAccuracy :: u8
  offsetScaledLogVariance :: u16

record MsgHeader =
  transportSpecific :: u8
  messageType :: u8
  versionPTP :: u8
  messageLength :: u16
  h_domainNumber :: u8
  flagField :: bytes
  correctionfield :: u64
  sourcePortIdentity :: PortIdentity
  sequenceId :: u16
  controlField :: u8
  logMessageInterval :: u8

record MsgAnnounce =
  originTimestamp :: Timestamp
  a_currentUtcOffset :: u16
  a_grandmasterPriority1 :: u8
  a_grandmasterClockQuality :: ClockQuality
  a_grandmasterPriority2 :: u8
  a_grandmasterIdentity :: bytes
  a_stepsRemoved :: u16
  a_timeSource :: u8

record MsgDelayResp =
  receiveTimestamp :: Timestamp
  requestingPortIdentity :: PortIdentity

record ForeignMasterRecord =
  foreignMasterPortIdentity :: PortIdentity
  foreignMasterAnnounceMessages :: u16
  fm_announce :: MsgAnnounce
  fm_header :: MsgHeader

record DefaultDS =
  twoStepFlag :: bool
  d_clockIdentity :: bytes
  numberPorts :: u16
  d_clockQuality :: ClockQuality
  d_priority1 :: u8
  d_priority2 :: u8
  d_domainNumber :: u8
  d_slaveOnly :: bool

record CurrentDS =
  stepsRemoved :: u16
  offsetFromMaster :: TimeInternal
  meanPathDelay :: TimeInternal

record ParentDS =
  parentPortIdentity :: PortIdentity
  parentStats :: bool
  observedParentOffsetScaledLogVariance :: int
  observedParentClockPhaseChangeRate :: int
  grandmasterIdentity :: bytes
  grandmasterClockQuality :: ClockQuality
  grandmasterPriority1 :: u8
  grandmasterPriority2 :: u8

record TimePropertiesDS =
  currentUtcOffset :: u16
  currentUtcOffsetValid :: bool
  leap59 :: bool
  leap61 :: bool
  timeTraceable :: bool
  frequencyTraceable :: bool
  ptpTimescale :: bool
  timeSource :: u8

record PortDS =
  portIdentity :: PortIdentity
  portState :: port_state
  logMinDelayReqInterval :: u8
  peerMeanPathDelay :: TimeInternal
  logAnnounceInterval :: u8
  announceReceiptTimeout :: u8
  logSyncInterval :: u8
  delayMechanism :: delay_mechanism
  logMinPdelayReqInterval :: u8
  versionNumber :: u8

record ForeignMasterDS =
  fmr_records :: "ForeignMasterRecord list"
  fm_count :: nat
  fm_capacity :: nat
  fm_i :: nat
  fm_best :: nat

record Filter =
  y_prev :: int
  y_sum :: int
  f_s :: int
  s_prev :: int
  f_n :: int

record Servo =
  noResetClock :: bool
  noAdjust :: bool
  ap :: int
  ai :: int
  sDelay :: int
  sOffset :: int

record RunTimeOpts =
  r_announceInterval :: u8
  r_syncInterval :: u8
  r_clockQuality :: ClockQuality
  r_priority1 :: u8
  r_priority2 :: u8
  r_domainNumber :: u8
  r_slaveOnly :: bool
  r_currentUtcOffset :: u16
  r_inboundLatency :: TimeInternal
  r_outboundLatency :: TimeInternal
  r_maxForeignRecords :: nat
  r_delayMechanism :: delay_mechanism
  r_servo :: Servo

text \<open>
  A received packet buffer of lwIP: the payloads of the chain and the receive time stamp the MAC
  driver stored in it. \<open>tot_len\<close> of the first buffer is the length of all payloads.
\<close>

record pbuf =
  pb_segs :: "bytes list"
  pb_time :: TimeInternal

definition tot_len :: "pbuf \<Rightarrow> nat" where
  "tot_len p = length (concat (pb_segs p))"

record BufQueue =
  q_pbuf :: "pbuf list"
  q_head :: nat
  q_tail :: nat

text \<open>
  A pointer to a UDP control block: null, to a live block, or to a block that was already given
  back with \<open>udp_remove\<close>. The last three fields of \<open>NetPath\<close> are ghosts: the buffers handed to
  \<open>pbuf_free\<close>, the multicast groups joined and not left, and whether memory was used that is not there: a block that is null or removed, or bytes past the end of a payload.
\<close>

datatype pcb_ref = PcbNull | PcbLive | PcbRemoved

record NetPath =
  multicastAddr :: u32w
  peerMulticastAddr :: u32w
  unicastAddr :: u32w
  eventPcb :: pcb_ref
  generalPcb :: pcb_ref
  eventQ :: BufQueue
  generalQ :: BufQueue
  freedPbufs :: "pbuf list"
  joinedGroups :: "u32w list"
  netFault :: bool

record PtpClock =
  defaultDS :: DefaultDS
  currentDS :: CurrentDS
  parentDS :: ParentDS
  timePropertiesDS :: TimePropertiesDS
  portDS :: PortDS
  foreignMasterDS :: ForeignMasterDS
  msgTmpHeader :: MsgHeader
  msgTmp_announce :: MsgAnnounce
  msgTmp_timestamp :: Timestamp
  msgTmp_resp :: MsgDelayResp
  msgObuf :: bytes
  msgIbuf :: bytes
  msgIbufLength :: int
  Tms :: TimeInternal
  Tsm :: TimeInternal
  pdelay_t1 :: TimeInternal
  pdelay_t2 :: TimeInternal
  pdelay_t3 :: TimeInternal
  pdelay_t4 :: TimeInternal
  timestamp_syncRecieve :: TimeInternal
  timestamp_delayReqSend :: TimeInternal
  timestamp_delayReqRecieve :: TimeInternal
  correctionField_sync :: TimeInternal
  correctionField_pDelayResp :: TimeInternal
  sentPDelayReqSequenceId :: u16
  sentDelayReqSequenceId :: u16
  sentSyncSequenceId :: u16
  sentAnnounceSequenceId :: u16
  recvSyncSequenceId :: u16
  waitingForFollowUp :: bool
  waitingForPDelayRespFollowUp :: bool
  ofm_filt :: Filter
  owd_filt :: Filter
  observedDrift :: int
  messageActivity :: bool
  netPath :: NetPath
  recommendedState :: port_state
  portUuidField :: bytes
  inboundLatency :: TimeInternal
  outboundLatency :: TimeInternal
  servo :: Servo
  events :: u32w
  rtOpts :: RunTimeOpts

subsection \<open>The zeroed clock\<close>

text \<open>
  \<open>ptpd_init\<close> clears the clock with \<open>memset\<close>: every number is zero, every flag false, every array
  filled with zeros. A zero \<open>portState\<close> is \<open>PTP_INITIALIZING\<close>; a zero delay mechanism is none of the
  known ones and selects the default branch everywhere, as \<open>DELAY_DISABLED\<close> does.
\<close>

definition TimeInternal_zero :: TimeInternal where
  "TimeInternal_zero = \<lparr>seconds = 0, nanoseconds = 0\<rparr>"

definition Timestamp_zero :: Timestamp where
  "Timestamp_zero = \<lparr>secondsField_lsb = 0, secondsField_msb = 0, nanosecondsField = 0\<rparr>"

definition PortIdentity_zero :: PortIdentity where
  "PortIdentity_zero = \<lparr>clockIdentity = replicate 8 0, portNumber = 0\<rparr>"

definition ClockQuality_zero :: ClockQuality where
  "ClockQuality_zero = \<lparr>clockClass = 0, clockAccuracy = 0, offsetScaledLogVariance = 0\<rparr>"

definition MsgHeader_zero :: MsgHeader where
  "MsgHeader_zero = \<lparr>transportSpecific = 0, messageType = 0, versionPTP = 0, messageLength = 0,
     h_domainNumber = 0, flagField = replicate 2 0, correctionfield = 0,
     sourcePortIdentity = PortIdentity_zero, sequenceId = 0, controlField = 0, logMessageInterval = 0\<rparr>"

definition MsgAnnounce_zero :: MsgAnnounce where
  "MsgAnnounce_zero = \<lparr>originTimestamp = Timestamp_zero, a_currentUtcOffset = 0,
     a_grandmasterPriority1 = 0, a_grandmasterClockQuality = ClockQuality_zero,
     a_grandmasterPriority2 = 0, a_grandmasterIdentity = replicate 8 0, a_stepsRemoved = 0, a_timeSource = 0\<rparr>"

definition ForeignMasterRecord_zero :: ForeignMasterRecord where
  "ForeignMasterRecord_zero = \<lparr>foreignMasterPortIdentity = PortIdentity_zero,
     foreignMasterAnnounceMessages = 0, fm_announce = MsgAnnounce_zero, fm_header = MsgHeader_zero\<rparr>"

definition Filter_zero :: Filter where
  "Filter_zero = \<lparr>y_prev = 0, y_sum = 0, f_s = 0, s_prev = 0, f_n = 0\<rparr>"

definition Servo_zero :: Servo where
  "Servo_zero = \<lparr>noResetClock = False, noAdjust = False, ap = 0, ai = 0, sDelay = 0, sOffset = 0\<rparr>"

definition pbuf_zero :: pbuf where
  "pbuf_zero = \<lparr>pb_segs = [], pb_time = TimeInternal_zero\<rparr>"

definition BufQueue_zero :: BufQueue where
  "BufQueue_zero = \<lparr>q_pbuf = replicate PTP_PBUF_QUEUE_SIZE pbuf_zero, q_head = 0, q_tail = 0\<rparr>"

definition RunTimeOpts_zero :: RunTimeOpts where
  "RunTimeOpts_zero = \<lparr>r_announceInterval = 0, r_syncInterval = 0, r_clockQuality = ClockQuality_zero,
     r_priority1 = 0, r_priority2 = 0, r_domainNumber = 0, r_slaveOnly = False, r_currentUtcOffset = 0,
     r_inboundLatency = TimeInternal_zero, r_outboundLatency = TimeInternal_zero,
     r_maxForeignRecords = 0, r_delayMechanism = DELAY_DISABLED, r_servo = Servo_zero\<rparr>"

definition ptpClock_zero :: PtpClock where
  "ptpClock_zero =
    \<lparr>defaultDS = \<lparr>twoStepFlag = False, d_clockIdentity = replicate 8 0, numberPorts = 0,
       d_clockQuality = ClockQuality_zero, d_priority1 = 0, d_priority2 = 0, d_domainNumber = 0, d_slaveOnly = False\<rparr>,
     currentDS = \<lparr>stepsRemoved = 0, offsetFromMaster = TimeInternal_zero, meanPathDelay = TimeInternal_zero\<rparr>,
     parentDS = \<lparr>parentPortIdentity = PortIdentity_zero, parentStats = False,
       observedParentOffsetScaledLogVariance = 0, observedParentClockPhaseChangeRate = 0,
       grandmasterIdentity = replicate 8 0, grandmasterClockQuality = ClockQuality_zero,
       grandmasterPriority1 = 0, grandmasterPriority2 = 0\<rparr>,
     timePropertiesDS = \<lparr>currentUtcOffset = 0, currentUtcOffsetValid = False, leap59 = False, leap61 = False,
       timeTraceable = False, frequencyTraceable = False, ptpTimescale = False, timeSource = 0\<rparr>,
     portDS = \<lparr>portIdentity = PortIdentity_zero, portState = PTP_INITIALIZING, logMinDelayReqInterval = 0,
       peerMeanPathDelay = TimeInternal_zero, logAnnounceInterval = 0, announceReceiptTimeout = 0,
       logSyncInterval = 0, delayMechanism = DELAY_DISABLED, logMinPdelayReqInterval = 0, versionNumber = 0\<rparr>,
     foreignMasterDS = \<lparr>fmr_records = replicate DEFAULT_MAX_FOREIGN_RECORDS ForeignMasterRecord_zero,
       fm_count = 0, fm_capacity = 0, fm_i = 0, fm_best = 0\<rparr>,
     msgTmpHeader = MsgHeader_zero, msgTmp_announce = MsgAnnounce_zero, msgTmp_timestamp = Timestamp_zero,
     msgTmp_resp = \<lparr>receiveTimestamp = Timestamp_zero, requestingPortIdentity = PortIdentity_zero\<rparr>,
     msgObuf = replicate PTP_PACKET_SIZE 0, msgIbuf = replicate PTP_PACKET_SIZE 0, msgIbufLength = 0,
     Tms = TimeInternal_zero, Tsm = TimeInternal_zero,
     pdelay_t1 = TimeInternal_zero, pdelay_t2 = TimeInternal_zero,
     pdelay_t3 = TimeInternal_zero, pdelay_t4 = TimeInternal_zero,
     timestamp_syncRecieve = TimeInternal_zero, timestamp_delayReqSend = TimeInternal_zero,
     timestamp_delayReqRecieve = TimeInternal_zero,
     correctionField_sync = TimeInternal_zero, correctionField_pDelayResp = TimeInternal_zero,
     sentPDelayReqSequenceId = 0, sentDelayReqSequenceId = 0, sentSyncSequenceId = 0,
     sentAnnounceSequenceId = 0, recvSyncSequenceId = 0,
     waitingForFollowUp = False, waitingForPDelayRespFollowUp = False,
     ofm_filt = Filter_zero, owd_filt = Filter_zero, observedDrift = 0, messageActivity = False,
     netPath = \<lparr>multicastAddr = 0, peerMulticastAddr = 0, unicastAddr = 0, eventPcb = PcbNull, generalPcb = PcbNull,
       eventQ = BufQueue_zero, generalQ = BufQueue_zero, freedPbufs = [], joinedGroups = [], netFault = False\<rparr>,
     recommendedState = PTP_INITIALIZING, portUuidField = replicate 6 0,
     inboundLatency = TimeInternal_zero, outboundLatency = TimeInternal_zero,
     servo = Servo_zero, events = 0, rtOpts = RunTimeOpts_zero\<rparr>"

lemmas zero_defs = ptpClock_zero_def RunTimeOpts_zero_def BufQueue_zero_def pbuf_zero_def Servo_zero_def
  Filter_zero_def ForeignMasterRecord_zero_def MsgAnnounce_zero_def MsgHeader_zero_def
  ClockQuality_zero_def PortIdentity_zero_def Timestamp_zero_def TimeInternal_zero_def

end
