(* ===== verification/PtpArith.thy ===== *)
theory PtpArith
  imports PtpTypes
begin

text \<open>
  Time arithmetic of \<^verbatim>\<open>src/supports/lwip/lwip/src/exts/ptp/ptpArith.c\<close>. A \<open>TimeInternal\<close> stands for
  the number of nanoseconds \<open>timeval\<close>; a normalised one has less than a second of nanoseconds and no
  mixed signs. The lemmas show that addition, subtraction and halving compute on \<open>timeval\<close> and keep
  normal form as long as the seconds stay inside \<open>int32_t\<close>; the interface \<open>time_arith\<close> states this
  once for the servo, with the bound on the seconds made explicit.
\<close>

subsection \<open>Operations\<close>

definition scaledNanosecondsToInternalTime :: "u64 \<Rightarrow> TimeInternal" where
  "scaledNanosecondsToInternalTime scaledNanoseconds =
     (let nanosec = sint scaledNanoseconds;
          sign = (if nanosec < 0 then - 1 else 1);
          nanosec = (if nanosec < 0 then signed_take_bit 63 (- nanosec) else nanosec);
          nanosec = nanosec div 2 ^ 16
      in \<lparr>seconds = s32 (sign * (nanosec sdiv 1000000000)),
          nanoseconds = s32 (sign * (nanosec smod 1000000000))\<rparr>)"

text \<open>The early return of \<open>fromInternalTime\<close> leaves \<open>*external\<close> as it was: it is the first argument.\<close>

definition fromInternalTime :: "Timestamp \<Rightarrow> TimeInternal \<Rightarrow> Timestamp" where
  "fromInternalTime external internal =
     (if seconds internal < 0 \<or> nanoseconds internal < 0 then external
      else external\<lparr>secondsField_lsb := word_of_int (seconds internal),
                    nanosecondsField := word_of_int (nanoseconds internal),
                    secondsField_msb := 0\<rparr>)"

definition toInternalTime :: "TimeInternal \<Rightarrow> Timestamp \<Rightarrow> TimeInternal" where
  "toInternalTime internal external =
     (if uint (secondsField_lsb external) < INT_MAX
      then \<lparr>seconds = uint (secondsField_lsb external),
            nanoseconds = sint (nanosecondsField external)\<rparr>
      else internal)"

definition normalizeTime :: "TimeInternal \<Rightarrow> TimeInternal" where
  "normalizeTime r =
     (let sec = s32 (seconds r + nanoseconds r sdiv 1000000000);
          ns = s32 (nanoseconds r - nanoseconds r sdiv 1000000000 * 1000000000)
      in if sec > 0 \<and> ns < 0 then \<lparr>seconds = s32 (sec - 1), nanoseconds = s32 (ns + 1000000000)\<rparr>
         else if sec < 0 \<and> ns > 0 then \<lparr>seconds = s32 (sec + 1), nanoseconds = s32 (ns - 1000000000)\<rparr>
         else \<lparr>seconds = sec, nanoseconds = ns\<rparr>)"

definition addTime :: "TimeInternal \<Rightarrow> TimeInternal \<Rightarrow> TimeInternal" where
  "addTime x y = normalizeTime \<lparr>seconds = s32 (seconds x + seconds y),
                                nanoseconds = s32 (nanoseconds x + nanoseconds y)\<rparr>"

definition subTime :: "TimeInternal \<Rightarrow> TimeInternal \<Rightarrow> TimeInternal" where
  "subTime x y = normalizeTime \<lparr>seconds = s32 (seconds x - seconds y),
                                nanoseconds = s32 (nanoseconds x - nanoseconds y)\<rparr>"

definition div2Time :: "TimeInternal \<Rightarrow> TimeInternal" where
  "div2Time r =
     (let ns = s32 (nanoseconds r + seconds r smod 2 * 1000000000)
      in normalizeTime \<lparr>seconds = seconds r sdiv 2, nanoseconds = ns sdiv 2\<rparr>)"

text \<open>One line \<open>if (n >= 1 << k) { n >>= k; pos += k; }\<close> of \<open>floorLog2\<close>.\<close>

definition log2_shift :: "nat \<Rightarrow> nat \<times> int \<Rightarrow> nat \<times> int" where
  "log2_shift k np = (if fst np \<ge> 2 ^ k then (fst np div 2 ^ k, snd np + int k) else np)"

definition floorLog2 :: "nat \<Rightarrow> int" where
  "floorLog2 n =
     (if n = 0 then - 1 else
      let np = (n, 0);
          np = log2_shift 16 np;
          np = log2_shift 8 np;
          np = log2_shift 4 np;
          np = log2_shift 2 np
      in if fst np \<ge> 2 ^ 1 then snd np + 1 else snd np)"

subsection \<open>Meaning and normal form\<close>

definition timeval :: "TimeInternal \<Rightarrow> int" where
  "timeval t = seconds t * 1000000000 + nanoseconds t"

definition normal_time :: "TimeInternal \<Rightarrow> bool" where
  "normal_time t \<longleftrightarrow> \<bar>nanoseconds t\<bar> < 1000000000 \<and>
     (seconds t > 0 \<longrightarrow> nanoseconds t \<ge> 0) \<and> (seconds t < 0 \<longrightarrow> nanoseconds t \<le> 0)"

definition bounded_time :: "int \<Rightarrow> TimeInternal \<Rightarrow> bool" where
  "bounded_time b t \<longleftrightarrow> normal_time t \<and> \<bar>seconds t\<bar> \<le> b"

text \<open>Division by a second of a value below two seconds: the only carries that occur.\<close>

lemma sdiv_second:
  fixes n :: int
  assumes "\<bar>n\<bar> < 2000000000"
  shows "n sdiv 1000000000 = (if 1000000000 \<le> n then 1 else if n \<le> - 1000000000 then - 1 else 0)"
proof -
  have q: "\<bar>n\<bar> div 1000000000 = (if 1000000000 \<le> \<bar>n\<bar> then 1 else 0)"
    using assms by (auto simp: div_pos_pos_trivial intro!: div_pos_pos_trivial)
  show ?thesis
    using q by (cases "n \<ge> 0") (auto simp: signed_divide_int_def sgn_if)
qed

lemma normalizeTime_carry:
  assumes s: "\<bar>seconds r\<bar> \<le> 2147483646" and n: "\<bar>nanoseconds r\<bar> < 2000000000"
  shows "timeval (normalizeTime r) = timeval r"
    and "normal_time (normalizeTime r)"
    and "\<bar>seconds (normalizeTime r)\<bar> \<le> \<bar>seconds r\<bar> + 1"
proof -
  define c where "c = nanoseconds r sdiv 1000000000"
  define sec where "sec = seconds r + c"
  define ns where "ns = nanoseconds r - c * 1000000000"
  have c: "\<bar>c\<bar> \<le> 1" "\<bar>ns\<bar> < 1000000000"
    using n by (auto simp: c_def ns_def sdiv_second)
  have sec: "\<bar>sec\<bar> \<le> \<bar>seconds r\<bar> + 1" "s32 sec = sec"
    using s c(1) by (auto simp: sec_def intro!: s32_id)
  have ns: "s32 ns = ns"
    using c(2) by (auto intro!: s32_id)
  have up: "s32 (sec - 1) = sec - 1" "s32 (ns + 1000000000) = ns + 1000000000" if "sec > 0 \<and> ns < 0"
    using that s c sec(1) by (auto intro!: s32_id)
  have dn: "s32 (sec + 1) = sec + 1" "s32 (ns - 1000000000) = ns - 1000000000" if "sec < 0 \<and> ns > 0"
    using that s c sec(1) by (auto intro!: s32_id)
  have eq: "normalizeTime r =
      (if sec > 0 \<and> ns < 0 then \<lparr>seconds = sec - 1, nanoseconds = ns + 1000000000\<rparr>
       else if sec < 0 \<and> ns > 0 then \<lparr>seconds = sec + 1, nanoseconds = ns - 1000000000\<rparr>
       else \<lparr>seconds = sec, nanoseconds = ns\<rparr>)"
    using up dn by (simp only: normalizeTime_def Let_def c_def [symmetric] sec_def [symmetric]
        ns_def [symmetric] sec(2) ns) simp
  have v: "timeval r = sec * 1000000000 + ns"
    by (simp add: timeval_def sec_def ns_def)
  show "timeval (normalizeTime r) = timeval r"
    by (simp add: eq v) (simp add: timeval_def)
  show "normal_time (normalizeTime r)"
    using c(2) by (auto simp: eq normal_time_def)
  show "\<bar>seconds (normalizeTime r)\<bar> \<le> \<bar>seconds r\<bar> + 1"
    using sec(1) by (auto simp: eq)
qed

subsection \<open>The operations on the meaning\<close>

lemma addTime_near:
  assumes "normal_time x" "normal_time y" "\<bar>seconds x + seconds y\<bar> \<le> 2147483646"
  shows "timeval (addTime x y) = timeval x + timeval y" and "normal_time (addTime x y)"
    and "\<bar>seconds (addTime x y)\<bar> \<le> \<bar>seconds x + seconds y\<bar> + 1"
proof -
  let ?r = "\<lparr>seconds = s32 (seconds x + seconds y), nanoseconds = s32 (nanoseconds x + nanoseconds y)\<rparr>"
  have s: "s32 (seconds x + seconds y) = seconds x + seconds y"
    and n: "s32 (nanoseconds x + nanoseconds y) = nanoseconds x + nanoseconds y"
    using assms by (auto simp: normal_time_def intro!: s32_id)
  have r: "\<bar>seconds ?r\<bar> \<le> 2147483646" "\<bar>nanoseconds ?r\<bar> < 2000000000"
    using assms by (auto simp: s n normal_time_def)
  note c = normalizeTime_carry [OF r]
  show "timeval (addTime x y) = timeval x + timeval y"
    using c(1) by (simp add: addTime_def) (simp add: timeval_def s n algebra_simps)
  show "normal_time (addTime x y)" "\<bar>seconds (addTime x y)\<bar> \<le> \<bar>seconds x + seconds y\<bar> + 1"
    using c(2,3) by (simp_all add: addTime_def s)
qed

lemma addTime_bounded:
  assumes "bounded_time a x" "bounded_time b y" "a + b \<le> 2147483646"
  shows "timeval (addTime x y) = timeval x + timeval y" and "bounded_time (a + b + 1) (addTime x y)"
proof -
  have d: "\<bar>seconds x + seconds y\<bar> \<le> a + b" using assms by (auto simp: bounded_time_def)
  then have "\<bar>seconds x + seconds y\<bar> \<le> 2147483646" using assms(3) by linarith
  with addTime_near [of x y] assms d
  show "timeval (addTime x y) = timeval x + timeval y" "bounded_time (a + b + 1) (addTime x y)"
    by (simp_all add: bounded_time_def)
qed

lemma subTime_near:
  assumes "normal_time x" "normal_time y" "\<bar>seconds x - seconds y\<bar> \<le> 2147483646"
  shows "timeval (subTime x y) = timeval x - timeval y" and "normal_time (subTime x y)"
    and "\<bar>seconds (subTime x y)\<bar> \<le> \<bar>seconds x - seconds y\<bar> + 1"
proof -
  let ?r = "\<lparr>seconds = s32 (seconds x - seconds y), nanoseconds = s32 (nanoseconds x - nanoseconds y)\<rparr>"
  have s: "s32 (seconds x - seconds y) = seconds x - seconds y"
    and n: "s32 (nanoseconds x - nanoseconds y) = nanoseconds x - nanoseconds y"
    using assms by (auto simp: normal_time_def intro!: s32_id)
  have r: "\<bar>seconds ?r\<bar> \<le> 2147483646" "\<bar>nanoseconds ?r\<bar> < 2000000000"
    using assms by (auto simp: s n normal_time_def)
  note c = normalizeTime_carry [OF r]
  show "timeval (subTime x y) = timeval x - timeval y"
    using c(1) by (simp add: subTime_def) (simp add: timeval_def s n algebra_simps)
  show "normal_time (subTime x y)" "\<bar>seconds (subTime x y)\<bar> \<le> \<bar>seconds x - seconds y\<bar> + 1"
    using c(2,3) by (simp_all add: subTime_def s)
qed

lemma subTime_bounded:
  assumes "bounded_time a x" "bounded_time b y" "a + b \<le> 2147483646"
  shows "timeval (subTime x y) = timeval x - timeval y" and "bounded_time (a + b + 1) (subTime x y)"
proof -
  have d: "\<bar>seconds x - seconds y\<bar> \<le> a + b" using assms by (auto simp: bounded_time_def)
  then have "\<bar>seconds x - seconds y\<bar> \<le> 2147483646" using assms(3) by linarith
  with subTime_near [of x y] assms d
  show "timeval (subTime x y) = timeval x - timeval y" "bounded_time (a + b + 1) (subTime x y)"
    by (simp_all add: bounded_time_def)
qed

text \<open>Halving: the odd second is moved into the nanoseconds before both are divided.\<close>

lemma sdiv_smod_2:
  fixes s :: int
  shows "s = 2 * (s sdiv 2) + s smod 2" and "\<bar>s smod 2\<bar> \<le> 1"
    and "0 \<le> s \<Longrightarrow> 0 \<le> s smod 2 \<and> 0 \<le> s sdiv 2" and "s \<le> 0 \<Longrightarrow> s smod 2 \<le> 0 \<and> s sdiv 2 \<le> 0"
proof -
  show "s = 2 * (s sdiv 2) + s smod 2"
    using mult_sdiv_smod_eq [of 2 s] by simp
  show "\<bar>s smod 2\<bar> \<le> 1"
    by (auto simp: signed_modulo_int_def abs_mult sgn_if)
  show "0 \<le> s \<Longrightarrow> 0 \<le> s smod 2 \<and> 0 \<le> s sdiv 2"
    by (auto simp: signed_modulo_int_def signed_divide_int_def sgn_if)
  show "s \<le> 0 \<Longrightarrow> s smod 2 \<le> 0 \<and> s sdiv 2 \<le> 0"
    by (auto simp: signed_modulo_int_def signed_divide_int_def sgn_if pos_imp_zdiv_nonneg_iff)
qed

lemma sdiv2_add_even:
  fixes a b :: int
  assumes "0 \<le> a \<and> 0 \<le> b \<or> a \<le> 0 \<and> b \<le> 0"
  shows "(2 * a + b) sdiv 2 = a + b sdiv 2"
  using assms by (auto simp: signed_divide_int_def sgn_if abs_if split: if_splits)

lemma div2Time_bounded:
  assumes x: "bounded_time a x" and a: "a \<le> 2147483646"
  shows "timeval (div2Time x) = timeval x sdiv 2" and "bounded_time (a + 1) (div2Time x)"
proof -
  let ?q = "seconds x sdiv 2" and ?o = "seconds x smod 2"
  let ?n = "nanoseconds x + ?o * 1000000000"
  note sm = sdiv_smod_2 [of "seconds x"]
  have same: "0 \<le> ?q \<and> 0 \<le> ?n \<or> ?q \<le> 0 \<and> ?n \<le> 0"
    using x sm by (cases "seconds x = 0"; cases "0 \<le> seconds x")
      (auto simp: bounded_time_def normal_time_def)
  have nb: "\<bar>?n\<bar> < 2000000000"
    using x sm(2) by (auto simp: bounded_time_def normal_time_def)
  have n: "s32 ?n = ?n"
    using nb by (intro s32_id) auto
  let ?r = "\<lparr>seconds = ?q, nanoseconds = ?n sdiv 2\<rparr>"
  have q: "\<bar>?q\<bar> \<le> a" "\<bar>?q\<bar> \<le> 2147483646"
    using x a sm by (auto simp: bounded_time_def)
  have nr: "\<bar>?n sdiv 2\<bar> < 2000000000"
    using nb sdiv_smod_2 [of ?n] by auto
  note c = normalizeTime_carry [of ?r]
  have eq: "div2Time x = normalizeTime ?r"
    by (simp add: div2Time_def Let_def n)
  have "timeval x = 2 * (?q * 1000000000) + ?n"
    using sm(1) by (simp add: timeval_def algebra_simps)
  moreover have "(2 * (?q * 1000000000) + ?n) sdiv 2 = ?q * 1000000000 + ?n sdiv 2"
    using same by (intro sdiv2_add_even) auto
  ultimately show "timeval (div2Time x) = timeval x sdiv 2"
    using c(1) q(2) nr by (simp add: eq) (simp add: timeval_def)
  show "bounded_time (a + 1) (div2Time x)"
    using c(2,3) q nr by (simp add: eq bounded_time_def)
qed

subsection \<open>The interface the servo relies on\<close>

text \<open>
  Times with a meaning in nanoseconds and a bound on their seconds. The client lemmas are the two
  estimates of IEEE 1588: the offset from the master and the mean path delay.
\<close>

locale time_arith =
  fixes val :: "'t \<Rightarrow> int" and bnd :: "int \<Rightarrow> 't \<Rightarrow> bool"
    and add :: "'t \<Rightarrow> 't \<Rightarrow> 't" and sub :: "'t \<Rightarrow> 't \<Rightarrow> 't" and half :: "'t \<Rightarrow> 't"
    and lim :: int
  assumes val_add: "bnd a x \<Longrightarrow> bnd b y \<Longrightarrow> a + b \<le> lim \<Longrightarrow> val (add x y) = val x + val y"
    and bnd_add: "bnd a x \<Longrightarrow> bnd b y \<Longrightarrow> a + b \<le> lim \<Longrightarrow> bnd (a + b + 1) (add x y)"
    and val_sub: "bnd a x \<Longrightarrow> bnd b y \<Longrightarrow> a + b \<le> lim \<Longrightarrow> val (sub x y) = val x - val y"
    and bnd_sub: "bnd a x \<Longrightarrow> bnd b y \<Longrightarrow> a + b \<le> lim \<Longrightarrow> bnd (a + b + 1) (sub x y)"
    and val_half: "bnd a x \<Longrightarrow> a \<le> lim \<Longrightarrow> val (half x) = val x sdiv 2"
    and bnd_half: "bnd a x \<Longrightarrow> a \<le> lim \<Longrightarrow> bnd (a + 1) (half x)"
begin

lemma sub_sub:
  assumes "bnd a x" "bnd b y" "bnd c z" "a + b + c + 1 \<le> lim" "0 \<le> c"
  shows "val (sub (sub x y) z) = val x - val y - val z" and "bnd (a + b + c + 2) (sub (sub x y) z)"
proof -
  have xy: "bnd (a + b + 1) (sub x y)" "val (sub x y) = val x - val y"
    using assms by (auto intro: bnd_sub val_sub)
  have "val (sub (sub x y) z) = val (sub x y) - val z"
    by (rule val_sub [OF xy(1) assms(3)]) (use assms in linarith)
  then show "val (sub (sub x y) z) = val x - val y - val z" using xy(2) by simp
  have "bnd (a + b + 1 + c + 1) (sub (sub x y) z)"
    by (rule bnd_sub [OF xy(1) assms(3)]) (use assms in linarith)
  then show "bnd (a + b + c + 2) (sub (sub x y) z)" by (simp add: algebra_simps)
qed

lemma half_add:
  assumes "bnd a x" "bnd b y" "a + b + 1 \<le> lim"
  shows "val (half (add x y)) = (val x + val y) sdiv 2" and "bnd (a + b + 2) (half (add x y))"
proof -
  have xy: "bnd (a + b + 1) (add x y)" "val (add x y) = val x + val y"
    using assms by (auto intro: bnd_add val_add)
  then show "val (half (add x y)) = (val x + val y) sdiv 2"
    using val_half [OF xy(1)] assms(3) by simp
  show "bnd (a + b + 2) (half (add x y))"
    using bnd_half [OF xy(1)] assms(3) by (simp add: algebra_simps)
qed

end

interpretation ptp_time: time_arith timeval bounded_time addTime subTime div2Time 2147483646
  by unfold_locales (fact addTime_bounded subTime_bounded div2Time_bounded)+

subsection \<open>Logarithm and conversions\<close>

lemma floorLog2_0: "floorLog2 0 = - 1"
  by (simp add: floorLog2_def)

lemma log2_step:
  fixes n k :: nat and p :: int
  assumes "0 \<le> p" and "2 ^ nat p * n \<le> m" and "m < 2 ^ nat p * (n + 1)" and "2 ^ k \<le> n"
  shows "2 ^ nat (p + int k) * (n div 2 ^ k) \<le> m" and "m < 2 ^ nat (p + int k) * (n div 2 ^ k + 1)"
proof -
  have e: "2 ^ nat (p + int k) = 2 ^ nat p * (2 ^ k :: nat)"
    using assms(1) by (simp add: nat_add_distrib power_add)
  have "2 ^ k * (n div 2 ^ k) \<le> n" by simp
  then have "2 ^ nat p * (2 ^ k * (n div 2 ^ k)) \<le> 2 ^ nat p * n" by (rule mult_le_mono2)
  from this assms(2) have "2 ^ nat p * (2 ^ k * (n div 2 ^ k)) \<le> m" by (rule order_trans)
  then show "2 ^ nat (p + int k) * (n div 2 ^ k) \<le> m" by (simp only: e mult.assoc)
  have "n < 2 ^ k * (n div 2 ^ k + 1)"
    using dividend_less_times_div [of "2 ^ k" n] by simp
  then have "n + 1 \<le> 2 ^ k * (n div 2 ^ k + 1)" by simp
  then have "2 ^ nat p * (n + 1) \<le> 2 ^ nat p * (2 ^ k * (n div 2 ^ k + 1))" by (rule mult_le_mono2)
  with assms(3) have "m < 2 ^ nat p * (2 ^ k * (n div 2 ^ k + 1))" by (rule less_le_trans)
  then show "m < 2 ^ nat (p + int k) * (n div 2 ^ k + 1)" by (simp only: e mult.assoc)
qed

text \<open>
  One halving step of \<open>floorLog2\<close> on a pair of a remaining value and a position: what is kept is that
  the value is the input shifted by the position, and below the next power.
\<close>

definition log2_inv :: "nat \<Rightarrow> nat \<Rightarrow> nat \<times> int \<Rightarrow> bool" where
  "log2_inv m k np \<longleftrightarrow> (case np of (n, p) \<Rightarrow> 0 \<le> p \<and> 0 < n \<and> n < 2 ^ (2 * k) \<and>
     2 ^ nat p * n \<le> m \<and> m < 2 ^ nat p * (n + 1))"

lemma log2_inv_step:
  assumes i: "log2_inv m k np" and k: "k = 2 * k'"
  shows "log2_inv m k' (log2_shift k np)"
proof (cases "fst np \<ge> 2 ^ k")
  case True
  obtain n p where np: "np = (n, p)" by (cases np)
  have lt: "n div 2 ^ k < 2 ^ k"
    using i by (auto simp: np log2_inv_def less_mult_imp_div_less mult_2 power_add)
  moreover have "0 < n div 2 ^ k" using True by (simp add: np div_greater_zero_iff)
  ultimately show ?thesis
    using True i log2_step [of p n m k] k by (auto simp: np log2_inv_def log2_shift_def)
next
  case False
  with i k show ?thesis by (auto simp: log2_inv_def log2_shift_def)
qed

lemma floorLog2_bounds:
  assumes "0 < n" "n < 2 ^ 32"
  shows "0 \<le> floorLog2 n" and "2 ^ nat (floorLog2 n) \<le> n" and "n < 2 ^ (nat (floorLog2 n) + 1)"
proof -
  define np where "np = log2_shift 2 (log2_shift 4 (log2_shift 8 (log2_shift 16 (n, 0))))"
  have "log2_inv n 16 (n, 0)" using assms by (simp add: log2_inv_def)
  then have i: "log2_inv n 1 np" unfolding np_def
    by (intro log2_inv_step [where k = 2] log2_inv_step [where k = 4] log2_inv_step [where k = 8]
        log2_inv_step [where k = 16]) simp_all
  have e: "floorLog2 n = (if fst np \<ge> 2 then snd np + 1 else snd np)"
    using assms(1) by (simp add: floorLog2_def np_def Let_def)
  show "0 \<le> floorLog2 n"
    using i by (auto simp: e log2_inv_def case_prod_beta)
  have "fst np = 1 \<or> fst np = 2 \<or> fst np = 3"
    using i by (auto simp: log2_inv_def case_prod_beta)
  then show "2 ^ nat (floorLog2 n) \<le> n" and "n < 2 ^ (nat (floorLog2 n) + 1)"
    using i by (auto simp: e log2_inv_def case_prod_beta nat_add_distrib)
qed

text \<open>
  The correction field of a message is nanoseconds scaled by \<open>2 ^ 16\<close>; what is left is the
  magnitude without its fraction, with the sign of the field.
\<close>

lemma scaledNanoseconds_value:
  assumes "sint sn \<noteq> - (2 ^ 63)"
  shows "timeval (scaledNanosecondsToInternalTime sn) = sgn (sint sn) * (\<bar>sint sn\<bar> div 2 ^ 16)"
    and "bounded_time 140738 (scaledNanosecondsToInternalTime sn)"
proof -
  let ?m = "\<bar>sint sn\<bar>" and ?q = "\<bar>sint sn\<bar> div 2 ^ 16"
  have m: "?m < 2 ^ 63"
    using sint_ge [of sn] sint_lt [of sn] assms by (auto simp: abs_if)
  have w: "(if sint sn < 0 then signed_take_bit 63 (- sint sn) else sint sn) = ?m"
    using m by (auto simp: abs_if intro!: signed_take_bit_int_eq_self)
  have q: "0 \<le> ?q" "?q < 2 ^ 47"
    using m by (auto intro!: div_less_iff_less_mult [THEN iffD2])
  define Q where "Q = ?q div 1000000000"
  define R where "R = ?q mod 1000000000"
  have Q: "0 \<le> Q" "Q \<le> 140738" using q by (auto simp: Q_def)
  have R: "0 \<le> R" "R < 1000000000" by (simp_all add: R_def)
  have QR: "Q * 1000000000 + R = ?q" by (simp add: Q_def R_def)
  have sd: "?q sdiv 1000000000 = Q" "?q smod 1000000000 = R"
    using q(1) by (cases "?q = 0"; simp add: Q_def R_def signed_divide_int_def signed_modulo_int_def sgn_if)+
  let ?s = "if sint sn < 0 then - 1 else 1 :: int"
  have fit: "s32 (?s * Q) = ?s * Q" "s32 (?s * R) = ?s * R"
    using Q R by (auto intro!: s32_id)
  have e: "scaledNanosecondsToInternalTime sn = \<lparr>seconds = ?s * Q, nanoseconds = ?s * R\<rparr>"
    by (simp only: scaledNanosecondsToInternalTime_def Let_def w sd fit)
  show "timeval (scaledNanosecondsToInternalTime sn) = sgn (sint sn) * (?m div 2 ^ 16)"
    unfolding QR [symmetric] by (cases "sint sn = 0") (use QR Q R in \<open>auto simp: e timeval_def sgn_if\<close>)
  show "bounded_time 140738 (scaledNanosecondsToInternalTime sn)"
    using Q R by (auto simp: e bounded_time_def normal_time_def)
qed

lemma to_from_InternalTime:
  assumes "0 \<le> seconds t" "seconds t < INT_MAX" "0 \<le> nanoseconds t" "nanoseconds t \<le> INT_MAX"
  shows "toInternalTime old (fromInternalTime ts t) = t"
  using assms
  by (simp add: toInternalTime_def fromInternalTime_def uint_word_of_int take_bit_int_eq_self
      sint_sbintrunc' signed_take_bit_int_eq_self)

subsection \<open>Properties\<close>

text \<open>
  adding and subtracting two normalised times whose seconds cannot leave \<open>int32_t\<close> gives a
  normalised time whose number of nanoseconds is the sum, respectively the difference: the carry
  of \<open>normalizeTime\<close> never loses or invents a nanosecond, also for times of opposite sign.
\<close>

theorem addTime_subTime_exact:
  assumes "normal_time x" "normal_time y"
  shows "(\<bar>seconds x + seconds y\<bar> \<le> 2147483646 \<longrightarrow>
           timeval (addTime x y) = timeval x + timeval y \<and> normal_time (addTime x y)) \<and>
         (\<bar>seconds x - seconds y\<bar> \<le> 2147483646 \<longrightarrow>
           timeval (subTime x y) = timeval x - timeval y \<and> normal_time (subTime x y))"
  using addTime_near [OF assms] subTime_near [OF assms] by blast

theorem addTime_subTime_exact_witness:
  "timeval (addTime \<lparr>seconds = 1, nanoseconds = 999999999\<rparr> \<lparr>seconds = - 3, nanoseconds = - 1\<rparr>) = - 1000000002 \<and>
   timeval (subTime \<lparr>seconds = 1, nanoseconds = 999999999\<rparr> \<lparr>seconds = - 3, nanoseconds = - 1\<rparr>) = 5000000000"
  using addTime_subTime_exact [of "\<lparr>seconds = 1, nanoseconds = 999999999\<rparr>" "\<lparr>seconds = - 3, nanoseconds = - 1\<rparr>"]
  by (simp add: normal_time_def timeval_def)

text \<open>
  halving a normalised time halves its number of nanoseconds, rounding towards zero, and the
  result is normalised again.
\<close>

theorem div2Time_exact:
  assumes "normal_time x" "\<bar>seconds x\<bar> \<le> 2147483646"
  shows "timeval (div2Time x) = timeval x sdiv 2 \<and> normal_time (div2Time x)"
  using div2Time_bounded [of 2147483646 x] assms by (simp add: bounded_time_def)

theorem div2Time_exact_witness:
  "timeval (div2Time \<lparr>seconds = - 3, nanoseconds = - 5\<rparr>) = - 1500000002"
  using div2Time_exact [of "\<lparr>seconds = - 3, nanoseconds = - 5\<rparr>"]
  by (simp add: normal_time_def timeval_def signed_divide_int_def)

text \<open>
  \<open>floorLog2\<close> is the floor of the binary logarithm on every non-zero 32 bit number.
\<close>

theorem floorLog2_floor_log:
  assumes "0 < n" "n < 2 ^ 32"
  shows "0 \<le> floorLog2 n \<and> 2 ^ nat (floorLog2 n) \<le> n \<and> n < 2 ^ (nat (floorLog2 n) + 1)"
  using floorLog2_bounds [OF assms] by blast

theorem floorLog2_floor_log_witness:
  "0 \<le> floorLog2 (nat 4294967295) \<and> 2 ^ nat (floorLog2 (nat 4294967295)) \<le> nat 4294967295"
  using floorLog2_floor_log [of "nat 4294967295"] by simp

end
