(* ===== verification/PtpNet.thy ===== *)
theory PtpNet
  imports PtpArith "HOL-Library.Multiset"
begin

text \<open>
  The network layer of the PTP daemon, \<^verbatim>\<open>src/supports/lwip/lwip/src/exts/ptp/dep/ptpNet.c\<close>: the ring
  of received packet buffers, reception, transmission, and opening and closing of the sockets. What
  lwIP and the MAC driver answer (allocation, send result and time stamp, interface, control blocks)
  is an argument of the definitions. The ring is shown to be a bounded first-in first-out queue of
  three buffers; reception to copy a buffer chain into the message buffer.
\<close>

subsection \<open>The buffer ring\<close>

text \<open>\<open>x & PBUF_QUEUE_MASK\<close> is the remainder modulo the size, a power of two.\<close>

definition ring_next :: "nat \<Rightarrow> nat" where
  "ring_next k = (k + 1) mod PTP_PBUF_QUEUE_SIZE"

definition netQInit :: "BufQueue \<Rightarrow> BufQueue" where
  "netQInit q = q\<lparr>q_head := 0, q_tail := 0\<rparr>"

definition netQPut :: "BufQueue \<Rightarrow> pbuf \<Rightarrow> bool \<times> BufQueue" where
  "netQPut q p =
     (if ring_next (q_head q) \<noteq> q_tail q
      then (True, q\<lparr>q_head := ring_next (q_head q), q_pbuf := (q_pbuf q)[ring_next (q_head q) := p]\<rparr>)
      else (False, q))"

definition netQGet :: "BufQueue \<Rightarrow> pbuf option \<times> BufQueue" where
  "netQGet q =
     (if q_tail q \<noteq> q_head q
      then (Some (q_pbuf q ! ring_next (q_tail q)), q\<lparr>q_tail := ring_next (q_tail q)\<rparr>)
      else (None, q))"

text \<open>
  The loop of \<open>_netQEmpty\<close> runs at most once per cell; the fuel is the number of cells, and
  \<open>netQEmpty_spec\<close> shows that it is enough for every valid ring.
\<close>

fun netQEmpty_loop :: "nat \<Rightarrow> BufQueue \<Rightarrow> pbuf list \<Rightarrow> BufQueue \<times> pbuf list" where
  "netQEmpty_loop 0 q freed = (q, freed)"
| "netQEmpty_loop (Suc fuel) q freed =
     (if q_tail q \<noteq> q_head q
      then netQEmpty_loop fuel (q\<lparr>q_tail := ring_next (q_tail q)\<rparr>) (freed @ [q_pbuf q ! ring_next (q_tail q)])
      else (q, freed))"

definition netQEmpty :: "BufQueue \<Rightarrow> pbuf list \<Rightarrow> BufQueue \<times> pbuf list" where
  "netQEmpty q freed = netQEmpty_loop PTP_PBUF_QUEUE_SIZE q freed"

definition netQCheck :: "BufQueue \<Rightarrow> bool" where
  "netQCheck q \<longleftrightarrow> q_tail q \<noteq> q_head q"

subsection \<open>Bounded queues\<close>

text \<open>
  The interface of a bounded queue and its law for clients: over any sequence of insertions and
  removals nothing is lost, duplicated or reordered.
\<close>

datatype 'a fifo_op = Put 'a | Get

fun fifo_run :: "('q \<Rightarrow> 'a \<Rightarrow> bool \<times> 'q) \<Rightarrow> ('q \<Rightarrow> 'a option \<times> 'q) \<Rightarrow> 'q \<Rightarrow> 'a fifo_op list \<Rightarrow>
    'a list \<times> 'a list \<times> 'q" where
  "fifo_run put get q [] = ([], [], q)"
| "fifo_run put get q (Put x # ops) =
     (let (ok, q1) = put q x; (ins, outs, q2) = fifo_run put get q1 ops
      in (if ok then x # ins else ins, outs, q2))"
| "fifo_run put get q (Get # ops) =
     (let (r, q1) = get q; (ins, outs, q2) = fifo_run put get q1 ops
      in (ins, (case r of None \<Rightarrow> outs | Some x \<Rightarrow> x # outs), q2))"

locale bounded_fifo =
  fixes content :: "'q \<Rightarrow> 'a list" and inv :: "'q \<Rightarrow> bool" and cap :: nat
    and put :: "'q \<Rightarrow> 'a \<Rightarrow> bool \<times> 'q" and get :: "'q \<Rightarrow> 'a option \<times> 'q"
  assumes put_room: "inv q \<Longrightarrow> length (content q) < cap \<Longrightarrow>
      fst (put q x) \<and> content (snd (put q x)) = content q @ [x]"
    and put_full: "inv q \<Longrightarrow> length (content q) = cap \<Longrightarrow> put q x = (False, q)"
    and get_nil: "inv q \<Longrightarrow> content q = [] \<Longrightarrow> get q = (None, q)"
    and get_cons: "inv q \<Longrightarrow> content q = y # ys \<Longrightarrow> fst (get q) = Some y \<and> content (snd (get q)) = ys"
    and inv_put: "inv q \<Longrightarrow> inv (snd (put q x))"
    and inv_get: "inv q \<Longrightarrow> inv (snd (get q))"
    and within: "inv q \<Longrightarrow> length (content q) \<le> cap"
begin

lemma put_cases:
  assumes "inv q"
  shows "fst (put q x) \<longleftrightarrow> length (content q) < cap"
    and "content (snd (put q x)) = (if length (content q) < cap then content q @ [x] else content q)"
  using put_room [OF assms] put_full [OF assms] within [OF assms] by (auto simp: le_less)

lemma run_fifo:
  "inv q \<Longrightarrow> fifo_run put get q ops = (ins, outs, q') \<Longrightarrow>
   inv q' \<and> content q @ ins = outs @ content q'"
proof (induction ops arbitrary: q ins outs)
  case Nil
  then show ?case by simp
next
  case (Cons op ops)
  show ?case
  proof (cases op)
    case (Put x)
    with Cons.prems obtain ins' where r: "fifo_run put get (snd (put q x)) ops = (ins', outs, q')"
      and i: "ins = (if fst (put q x) then x # ins' else ins')"
      by (auto simp: Let_def case_prod_beta prod_eq_iff)
    from Cons.IH [OF inv_put [OF Cons.prems(1)] r] show ?thesis
      using i by (auto simp: put_cases [OF Cons.prems(1)] split: if_splits)
  next
    case Get
    with Cons.prems obtain outs' where r: "fifo_run put get (snd (get q)) ops = (ins, outs', q')"
      and o: "outs = (case fst (get q) of None \<Rightarrow> outs' | Some x \<Rightarrow> x # outs')"
      by (auto simp: Let_def case_prod_beta prod_eq_iff)
    from Cons.IH [OF inv_get [OF Cons.prems(1)] r] show ?thesis
      using o get_nil [OF Cons.prems(1)] get_cons [OF Cons.prems(1)] by (cases "content q") auto
  qed
qed

end

subsection \<open>The ring is a bounded queue\<close>

definition ring_valid :: "BufQueue \<Rightarrow> bool" where
  "ring_valid q \<longleftrightarrow> q_head q < PTP_PBUF_QUEUE_SIZE \<and> q_tail q < PTP_PBUF_QUEUE_SIZE \<and>
     length (q_pbuf q) = PTP_PBUF_QUEUE_SIZE"

definition ring_count :: "BufQueue \<Rightarrow> nat" where
  "ring_count q = (q_head q + PTP_PBUF_QUEUE_SIZE - q_tail q) mod PTP_PBUF_QUEUE_SIZE"

definition ring_content :: "BufQueue \<Rightarrow> pbuf list" where
  "ring_content q = map (\<lambda>k. q_pbuf q ! ((q_tail q + k) mod PTP_PBUF_QUEUE_SIZE)) [1..<Suc (ring_count q)]"

lemma less_4_cases: "(k::nat) < 4 \<Longrightarrow> k = 0 \<or> k = 1 \<or> k = 2 \<or> k = 3"
  by auto

lemma ring_arith:
  fixes h t :: nat
  assumes "h < 4" "t < 4"
  shows ring_arith_nil: "(h + 4 - t) mod 4 = 0 \<longleftrightarrow> t = h"
    and ring_arith_get: "t \<noteq> h \<Longrightarrow> (h + 4 - t) mod 4 = Suc ((h + 4 - (t + 1) mod 4) mod 4)"
    and ring_arith_put: "(h + 1) mod 4 \<noteq> t \<Longrightarrow> ((h + 1) mod 4 + 4 - t) mod 4 = Suc ((h + 4 - t) mod 4)"
    and ring_arith_full: "(h + 1) mod 4 = t \<longleftrightarrow> (h + 4 - t) mod 4 = 3"
    and ring_arith_last: "(t + Suc ((h + 4 - t) mod 4)) mod 4 = (h + 1) mod 4"
    and ring_arith_old: "1 \<le> k \<Longrightarrow> k \<le> (h + 4 - t) mod 4 \<Longrightarrow> (h + 1) mod 4 \<noteq> t \<Longrightarrow> (t + k) mod 4 \<noteq> (h + 1) mod 4"
proof -
  note c = less_4_cases [OF assms(1)] less_4_cases [OF assms(2)]
  show "(h + 4 - t) mod 4 = 0 \<longleftrightarrow> t = h" using c by (elim disjE) simp_all
  show "t \<noteq> h \<Longrightarrow> (h + 4 - t) mod 4 = Suc ((h + 4 - (t + 1) mod 4) mod 4)" using c by (elim disjE) simp_all
  show "(h + 1) mod 4 \<noteq> t \<Longrightarrow> ((h + 1) mod 4 + 4 - t) mod 4 = Suc ((h + 4 - t) mod 4)" using c by (elim disjE) simp_all
  show "(h + 1) mod 4 = t \<longleftrightarrow> (h + 4 - t) mod 4 = 3" using c by (elim disjE) simp_all
  show "(t + Suc ((h + 4 - t) mod 4)) mod 4 = (h + 1) mod 4" using c by (elim disjE) simp_all
  show "(t + k) mod 4 \<noteq> (h + 1) mod 4"
    if "1 \<le> k" "k \<le> (h + 4 - t) mod 4" "(h + 1) mod 4 \<noteq> t"
  proof -
    have "(h + 4 - t) mod 4 < 4" by simp
    with that(2) have "k < 4" by linarith
    from less_4_cases [OF this] c that show ?thesis by (elim disjE) simp_all
  qed
qed

lemma ring_content_Nil: "ring_valid q \<Longrightarrow> ring_content q = [] \<longleftrightarrow> q_tail q = q_head q"
  using ring_arith_nil [of "q_head q" "q_tail q"]
  by (simp add: ring_content_def ring_valid_def ring_count_def del: upt_Suc)

lemma ring_content_Cons:
  assumes "ring_valid q" "q_tail q \<noteq> q_head q"
  shows "ring_content q = q_pbuf q ! ring_next (q_tail q) # ring_content (q\<lparr>q_tail := ring_next (q_tail q)\<rparr>)"
proof -
  let ?q = "q\<lparr>q_tail := ring_next (q_tail q)\<rparr>"
  have c: "ring_count q = Suc (ring_count ?q)"
    using assms ring_arith_get [of "q_head q" "q_tail q"] by (simp add: ring_valid_def ring_count_def ring_next_def)
  have "ring_content q = map (\<lambda>k. q_pbuf q ! ((q_tail q + k) mod 4)) (1 # [Suc 1..<Suc (Suc (ring_count ?q))])"
    by (simp add: ring_content_def c upt_conv_Cons del: upt_Suc)
  also have "[Suc 1..<Suc (Suc (ring_count ?q))] = map Suc [1..<Suc (ring_count ?q)]"
    by (simp only: map_Suc_upt)
  finally show ?thesis
    by (simp add: ring_content_def ring_next_def mod_add_left_eq o_def del: upt_Suc)
qed

lemma ring_content_put:
  assumes "ring_valid q" "ring_next (q_head q) \<noteq> q_tail q"
  shows "ring_content (q\<lparr>q_head := ring_next (q_head q), q_pbuf := (q_pbuf q)[ring_next (q_head q) := p]\<rparr>)
       = ring_content q @ [p]"
proof -
  let ?q = "q\<lparr>q_head := ring_next (q_head q), q_pbuf := (q_pbuf q)[ring_next (q_head q) := p]\<rparr>"
  have b: "q_head q < 4" "q_tail q < 4" "(q_head q + 1) mod 4 \<noteq> q_tail q"
    using assms by (simp_all add: ring_valid_def ring_next_def)
  have c: "ring_count ?q = Suc (ring_count q)"
    using ring_arith_put [OF b] by (simp add: ring_count_def ring_next_def)
  have last: "(q_tail q + Suc (ring_count q)) mod 4 = ring_next (q_head q)"
    using ring_arith_last [OF b(1,2)] by (simp only: ring_count_def ring_next_def)
  have old: "(q_tail q + k) mod 4 \<noteq> ring_next (q_head q)" if "k \<in> set [1..<Suc (ring_count q)]" for k
  proof -
    have "1 \<le> k" "k \<le> (q_head q + 4 - q_tail q) mod 4" using that by (auto simp: ring_count_def)
    from ring_arith_old [OF b(1,2) this b(3)] show ?thesis by (simp add: ring_next_def)
  qed
  have nb: "ring_next (q_head q) < length (q_pbuf q)"
    using assms by (simp add: ring_valid_def ring_next_def)
  have old': "map (\<lambda>k. (q_pbuf q)[ring_next (q_head q) := p] ! ((q_tail q + k) mod 4)) [1..<Suc (ring_count q)]
      = ring_content q"
    unfolding ring_content_def by (rule map_cong [OF refl]) (metis old nth_list_update_neq)
  have "ring_content ?q = map (\<lambda>k. (q_pbuf q)[ring_next (q_head q) := p] ! ((q_tail q + k) mod 4))
      ([1..<Suc (ring_count q)] @ [Suc (ring_count q)])"
    by (simp add: ring_content_def c)
  also have "\<dots> = ring_content q @ [p]"
    using last nb by (simp only: map_append old' list.map) simp
  finally show ?thesis .
qed

lemma ring_len: "length (ring_content q) = ring_count q"
  by (simp add: ring_content_def)

lemma ring_full: "ring_valid q \<Longrightarrow> ring_next (q_head q) = q_tail q \<longleftrightarrow> ring_count q = 3"
  using ring_arith_full [of "q_head q" "q_tail q"] by (simp add: ring_valid_def ring_count_def ring_next_def)

interpretation ring: bounded_fifo ring_content ring_valid 3 netQPut netQGet
proof (unfold_locales, goal_cases)
  case (1 q x)
  then show ?case
    using ring_content_put [of q x] ring_full [of q] by (auto simp: netQPut_def ring_len)
next
  case (2 q x)
  then show ?case using ring_full [of q] by (simp add: netQPut_def ring_len)
next
  case (3 q)
  then show ?case by (simp add: netQGet_def ring_content_Nil)
next
  case (4 q y ys)
  then have "q_tail q \<noteq> q_head q" using ring_content_Nil [of q] by auto
  with 4 show ?case using ring_content_Cons [of q] by (simp add: netQGet_def)
next
  case (5 q x)
  then show ?case by (auto simp: netQPut_def ring_valid_def ring_next_def)
next
  case (6 q)
  then show ?case by (auto simp: netQGet_def ring_valid_def ring_next_def)
next
  case (7 q)
  then show ?case by (auto simp: ring_len ring_count_def)
qed

lemma netQEmpty_loop_spec:
  "ring_valid q \<Longrightarrow> ring_count q \<le> fuel \<Longrightarrow>
   netQEmpty_loop fuel q freed = (q\<lparr>q_tail := q_head q\<rparr>, freed @ ring_content q)"
proof (induction fuel arbitrary: q freed)
  case 0
  then have "ring_content q = []" using ring_len [of q] by simp
  with 0 show ?case by (simp add: ring_content_Nil)
next
  case (Suc fuel)
  show ?case
  proof (cases "q_tail q = q_head q")
    case True
    with Suc.prems show ?thesis by (simp add: ring_content_Nil [THEN iffD2])
  next
    case False
    note c = ring_content_Cons [OF Suc.prems(1) False]
    let ?q = "q\<lparr>q_tail := ring_next (q_tail q)\<rparr>"
    have "ring_valid ?q" using Suc.prems(1) by (simp add: ring_valid_def ring_next_def)
    moreover have "ring_count ?q \<le> fuel"
      using Suc.prems(2) ring_len [of q] ring_len [of ?q] c by simp
    ultimately show ?thesis using False c by (simp add: Suc.IH)
  qed
qed

lemma netQEmpty_spec:
  "ring_valid q \<Longrightarrow> netQEmpty q freed = (q\<lparr>q_tail := q_head q\<rparr>, freed @ ring_content q)"
  unfolding netQEmpty_def by (rule netQEmpty_loop_spec) (simp_all add: ring_count_def less_imp_le)

lemma netQInit_valid: "length (q_pbuf q) = PTP_PBUF_QUEUE_SIZE \<Longrightarrow> ring_valid (netQInit q) \<and> ring_content (netQInit q) = []"
  by (simp add: netQInit_def ring_valid_def ring_content_def ring_count_def)


subsection \<open>Reception\<close>

text \<open>
  The copy loop of \<open>_netRecv\<close>: \<open>n\<close> bytes are left, \<open>i\<close> is the position in the message buffer, \<open>j\<close> the
  position in the payload of the current buffer. The result is \<open>None\<close> when the loop reads outside
  a payload, which a chain with an empty buffer would make it do.
\<close>

fun copyChain :: "nat \<Rightarrow> nat \<Rightarrow> nat \<Rightarrow> bytes list \<Rightarrow> bytes \<Rightarrow> bytes option" where
  "copyChain 0 i j segs buf = Some buf"
| "copyChain (Suc n) i j [] buf = None"
| "copyChain (Suc n) i j (seg # segs) buf =
     (if j < length seg
      then (if j + 1 = length seg
            then copyChain n (i + 1) 0 segs (buf[i := seg ! j])
            else copyChain n (i + 1) (j + 1) (seg # segs) (buf[i := seg ! j]))
      else None)"

record rx =
  rx_len :: int
  rx_buf :: bytes
  rx_time :: TimeInternal
  rx_queue :: BufQueue
  rx_freed :: "pbuf list"
  rx_fault :: bool

definition netRecv :: "bytes \<Rightarrow> TimeInternal \<Rightarrow> BufQueue \<Rightarrow> rx" where
  "netRecv buf time msgQueue =
     (case netQGet msgQueue of
        (None, q) \<Rightarrow> \<lparr>rx_len = 0, rx_buf = buf, rx_time = time, rx_queue = q, rx_freed = [], rx_fault = False\<rparr>
      | (Some p, q) \<Rightarrow>
          (if tot_len p > PTP_PACKET_SIZE \<or> tot_len p = 0
           then \<lparr>rx_len = 0, rx_buf = buf, rx_time = time, rx_queue = q, rx_freed = [p], rx_fault = False\<rparr>
           else (case copyChain (tot_len p) 0 0 (pb_segs p) buf of
                   None \<Rightarrow> \<lparr>rx_len = int (tot_len p), rx_buf = buf, rx_time = pb_time p, rx_queue = q,
                             rx_freed = [p], rx_fault = True\<rparr>
                 | Some buf' \<Rightarrow> \<lparr>rx_len = int (tot_len p), rx_buf = buf', rx_time = pb_time p, rx_queue = q,
                             rx_freed = [p], rx_fault = False\<rparr>)))"

definition ptpNetRecvEvent :: "NetPath \<Rightarrow> bytes \<Rightarrow> TimeInternal \<Rightarrow> int \<times> bytes \<times> TimeInternal \<times> NetPath" where
  "ptpNetRecvEvent np buf time =
     (let r = netRecv buf time (eventQ np)
      in (rx_len r, rx_buf r, rx_time r,
          np\<lparr>eventQ := rx_queue r, freedPbufs := freedPbufs np @ rx_freed r, netFault := netFault np \<or> rx_fault r\<rparr>))"

definition ptpNetRecvGeneral :: "NetPath \<Rightarrow> bytes \<Rightarrow> TimeInternal \<Rightarrow> int \<times> bytes \<times> TimeInternal \<times> NetPath" where
  "ptpNetRecvGeneral np buf time =
     (let r = netRecv buf time (generalQ np)
      in (rx_len r, rx_buf r, rx_time r,
          np\<lparr>generalQ := rx_queue r, freedPbufs := freedPbufs np @ rx_freed r, netFault := netFault np \<or> rx_fault r\<rparr>))"

definition udpRecvEventCallback :: "NetPath \<Rightarrow> pbuf \<Rightarrow> NetPath" where
  "udpRecvEventCallback np p =
     (case netQPut (eventQ np) p of
        (False, q) \<Rightarrow> np\<lparr>eventQ := q, freedPbufs := freedPbufs np @ [p]\<rparr>
      | (True, q) \<Rightarrow> np\<lparr>eventQ := q\<rparr>)"

definition udpRecvGeneralCallback :: "NetPath \<Rightarrow> pbuf \<Rightarrow> NetPath" where
  "udpRecvGeneralCallback np p =
     (case netQPut (generalQ np) p of
        (False, q) \<Rightarrow> np\<lparr>generalQ := q, freedPbufs := freedPbufs np @ [p]\<rparr>
      | (True, q) \<Rightarrow> np\<lparr>generalQ := q\<rparr>)"

definition ptpNetSelect :: "NetPath \<Rightarrow> bool" where
  "ptpNetSelect np \<longleftrightarrow> netQCheck (eventQ np) \<or> netQCheck (generalQ np)"

definition ptpNetEmptyEventQ :: "NetPath \<Rightarrow> NetPath" where
  "ptpNetEmptyEventQ np =
     (case netQEmpty (eventQ np) [] of (q, freed) \<Rightarrow> np\<lparr>eventQ := q, freedPbufs := freedPbufs np @ freed\<rparr>)"

subsection \<open>Transmission\<close>

text \<open>
  What the IP stack answers to one transmission: no buffer, the copy into the buffer fails,
  \<open>udp_sendto\<close> fails, or the packet left and the driver stored its transmit time stamp. The send
  functions always return the length, whatever the answer; the time is only written on success.
\<close>

datatype tx_result = TxNoBuffer | TxTakeFailed | TxSendFailed | TxSent TimeInternal

record packet =
  pk_addr :: u32w
  pk_event :: bool
  pk_data :: bytes

definition netSend :: "tx_result \<Rightarrow> bytes \<Rightarrow> int \<Rightarrow> TimeInternal \<Rightarrow> u32w \<Rightarrow> bool \<Rightarrow> pcb_ref \<Rightarrow>
    int \<times> TimeInternal \<times> packet list \<times> bool" where
  "netSend tx buf len time addr isEvent pcb =
     (case tx of
        TxNoBuffer \<Rightarrow> (len, time, [], False)
      | TxTakeFailed \<Rightarrow> (len, time, [], False)
      | TxSendFailed \<Rightarrow> (len, time, [], pcb \<noteq> PcbLive)
      | TxSent t \<Rightarrow> (len, t, [\<lparr>pk_addr = addr, pk_event = isEvent, pk_data = take (nat len) buf\<rparr>], pcb \<noteq> PcbLive))"

definition ptpNetSendEvent :: "tx_result \<Rightarrow> NetPath \<Rightarrow> bytes \<Rightarrow> int \<Rightarrow> TimeInternal \<Rightarrow>
    int \<times> TimeInternal \<times> packet list \<times> bool" where
  "ptpNetSendEvent tx np buf len time = netSend tx buf len time (multicastAddr np) True (eventPcb np)"

definition ptpNetSendGeneral :: "tx_result \<Rightarrow> NetPath \<Rightarrow> bytes \<Rightarrow> int \<Rightarrow> int \<times> TimeInternal \<times> packet list \<times> bool" where
  "ptpNetSendGeneral tx np buf len = netSend tx buf len TimeInternal_zero (multicastAddr np) False (generalPcb np)"

definition ptpNetSendPeerGeneral :: "tx_result \<Rightarrow> NetPath \<Rightarrow> bytes \<Rightarrow> int \<Rightarrow> int \<times> TimeInternal \<times> packet list \<times> bool" where
  "ptpNetSendPeerGeneral tx np buf len = netSend tx buf len TimeInternal_zero (peerMulticastAddr np) False (generalPcb np)"

definition ptpNetSendPeerEvent :: "tx_result \<Rightarrow> NetPath \<Rightarrow> bytes \<Rightarrow> int \<Rightarrow> TimeInternal \<Rightarrow>
    int \<times> TimeInternal \<times> packet list \<times> bool" where
  "ptpNetSendPeerEvent tx np buf len time = netSend tx buf len time (peerMulticastAddr np) True (eventPcb np)"

subsection \<open>Opening and closing\<close>

definition ptpNetShutdown :: "NetPath \<Rightarrow> bool \<times> NetPath" where
  "ptpNetShutdown np =
     (let np1 = (if multicastAddr np \<noteq> 0 then np\<lparr>joinedGroups := remove1 (multicastAddr np) (joinedGroups np)\<rparr> else np);
          np2 = (if eventPcb np1 \<noteq> PcbNull
                 then np1\<lparr>netFault := netFault np1 \<or> eventPcb np1 = PcbRemoved, eventPcb := PcbNull\<rparr> else np1);
          np3 = (if generalPcb np2 \<noteq> PcbNull
                 then np2\<lparr>netFault := netFault np2 \<or> generalPcb np2 = PcbRemoved, generalPcb := PcbNull\<rparr> else np2)
      in (True, np3\<lparr>multicastAddr := 0, unicastAddr := 0\<rparr>))"

text \<open>
  What \<open>ptpNetInit\<close> finds: the hardware and IP address of the default interface, whether the two
  calls of \<open>udp_new\<close> give a block, and the two multicast addresses \<open>inet_aton\<close> reads.
\<close>

record netenv =
  if_hwaddr :: bytes
  if_addr :: u32w
  udp_new_event :: bool
  udp_new_general :: bool
  aton_default :: "u32w option"
  aton_peer :: "u32w option"

definition findIface :: "netenv \<Rightarrow> bytes \<Rightarrow> u32w \<times> bytes" where
  "findIface ne uuid = (if_addr ne, put_bytes 0 (if_hwaddr ne) uuid)"

definition fail04 :: "NetPath \<Rightarrow> NetPath" where
  "fail04 np = np\<lparr>generalPcb := PcbRemoved, eventPcb := PcbRemoved\<rparr>"

definition ptpNetInit :: "netenv \<Rightarrow> NetPath \<Rightarrow> bytes \<Rightarrow> bool \<times> NetPath \<times> bytes" where
  "ptpNetInit ne np0 uuid0 =
     (let np = np0\<lparr>eventQ := netQInit (eventQ np0), generalQ := netQInit (generalQ np0)\<rparr>;
          (interfaceAddr, uuid) = findIface ne uuid0
      in if interfaceAddr = 0 then (False, np, uuid)
         else if \<not> udp_new_event ne then (False, np\<lparr>eventPcb := PcbNull\<rparr>, uuid)
         else if \<not> udp_new_general ne then (False, np\<lparr>eventPcb := PcbRemoved, generalPcb := PcbNull\<rparr>, uuid)
         else let np1 = np\<lparr>eventPcb := PcbLive, generalPcb := PcbLive, unicastAddr := 0\<rparr>
              in (case aton_default ne of
                    None \<Rightarrow> (False, fail04 np1, uuid)
                  | Some a \<Rightarrow>
                      let np2 = np1\<lparr>multicastAddr := a, joinedGroups := a # joinedGroups np1\<rparr>
                      in (case aton_peer ne of
                            None \<Rightarrow> (False, fail04 np2, uuid)
                          | Some b \<Rightarrow> (True, np2\<lparr>peerMulticastAddr := b, joinedGroups := b # joinedGroups np2\<rparr>, uuid))))"

subsection \<open>Reception copies the chain\<close>

lemma put_bytes_Cons: "put_bytes off (x # xs) buf = put_bytes (Suc off) xs (buf[off := x])"
  by (simp add: put_bytes.simps)

lemma copyChain_spec:
  "[] \<notin> set segs \<Longrightarrow> (case segs of [] \<Rightarrow> j = 0 | seg # _ \<Rightarrow> j < length seg) \<Longrightarrow> n = length (concat segs) - j \<Longrightarrow>
   copyChain n i j segs buf = Some (put_bytes i (drop j (concat segs)) buf)"
proof (induction n i j segs buf rule: copyChain.induct)
  case (1 i j segs buf)
  then show ?case by (auto simp: put_bytes.simps split: list.splits)
next
  case (2 n i j buf)
  then show ?case by simp
next
  case (3 n i j seg segs buf)
  from 3 have j: "j < length seg" by simp
  then have d: "drop j (concat (seg # segs)) = seg ! j # drop (Suc j) seg @ concat segs"
    by (simp add: Cons_nth_drop_Suc [symmetric])
  have s: "case segs of [] \<Rightarrow> (0::nat) = 0 | seg # _ \<Rightarrow> 0 < length seg"
    using 3(3) by (auto split: list.splits)
  show ?case
  proof (cases "j + 1 = length seg")
    case True
    have n: "n = length (concat segs) - 0" using 3(5) True j by simp
    have "[] \<notin> set segs" using 3(3) by simp
    note ih = 3(1) [OF j True this s n]
    show ?thesis by (subst copyChain.simps) (use ih d j True in \<open>simp add: put_bytes_Cons\<close>)
  next
    case False
    with j have "j + 1 < length seg" by simp
    then have "case seg # segs of [] \<Rightarrow> j + 1 = 0 | seg # _ \<Rightarrow> j + 1 < length seg" by simp
    moreover have "n = length (concat (seg # segs)) - (j + 1)" using 3(5) by simp
    ultimately have ih: "copyChain n (i + 1) (j + 1) (seg # segs) (buf[i := seg ! j]) =
        Some (put_bytes (i + 1) (drop (j + 1) (concat (seg # segs))) (buf[i := seg ! j]))"
      by (rule 3(2) [OF j False 3(3)])
    show ?thesis by (subst copyChain.simps) (use ih d j False in \<open>simp add: put_bytes_Cons\<close>)
  qed
qed

definition wf_pbuf :: "pbuf \<Rightarrow> bool" where
  "wf_pbuf p \<longleftrightarrow> [] \<notin> set (pb_segs p)"

lemma netRecv_empty: "ring_valid q \<Longrightarrow> ring_content q = [] \<Longrightarrow> netRecv buf t q =
    \<lparr>rx_len = 0, rx_buf = buf, rx_time = t, rx_queue = q, rx_freed = [], rx_fault = False\<rparr>"
  using ring.get_nil [of q] by (simp add: netRecv_def)

lemma netRecv_Cons:
  assumes "ring_valid q" "ring_content q = p # ps" "wf_pbuf p"
  shows "rx_freed (netRecv buf t q) = [p]" "ring_content (rx_queue (netRecv buf t q)) = ps"
    "\<not> rx_fault (netRecv buf t q)" "ring_valid (rx_queue (netRecv buf t q))"
    "0 < tot_len p \<Longrightarrow> tot_len p \<le> PTP_PACKET_SIZE \<Longrightarrow>
       rx_len (netRecv buf t q) = int (tot_len p) \<and> rx_time (netRecv buf t q) = pb_time p \<and>
       rx_buf (netRecv buf t q) = put_bytes 0 (concat (pb_segs p)) buf"
    "tot_len p = 0 \<or> PTP_PACKET_SIZE < tot_len p \<Longrightarrow>
       rx_len (netRecv buf t q) = 0 \<and> rx_buf (netRecv buf t q) = buf \<and> rx_time (netRecv buf t q) = t"
proof -
  obtain q' where g: "netQGet q = (Some p, q')" "ring_content q' = ps" "ring_valid q'"
    using ring.get_cons [OF assms(1,2)] ring.inv_get [OF assms(1)] by (metis prod.collapse)
  have "copyChain (tot_len p) 0 0 (pb_segs p) buf = Some (put_bytes 0 (concat (pb_segs p)) buf)"
    using assms(3) copyChain_spec [of "pb_segs p" 0 "tot_len p" 0 buf]
    by (cases "pb_segs p") (auto simp: wf_pbuf_def tot_len_def)
  with g show "rx_freed (netRecv buf t q) = [p]" "ring_content (rx_queue (netRecv buf t q)) = ps"
    "\<not> rx_fault (netRecv buf t q)" "ring_valid (rx_queue (netRecv buf t q))"
    "0 < tot_len p \<Longrightarrow> tot_len p \<le> PTP_PACKET_SIZE \<Longrightarrow>
       rx_len (netRecv buf t q) = int (tot_len p) \<and> rx_time (netRecv buf t q) = pb_time p \<and>
       rx_buf (netRecv buf t q) = put_bytes 0 (concat (pb_segs p)) buf"
    "tot_len p = 0 \<or> PTP_PACKET_SIZE < tot_len p \<Longrightarrow>
       rx_len (netRecv buf t q) = 0 \<and> rx_buf (netRecv buf t q) = buf \<and> rx_time (netRecv buf t q) = t"
    by (auto simp: netRecv_def)
qed


subsection \<open>Properties\<close>



text \<open>
  Receiving takes the oldest buffer of the ring. If its chain, of non-empty buffers, holds between 1
  and 300 bytes, the message buffer starts with exactly these bytes and is otherwise unchanged, the
  length and the time stamp of the driver are returned; otherwise nothing is delivered. In all cases
  the buffer is freed once, and no byte outside the chain is read.
\<close>

theorem netRecv_delivers:
  fixes t :: TimeInternal
  assumes "ring_valid q" "ring_content q = p # ps" "wf_pbuf p" "length buf = PTP_PACKET_SIZE"
  defines "r \<equiv> netRecv buf t q"
  shows "rx_freed r = [p] \<and> ring_content (rx_queue r) = ps \<and> \<not> rx_fault r \<and>
    (if 0 < tot_len p \<and> tot_len p \<le> PTP_PACKET_SIZE
     then rx_len r = int (tot_len p) \<and> rx_time r = pb_time p \<and> take (tot_len p) (rx_buf r) = concat (pb_segs p) \<and>
          drop (tot_len p) (rx_buf r) = drop (tot_len p) buf
     else rx_len r = 0 \<and> rx_buf r = buf)"
proof -
  note n = netRecv_Cons [OF assms(1-3), of buf t, folded r_def]
  have "take (tot_len p) (put_bytes 0 (concat (pb_segs p)) buf) = concat (pb_segs p) \<and>
      drop (tot_len p) (put_bytes 0 (concat (pb_segs p)) buf) = drop (tot_len p) buf" if "tot_len p \<le> PTP_PACKET_SIZE"
    using that assms(4) by (auto intro!: nth_equalityI simp: nth_put_bytes tot_len_def)
  with n show ?thesis by auto
qed

definition pbuf_example :: pbuf where
  "pbuf_example = \<lparr>pb_segs = [[1, 2], [3]], pb_time = \<lparr>seconds = 9, nanoseconds = 5\<rparr>\<rparr>"

definition ring_example :: BufQueue where
  "ring_example = \<lparr>q_pbuf = [pbuf_zero, pbuf_example, pbuf_zero, pbuf_zero], q_head = 1, q_tail = 0\<rparr>"

lemma ring_example_content: "ring_valid ring_example \<and> ring_content ring_example = [pbuf_example]"
  by (simp add: ring_example_def ring_valid_def ring_content_def ring_count_def)

theorem netRecv_delivers_witness:
  "take 3 (rx_buf (netRecv (replicate 300 0) TimeInternal_zero ring_example)) = [1, 2, 3]"
  using netRecv_delivers [of ring_example pbuf_example "[]" "replicate 300 0" TimeInternal_zero] ring_example_content
  by (simp add: wf_pbuf_def pbuf_example_def tot_len_def eval_nat_numeral)

datatype net_op = RxEvent pbuf | RxGeneral pbuf | RecvEvent | RecvGeneral | EmptyEventQ

fun net_do :: "bytes \<Rightarrow> net_op \<Rightarrow> NetPath \<Rightarrow> NetPath" where
  "net_do buf (RxEvent p) np = udpRecvEventCallback np p"
| "net_do buf (RxGeneral p) np = udpRecvGeneralCallback np p"
| "net_do buf RecvEvent np = snd (snd (snd (ptpNetRecvEvent np buf TimeInternal_zero)))"
| "net_do buf RecvGeneral np = snd (snd (snd (ptpNetRecvGeneral np buf TimeInternal_zero)))"
| "net_do buf EmptyEventQ np = ptpNetEmptyEventQ np"

fun net_received :: "net_op \<Rightarrow> pbuf list" where
  "net_received (RxEvent p) = [p]"
| "net_received (RxGeneral p) = [p]"
| "net_received _ = []"

definition net_rings :: "NetPath \<Rightarrow> bool" where
  "net_rings np \<longleftrightarrow> ring_valid (eventQ np) \<and> ring_valid (generalQ np)"

definition net_owned :: "NetPath \<Rightarrow> pbuf multiset" where
  "net_owned np = mset (freedPbufs np) + mset (ring_content (eventQ np)) + mset (ring_content (generalQ np))"

lemma put_owned:
  assumes "ring_valid q"
  shows "ring_valid (snd (netQPut q p)) \<and>
    mset (ring_content (snd (netQPut q p))) + mset (if fst (netQPut q p) then [] else [p]) = mset (ring_content q) + {#p#}"
  using ring.inv_put [OF assms] ring.put_cases [OF assms, of p] by auto

lemma get_owned:
  assumes "ring_valid q"
  shows "ring_valid (rx_queue (netRecv buf t q)) \<and>
    mset (ring_content (rx_queue (netRecv buf t q))) + mset (rx_freed (netRecv buf t q)) = mset (ring_content q)"
proof (cases "ring_content q")
  case Nil
  with ring.get_nil [OF assms] assms show ?thesis by (simp add: netRecv_def)
next
  case (Cons p ps)
  with ring.get_cons [OF assms Cons] ring.inv_get [OF assms] show ?thesis
    by (auto simp: netRecv_def split: prod.split option.split)
qed

lemma net_do_owned:
  assumes "net_rings np"
  shows "net_rings (net_do buf op np) \<and> net_owned (net_do buf op np) = net_owned np + mset (net_received op)"
proof (cases op)
  case (RxEvent p)
  with put_owned [of "eventQ np" p] assms show ?thesis
    by (auto simp: net_rings_def net_owned_def udpRecvEventCallback_def case_prod_beta split: bool.split)
next
  case (RxGeneral p)
  with put_owned [of "generalQ np" p] assms show ?thesis
    by (auto simp: net_rings_def net_owned_def udpRecvGeneralCallback_def case_prod_beta split: bool.split)
next
  case RecvEvent
  with get_owned [of "eventQ np" buf TimeInternal_zero] assms show ?thesis
    by (auto simp: net_rings_def net_owned_def ptpNetRecvEvent_def Let_def add.commute)
next
  case RecvGeneral
  with get_owned [of "generalQ np" buf TimeInternal_zero] assms show ?thesis
    by (auto simp: net_rings_def net_owned_def ptpNetRecvGeneral_def Let_def add.commute)
next
  case EmptyEventQ
  with assms show ?thesis
    by (simp add: net_rings_def net_owned_def ptpNetEmptyEventQ_def netQEmpty_spec)
       (simp add: ring_valid_def ring_content_def ring_count_def)
qed

text \<open>
  C20: No packet buffer leaks or is freed twice while the sockets stay open: over any sequence of
  arrivals, receptions and clearings of the event queue, the buffers freed together with those waiting
  in the two rings are, counted with multiplicity, those of the start and those that arrived.
\<close>

theorem net_no_leak:
  fixes buf :: bytes and ops :: "net_op list"
  assumes "net_rings np"
  defines "np' \<equiv> fold (net_do buf) ops np"
  shows "net_rings np' \<and> net_owned np' = net_owned np + mset (concat (map net_received ops))"
  unfolding np'_def using assms(1)
proof (induction ops arbitrary: np)
  case Nil
  then show ?case by simp
next
  case (Cons op ops)
  from net_do_owned [OF Cons.prems, of buf op] Cons.IH [of "net_do buf op np"] show ?case
    by (simp add: add.assoc)
qed

definition net_example :: NetPath where
  "net_example = \<lparr>multicastAddr = 0, peerMulticastAddr = 0, unicastAddr = 0, eventPcb = PcbNull, generalPcb = PcbNull,
     eventQ = ring_example, generalQ = BufQueue_zero, freedPbufs = [], joinedGroups = [], netFault = False\<rparr>"

theorem net_no_leak_witness:
  "net_owned (fold (net_do (replicate 300 0)) [RxEvent pbuf_zero, RecvEvent, EmptyEventQ] net_example) =
   net_owned net_example + {#pbuf_zero#}"
  using net_no_leak [of net_example "replicate 300 0" "[RxEvent pbuf_zero, RecvEvent, EmptyEventQ]"] ring_example_content
  by (simp add: net_rings_def net_example_def BufQueue_zero_def ring_valid_def)

text \<open>
  Opening the sockets again after closing them forgets the buffers that wait in the rings: they are
  neither freed nor reachable any more, because closing does not empty the rings and opening resets
  their indices. The peer multicast group joined by a successful opening is not left when closing.
\<close>

theorem netInit_forgets_buffers:
  fixes uuid :: bytes
  assumes "net_rings np" "aton_default ne \<noteq> aton_peer ne" "aton_default ne \<noteq> Some 0"
  defines "np1 \<equiv> fst (snd (ptpNetInit ne (snd (ptpNetShutdown np)) uuid))"
  shows "ring_content (eventQ np1) = [] \<and> ring_content (generalQ np1) = [] \<and> freedPbufs np1 = freedPbufs np \<and>
    (fst (ptpNetInit ne (snd (ptpNetShutdown np)) uuid) \<longrightarrow>
       joinedGroups (snd (ptpNetShutdown np1)) = the (aton_peer ne) # joinedGroups (snd (ptpNetShutdown np)))"
proof -
  have q: "ring_content (netQInit (eventQ np)) = []" "ring_content (netQInit (generalQ np)) = []"
    using assms(1) netQInit_valid by (auto simp: net_rings_def ring_valid_def)
  have s: "eventQ (snd (ptpNetShutdown np)) = eventQ np" "generalQ (snd (ptpNetShutdown np)) = generalQ np"
    "freedPbufs (snd (ptpNetShutdown np)) = freedPbufs np"
    by (simp_all add: ptpNetShutdown_def Let_def)
  have "joinedGroups (snd (ptpNetShutdown np1)) = the (aton_peer ne) # joinedGroups (snd (ptpNetShutdown np))"
    if "fst (ptpNetInit ne (snd (ptpNetShutdown np)) uuid)"
    using that assms(2,3) unfolding np1_def
    by (auto simp: ptpNetInit_def findIface_def Let_def ptpNetShutdown_def [of "_\<lparr>peerMulticastAddr := _, joinedGroups := _\<rparr>"]
        split: if_splits option.splits)
  then show ?thesis
    unfolding np1_def by (auto simp: ptpNetInit_def findIface_def Let_def fail04_def q s split: option.split)
qed

theorem netInit_forgets_buffers_witness:
  "freedPbufs (fst (snd (ptpNetInit \<lparr>if_hwaddr = [], if_addr = 1, udp_new_event = True, udp_new_general = True,
      aton_default = Some 2, aton_peer = Some 3\<rparr> (snd (ptpNetShutdown net_example)) []))) = []"
  using netInit_forgets_buffers [of net_example "\<lparr>if_hwaddr = [], if_addr = 1, udp_new_event = True, udp_new_general = True,
      aton_default = Some 2, aton_peer = Some 3\<rparr>" "[]"] ring_example_content
  by (simp add: net_rings_def net_example_def BufQueue_zero_def ring_valid_def)

text \<open>
  Closing the sockets after opening them uses a control block that was already given back exactly
  when the opening failed after the first block had been allocated: the failure paths release the
  blocks but keep the pointers.
\<close>

theorem netShutdown_after_init:
  fixes uuid :: bytes and ne :: netenv
  assumes "eventPcb np = PcbNull" "generalPcb np = PcbNull" "\<not> netFault np"
  defines "r \<equiv> ptpNetInit ne np uuid"
  shows "netFault (snd (ptpNetShutdown (fst (snd r)))) \<longleftrightarrow> \<not> fst r \<and> if_addr ne \<noteq> 0 \<and> udp_new_event ne"
  using assms unfolding r_def
  by (auto simp: ptpNetInit_def findIface_def fail04_def ptpNetShutdown_def Let_def split: option.split)

theorem netShutdown_after_init_witness:
  "netFault (snd (ptpNetShutdown (fst (snd (ptpNetInit \<lparr>if_hwaddr = [], if_addr = 1, udp_new_event = True, udp_new_general = False,
      aton_default = Some 2, aton_peer = Some 3\<rparr> net_example [])))))"
  using netShutdown_after_init [of net_example "\<lparr>if_hwaddr = [], if_addr = 1, udp_new_event = True, udp_new_general = False,
      aton_default = Some 2, aton_peer = Some 3\<rparr>" "[]"]
  by (simp add: net_example_def ptpNetInit_def findIface_def)

end
