(* ===== verification/PtpTimer.thy ===== *)
theory PtpTimer
  imports PtpNet
begin

text \<open>
  The platform layer of the PTP daemon: the timers of
  \<^verbatim>\<open>src/supports/lwip/lwip/src/exts/ptp/dep/ptpTimer.c\<close> on top of the system timers of
  \<^verbatim>\<open>src/supports/lwip/unix/port/sys_arch.c\<close> (\<^verbatim>\<open>src/an767/os/src/net/eosNetSysArch.c\<close> has the same
  protocol), the clock access of \<^verbatim>\<open>dep/ptpSysTime.c\<close>, and the state of the whole daemon: the clock
  record, the timers, what was sent and what was asked of the clock hardware. The environment is a
  record of functions of the number of calls made so far, so that every call may get a new answer.
  The lemmas describe the life of a one-shot timer: once a timer has a handle, it can only be
  armed again after it was stopped.
\<close>

subsection \<open>Environment and state\<close>

text \<open>
  \<open>e_tx\<close>: outcome of a transmission; \<open>e_rand\<close>: \<open>rand()\<close>; \<open>e_time\<close>: the hardware clock; \<open>e_alloc\<close>: whether
  a system timer can be allocated; \<open>e_net\<close>: what \<open>ptpNetInit\<close> finds; \<open>e_local\<close> and \<open>e_local_ts\<close>: the
  content of a local variable that was not initialised.
\<close>

record env =
  e_tx :: "nat \<Rightarrow> tx_result"
  e_rand :: "nat \<Rightarrow> nat"
  e_time :: "nat \<Rightarrow> TimeInternal"
  e_alloc :: "nat \<Rightarrow> bool"
  e_net :: "nat \<Rightarrow> netenv"
  e_local :: "nat \<Rightarrow> TimeInternal"
  e_local_ts :: "nat \<Rightarrow> Timestamp"

record sys_timer =
  timeId :: bool
  pending :: "int option"
  expired :: bool

datatype hw_op = SetTime TimeInternal | UpdateOffset TimeInternal | AdjFreq int

text \<open>\<open>undef\<close> is a ghost: it records that an operation undefined in C was executed.\<close>

record world =
  clk :: PtpClock
  timers :: "timer_id \<Rightarrow> sys_timer"
  sent :: "packet list"
  hw_ops :: "hw_op list"
  calls :: nat
  undef :: bool

definition timers_zero :: "timer_id \<Rightarrow> sys_timer" where
  "timers_zero = (\<lambda>_. \<lparr>timeId = False, pending = None, expired = False\<rparr>)"

subsection \<open>System timers\<close>

definition sys_timer_start :: "bool \<Rightarrow> sys_timer \<Rightarrow> int \<Rightarrow> sys_timer" where
  "sys_timer_start ok t millisec =
     (if timeId t then t
      else if ok then t\<lparr>timeId := True, pending := Some millisec\<rparr>
      else t)"

definition sys_timer_stop :: "sys_timer \<Rightarrow> sys_timer" where
  "sys_timer_stop t = (if \<not> timeId t then t else t\<lparr>pending := None, timeId := False\<rparr>)"

subsection \<open>PTP timers\<close>

fun timer_of_index :: "int \<Rightarrow> timer_id option" where
  "timer_of_index i =
     (if i = 0 then Some PDELAYREQ_INTERVAL_TIMER
      else if i = 1 then Some DELAYREQ_INTERVAL_TIMER
      else if i = 2 then Some SYNC_INTERVAL_TIMER
      else if i = 3 then Some ANNOUNCE_RECEIPT_TIMER
      else if i = 4 then Some ANNOUNCE_INTERVAL_TIMER
      else if i = 5 then Some QUALIFICATION_TIMEOUT
      else None)"

fun timer_index :: "timer_id \<Rightarrow> int" where
  "timer_index PDELAYREQ_INTERVAL_TIMER = 0"
| "timer_index DELAYREQ_INTERVAL_TIMER = 1"
| "timer_index SYNC_INTERVAL_TIMER = 2"
| "timer_index ANNOUNCE_RECEIPT_TIMER = 3"
| "timer_index ANNOUNCE_INTERVAL_TIMER = 4"
| "timer_index QUALIFICATION_TIMEOUT = 5"

abbreviation (input) TIMER_ARRAY_SIZE :: int where "TIMER_ARRAY_SIZE \<equiv> 6"

text \<open>The argument of the callback is an integer; the code only checks it against the upper bound.\<close>

definition timerCallback :: "int \<Rightarrow> world \<Rightarrow> world" where
  "timerCallback arg w =
     (if arg < TIMER_ARRAY_SIZE
      then (case timer_of_index arg of
              Some i \<Rightarrow> w\<lparr>timers := (timers w)(i := (timers w i)\<lparr>expired := True\<rparr>)\<rparr>
            | None \<Rightarrow> w\<lparr>undef := True\<rparr>)
      else w)"

text \<open>
  One round of the timer thread for one pending timer: the callback runs with the argument of the
  timer, then the one-shot entry is removed from the list. The handle of its owner is not cleared.
\<close>

definition timer_fire :: "timer_id \<Rightarrow> world \<Rightarrow> world" where
  "timer_fire i w =
     (if pending (timers w i) = None then w
      else let w1 = timerCallback (timer_index i) w
           in w1\<lparr>timers := (timers w1)(i := (timers w1 i)\<lparr>pending := None\<rparr>)\<rparr>)"

definition initTimer :: "world \<Rightarrow> world" where
  "initTimer w = w\<lparr>timers := (\<lambda>i. (timers w i)\<lparr>expired := False\<rparr>)\<rparr>"

definition timerStop :: "timer_id \<Rightarrow> world \<Rightarrow> world" where
  "timerStop i w = w\<lparr>timers := (timers w)(i := (sys_timer_stop (timers w i))\<lparr>expired := False\<rparr>)\<rparr>"

definition timerStart :: "env \<Rightarrow> timer_id \<Rightarrow> int \<Rightarrow> world \<Rightarrow> world" where
  "timerStart e i interval_ms w =
     w\<lparr>timers := (timers w)(i := sys_timer_start (e_alloc e (calls w)) ((timers w i)\<lparr>expired := False\<rparr>) interval_ms),
       calls := calls w + 1\<rparr>"

definition timerExpired :: "timer_id \<Rightarrow> world \<Rightarrow> bool \<times> world" where
  "timerExpired i w =
     (if \<not> expired (timers w i) then (False, w)
      else (True, w\<lparr>timers := (timers w)(i := (timers w i)\<lparr>expired := False\<rparr>)\<rparr>))"

subsection \<open>Clock access\<close>

definition getTime :: "env \<Rightarrow> world \<Rightarrow> TimeInternal \<times> world" where
  "getTime e w = (e_time e (calls w), w\<lparr>calls := calls w + 1\<rparr>)"

definition setTime :: "TimeInternal \<Rightarrow> world \<Rightarrow> world" where
  "setTime t w = w\<lparr>hw_ops := hw_ops w @ [SetTime t]\<rparr>"

definition updateTime :: "TimeInternal \<Rightarrow> world \<Rightarrow> world" where
  "updateTime t w = w\<lparr>hw_ops := hw_ops w @ [UpdateOffset \<lparr>seconds = s32 (- seconds t), nanoseconds = s32 (- nanoseconds t)\<rparr>]\<rparr>"

definition adjFreq :: "int \<Rightarrow> world \<Rightarrow> world" where
  "adjFreq adj w =
     w\<lparr>hw_ops := hw_ops w @ [AdjFreq (if adj > ADJ_FREQ_MAX then ADJ_FREQ_MAX
                                      else if adj < - ADJ_FREQ_MAX then - ADJ_FREQ_MAX else adj)]\<rparr>"

text \<open>\<open>rand() % randMax\<close>; a zero divisor is undefined.\<close>

definition getRand :: "env \<Rightarrow> int \<Rightarrow> world \<Rightarrow> int \<times> world" where
  "getRand e randMax w =
     (if u32 randMax = 0 then (0, w\<lparr>undef := True, calls := calls w + 1\<rparr>)
      else (u32 (int (e_rand e (calls w))) mod u32 randMax, w\<lparr>calls := calls w + 1\<rparr>))"

text \<open>
  The macro \<open>pow2ms\<close> is defined in C for exponents from -31 to 21: beyond, the shift count or the
  shifted value leaves the type.
\<close>

definition pow2ms :: "int \<Rightarrow> int" where
  "pow2ms a = (if a > 0 then s32 (1000 * 2 ^ nat a) else 1000 div 2 ^ nat (- a))"

definition pow2ms_defined :: "int \<Rightarrow> bool" where
  "pow2ms_defined a \<longleftrightarrow> - 31 \<le> a \<and> a \<le> 21"

definition use_pow2ms :: "int \<Rightarrow> world \<Rightarrow> int \<times> world" where
  "use_pow2ms a w = (pow2ms a, w\<lparr>undef := undef w \<or> \<not> pow2ms_defined a\<rparr>)"

subsection \<open>Life of a timer\<close>

text \<open>A pending timer always has a handle; the converse fails once it has fired.\<close>

definition timer_ok :: "sys_timer \<Rightarrow> bool" where
  "timer_ok t \<longleftrightarrow> (pending t \<noteq> None \<longrightarrow> timeId t)"

lemma timer_of_index_index [simp]: "timer_of_index (timer_index i) = Some i"
  by (cases i) simp_all

lemma timer_index_bound [simp]: "timer_index i < 6"
  by (cases i) simp_all

lemma timer_ok_keep:
  "timer_ok t \<Longrightarrow> timer_ok (sys_timer_start ok t ms)"
  "timer_ok t \<Longrightarrow> timer_ok (sys_timer_stop t)"
  by (auto simp: timer_ok_def sys_timer_start_def sys_timer_stop_def)

lemma timer_fire_unfold:
  "timer_fire i w = (if pending (timers w i) = None then w
     else w\<lparr>timers := (timers w)(i := (timers w i)\<lparr>expired := True, pending := None\<rparr>)\<rparr>)"
  by (simp add: timer_fire_def timerCallback_def Let_def del: timer_of_index.simps)

text \<open>The state after a timer was armed, fired, was seen by the daemon and armed again.\<close>

lemma timer_restart:
  assumes "timeId (timers w i)"
  shows "timers (timerStart e i ms w) = (timers w)(i := (timers w i)\<lparr>expired := False\<rparr>)"
  using assms by (simp add: timerStart_def sys_timer_start_def)

lemma timer_first_start:
  assumes "\<not> timeId (timers w i)" "e_alloc e (calls w)"
  shows "timers (timerStart e i ms w) = (timers w)(i := \<lparr>timeId = True, pending = Some ms, expired = False\<rparr>)"
  using assms by (cases "timers w i") (simp add: timerStart_def sys_timer_start_def)

lemma timer_stop_then_start:
  assumes "e_alloc e (calls w)"
  shows "timers (timerStart e i ms (timerStop i w)) i = \<lparr>timeId = True, pending = Some ms, expired = False\<rparr>"
  using assms by (cases "timers w i") (simp add: timerStart_def timerStop_def sys_timer_start_def sys_timer_stop_def)

datatype timer_op = OpStart int | OpFire | OpCheck

fun timer_do :: "env \<Rightarrow> timer_id \<Rightarrow> timer_op \<Rightarrow> world \<Rightarrow> world" where
  "timer_do e i (OpStart ms) w = timerStart e i ms w"
| "timer_do e i OpFire w = timer_fire i w"
| "timer_do e i OpCheck w = snd (timerExpired i w)"

lemma timer_dead_step:
  assumes "timeId (timers w i)" "pending (timers w i) = None"
  shows "timeId (timers (timer_do e i op w) i) \<and> pending (timers (timer_do e i op w) i) = None \<and>
    (expired (timers (timer_do e i op w) i) \<longrightarrow> expired (timers w i))"
  using assms by (cases op) (auto simp: timerStart_def sys_timer_start_def timer_fire_def timerExpired_def)

lemma timer_dead_run:
  assumes "timeId (timers w i)" "pending (timers w i) = None" "\<not> expired (timers w i)"
  shows "timeId (timers (fold (timer_do e i) ops w) i) \<and> pending (timers (fold (timer_do e i) ops w) i) = None \<and>
    \<not> expired (timers (fold (timer_do e i) ops w) i)"
  using assms
proof (induction ops arbitrary: w)
  case Nil
  then show ?case by simp
next
  case (Cons op ops)
  from timer_dead_step [OF Cons.prems(1,2), of e op] Cons.prems(3) show ?case
    by (simp add: Cons.IH)
qed


text \<open>
  A one-shot timer that has been started cannot be started again until it is stopped. After a
  first start it fires once and the daemon sees the expiration; from then on, over any sequence of
  restarts, firings and checks, the daemon never sees it expired again. After a stop it can be
  started anew and fires.
\<close>

theorem timer_single_shot:
  assumes "\<not> timeId (timers w i)" "e_alloc e (calls w)" "e_alloc e (calls w')"
  shows "fst (timerExpired i (timer_fire i (timerStart e i ms w))) \<and>
    \<not> fst (timerExpired i (fold (timer_do e i) ops (snd (timerExpired i (timer_fire i (timerStart e i ms w)))))) \<and>
    fst (timerExpired i (timer_fire i (timerStart e i ms (timerStop i w'))))"
proof (intro conjI)
  let ?w = "timer_fire i (timerStart e i ms w)"
  have t: "timers ?w i = \<lparr>timeId = True, pending = None, expired = True\<rparr>"
    using timer_first_start [OF assms(1,2), of ms] by (simp add: timer_fire_unfold)
  then show "fst (timerExpired i ?w)" by (simp add: timerExpired_def)
  from t have "timers (snd (timerExpired i ?w)) i = \<lparr>timeId = True, pending = None, expired = False\<rparr>"
    by (simp add: timerExpired_def)
  then show "\<not> fst (timerExpired i (fold (timer_do e i) ops (snd (timerExpired i ?w))))"
    using timer_dead_run [of "snd (timerExpired i ?w)" i e ops] by (simp add: timerExpired_def)
  show "fst (timerExpired i (timer_fire i (timerStart e i ms (timerStop i w'))))"
    using timer_stop_then_start [OF assms(3), of i ms] by (simp add: timer_fire_unfold timerExpired_def)
qed

definition world_zero :: world where
  "world_zero = \<lparr>clk = ptpClock_zero, timers = timers_zero, sent = [], hw_ops = [], calls = 0, undef = False\<rparr>"

definition env_example :: env where
  "env_example = \<lparr>e_tx = (\<lambda>n. TxSent \<lparr>seconds = 7, nanoseconds = int n\<rparr>), e_rand = (\<lambda>n. n),
     e_time = (\<lambda>n. \<lparr>seconds = 7, nanoseconds = int n\<rparr>), e_alloc = (\<lambda>_. True),
     e_net = (\<lambda>_. \<lparr>if_hwaddr = [0, 17, 34, 51, 68, 85], if_addr = 0xC0A80A02, udp_new_event = True,
       udp_new_general = True, aton_default = Some 0xE0000181, aton_peer = Some 0xE000006B\<rparr>),
     e_local = (\<lambda>_. TimeInternal_zero), e_local_ts = (\<lambda>_. Timestamp_zero)\<rparr>"

theorem timer_single_shot_witness:
  "fst (timerExpired SYNC_INTERVAL_TIMER (timer_fire SYNC_INTERVAL_TIMER
     (timerStart env_example SYNC_INTERVAL_TIMER 1000 world_zero))) \<and>
   \<not> fst (timerExpired SYNC_INTERVAL_TIMER (fold (timer_do env_example SYNC_INTERVAL_TIMER) [OpStart 1000, OpFire]
     (snd (timerExpired SYNC_INTERVAL_TIMER (timer_fire SYNC_INTERVAL_TIMER
       (timerStart env_example SYNC_INTERVAL_TIMER 1000 world_zero))))))"
  using timer_single_shot [of world_zero SYNC_INTERVAL_TIMER env_example world_zero 1000 "[OpStart 1000, OpFire]"]
  by (simp add: world_zero_def timers_zero_def env_example_def)

lemma pow2ms_pos: "- 9 \<le> a \<Longrightarrow> a \<le> 21 \<Longrightarrow> 0 < pow2ms a \<and> pow2ms_defined a"
proof -
  assume a: "- 9 \<le> a" "a \<le> 21"
  show ?thesis
  proof (cases "a > 0")
    case True
    have "(2::int) ^ nat a \<le> 2097152" using a power_increasing [of "nat a" 21 "2::int"] by simp
    moreover have "(0::int) < 2 ^ nat a" by simp
    ultimately have "s32 (1000 * 2 ^ nat a) = 1000 * 2 ^ nat a" by (intro s32_id) linarith+
    with True a show ?thesis by (simp add: pow2ms_def pow2ms_defined_def)
  next
    case False
    have "(2::int) ^ nat (- a) \<le> 2 ^ 9" using a by (intro power_increasing) auto
    then have "0 < 1000 div (2::int) ^ nat (- a)" by (subst pos_imp_zdiv_pos_iff) auto
    with False a show ?thesis by (simp add: pow2ms_def pow2ms_defined_def)
  qed
qed

text \<open>
  The randomised timer intervals of the daemon are well defined for every logarithmic interval
  from -9 to 21: the exponent is in the range of the macro, the divisor is positive, and the interval
  is less than twice to the power of the exponent seconds. For an exponent of -10 the divisor is zero.
\<close>

theorem getRand_pow2ms:
  assumes "- 9 \<le> a" "a \<le> 21"
  shows "undef (snd (getRand e (pow2ms a) w)) = undef w \<and>
    0 \<le> fst (getRand e (pow2ms a) w) \<and> fst (getRand e (pow2ms a) w) < pow2ms a \<and>
    undef (snd (getRand e (pow2ms (-10)) w))"
proof -
  have p: "0 < pow2ms a" using pow2ms_pos [OF assms] by simp
  have "pow2ms a < 4294967296"
  proof (cases "a > 0")
    case True
    then show ?thesis using s32_le [of "1000 * 2 ^ nat a"] by (simp add: pow2ms_def)
  next
    case False
    have "1000 div (2::int) ^ nat (- a) \<le> 1000 div 1" by (rule zdiv_mono2) auto
    with False show ?thesis by (simp add: pow2ms_def)
  qed
  with p have u: "u32 (pow2ms a) = pow2ms a" by (simp add: u32_id)
  have "undef (snd (getRand e (pow2ms (-10)) w))"
    by (simp add: getRand_def pow2ms_def u32_def)
  with p u show ?thesis by (simp add: getRand_def)
qed

theorem getRand_pow2ms_witness:
  "fst (getRand env_example (pow2ms 4) world_zero) < 16000"
  using getRand_pow2ms [of 4 env_example world_zero] by (simp add: pow2ms_def s32_def)

end
