(* ===== verification/PtpServo.thy ===== *)
theory PtpServo
  imports PtpTimer
begin

text \<open>
  The clock servo, \<^verbatim>\<open>src/supports/lwip/lwip/src/exts/ptp/dep/ptpServo.c\<close>: the exponential smoothing
  filter, the computation of the offset from the master and of the path delay, and the controller
  that turns the offset into a frequency correction. \<open>DEFAULT_PARENTS_STATS\<close> is false, so that the
  branches on the parent statistics are not compiled in. The lemmas show that the filter stays between its last output and the new
  sample without overflow, that the exchange of time stamps gives the offset and the delay exactly,
  and that the controller never commands more than the maximal correction.
\<close>

subsection \<open>Definitions\<close>

definition initClock :: "world \<Rightarrow> world" where
  "initClock w =
     (let c = clk w;
          c1 = c\<lparr>Tms := TimeInternal_zero,
                 observedDrift := 0,
                 owd_filt := (owd_filt c)\<lparr>f_n := 0, f_s := sDelay (servo c)\<rparr>,
                 ofm_filt := (ofm_filt c)\<lparr>f_n := 0, f_s := sOffset (servo c)\<rparr>,
                 waitingForFollowUp := False,
                 waitingForPDelayRespFollowUp := False,
                 pdelay_t1 := TimeInternal_zero, pdelay_t2 := TimeInternal_zero,
                 pdelay_t3 := TimeInternal_zero, pdelay_t4 := TimeInternal_zero,
                 parentDS := (parentDS c)\<lparr>parentStats := False, observedParentClockPhaseChangeRate := 0,
                   observedParentOffsetScaledLogVariance := 0\<rparr>\<rparr>;
          w1 = w\<lparr>clk := c1\<rparr>;
          w2 = (if \<not> noAdjust (servo c1) then adjFreq 0 w1 else w1)
      in w2\<lparr>clk := (clk w2)\<lparr>netPath := ptpNetEmptyEventQ (netPath (clk w2))\<rparr>\<rparr>)"

definition order :: "int \<Rightarrow> int" where
  "order n = (let m = (if n < 0 then s32 (- n) else n) in if m = 0 then 0 else floorLog2 (nat (u32 m)))"

definition filter_nsec :: "int \<Rightarrow> Filter \<Rightarrow> int \<times> Filter" where
  "filter_nsec nsec_current filt0 =
     (let filt = filt0\<lparr>f_n := s32 (f_n filt0 + 1)\<rparr>;
          filt = (if f_n filt = 1 then filt\<lparr>y_prev := nsec_current, y_sum := nsec_current, s_prev := 0\<rparr> else filt);
          s = f_s filt;
          (s, filt) = (if shl32 1 s > f_n filt then (order (f_n filt), filt) else (s, filt\<lparr>f_n := shl32 1 s\<rparr>));
          s2 = 30 - order (max (y_prev filt) nsec_current);
          s = min s s2;
          ysum = (if s_prev filt > s then shr32 (y_sum filt) (s_prev filt - s)
                  else if s_prev filt < s then shl32 (y_sum filt) (s - s_prev filt)
                  else y_sum filt);
          ysum = s32 (ysum + s32 (nsec_current - y_prev filt));
          y = shr32 ysum s
      in (y, filt\<lparr>y_sum := ysum, y_prev := y, s_prev := s16 s\<rparr>))"

definition updateOffset :: "TimeInternal \<Rightarrow> TimeInternal \<Rightarrow> TimeInternal \<Rightarrow> PtpClock \<Rightarrow> PtpClock" where
  "updateOffset syncEventIngressTimestamp preciseOriginTimestamp correctionField c0 =
     (let tms = subTime (subTime syncEventIngressTimestamp preciseOriginTimestamp) correctionField;
          ofs = (case delayMechanism (portDS c0) of
                   E2E \<Rightarrow> subTime tms (meanPathDelay (currentDS c0))
                 | P2P \<Rightarrow> subTime tms (peerMeanPathDelay (portDS c0))
                 | DELAY_DISABLED \<Rightarrow> tms);
          c = c0\<lparr>Tms := tms, currentDS := (currentDS c0)\<lparr>offsetFromMaster := ofs\<rparr>\<rparr>
      in if seconds ofs \<noteq> 0
         then (if portState (portDS c) = PTP_SLAVE then c\<lparr>events := setFlag (events c) SYNCHRONIZATION_FAULT\<rparr> else c)
         else let (ns, filt) = filter_nsec (nanoseconds ofs) (ofm_filt c);
                  c = c\<lparr>ofm_filt := filt, currentDS := (currentDS c)\<lparr>offsetFromMaster := ofs\<lparr>nanoseconds := ns\<rparr>\<rparr>\<rparr>
              in if \<bar>ns\<bar> < DEFAULT_CALIBRATED_OFFSET_NS
                 then (if portState (portDS c) = PTP_UNCALIBRATED
                       then c\<lparr>events := setFlag (events c) MASTER_CLOCK_SELECTED\<rparr> else c)
                 else if \<bar>ns\<bar> > DEFAULT_UNCALIBRATED_OFFSET_NS
                 then (if portState (portDS c) = PTP_SLAVE
                       then c\<lparr>events := setFlag (events c) SYNCHRONIZATION_FAULT\<rparr> else c)
                 else c)"

definition updateDelay :: "TimeInternal \<Rightarrow> TimeInternal \<Rightarrow> TimeInternal \<Rightarrow> PtpClock \<Rightarrow> PtpClock" where
  "updateDelay delayEventEgressTimestamp recieveTimestamp correctionField c =
     (if f_n (ofm_filt c) = 0 then c
      else let tsm = subTime (subTime recieveTimestamp delayEventEgressTimestamp) correctionField;
               d = div2Time (addTime (Tms c) tsm);
               c = c\<lparr>Tsm := tsm, currentDS := (currentDS c)\<lparr>meanPathDelay := d\<rparr>\<rparr>
           in if seconds d \<noteq> 0 then c
              else let (ns, filt) = filter_nsec (nanoseconds d) (owd_filt c)
                   in c\<lparr>owd_filt := filt, currentDS := (currentDS c)\<lparr>meanPathDelay := d\<lparr>nanoseconds := ns\<rparr>\<rparr>\<rparr>)"

definition updatePeerDelay :: "TimeInternal \<Rightarrow> bool \<Rightarrow> PtpClock \<Rightarrow> PtpClock" where
  "updatePeerDelay correctionField twoStep c =
     (let d = (if twoStep then addTime (subTime (pdelay_t2 c) (pdelay_t1 c)) (subTime (pdelay_t4 c) (pdelay_t3 c))
               else subTime (pdelay_t4 c) (pdelay_t1 c));
          d = div2Time (subTime d correctionField);
          c = c\<lparr>portDS := (portDS c)\<lparr>peerMeanPathDelay := d\<rparr>\<rparr>
      in if seconds d \<noteq> 0 then c
         else let (ns, filt) = filter_nsec (nanoseconds d) (owd_filt c)
              in c\<lparr>owd_filt := filt, portDS := (portDS c)\<lparr>peerMeanPathDelay := d\<lparr>nanoseconds := ns\<rparr>\<rparr>\<rparr>)"

text \<open>
  The controller. A shift by more than 31 places, or a zero \<open>ap\<close> or \<open>ai\<close>, is undefined in C;
  the start-up code excludes the latter.
\<close>

definition clampDrift :: "int \<Rightarrow> int" where
  "clampDrift d = (if d > ADJ_FREQ_MAX then ADJ_FREQ_MAX else if d < - ADJ_FREQ_MAX then - ADJ_FREQ_MAX else d)"

definition offsetNorm :: "int \<Rightarrow> int \<Rightarrow> int" where
  "offsetNorm logSync ns = (if logSync > 0 then shr32 ns logSync else if logSync < 0 then shl32 ns (- logSync) else ns)"

definition servo_defined :: "PtpClock \<Rightarrow> bool" where
  "servo_defined c \<longleftrightarrow> \<bar>sint (logSyncInterval (portDS c))\<bar> \<le> 31 \<and> ai (servo c) \<noteq> 0 \<and>
     (noAdjust (servo c) \<or> ap (servo c) \<noteq> 0)"

definition updateClock :: "env \<Rightarrow> world \<Rightarrow> world" where
  "updateClock e w =
     (let c = clk w; ofs = offsetFromMaster (currentDS c)
      in if seconds ofs \<noteq> 0 \<or> \<bar>nanoseconds ofs\<bar> > MAX_ADJ_OFFSET_NS
         then (if noAdjust (servo c) then w
               else if \<not> noResetClock (servo c)
               then let (timeTmp, w1) = getTime e w in initClock (setTime (subTime timeTmp ofs) w1)
               else adjFreq (- (if nanoseconds ofs > 0 then ADJ_FREQ_MAX else - ADJ_FREQ_MAX)) w)
         else let norm = offsetNorm (sint (logSyncInterval (portDS c))) (nanoseconds ofs);
                  drift = clampDrift (s32 (observedDrift c + norm sdiv ai (servo c)));
                  w1 = w\<lparr>clk := c\<lparr>observedDrift := drift\<rparr>, undef := undef w \<or> \<not> servo_defined c\<rparr>
              in if noAdjust (servo c) then w1
                 else adjFreq (s32 (- s32 (norm sdiv ap (servo c) + drift))) w1)"

subsection \<open>The filter\<close>

lemma order_bounds:
  assumes "0 < n" "n \<le> 2147483647"
  shows "0 \<le> order n" and "2 ^ nat (order n) \<le> n" and "n < 2 ^ (nat (order n) + 1)" and "order n \<le> 30"
proof -
  have u: "u32 n = n" using assms by (simp add: u32_id)
  have o: "order n = floorLog2 (nat n)" using assms by (simp add: order_def u)
  have b: "0 \<le> floorLog2 (nat n)" "2 ^ nat (floorLog2 (nat n)) \<le> nat n" "nat n < 2 ^ (nat (floorLog2 (nat n)) + 1)"
    using floorLog2_bounds [of "nat n"] assms by simp_all
  from b show "0 \<le> order n" by (simp add: o)
  have l: "int (2 ^ nat (order n)) \<le> n" using b(2) assms unfolding o by linarith
  then show "2 ^ nat (order n) \<le> n" by simp
  have "n < int (2 ^ (nat (order n) + 1))" using b(3) assms unfolding o by linarith
  then show "n < 2 ^ (nat (order n) + 1)" by simp
  show "order n \<le> 30"
  proof (rule ccontr)
    assume "\<not> order n \<le> 30"
    then have "(2::int) ^ 31 \<le> 2 ^ nat (order n)" by (intro power_increasing) auto
    with l assms show False by simp
  qed
qed

lemma order_nonneg: "\<bar>n\<bar> \<le> 2147483647 \<Longrightarrow> 0 \<le> order n \<and> order n \<le> 30"
proof (cases "n = 0")
  case False
  assume a: "\<bar>n\<bar> \<le> 2147483647"
  have "order n = order \<bar>n\<bar>" using a False by (simp add: order_def s32_id)
  with order_bounds [of "\<bar>n\<bar>"] a False show ?thesis by simp
qed (simp add: order_def)

lemma quotient_bounds:
  fixes Z y :: int
  assumes "Z div 2 ^ k = y"
  shows "y * 2 ^ k \<le> Z" and "Z < (y + 1) * 2 ^ k"
proof -
  have m: "0 \<le> Z mod 2 ^ k" "Z mod 2 ^ k < 2 ^ k" by simp_all
  have e: "Z = y * 2 ^ k + Z mod 2 ^ k" using assms by (metis div_mult_mod_eq)
  show "y * 2 ^ k \<le> Z" using m e by linarith
  show "Z < (y + 1) * 2 ^ k" unfolding distrib_right mult_1_left using m e by linarith
qed

text \<open>
  One smoothing step without wrap-around: \<open>Y\<close> is the scaled sum for the order \<open>s\<close>, whose quotient is
  the previous output \<open>y\<close>. The new output is between the old one and the sample, and the sum stays
  in the range of the scaled values.
\<close>

lemma smooth_step:
  fixes Y y x :: int
  assumes Y: "Y div 2 ^ s = y"
  shows "min y x \<le> (Y + (x - y)) div 2 ^ s" and "(Y + (x - y)) div 2 ^ s \<le> max y x"
    and "min y x * 2 ^ s \<le> Y + (x - y)" and "Y + (x - y) \<le> max y x * 2 ^ s + (2 ^ s - 1)"
proof -
  let ?p = "2 ^ s :: int"
  have p: "1 \<le> ?p" by simp
  have lo: "y * ?p \<le> Y" and hi: "Y \<le> y * ?p + (?p - 1)"
    using quotient_bounds [OF Y] by (simp_all add: distrib_right)
  show L: "min y x * ?p \<le> Y + (x - y)"
  proof (cases "y \<le> x")
    case True
    with lo show ?thesis by (simp add: min_def)
  next
    case False
    have "(y - x) * 1 \<le> (y - x) * ?p" by (rule mult_left_mono) (use False in auto)
    with lo False show ?thesis by (simp add: min_def algebra_simps)
  qed
  show H: "Y + (x - y) \<le> max y x * ?p + (?p - 1)"
  proof (cases "y \<le> x")
    case True
    have "(x - y) * 1 \<le> (x - y) * ?p" by (rule mult_left_mono) (use True in auto)
    with hi True show ?thesis by (simp add: max_def algebra_simps)
  next
    case False
    with hi show ?thesis by (simp add: max_def)
  qed
  have "min y x * ?p div ?p \<le> (Y + (x - y)) div ?p" using L by (rule zdiv_mono1) simp
  then show "min y x \<le> (Y + (x - y)) div ?p" by simp
  have "(Y + (x - y)) div ?p \<le> (max y x * ?p + (?p - 1)) div ?p" using H by (rule zdiv_mono1) simp
  also have "\<dots> = max y x"
    using div_mult_self3 [of ?p "max y x" "?p - 1"] by (simp add: div_pos_pos_trivial)
  finally show "(Y + (x - y)) div ?p \<le> max y x" .
qed


text \<open>Changing the order of the sum keeps the output it stands for.\<close>

definition rescale :: "int \<Rightarrow> int \<Rightarrow> int \<Rightarrow> int" where
  "rescale sp s Y = (if sp > s then shr32 Y (sp - s) else if sp < s then shl32 Y (s - sp) else Y)"

lemma rescale_div:
  assumes "0 \<le> sp" "0 \<le> s" "Y div 2 ^ nat sp = y"
    and lo: "- 2147483648 \<le> y * 2 ^ nat s" and hi: "(y + 1) * 2 ^ nat s \<le> 2147483648"
  shows "rescale sp s Y div 2 ^ nat s = y"
proof (cases "sp < s")
  case True
  have e: "(2::int) ^ nat s = 2 ^ nat sp * 2 ^ nat (s - sp)"
    using assms(1,2) True by (simp add: power_add [symmetric] nat_diff_distrib)
  have d: "Y * 2 ^ nat (s - sp) div 2 ^ nat s = y"
    using assms(3) by (simp add: e)
  have "y * 2 ^ nat s \<le> Y * 2 ^ nat (s - sp)" "Y * 2 ^ nat (s - sp) < (y + 1) * 2 ^ nat s"
    using quotient_bounds [OF d] by simp_all
  with lo hi have "s32 (Y * 2 ^ nat (s - sp)) = Y * 2 ^ nat (s - sp)" by (intro s32_id) linarith+
  with True d show ?thesis by (simp add: rescale_def shl32_def)
next
  case False
  show ?thesis
  proof (cases "sp = s")
    case True
    with assms(3) show ?thesis by (simp add: rescale_def)
  next
    case False
    with \<open>\<not> sp < s\<close> have lt: "s < sp" by simp
    have "(2::int) ^ nat sp = 2 ^ nat (sp - s) * 2 ^ nat s"
      using assms(1,2) lt by (simp add: power_add [symmetric] nat_diff_distrib)
    then have "Y div 2 ^ nat (sp - s) div 2 ^ nat s = y"
      using assms(3) by (simp add: zdiv_zmult2_eq)
    with lt show ?thesis by (simp add: rescale_def shr32_def)
  qed
qed

definition sample_ok :: "int \<Rightarrow> int \<Rightarrow> bool" where
  "sample_ok s x \<longleftrightarrow> \<bar>x\<bar> \<le> 999999999 \<and> - 2147483648 \<le> x * 2 ^ nat s"

lemma sample_ok_between: "sample_ok s x \<Longrightarrow> sample_ok s y \<Longrightarrow> min y x \<le> z \<Longrightarrow> z \<le> max y x \<Longrightarrow> sample_ok s z"
proof -
  assume a: "sample_ok s x" "sample_ok s y" "min y x \<le> z" "z \<le> max y x"
  have "sample_ok s (min y x)" using a(1,2) by (auto simp: min_def)
  then have "- 2147483648 \<le> min y x * 2 ^ nat s" by (simp add: sample_ok_def)
  also have "min y x * 2 ^ nat s \<le> z * 2 ^ nat s" using a(3) by (rule mult_right_mono) simp
  finally show ?thesis using a by (auto simp: sample_ok_def)
qed

text \<open>Range of the scaled values for an order below both the filter order and the overflow guard.\<close>

lemma scaled_range:
  assumes ok: "sample_ok fs x" "sample_ok fs y" and s: "0 \<le> s" "s \<le> fs" "s \<le> 30 - order (max y x)"
  shows "- 2147483648 \<le> min y x * 2 ^ nat s" and "(max y x + 1) * 2 ^ nat s \<le> 2147483648"
proof -
  let ?m = "min y x" and ?M = "max y x"
  show "- 2147483648 \<le> ?m * 2 ^ nat s"
  proof (cases "0 \<le> ?m")
    case True
    then have "0 \<le> ?m * 2 ^ nat s" by simp
    then show ?thesis by linarith
  next
    case False
    have "sample_ok fs ?m" using ok by (auto simp: min_def)
    then have "- 2147483648 \<le> ?m * 2 ^ nat fs" by (simp add: sample_ok_def)
    also have "?m * 2 ^ nat fs \<le> ?m * 2 ^ nat s"
      using False s by (intro mult_left_mono_neg power_increasing) auto
    finally show ?thesis .
  qed
  have Mb: "?M \<le> 999999999" using ok by (auto simp: sample_ok_def)
  show "(?M + 1) * 2 ^ nat s \<le> 2147483648"
  proof (cases "0 < ?M")
    case True
    note o = order_bounds [OF True]
    have ob: "0 \<le> order ?M" "?M + 1 \<le> 2 ^ (nat (order ?M) + 1)" using o(1,3) Mb by linarith+
    have "(?M + 1) * 2 ^ nat s \<le> 2 ^ (nat (order ?M) + 1) * 2 ^ nat s"
      using ob(2) by (rule mult_right_mono) simp
    also have "\<dots> = (2::int) ^ (nat (order ?M) + 1 + nat s)" by (simp add: power_add)
    also have "\<dots> \<le> 2 ^ 31" using s ob(1) by (intro power_increasing) auto
    finally show ?thesis by simp
  next
    case False
    have "order ?M \<ge> 0" using order_nonneg [of ?M] ok by (auto simp: sample_ok_def max_def)
    then have p: "(2::int) ^ nat s \<le> 2 ^ 30" using s by (intro power_increasing) auto
    have "(?M + 1) * 2 ^ nat s \<le> 1 * 2 ^ nat s" using False by (intro mult_right_mono) auto
    also have "\<dots> \<le> 2147483648" using p by simp
    finally show ?thesis .
  qed
qed

definition filter_ok :: "Filter \<Rightarrow> bool" where
  "filter_ok f \<longleftrightarrow> 0 \<le> f_s f \<and> f_s f \<le> 15 \<and> 0 \<le> f_n f \<and> f_n f \<le> 2 ^ nat (f_s f) \<and>
     (0 < f_n f \<longrightarrow> 0 \<le> s_prev f \<and> y_sum f div 2 ^ nat (s_prev f) = y_prev f \<and> sample_ok (f_s f) (y_prev f))"


lemma shl32_one: "(2::int) ^ nat s \<le> 32768 \<Longrightarrow> shl32 1 s = 2 ^ nat s"
proof -
  assume "(2::int) ^ nat s \<le> 32768"
  moreover have "(0::int) < 2 ^ nat s" by simp
  ultimately show ?thesis unfolding shl32_def mult_1 by (intro s32_id) linarith+
qed

text \<open>The state of the filter that a step starts from: the first sample initialises it.\<close>

lemma filter_core:
  assumes fs: "0 \<le> fs" "fs \<le> 15" and n: "0 < n" "n \<le> 2 ^ nat fs + 1"
    and sp: "0 \<le> sp" "Y div 2 ^ nat sp = y" and ok: "sample_ok fs x" "sample_ok fs y"
  defines "s1 \<equiv> if shl32 1 fs > n then order n else fs"
    and "n' \<equiv> if shl32 1 fs > n then n else shl32 1 fs"
  defines "s \<equiv> min s1 (30 - order (max y x))"
  defines "Y' \<equiv> s32 (rescale sp s Y + s32 (x - y))"
  shows "0 < n' \<and> n' \<le> 2 ^ nat fs" and "0 \<le> s \<and> s \<le> fs" and "s16 s = s"
    and "min y x \<le> shr32 Y' s \<and> shr32 Y' s \<le> max y x" and "Y' div 2 ^ nat s = shr32 Y' s"
proof -
  have p15: "(2::int) ^ nat fs \<le> 32768" using fs power_increasing [of "nat fs" 15 "2::int"] by simp
  then have sh: "shl32 1 fs = 2 ^ nat fs" by (rule shl32_one)
  show "0 < n' \<and> n' \<le> 2 ^ nat fs" using n by (auto simp: n'_def sh)
  have nb: "n \<le> 2147483647" using n p15 by linarith
  have s1: "0 \<le> s1 \<and> s1 \<le> fs"
  proof (cases "shl32 1 fs > n")
    case True
    have "(2::int) ^ nat (order n) < 2 ^ nat fs"
      using order_bounds(2) [OF n(1) nb] True unfolding sh by linarith
    then have "nat (order n) < nat fs" by (rule power_less_imp_less_exp [rotated]) simp
    with order_bounds(1) [OF n(1) nb] True show ?thesis by (simp add: s1_def)
  next
    case False
    with fs show ?thesis by (simp add: s1_def)
  qed
  have "order (max y x) \<le> 30" using order_nonneg [of "max y x"] ok by (auto simp: sample_ok_def max_def)
  with s1 have s: "0 \<le> s" "s \<le> fs" "s \<le> 30 - order (max y x)" by (auto simp: s_def)
  then show "0 \<le> s \<and> s \<le> fs" by simp
  show "s16 s = s" using s fs by (intro s16_id) auto
  note r = scaled_range [OF ok s]
  have "min y x * 2 ^ nat s \<le> y * 2 ^ nat s" "(y + 1) * 2 ^ nat s \<le> (max y x + 1) * 2 ^ nat s"
    by (rule mult_right_mono; simp)+
  with r have yr: "- 2147483648 \<le> y * 2 ^ nat s" "(y + 1) * 2 ^ nat s \<le> 2147483648" by linarith+
  note d = rescale_div [OF sp(1) s(1) sp(2) yr]
  note st = smooth_step [OF d, of x]
  have x: "s32 (x - y) = x - y" using ok by (intro s32_id) (auto simp: sample_ok_def)
  have "max y x * 2 ^ nat s + (2 ^ nat s - 1) \<le> 2147483647" using r(2) by (simp add: distrib_right)
  with st(3,4) r(1) have Y': "Y' = rescale sp s Y + (x - y)"
    unfolding Y'_def x by (intro s32_id) linarith+
  show "min y x \<le> shr32 Y' s \<and> shr32 Y' s \<le> max y x" using st(1,2) by (simp add: Y' shr32_def)
  show "Y' div 2 ^ nat s = shr32 Y' s" by (simp add: shr32_def)
qed

lemma filter_first:
  assumes "filter_ok f" "f_n f = 0" "sample_ok (f_s f) x"
  shows "fst (filter_nsec x f) = x" and "filter_ok (snd (filter_nsec x f))"
    and "f_s (snd (filter_nsec x f)) = f_s f" and "f_n (snd (filter_nsec x f)) = 1"
    and "y_prev (snd (filter_nsec x f)) = x"
proof -
  have fs: "0 \<le> f_s f" "f_s f \<le> 15" using assms by (simp_all add: filter_ok_def)
  have p15: "(2::int) ^ nat (f_s f) \<le> 32768"
    using fs power_increasing [of "nat (f_s f)" 15 "2::int"] by simp
  then have sh: "shl32 1 (f_s f) = 2 ^ nat (f_s f)" by (rule shl32_one)
  have o1: "order 1 = 0" by (simp add: order_def floorLog2_def log2_shift_def u32_def)
  have om: "order x \<le> 30" using order_nonneg [of x] assms(3) by (simp add: sample_ok_def)
  have x: "s32 x = x" using assms(3) by (intro s32_id) (auto simp: sample_ok_def)
  have fs0: "2 ^ nat (f_s f) \<le> (1::int) \<Longrightarrow> f_s f = 0"
  proof (rule ccontr)
    assume "2 ^ nat (f_s f) \<le> (1::int)" "f_s f \<noteq> 0"
    with fs have "(2::int) ^ 1 \<le> 2 ^ nat (f_s f)" by (intro power_increasing) auto
    with \<open>2 ^ nat (f_s f) \<le> (1::int)\<close> show False by simp
  qed
  have "s32 1 = 1" "s16 0 = 0" "shl32 1 0 = 1" by (simp_all add: s32_id s16_id shl32_def)
  then have "filter_nsec x f = (x, f\<lparr>f_n := 1, y_prev := x, y_sum := x, s_prev := 0\<rparr>)"
    using fs0 om x by (cases "2 ^ nat (f_s f) \<le> (1::int)")
      (auto simp: filter_nsec_def Let_def assms(2) sh o1 shr32_def min_def)
  then show "fst (filter_nsec x f) = x" "filter_ok (snd (filter_nsec x f))"
    "f_s (snd (filter_nsec x f)) = f_s f" "f_n (snd (filter_nsec x f)) = 1" "y_prev (snd (filter_nsec x f)) = x"
    using assms p15 by (simp_all add: filter_ok_def)
qed

lemma filter_next:
  assumes "filter_ok f" "0 < f_n f" "sample_ok (f_s f) x"
  shows "min (y_prev f) x \<le> fst (filter_nsec x f) \<and> fst (filter_nsec x f) \<le> max (y_prev f) x"
    and "filter_ok (snd (filter_nsec x f))" and "f_s (snd (filter_nsec x f)) = f_s f" and "0 < f_n (snd (filter_nsec x f))"
    and "y_prev (snd (filter_nsec x f)) = fst (filter_nsec x f)"
proof -
  let ?n = "f_n f + 1" and ?y = "y_prev f"
  have f: "0 \<le> f_s f" "f_s f \<le> 15" "f_n f \<le> 2 ^ nat (f_s f)" "0 \<le> s_prev f"
    "y_sum f div 2 ^ nat (s_prev f) = ?y" "sample_ok (f_s f) ?y"
    using assms by (simp_all add: filter_ok_def)
  have n: "0 < ?n" "?n \<le> 2 ^ nat (f_s f) + 1" using f assms(2) by simp_all
  note core = filter_core [OF f(1,2) n f(4,5) assms(3) f(6)]
  have "(2::int) ^ nat (f_s f) \<le> 32768" using f power_increasing [of "nat (f_s f)" 15 "2::int"] by simp
  then have n32: "s32 ?n = ?n" using n by (intro s32_id) auto
  define s1 where "s1 = (if shl32 1 (f_s f) > ?n then order ?n else f_s f)"
  define n' where "n' = (if shl32 1 (f_s f) > ?n then ?n else shl32 1 (f_s f))"
  define s where "s = min s1 (30 - order (max ?y x))"
  define Y' where "Y' = s32 (rescale (s_prev f) s (y_sum f) + s32 (x - ?y))"
  note core = core [folded s1_def n'_def, folded s_def, folded Y'_def]
  have eq: "filter_nsec x f = (shr32 Y' s, f\<lparr>f_n := n', y_sum := Y', y_prev := shr32 Y' s, s_prev := s16 s\<rparr>)"
    using assms(2) by (cases "shl32 1 (f_s f) > ?n")
      (simp_all add: filter_nsec_def Let_def n32 s1_def n'_def s_def Y'_def rescale_def)
  show "min ?y x \<le> fst (filter_nsec x f) \<and> fst (filter_nsec x f) \<le> max ?y x"
    using core(4) by (simp add: eq)
  show "f_s (snd (filter_nsec x f)) = f_s f" "0 < f_n (snd (filter_nsec x f))"
    "y_prev (snd (filter_nsec x f)) = fst (filter_nsec x f)"
    using core(1) by (simp_all add: eq)
  have "sample_ok (f_s f) (shr32 Y' s)" using sample_ok_between [OF assms(3) f(6)] core(4) by blast
  with core f show "filter_ok (snd (filter_nsec x f))" by (simp add: eq filter_ok_def)
qed


subsection \<open>Offset and delay\<close>

lemma normal_small:
  assumes "normal_time t"
  shows "seconds t = 0 \<longleftrightarrow> \<bar>timeval t\<bar> < 1000000000" and "seconds t = 0 \<Longrightarrow> nanoseconds t = timeval t"
proof -
  show "seconds t = 0 \<longleftrightarrow> \<bar>timeval t\<bar> < 1000000000"
    using assms by (cases "seconds t = 0"; cases "seconds t > 0") (auto simp: normal_time_def timeval_def)
qed (simp add: timeval_def)

lemma two_differences:
  assumes "normal_time x" "normal_time y" "normal_time z"
    and "\<bar>seconds x - seconds y\<bar> \<le> 1000000000" "\<bar>seconds z\<bar> \<le> 200000000"
  shows "timeval (subTime (subTime x y) z) = timeval x - timeval y - timeval z"
    and "normal_time (subTime (subTime x y) z)" and "\<bar>seconds (subTime (subTime x y) z)\<bar> \<le> 1200000002"
proof -
  have d: "\<bar>seconds x - seconds y\<bar> \<le> 2147483646" using assms(4) by linarith
  note a = subTime_near [OF assms(1,2) d]
  have b: "\<bar>seconds (subTime x y) - seconds z\<bar> \<le> 1200000001" using a(3) assms(4,5) by linarith
  then have "\<bar>seconds (subTime x y) - seconds z\<bar> \<le> 2147483646" by linarith
  note c = subTime_near [OF a(2) assms(3) this]
  show "timeval (subTime (subTime x y) z) = timeval x - timeval y - timeval z" using a(1) c(1) by simp
  show "normal_time (subTime (subTime x y) z)" by (fact c(2))
  show "\<bar>seconds (subTime (subTime x y) z)\<bar> \<le> 1200000002" using c(3) b by linarith
qed

lemma updateOffset_E2E:
  assumes "delayMechanism (portDS c) = E2E" "normal_time ti" "normal_time t0" "normal_time cf"
    and "normal_time (meanPathDelay (currentDS c))"
    and "\<bar>seconds ti - seconds t0\<bar> \<le> 1000000000" "\<bar>seconds cf\<bar> \<le> 200000000"
    and "\<bar>seconds (meanPathDelay (currentDS c))\<bar> \<le> 200000000"
  defines "c' \<equiv> updateOffset ti t0 cf c" and "v \<equiv> timeval ti - timeval t0 - timeval cf - timeval (meanPathDelay (currentDS c))"
  shows "timeval (Tms c') = timeval ti - timeval t0 - timeval cf" "normal_time (Tms c')" "\<bar>seconds (Tms c')\<bar> \<le> 1200000002"
    and "meanPathDelay (currentDS c') = meanPathDelay (currentDS c)" "owd_filt c' = owd_filt c" "portDS c' = portDS c"
    and "\<bar>v\<bar> < 1000000000 \<Longrightarrow> offsetFromMaster (currentDS c') = \<lparr>seconds = 0, nanoseconds = fst (filter_nsec v (ofm_filt c))\<rparr>
           \<and> ofm_filt c' = snd (filter_nsec v (ofm_filt c))"
    and "1000000000 \<le> \<bar>v\<bar> \<Longrightarrow> timeval (offsetFromMaster (currentDS c')) = v \<and> ofm_filt c' = ofm_filt c"
proof -
  let ?tms = "subTime (subTime ti t0) cf"
  let ?ofs = "subTime ?tms (meanPathDelay (currentDS c))"
  note t = two_differences [OF assms(2-4,6,7)]
  have T: "Tms c' = ?tms"
    by (simp add: c'_def updateOffset_def Let_def assms(1) case_prod_beta)
  with t show "timeval (Tms c') = timeval ti - timeval t0 - timeval cf" "normal_time (Tms c')"
    "\<bar>seconds (Tms c')\<bar> \<le> 1200000002" by simp_all
  show "meanPathDelay (currentDS c') = meanPathDelay (currentDS c)" "owd_filt c' = owd_filt c" "portDS c' = portDS c"
    by (simp_all add: c'_def updateOffset_def Let_def assms(1) case_prod_beta)
  have d: "\<bar>seconds ?tms - seconds (meanPathDelay (currentDS c))\<bar> \<le> 2147483646" using t(3) assms(8) by linarith
  note o = subTime_near [OF t(2) assms(5) d]
  have v: "timeval ?ofs = v" using o(1) t(1) by (simp add: v_def)
  note sm = normal_small [OF o(2)]
  show "offsetFromMaster (currentDS c') = \<lparr>seconds = 0, nanoseconds = fst (filter_nsec v (ofm_filt c))\<rparr>
      \<and> ofm_filt c' = snd (filter_nsec v (ofm_filt c))" if "\<bar>v\<bar> < 1000000000"
  proof -
    have s: "seconds ?ofs = 0" "nanoseconds ?ofs = v" using sm v that by simp_all
    then have r: "?ofs\<lparr>nanoseconds := k\<rparr> = \<lparr>seconds = 0, nanoseconds = k\<rparr>" for k by (cases ?ofs) simp
    from s show ?thesis
      by (simp add: c'_def updateOffset_def Let_def assms(1) case_prod_beta r)
  qed
  show "timeval (offsetFromMaster (currentDS c')) = v \<and> ofm_filt c' = ofm_filt c" if "1000000000 \<le> \<bar>v\<bar>"
  proof -
    have "seconds ?ofs \<noteq> 0" using sm v that by simp
    then show ?thesis using v by (simp add: c'_def updateOffset_def Let_def assms(1))
  qed
qed

lemma updateDelay_value:
  assumes "f_n (ofm_filt c) \<noteq> 0" "normal_time t3" "normal_time t4" "normal_time cf" "normal_time (Tms c)"
    and "\<bar>seconds t4 - seconds t3\<bar> \<le> 700000000" "\<bar>seconds cf\<bar> \<le> 200000000" "\<bar>seconds (Tms c)\<bar> \<le> 1200000002"
  defines "c' \<equiv> updateDelay t3 t4 cf c" and "v \<equiv> (timeval (Tms c) + (timeval t4 - timeval t3 - timeval cf)) sdiv 2"
  assumes "\<bar>v\<bar> < 1000000000"
  shows "meanPathDelay (currentDS c') = \<lparr>seconds = 0, nanoseconds = fst (filter_nsec v (owd_filt c))\<rparr>"
    and "owd_filt c' = snd (filter_nsec v (owd_filt c))" "ofm_filt c' = ofm_filt c" "portDS c' = portDS c"
proof -
  let ?tsm = "subTime (subTime t4 t3) cf"
  let ?d = "div2Time (addTime (Tms c) ?tsm)"
  have b: "\<bar>seconds t4 - seconds t3\<bar> \<le> 1000000000" using assms(6) by linarith
  note t = two_differences [OF assms(3,2,4) b assms(7)]
  have "\<bar>seconds t4 - seconds t3\<bar> \<le> 2147483646" using b by linarith
  note a1 = subTime_near [OF assms(3,2) this]
  have "\<bar>seconds (subTime t4 t3) - seconds cf\<bar> \<le> 900000001" using a1(3) assms(6,7) by linarith
  moreover from this have "\<bar>seconds (subTime t4 t3) - seconds cf\<bar> \<le> 2147483646" by linarith
  note a2 = subTime_near [OF a1(2) assms(4) this]
  ultimately have ts: "\<bar>seconds ?tsm\<bar> \<le> 900000002" using a2(3) by linarith
  have "\<bar>seconds (Tms c) + seconds ?tsm\<bar> \<le> 2147483640" using ts assms(8) by linarith
  moreover from this have "\<bar>seconds (Tms c) + seconds ?tsm\<bar> \<le> 2147483646" by linarith
  note s = addTime_near [OF assms(5) t(2) this]
  ultimately have "bounded_time 2147483641 (addTime (Tms c) ?tsm)" using s(2,3) by (simp add: bounded_time_def)
  note h = div2Time_bounded [OF this]
  have v: "timeval ?d = v" using h(1) s(1) t(1) by (simp add: v_def)
  have n: "normal_time ?d" using h(2) by (simp add: bounded_time_def)
  have "seconds ?d = 0" "nanoseconds ?d = v" using normal_small [OF n] v assms(11) by simp_all
  moreover from this have "?d\<lparr>nanoseconds := k\<rparr> = \<lparr>seconds = 0, nanoseconds = k\<rparr>" for k by (cases ?d) simp
  ultimately show "meanPathDelay (currentDS c') = \<lparr>seconds = 0, nanoseconds = fst (filter_nsec v (owd_filt c))\<rparr>"
    "owd_filt c' = snd (filter_nsec v (owd_filt c))" "ofm_filt c' = ofm_filt c" "portDS c' = portDS c"
    using assms(1) by (simp_all add: c'_def updateDelay_def Let_def case_prod_beta)
qed


subsection \<open>Properties\<close>

fun filter_run :: "Filter \<Rightarrow> int list \<Rightarrow> int list" where
  "filter_run f [] = []"
| "filter_run f (x # xs) = (case filter_nsec x f of (y, f') \<Rightarrow> y # filter_run f' xs)"

lemma filter_run_between:
  assumes "filter_ok f" "\<forall>x\<in>set xs. sample_ok (f_s f) x \<and> lo \<le> x \<and> x \<le> hi"
    and "0 < f_n f \<longrightarrow> lo \<le> y_prev f \<and> y_prev f \<le> hi"
  shows "\<forall>y\<in>set (filter_run f xs). lo \<le> y \<and> y \<le> hi"
  using assms
proof (induction xs arbitrary: f)
  case Nil
  then show ?case by simp
next
  case (Cons x xs)
  obtain y f' where r: "filter_nsec x f = (y, f')" by (cases "filter_nsec x f")
  have x: "sample_ok (f_s f) x" "lo \<le> x" "x \<le> hi" using Cons.prems(2) by simp_all
  have "filter_ok f' \<and> f_s f' = f_s f \<and> lo \<le> y \<and> y \<le> hi \<and> (0 < f_n f' \<longrightarrow> lo \<le> y_prev f' \<and> y_prev f' \<le> hi)"
  proof (cases "f_n f = 0")
    case True
    note ff = filter_first [OF Cons.prems(1) True x(1), unfolded r, simplified]
    with x show ?thesis by simp
  next
    case False
    with Cons.prems(1) have n: "0 < f_n f" by (simp add: filter_ok_def)
    note fn = filter_next [OF Cons.prems(1) n x(1), unfolded r, simplified]
    with Cons.prems(3) n x show ?thesis by auto
  qed
  with Cons.IH [of f'] Cons.prems(2) show ?case by (simp add: r)
qed




lemma overflow_numbers:
  "order 100 = 6" "order 63 = 5" "order (- 50000000) = 25" "s32 64 = 64" "shl32 1 6 = 64" "s32 63 = 63" "s16 5 = 5"
  "shl32 (- 1600000000) 1 = 1094967296" "s32 50000100 = 50000100" "s32 1144967396 = 1144967396"
  "shr32 1144967396 6 = 17890115" "shr32 (- 1600000000) 5 = - 50000000" "s32 (- 1600000000) = - 1600000000"
  by (simp_all add: order_def floorLog2_def log2_shift_def u32_def s32_def shl32_def shr32_def s16_def)

text \<open>
  The overflow guard of the filter only looks at the larger of the last output and the sample, so
  it does not see a large negative value: after 63 samples of -50 ms a filter of order 6 that gets a
  sample of 100 ns jumps to about +17.9 ms, far outside its inputs.
\<close>

theorem filter_negative_overflow:
  "fst (filter_nsec 100 \<lparr>y_prev = - 50000000, y_sum = - 1600000000, f_s = 6, s_prev = 5, f_n = 63\<rparr>) = 17890115 \<and>
   filter_nsec (- 50000000) \<lparr>y_prev = - 50000000, y_sum = - 1600000000, f_s = 6, s_prev = 5, f_n = 62\<rparr> =
     (- 50000000, \<lparr>y_prev = - 50000000, y_sum = - 1600000000, f_s = 6, s_prev = 5, f_n = 63\<rparr>)"
  by (simp add: filter_nsec_def overflow_numbers)



definition servo_example :: PtpClock where
  "servo_example = ptpClock_zero\<lparr>portDS := (portDS ptpClock_zero)\<lparr>delayMechanism := E2E\<rparr>,
     ofm_filt := Filter_zero\<lparr>f_s := 1\<rparr>, owd_filt := Filter_zero\<lparr>f_s := 6\<rparr>\<rparr>"


lemma initClock_servo [simp]:
  "observedDrift (clk (initClock w)) = 0"
  "hw_ops (initClock w) = hw_ops w @ (if noAdjust (servo (clk w)) then [] else [AdjFreq 0])"
  by (simp_all add: initClock_def Let_def adjFreq_def)

lemma clampDrift_bound: "\<bar>clampDrift d\<bar> \<le> ADJ_FREQ_MAX"
  by (auto simp: clampDrift_def)

text \<open>
  Whatever offset was measured, the controller never commands a frequency correction beyond
  \<open>ADJ_FREQ_MAX\<close>, and its integral term stays within the same limit.
\<close>

theorem updateClock_bounded:
  assumes "\<bar>observedDrift (clk w)\<bar> \<le> ADJ_FREQ_MAX"
  shows "\<bar>observedDrift (clk (updateClock e w))\<bar> \<le> ADJ_FREQ_MAX \<and>
    (\<exists>ops. hw_ops (updateClock e w) = hw_ops w @ ops \<and> (\<forall>a. AdjFreq a \<in> set ops \<longrightarrow> \<bar>a\<bar> \<le> ADJ_FREQ_MAX))"
  using assms clampDrift_bound
  by (auto simp: updateClock_def Let_def adjFreq_def getTime_def setTime_def)

theorem updateClock_bounded_witness:
  "\<bar>observedDrift (clk (updateClock env_example world_zero))\<bar> \<le> 512000"
  using updateClock_bounded [of world_zero env_example] by (simp add: world_zero_def ptpClock_zero_def)

text \<open>
  A clock that is a second or more, or more than 100 ms, away from its master is set to the
  master's time in one step, unless adjustment or resetting is switched off: the hardware clock is
  written with the current time minus the offset, then the frequency is levelled, and both filters,
  the integral term and the pending follow ups start afresh.
\<close>

theorem updateClock_step:
  fixes e :: env and w :: world
  assumes "seconds (offsetFromMaster (currentDS (clk w))) \<noteq> 0 \<or> \<bar>nanoseconds (offsetFromMaster (currentDS (clk w)))\<bar> > MAX_ADJ_OFFSET_NS"
    and "\<not> noAdjust (servo (clk w))" "\<not> noResetClock (servo (clk w))"
  defines "w' \<equiv> updateClock e w"
  shows "hw_ops w' = hw_ops w @ [SetTime (subTime (e_time e (calls w)) (offsetFromMaster (currentDS (clk w)))), AdjFreq 0] \<and>
    f_n (ofm_filt (clk w')) = 0 \<and> f_n (owd_filt (clk w')) = 0 \<and> observedDrift (clk w') = 0 \<and>
    \<not> waitingForFollowUp (clk w') \<and> \<not> waitingForPDelayRespFollowUp (clk w')"
  using assms by (auto simp: updateClock_def Let_def initClock_def adjFreq_def getTime_def setTime_def)

theorem updateClock_step_witness:
  "hw_ops (updateClock env_example (world_zero\<lparr>clk := ptpClock_zero\<lparr>currentDS := (currentDS ptpClock_zero)
     \<lparr>offsetFromMaster := \<lparr>seconds = 3, nanoseconds = 0\<rparr>\<rparr>\<rparr>\<rparr>)) = [SetTime \<lparr>seconds = 4, nanoseconds = 0\<rparr>, AdjFreq 0]"
  using updateClock_step [of "world_zero\<lparr>clk := ptpClock_zero\<lparr>currentDS := (currentDS ptpClock_zero)
     \<lparr>offsetFromMaster := \<lparr>seconds = 3, nanoseconds = 0\<rparr>\<rparr>\<rparr>\<rparr>" env_example]
  by (simp add: world_zero_def zero_defs env_example_def subTime_def normalizeTime_def s32_id)

end
