(* ===== verification/PtpBmc.thy ===== *)
theory PtpBmc
  imports PtpServo "HOL-Library.List_Lexorder"
begin

text \<open>
  The best master clock algorithm, \<^verbatim>\<open>src/supports/lwip/lwip/src/exts/ptp/ptpBmc.c\<close>: initialisation of
  the data sets, the table of foreign masters, the data set comparison and the state decision. The
  lemmas show that the comparison is antisymmetric and, for different grandmasters, the lexicographic
  order on their attributes; that the table keeps one record per sender within its bounds; and which
  record the selection loop picks.
\<close>

subsection \<open>Data sets\<close>

text \<open>The sign of \<open>memcmp\<close> on arrays of the same length, the only thing the code uses of it.\<close>

fun memcmp :: "bytes \<Rightarrow> bytes \<Rightarrow> int" where
  "memcmp (x # xs) (y # ys) = (if x < y then - 1 else if y < x then 1 else memcmp xs ys)"
| "memcmp _ _ = 0"

definition EUI48toEUI64 :: "bytes \<Rightarrow> bytes" where
  "EUI48toEUI64 eui48 = [eui48 ! 0, eui48 ! 1, eui48 ! 2, 0xff, 0xfe, eui48 ! 3, eui48 ! 4, eui48 ! 5]"

definition initData :: "PtpClock \<Rightarrow> PtpClock" where
  "initData c =
     (let ident = EUI48toEUI64 (portUuidField c); opts = rtOpts c
      in c\<lparr>defaultDS := (defaultDS c)\<lparr>twoStepFlag := True, d_clockIdentity := ident, numberPorts := 1,
             d_clockQuality := r_clockQuality opts, d_priority1 := r_priority1 opts, d_priority2 := r_priority2 opts,
             d_domainNumber := r_domainNumber opts, d_slaveOnly := r_slaveOnly opts\<rparr>,
           portDS := (portDS c)\<lparr>portIdentity := \<lparr>clockIdentity = ident, portNumber = 1\<rparr>,
             logMinDelayReqInterval := DEFAULT_DELAYREQ_INTERVAL, peerMeanPathDelay := TimeInternal_zero,
             logAnnounceInterval := r_announceInterval opts,
             announceReceiptTimeout := DEFAULT_ANNOUNCE_RECEIPT_TIMEOUT,
             logSyncInterval := r_syncInterval opts, delayMechanism := r_delayMechanism opts,
             logMinPdelayReqInterval := DEFAULT_PDELAYREQ_INTERVAL, versionNumber := 2\<rparr>,
           foreignMasterDS := (foreignMasterDS c)\<lparr>fm_count := 0, fm_capacity := r_maxForeignRecords opts\<rparr>,
           inboundLatency := r_inboundLatency opts, outboundLatency := r_outboundLatency opts,
           servo := \<lparr>noResetClock = noResetClock (r_servo opts), noAdjust = noAdjust (r_servo opts),
             ap = ap (r_servo opts), ai = ai (r_servo opts), sDelay = sDelay (r_servo opts), sOffset = sOffset (r_servo opts)\<rparr>\<rparr>)"

definition isSamePortIdentity :: "PortIdentity \<Rightarrow> PortIdentity \<Rightarrow> bool" where
  "isSamePortIdentity A B \<longleftrightarrow> memcmp (clockIdentity A) (clockIdentity B) = 0 \<and> portNumber A = portNumber B"

text \<open>The search loop of \<open>addForeign\<close>: \<open>n\<close> iterations are left, starting at index \<open>j\<close>.\<close>

fun addForeign_find :: "nat \<Rightarrow> PortIdentity \<Rightarrow> ForeignMasterRecord list \<Rightarrow> nat \<Rightarrow> nat \<Rightarrow> nat option" where
  "addForeign_find 0 src recs cnt j = None"
| "addForeign_find (Suc n) src recs cnt j =
     (if isSamePortIdentity src (foreignMasterPortIdentity (recs ! j)) then Some j
      else addForeign_find n src recs cnt ((j + 1) mod cnt))"

definition addForeign :: "MsgHeader \<Rightarrow> MsgAnnounce \<Rightarrow> ForeignMasterDS \<Rightarrow> ForeignMasterDS" where
  "addForeign header announce ds =
     (case addForeign_find (fm_count ds) (sourcePortIdentity header) (fmr_records ds) (fm_count ds) (fm_best ds) of
        Some j \<Rightarrow>
          ds\<lparr>fmr_records := (fmr_records ds)[j := (fmr_records ds ! j)
               \<lparr>foreignMasterAnnounceMessages := foreignMasterAnnounceMessages (fmr_records ds ! j) + 1,
                fm_header := header, fm_announce := announce\<rparr>]\<rparr>
      | None \<Rightarrow>
          ds\<lparr>fm_count := (if fm_count ds < fm_capacity ds then fm_count ds + 1 else fm_count ds),
             fmr_records := (fmr_records ds)[fm_i ds := (fmr_records ds ! fm_i ds)
               \<lparr>foreignMasterPortIdentity := \<lparr>clockIdentity = clockIdentity (sourcePortIdentity header),
                   portNumber = portNumber (sourcePortIdentity header)\<rparr>,
                foreignMasterAnnounceMessages := 0,
                fm_header := header, fm_announce := announce\<rparr>],
             fm_i := (fm_i ds + 1) mod fm_capacity ds\<rparr>)"

text \<open>The macro \<open>m2\<close> is \<open>m1\<close>; \<open>p1\<close> does nothing.\<close>

definition m1 :: "PtpClock \<Rightarrow> PtpClock" where
  "m1 c = c\<lparr>currentDS := (currentDS c)\<lparr>stepsRemoved := 0, offsetFromMaster := TimeInternal_zero, meanPathDelay := TimeInternal_zero\<rparr>,
     parentDS := (parentDS c)\<lparr>parentPortIdentity := \<lparr>clockIdentity = d_clockIdentity (defaultDS c), portNumber = 0\<rparr>,
       grandmasterIdentity := d_clockIdentity (defaultDS c),
       grandmasterClockQuality := d_clockQuality (defaultDS c),
       grandmasterPriority1 := d_priority1 (defaultDS c), grandmasterPriority2 := d_priority2 (defaultDS c)\<rparr>,
     timePropertiesDS := \<lparr>currentUtcOffset = r_currentUtcOffset (rtOpts c), currentUtcOffsetValid = False,
       leap59 = False, leap61 = False, timeTraceable = False, frequencyTraceable = False, ptpTimescale = False,
       timeSource = INTERNAL_OSCILLATOR\<rparr>\<rparr>"

definition p1 :: "PtpClock \<Rightarrow> PtpClock" where
  "p1 c = c"

definition s1 :: "MsgHeader \<Rightarrow> MsgAnnounce \<Rightarrow> PtpClock \<Rightarrow> PtpClock" where
  "s1 header announce c =
     (let isFromCurrentParent = isSamePortIdentity (parentPortIdentity (parentDS c)) (sourcePortIdentity header);
          flags = flagField header ! 1
      in c\<lparr>currentDS := (currentDS c)\<lparr>stepsRemoved := a_stepsRemoved announce + 1\<rparr>,
           events := (if \<not> isFromCurrentParent then setFlag (events c) MASTER_CLOCK_CHANGED else events c),
           parentDS := (parentDS c)\<lparr>parentPortIdentity := \<lparr>clockIdentity = clockIdentity (sourcePortIdentity header),
               portNumber = portNumber (sourcePortIdentity header)\<rparr>,
             grandmasterIdentity := a_grandmasterIdentity announce,
             grandmasterClockQuality := a_grandmasterClockQuality announce,
             grandmasterPriority1 := a_grandmasterPriority1 announce,
             grandmasterPriority2 := a_grandmasterPriority2 announce\<rparr>,
           timePropertiesDS := \<lparr>currentUtcOffset = a_currentUtcOffset announce,
             currentUtcOffsetValid = getFlag flags FLAG1_UTC_OFFSET_VALID,
             leap59 = getFlag flags FLAG1_LEAP59, leap61 = getFlag flags FLAG1_LEAP61,
             timeTraceable = getFlag flags FLAG1_TIME_TRACEABLE,
             frequencyTraceable = getFlag flags FLAG1_FREQUENCY_TRACEABLE,
             ptpTimescale = getFlag flags FLAG1_PTP_TIMESCALE,
             timeSource = a_timeSource announce\<rparr>\<rparr>)"

definition copyD0 :: "PtpClock \<Rightarrow> PtpClock" where
  "copyD0 c =
     c\<lparr>msgTmp_announce := (msgTmp_announce c)\<lparr>a_grandmasterPriority1 := d_priority1 (defaultDS c),
         a_grandmasterIdentity := d_clockIdentity (defaultDS c),
         a_grandmasterClockQuality := d_clockQuality (defaultDS c),
         a_grandmasterPriority2 := d_priority2 (defaultDS c), a_stepsRemoved := 0\<rparr>,
       msgTmpHeader := (msgTmpHeader c)\<lparr>sourcePortIdentity :=
         (sourcePortIdentity (msgTmpHeader c))\<lparr>clockIdentity := d_clockIdentity (defaultDS c)\<rparr>\<rparr>\<rparr>"

subsection \<open>Comparison and decision\<close>

abbreviation (input) A_better_then_B :: int where "A_better_then_B \<equiv> 1"
abbreviation (input) B_better_then_A :: int where "B_better_then_A \<equiv> - 1"
abbreviation (input) A_better_by_topology_then_B :: int where "A_better_by_topology_then_B \<equiv> 1"
abbreviation (input) B_better_by_topology_then_A :: int where "B_better_by_topology_then_A \<equiv> - 1"
abbreviation (input) ERROR_1 :: int where "ERROR_1 \<equiv> 0"
abbreviation (input) ERROR_2 :: int where "ERROR_2 \<equiv> 0"

text \<open>The macro \<open>COMPARE_AB_RETURN_BETTER\<close> on the two values, with what follows it as the last argument.\<close>

definition compare_AB :: "int \<Rightarrow> int \<Rightarrow> int \<Rightarrow> int" where
  "compare_AB a b rest = (if a > b then B_better_then_A else if b > a then A_better_then_B else rest)"

definition comparison_part2 :: "MsgHeader \<Rightarrow> MsgAnnounce \<Rightarrow> MsgHeader \<Rightarrow> MsgAnnounce \<Rightarrow> PtpClock \<Rightarrow> int" where
  "comparison_part2 headerA announceA headerB announceB c =
     (let a = sint (a_stepsRemoved announceA); b = sint (a_stepsRemoved announceB);
          own = clockIdentity (portIdentity (portDS c))
      in if a > b + 1 then B_better_then_A
         else if b > a + 1 then A_better_then_B
         else if a > b then
           (let comp = memcmp (clockIdentity (sourcePortIdentity headerA)) own
            in if comp > 0 then B_better_then_A else if comp < 0 then B_better_by_topology_then_A else ERROR_1)
         else if a < b then
           (let comp = memcmp (clockIdentity (sourcePortIdentity headerB)) own
            in if comp > 0 then A_better_then_B else if comp < 0 then A_better_by_topology_then_B else ERROR_1)
         else
           (let comp = memcmp (clockIdentity (sourcePortIdentity headerA)) (clockIdentity (sourcePortIdentity headerB))
            in if comp > 0 then B_better_by_topology_then_A
               else if comp < 0 then A_better_by_topology_then_B else ERROR_2))"

definition bmcDataSetComparison :: "MsgHeader \<Rightarrow> MsgAnnounce \<Rightarrow> MsgHeader \<Rightarrow> MsgAnnounce \<Rightarrow> PtpClock \<Rightarrow> int" where
  "bmcDataSetComparison headerA announceA headerB announceB c =
     (let grandmasterIdentityComp = memcmp (a_grandmasterIdentity announceA) (a_grandmasterIdentity announceB);
          qa = a_grandmasterClockQuality announceA; qb = a_grandmasterClockQuality announceB
      in if grandmasterIdentityComp \<noteq> 0
         then compare_AB (uint (a_grandmasterPriority1 announceA)) (uint (a_grandmasterPriority1 announceB))
              (compare_AB (uint (clockClass qa)) (uint (clockClass qb))
              (compare_AB (uint (clockAccuracy qa)) (uint (clockAccuracy qb))
              (compare_AB (sint (offsetScaledLogVariance qa)) (sint (offsetScaledLogVariance qb))
              (compare_AB (uint (a_grandmasterPriority2 announceA)) (uint (a_grandmasterPriority2 announceB))
              (if grandmasterIdentityComp > 0 then B_better_then_A else A_better_then_B)))))
         else comparison_part2 headerA announceA headerB announceB c)"

definition bmcStateDecision :: "MsgHeader \<Rightarrow> MsgAnnounce \<Rightarrow> PtpClock \<Rightarrow> port_state \<times> PtpClock" where
  "bmcStateDecision header announce c0 =
     (if fm_count (foreignMasterDS c0) = 0 \<and> portState (portDS c0) = PTP_LISTENING
      then (PTP_LISTENING, c0)
      else let c = copyD0 c0;
               comp = bmcDataSetComparison (msgTmpHeader c) (msgTmp_announce c) header announce c
           in if clockClass (d_clockQuality (defaultDS c)) < 128
              then (if comp = A_better_then_B then (PTP_MASTER, m1 c) else (PTP_PASSIVE, p1 c))
              else (if comp = A_better_then_B then (PTP_MASTER, m1 c) else (PTP_SLAVE, s1 header announce c)))"

text \<open>The selection loop: the records of index \<open>i\<close>, \<open>i + 1\<close>, \<open>\<dots>\<close> below the count are left.\<close>

fun bmc_loop :: "PtpClock \<Rightarrow> nat list \<Rightarrow> nat \<Rightarrow> nat" where
  "bmc_loop c [] best = best"
| "bmc_loop c (i # is) best =
     (let recs = fmr_records (foreignMasterDS c)
      in bmc_loop c is (if bmcDataSetComparison (fm_header (recs ! i)) (fm_announce (recs ! i))
            (fm_header (recs ! best)) (fm_announce (recs ! best)) c < 0 then i else best))"

definition bmc :: "PtpClock \<Rightarrow> port_state \<times> PtpClock" where
  "bmc c =
     (let ds = foreignMasterDS c; best = bmc_loop c [1..<fm_count ds] 0
      in bmcStateDecision (fm_header (fmr_records ds ! best)) (fm_announce (fmr_records ds ! best))
           (c\<lparr>foreignMasterDS := ds\<lparr>fm_best := best\<rparr>\<rparr>))"

subsection \<open>The comparison is an order\<close>

lemma memcmp_antisym: "memcmp ys xs = - memcmp xs ys"
  by (induction xs ys rule: memcmp.induct) auto

lemma memcmp_eq_0: "length xs = length ys \<Longrightarrow> memcmp xs ys = 0 \<longleftrightarrow> xs = ys"
  by (induction xs ys rule: memcmp.induct) auto

lemma memcmp_range: "memcmp xs ys = - 1 \<or> memcmp xs ys = 0 \<or> memcmp xs ys = 1"
  by (induction xs ys rule: memcmp.induct) auto

lemma memcmp_less: "length xs = length ys \<Longrightarrow> memcmp xs ys < 0 \<longleftrightarrow> map uint xs < map uint ys"
  by (induction xs ys rule: memcmp.induct) (auto simp: word_less_def)

lemma compare_AB_antisym: "r' = - r \<Longrightarrow> compare_AB b a r' = - compare_AB a b r"
  by (simp add: compare_AB_def)

lemma compare_AB_range: "r \<in> {- 1, 0, 1} \<Longrightarrow> compare_AB a b r \<in> {- 1, 0, 1}"
  by (simp add: compare_AB_def)

lemma comparison_part2_antisym:
  "comparison_part2 hB aB hA aA c = - comparison_part2 hA aA hB aB c"
  using memcmp_antisym [of "clockIdentity (sourcePortIdentity hB)" "clockIdentity (sourcePortIdentity hA)"]
  by (simp add: comparison_part2_def Let_def)

lemma comparison_antisym:
  "bmcDataSetComparison hB aB hA aA c = - bmcDataSetComparison hA aA hB aB c"
proof -
  have m: "memcmp (a_grandmasterIdentity aB) (a_grandmasterIdentity aA) = - memcmp (a_grandmasterIdentity aA) (a_grandmasterIdentity aB)"
    by (rule memcmp_antisym)
  show ?thesis
    unfolding bmcDataSetComparison_def Let_def m
    by (auto intro!: compare_AB_antisym comparison_part2_antisym)
qed

lemma isSame_eq:
  "length (clockIdentity A) = 8 \<Longrightarrow> length (clockIdentity B) = 8 \<Longrightarrow> isSamePortIdentity A B \<longleftrightarrow> A = B"
  by (auto simp: isSamePortIdentity_def memcmp_eq_0)


text \<open>The attributes of a grandmaster in the order of Figure 27, best first.\<close>

definition gm_key :: "MsgAnnounce \<Rightarrow> int list" where
  "gm_key a = [uint (a_grandmasterPriority1 a), uint (clockClass (a_grandmasterClockQuality a)),
     uint (clockAccuracy (a_grandmasterClockQuality a)), sint (offsetScaledLogVariance (a_grandmasterClockQuality a)),
     uint (a_grandmasterPriority2 a)] @ map uint (a_grandmasterIdentity a)"

lemma compare_AB_1: "compare_AB a b r = 1 \<longleftrightarrow> a < b \<or> a = b \<and> r = 1"
  by (auto simp: compare_AB_def)

lemma comparison_key:
  assumes "length (a_grandmasterIdentity aA) = 8" "length (a_grandmasterIdentity aB) = 8"
    and "a_grandmasterIdentity aA \<noteq> a_grandmasterIdentity aB"
  shows "bmcDataSetComparison hA aA hB aB c = 1 \<longleftrightarrow> gm_key aA < gm_key aB"
proof -
  let ?m = "memcmp (a_grandmasterIdentity aA) (a_grandmasterIdentity aB)"
  have l: "length (a_grandmasterIdentity aA) = length (a_grandmasterIdentity aB)" using assms by simp
  have nz: "?m \<noteq> 0" using memcmp_eq_0 [OF l] assms(3) by simp
  have neg: "\<not> ?m > 0 \<longleftrightarrow> map uint (a_grandmasterIdentity aA) < map uint (a_grandmasterIdentity aB)"
    using memcmp_less [OF l] nz by linarith
  show ?thesis
    using nz neg by (auto simp: bmcDataSetComparison_def Let_def compare_AB_1 gm_key_def)
qed

lemma comparison_key':
  assumes "length (a_grandmasterIdentity aA) = 8" "length (a_grandmasterIdentity aB) = 8"
    and "a_grandmasterIdentity aA \<noteq> a_grandmasterIdentity aB"
  shows "bmcDataSetComparison hA aA hB aB c < 0 \<longleftrightarrow> gm_key aB < gm_key aA"
proof -
  have "bmcDataSetComparison hA aA hB aB c \<in> {- 1, 1}"
    using memcmp_eq_0 [of "a_grandmasterIdentity aA" "a_grandmasterIdentity aB"] assms
    by (auto simp: bmcDataSetComparison_def Let_def compare_AB_def)
  then have "bmcDataSetComparison hA aA hB aB c < 0 \<longleftrightarrow> bmcDataSetComparison hB aB hA aA c = 1"
    using comparison_antisym [of hB aB hA aA c] by auto
  also have "\<dots> \<longleftrightarrow> gm_key aB < gm_key aA" using assms by (intro comparison_key) auto
  finally show ?thesis .
qed

subsection \<open>The table of foreign masters\<close>

lemma find_Some:
  "addForeign_find n src recs cnt j = Some k \<Longrightarrow> j < cnt \<Longrightarrow>
   k < cnt \<and> isSamePortIdentity src (foreignMasterPortIdentity (recs ! k))"
  by (induction n arbitrary: j) (auto split: if_splits)

lemma find_None:
  "addForeign_find n src recs cnt j = None \<Longrightarrow> m < n \<Longrightarrow> j < cnt \<Longrightarrow>
   \<not> isSamePortIdentity src (foreignMasterPortIdentity (recs ! ((j + m) mod cnt)))"
proof (induction n arbitrary: j m)
  case 0
  then show ?case by simp
next
  case (Suc n)
  then have s: "\<not> isSamePortIdentity src (foreignMasterPortIdentity (recs ! j))"
    and r: "addForeign_find n src recs cnt ((j + 1) mod cnt) = None" by (auto split: if_splits)
  show ?case
  proof (cases m)
    case 0
    with s Suc.prems show ?thesis by simp
  next
    case (Suc m')
    have "((j + 1) mod cnt + m') mod cnt = (j + m) mod cnt" by (simp add: Suc mod_add_left_eq)
    with Suc.IH [OF r, of m'] Suc.prems Suc show ?thesis by simp
  qed
qed

lemma find_all_None:
  assumes "addForeign_find cnt src recs cnt j = None" "j < cnt" "k < cnt"
  shows "\<not> isSamePortIdentity src (foreignMasterPortIdentity (recs ! k))"
proof -
  let ?m = "(k + cnt - j) mod cnt"
  have "(j + ?m) mod cnt = (j + (k + cnt - j)) mod cnt" by (rule mod_add_right_eq)
  also have "\<dots> = k" using assms(2,3) by simp
  finally show ?thesis using find_None [OF assms(1) _ assms(2), of ?m] assms(2) by simp
qed

text \<open>
  The table: \<open>fm_tab\<close> is what holds between calls, \<open>fm_ok\<close> adds that the index of the selected record,
  where the search of \<open>addForeign\<close> starts, points into the used part of the table. The announce time-out
  empties the table without resetting that index.
\<close>

definition fm_tab :: "ForeignMasterDS \<Rightarrow> bool" where
  "fm_tab ds \<longleftrightarrow> 0 < fm_capacity ds \<and> fm_capacity ds \<le> length (fmr_records ds) \<and> fm_count ds \<le> fm_capacity ds \<and>
     fm_i ds < fm_capacity ds \<and> (fm_count ds < fm_capacity ds \<longrightarrow> fm_i ds = fm_count ds) \<and> fm_best ds < fm_capacity ds \<and>
     (\<forall>k<fm_count ds. length (clockIdentity (foreignMasterPortIdentity (fmr_records ds ! k))) = 8) \<and>
     (\<forall>j<fm_count ds. \<forall>k<fm_count ds. j \<noteq> k \<longrightarrow>
        foreignMasterPortIdentity (fmr_records ds ! j) \<noteq> foreignMasterPortIdentity (fmr_records ds ! k))"

definition fm_ok :: "ForeignMasterDS \<Rightarrow> bool" where
  "fm_ok ds \<longleftrightarrow> fm_tab ds \<and> (fm_count ds = 0 \<or> fm_best ds < fm_count ds)"

lemmas fm_defs = fm_ok_def fm_tab_def

lemma find_total:
  assumes "fm_ok ds" "length (clockIdentity src) = 8"
  shows "case addForeign_find (fm_count ds) src (fmr_records ds) (fm_count ds) (fm_best ds) of
     Some j \<Rightarrow> j < fm_count ds \<and> foreignMasterPortIdentity (fmr_records ds ! j) = src
   | None \<Rightarrow> \<forall>k<fm_count ds. foreignMasterPortIdentity (fmr_records ds ! k) \<noteq> src"
proof (cases "fm_count ds = 0")
  case True
  then show ?thesis by simp
next
  case False
  then have b: "fm_best ds < fm_count ds" using assms(1) by (auto simp: fm_defs)
  have l: "k < fm_count ds \<Longrightarrow> length (clockIdentity (foreignMasterPortIdentity (fmr_records ds ! k))) = 8" for k
    using assms(1) by (simp add: fm_defs)
  show ?thesis
    using find_Some [OF _ b, of "fm_count ds" src "fmr_records ds"]
      find_all_None [OF _ b, of src "fmr_records ds"] isSame_eq [OF assms(2) l]
    by (fastforce split: option.split)
qed

lemma addForeign_known:
  assumes "fm_ok ds" "length (clockIdentity (sourcePortIdentity h)) = 8" "j < fm_count ds"
    and "foreignMasterPortIdentity (fmr_records ds ! j) = sourcePortIdentity h"
  shows "addForeign h a ds = ds\<lparr>fmr_records := (fmr_records ds)[j := (fmr_records ds ! j)
      \<lparr>foreignMasterAnnounceMessages := foreignMasterAnnounceMessages (fmr_records ds ! j) + 1,
       fm_header := h, fm_announce := a\<rparr>]\<rparr>"
proof -
  obtain k where k: "addForeign_find (fm_count ds) (sourcePortIdentity h) (fmr_records ds) (fm_count ds) (fm_best ds) = Some k"
      "k < fm_count ds" "foreignMasterPortIdentity (fmr_records ds ! k) = sourcePortIdentity h"
    using find_total [OF assms(1,2)] assms(3,4) by (auto split: option.splits)
  have "k = j" using k(2,3) assms unfolding fm_defs by metis
  with k(1) show ?thesis by (simp add: addForeign_def)
qed

lemma addForeign_new:
  assumes "fm_ok ds" "length (clockIdentity (sourcePortIdentity h)) = 8"
    and "\<forall>k<fm_count ds. foreignMasterPortIdentity (fmr_records ds ! k) \<noteq> sourcePortIdentity h"
  shows "addForeign h a ds = ds\<lparr>fm_count := min (fm_count ds + 1) (fm_capacity ds),
      fmr_records := (fmr_records ds)[fm_i ds := \<lparr>foreignMasterPortIdentity = sourcePortIdentity h,
        foreignMasterAnnounceMessages = 0, fm_announce = a, fm_header = h\<rparr>],
      fm_i := (fm_i ds + 1) mod fm_capacity ds\<rparr>"
proof -
  have f: "addForeign_find (fm_count ds) (sourcePortIdentity h) (fmr_records ds) (fm_count ds) (fm_best ds) = None"
    using find_total [OF assms(1,2)] assms(3) by (auto split: option.splits)
  have m: "min (fm_count ds + 1) (fm_capacity ds) = (if fm_count ds < fm_capacity ds then fm_count ds + 1 else fm_count ds)"
    using assms(1) by (simp add: fm_defs)
  have src: "\<lparr>clockIdentity = clockIdentity (sourcePortIdentity h), portNumber = portNumber (sourcePortIdentity h)\<rparr>
      = sourcePortIdentity h" by (cases "sourcePortIdentity h") simp
  show ?thesis unfolding m
    by (cases "fmr_records ds ! fm_i ds") (simp add: addForeign_def f src)
qed


lemma addForeign_ok:
  assumes "fm_ok ds" "length (clockIdentity (sourcePortIdentity h)) = 8"
  shows "fm_tab (addForeign h a ds)"
proof (cases "\<exists>j<fm_count ds. foreignMasterPortIdentity (fmr_records ds ! j) = sourcePortIdentity h")
  case True
  then obtain j where j: "j < fm_count ds" "foreignMasterPortIdentity (fmr_records ds ! j) = sourcePortIdentity h" by blast
  have nth: "foreignMasterPortIdentity ((fmr_records ds)[j := (fmr_records ds ! j)\<lparr>foreignMasterAnnounceMessages := n,
      fm_header := h, fm_announce := a\<rparr>] ! k) = foreignMasterPortIdentity (fmr_records ds ! k)" for k n
    by (cases "k = j"; cases "j < length (fmr_records ds)") (simp_all add: list_update_beyond)
  show ?thesis using assms(1) by (simp add: addForeign_known [OF assms j] fm_defs nth)
next
  case False
  then have no: "\<forall>k<fm_count ds. foreignMasterPortIdentity (fmr_records ds ! k) \<noteq> sourcePortIdentity h" by blast
  let ?ds = "addForeign h a ds" and ?r = "fmr_records (addForeign h a ds)"
  note new = addForeign_new [OF assms no, of a]
  have i: "fm_i ds < length (fmr_records ds)" using assms(1) by (simp add: fm_defs)
  have nth: "foreignMasterPortIdentity (?r ! k) =
      (if k = fm_i ds then sourcePortIdentity h else foreignMasterPortIdentity (fmr_records ds ! k))" for k
    using i by (simp add: new)
  have old: "k < fm_count ds" if "k < fm_count ?ds" "k \<noteq> fm_i ds" for k
    using that assms(1) by (auto simp: new fm_defs)
  have l: "\<forall>k<fm_count ?ds. length (clockIdentity (foreignMasterPortIdentity (?r ! k))) = 8"
    using old assms by (simp add: nth fm_defs)
  have d: "foreignMasterPortIdentity (?r ! j) \<noteq> foreignMasterPortIdentity (?r ! k)"
    if "j < fm_count ?ds" "k < fm_count ?ds" "j \<noteq> k" for j k
    using that old no assms(1) unfolding nth fm_defs by (metis (no_types, lifting))
  have c: "0 < fm_capacity ?ds" "fm_capacity ?ds \<le> length ?r" "fm_count ?ds \<le> fm_capacity ?ds"
    "fm_i ?ds < fm_capacity ?ds" "fm_best ?ds < fm_capacity ?ds"
    "fm_count ?ds < fm_capacity ?ds \<longrightarrow> fm_i ?ds = fm_count ?ds"
    using assms(1) by (auto simp: new fm_defs)
  show ?thesis unfolding fm_tab_def using c l d by blast
qed

text \<open>
  C12: The table of foreign masters stays within its bounds and keeps exactly one record per sender.
  An Announce of a known sender replaces that sender's record and counts the message; one of a new
  sender is stored in the slot of the ring index, and the number of records grows until the capacity
  is reached.
\<close>

theorem addForeign_table:
  assumes "fm_ok ds" "length (clockIdentity (sourcePortIdentity h)) = 8"
  shows "fm_tab (addForeign h a ds) \<and>
    (\<exists>k<fm_count (addForeign h a ds). foreignMasterPortIdentity (fmr_records (addForeign h a ds) ! k) = sourcePortIdentity h \<and>
       fm_header (fmr_records (addForeign h a ds) ! k) = h \<and> fm_announce (fmr_records (addForeign h a ds) ! k) = a) \<and>
    fm_count (addForeign h a ds) = (if \<exists>k<fm_count ds. foreignMasterPortIdentity (fmr_records ds ! k) = sourcePortIdentity h
       then fm_count ds else min (fm_count ds + 1) (fm_capacity ds))"
proof (cases "\<exists>j<fm_count ds. foreignMasterPortIdentity (fmr_records ds ! j) = sourcePortIdentity h")
  case True
  then obtain j where j: "j < fm_count ds" "foreignMasterPortIdentity (fmr_records ds ! j) = sourcePortIdentity h" by blast
  moreover have "j < length (fmr_records ds)" using assms(1) j(1) by (simp add: fm_defs)
  ultimately show ?thesis
    using addForeign_ok [OF assms] True by (auto simp: addForeign_known [OF assms j] intro!: exI [of _ j])
next
  case False
  then have no: "\<forall>k<fm_count ds. foreignMasterPortIdentity (fmr_records ds ! k) \<noteq> sourcePortIdentity h" by blast
  have "fm_i ds < min (fm_count ds + 1) (fm_capacity ds)" "fm_i ds < length (fmr_records ds)"
    using assms(1) by (auto simp: fm_defs)
  then show ?thesis
    using addForeign_ok [OF assms] False by (auto simp: addForeign_new [OF assms no] intro!: exI [of _ "fm_i ds"])
qed

definition fm_example :: ForeignMasterDS where
  "fm_example = \<lparr>fmr_records = replicate 5 ForeignMasterRecord_zero, fm_count = 0, fm_capacity = 5, fm_i = 0, fm_best = 0\<rparr>"

lemma fm_example_ok: "fm_ok fm_example" "fm_count fm_example = 0" "fm_capacity fm_example = 5"
  by (simp_all add: fm_example_def fm_defs)

theorem addForeign_table_witness:
  "fm_count (addForeign MsgHeader_zero MsgAnnounce_zero fm_example) = 1 \<and>
   fm_tab (addForeign MsgHeader_zero MsgAnnounce_zero fm_example)"
  using addForeign_table [OF fm_example_ok(1), of MsgHeader_zero MsgAnnounce_zero]
  by (simp add: fm_example_ok MsgHeader_zero_def PortIdentity_zero_def)

subsection \<open>Properties of the comparison and of the decision\<close>

text \<open>
  Swapping the two data sets negates the result of the data set comparison, on every branch: the
  grandmaster attributes, the number of steps removed, and the topology.
\<close>

theorem bmcDataSetComparison_antisym:
  "bmcDataSetComparison hB aB hA aA c = - bmcDataSetComparison hA aA hB aB c"
  by (rule comparison_antisym)

text \<open>
  C13: For two different grandmasters the first data set is better exactly when its attributes
  (priority 1, class, accuracy, variance, priority 2, identity) come first in the lexicographic order.
\<close>

theorem bmcDataSetComparison_lexicographic:
  assumes "length (a_grandmasterIdentity aA) = 8" "length (a_grandmasterIdentity aB) = 8"
    and "a_grandmasterIdentity aA \<noteq> a_grandmasterIdentity aB"
  shows "(bmcDataSetComparison hA aA hB aB c = A_better_then_B \<longleftrightarrow> gm_key aA < gm_key aB) \<and>
         (bmcDataSetComparison hA aA hB aB c < 0 \<longleftrightarrow> gm_key aB < gm_key aA)"
  using comparison_key [OF assms] comparison_key' [OF assms] by blast

theorem bmcDataSetComparison_lexicographic_witness:
  "bmcDataSetComparison MsgHeader_zero (MsgAnnounce_zero\<lparr>a_grandmasterPriority1 := 128\<rparr>)
     MsgHeader_zero (MsgAnnounce_zero\<lparr>a_grandmasterIdentity := replicate 8 1\<rparr>) ptpClock_zero < 0"
  using bmcDataSetComparison_lexicographic [of "MsgAnnounce_zero\<lparr>a_grandmasterPriority1 := 128\<rparr>"
      "MsgAnnounce_zero\<lparr>a_grandmasterIdentity := replicate 8 1\<rparr>" MsgHeader_zero MsgHeader_zero ptpClock_zero]
  by (simp add: MsgAnnounce_zero_def gm_key_def)

lemma bmc_loop_max:
  assumes "\<forall>i\<in>insert best (set is). length (a_grandmasterIdentity (fm_announce (fmr_records (foreignMasterDS c) ! i))) = 8"
    and "\<forall>i\<in>insert best (set is). \<forall>j\<in>insert best (set is). i \<noteq> j \<longrightarrow>
      a_grandmasterIdentity (fm_announce (fmr_records (foreignMasterDS c) ! i)) \<noteq>
      a_grandmasterIdentity (fm_announce (fmr_records (foreignMasterDS c) ! j))"
    and "best \<notin> set is" "distinct is"
  defines "key \<equiv> \<lambda>i. gm_key (fm_announce (fmr_records (foreignMasterDS c) ! i))"
  shows "bmc_loop c is best \<in> insert best (set is) \<and> (\<forall>i\<in>insert best (set is). key i \<le> key (bmc_loop c is best))"
  using assms(1-4)
proof (induction "is" arbitrary: best)
  case Nil
  then show ?case by simp
next
  case (Cons i "is")
  have "bmcDataSetComparison (fm_header (fmr_records (foreignMasterDS c) ! i)) (fm_announce (fmr_records (foreignMasterDS c) ! i))
      (fm_header (fmr_records (foreignMasterDS c) ! best)) (fm_announce (fmr_records (foreignMasterDS c) ! best)) c < 0
    \<longleftrightarrow> key best < key i"
    unfolding key_def using Cons.prems by (intro comparison_key') auto
  then have step: "bmc_loop c (i # is) best = bmc_loop c is (if key best < key i then i else best)"
    by (simp add: Let_def)
  show ?case
  proof (cases "key best < key i")
    case True
    have "bmc_loop c is i \<in> insert i (set is) \<and> (\<forall>k\<in>insert i (set is). key k \<le> key (bmc_loop c is i))"
      using Cons.prems by (intro Cons.IH) auto
    with True show ?thesis unfolding step by (auto intro: order.trans [OF less_imp_le])
  next
    case False
    have "bmc_loop c is best \<in> insert best (set is) \<and> (\<forall>k\<in>insert best (set is). key k \<le> key (bmc_loop c is best))"
      using Cons.prems by (intro Cons.IH) auto
    with False show ?thesis unfolding step by (auto intro: order.trans)
  qed
qed


lemma bmcStateDecision_frame [simp]:
  "foreignMasterDS (snd (bmcStateDecision h a c)) = foreignMasterDS c"
  "defaultDS (snd (bmcStateDecision h a c)) = defaultDS c"
  "portDS (snd (bmcStateDecision h a c)) = portDS c"
  "rtOpts (snd (bmcStateDecision h a c)) = rtOpts c"
  "recommendedState (snd (bmcStateDecision h a c)) = recommendedState c"
  "netPath (snd (bmcStateDecision h a c)) = netPath c"
  by (simp_all add: bmcStateDecision_def Let_def copyD0_def m1_def p1_def s1_def)

lemma bmc_frame [simp]:
  "defaultDS (snd (bmc c)) = defaultDS c" "portDS (snd (bmc c)) = portDS c" "rtOpts (snd (bmc c)) = rtOpts c"
  "recommendedState (snd (bmc c)) = recommendedState c" "netPath (snd (bmc c)) = netPath c"
  "foreignMasterDS (snd (bmc c)) = (foreignMasterDS c)\<lparr>fm_best := bmc_loop c [1..<fm_count (foreignMasterDS c)] 0\<rparr>"
  by (simp_all add: bmc_def Let_def)

lemma bmc_loop_in: "bmc_loop c is best \<in> insert best (set is)"
  by (induction "is" arbitrary: best) (auto simp: Let_def split: if_splits)

lemma bmc_fm_ok: "fm_tab (foreignMasterDS c) \<Longrightarrow> fm_ok (foreignMasterDS (snd (bmc c)))"
  using bmc_loop_in [of c "[1..<fm_count (foreignMasterDS c)]" 0] by (auto simp: fm_defs)

text \<open>
  The selection loop of \<open>bmc\<close> picks the last ranked foreign master, not the best one: when the
  recorded grandmasters are pairwise different, every other record is better than the selected one
  according to the comparison of the code itself. (The loop moves on when the comparison is negative,
  which means that the record held so far is the better one.)
\<close>

theorem bmc_selects_last_ranked:
  assumes "k < fm_count (foreignMasterDS c)"
    and "\<forall>i<fm_count (foreignMasterDS c). length (a_grandmasterIdentity (fm_announce (fmr_records (foreignMasterDS c) ! i))) = 8"
    and "\<forall>i<fm_count (foreignMasterDS c). \<forall>j<fm_count (foreignMasterDS c). i \<noteq> j \<longrightarrow>
      a_grandmasterIdentity (fm_announce (fmr_records (foreignMasterDS c) ! i)) \<noteq>
      a_grandmasterIdentity (fm_announce (fmr_records (foreignMasterDS c) ! j))"
  defines "recs \<equiv> fmr_records (foreignMasterDS c)" and "b \<equiv> fm_best (foreignMasterDS (snd (bmc c)))"
  assumes "k \<noteq> b"
  shows "bmcDataSetComparison (fm_header (recs ! k)) (fm_announce (recs ! k)) (fm_header (recs ! b)) (fm_announce (recs ! b)) c = A_better_then_B"
proof -
  let ?n = "fm_count (foreignMasterDS c)"
  have s: "insert 0 (set [1..<?n]) = {..<?n}" using assms(1) by auto
  have "b \<in> {..<?n} \<and> (\<forall>i\<in>{..<?n}. gm_key (fm_announce (recs ! i)) \<le> gm_key (fm_announce (recs ! b)))"
    using bmc_loop_max [of 0 "[1..<?n]" c] assms(2,3) unfolding s recs_def b_def by auto
  then have b: "b < ?n" "gm_key (fm_announce (recs ! k)) \<le> gm_key (fm_announce (recs ! b))" using assms(1) by auto
  have l: "length (a_grandmasterIdentity (fm_announce (recs ! k))) = 8" "length (a_grandmasterIdentity (fm_announce (recs ! b))) = 8"
    "a_grandmasterIdentity (fm_announce (recs ! k)) \<noteq> a_grandmasterIdentity (fm_announce (recs ! b))"
    using assms b(1) by (auto simp: recs_def)
  have "\<not> bmcDataSetComparison (fm_header (recs ! k)) (fm_announce (recs ! k)) (fm_header (recs ! b)) (fm_announce (recs ! b)) c < 0"
    using comparison_key' [OF l] b(2) by simp
  moreover have "memcmp (a_grandmasterIdentity (fm_announce (recs ! k))) (a_grandmasterIdentity (fm_announce (recs ! b))) \<noteq> 0"
    using memcmp_eq_0 l by metis
  ultimately show ?thesis by (auto simp: bmcDataSetComparison_def Let_def compare_AB_def split: if_splits)
qed

definition bmc_example :: PtpClock where
  "bmc_example = ptpClock_zero\<lparr>foreignMasterDS := \<lparr>fmr_records =
     [ForeignMasterRecord_zero\<lparr>fm_announce := MsgAnnounce_zero\<lparr>a_grandmasterPriority1 := 128, a_grandmasterIdentity := replicate 8 1\<rparr>\<rparr>,
      ForeignMasterRecord_zero\<lparr>fm_announce := MsgAnnounce_zero\<lparr>a_grandmasterPriority1 := 64, a_grandmasterIdentity := replicate 8 2\<rparr>\<rparr>],
     fm_count = 2, fm_capacity = 2, fm_i = 0, fm_best = 0\<rparr>\<rparr>"

lemma bmc_example_best: "fm_best (foreignMasterDS (snd (bmc bmc_example))) = 0"
proof -
  have u: "[Suc 0..<2] = [Suc 0]" by (simp add: upt_rec)
  show ?thesis
    using comparison_key' [of "fm_announce (fmr_records (foreignMasterDS bmc_example) ! 1)"
        "fm_announce (fmr_records (foreignMasterDS bmc_example) ! 0)"
        "fm_header (fmr_records (foreignMasterDS bmc_example) ! 1)"
        "fm_header (fmr_records (foreignMasterDS bmc_example) ! 0)" bmc_example]
    by (simp add: bmc_example_def u Let_def gm_key_def MsgAnnounce_zero_def del: upt_Suc)
qed

lemma bmc_example_count: "fm_count (foreignMasterDS bmc_example) = 2"
  by (simp add: bmc_example_def)

lemma bmc_example_ids:
  "\<forall>i<2. length (a_grandmasterIdentity (fm_announce (fmr_records (foreignMasterDS bmc_example) ! i))) = 8"
  "\<forall>i<2. \<forall>j<2. i \<noteq> j \<longrightarrow> a_grandmasterIdentity (fm_announce (fmr_records (foreignMasterDS bmc_example) ! i)) \<noteq>
     a_grandmasterIdentity (fm_announce (fmr_records (foreignMasterDS bmc_example) ! j))"
  by (auto simp: less_2_cases_iff bmc_example_def)

theorem bmc_selects_last_ranked_witness:
  "bmcDataSetComparison (fm_header (fmr_records (foreignMasterDS bmc_example) ! 1)) (fm_announce (fmr_records (foreignMasterDS bmc_example) ! 1))
     (fm_header (fmr_records (foreignMasterDS bmc_example) ! 0)) (fm_announce (fmr_records (foreignMasterDS bmc_example) ! 0)) bmc_example = 1"
  using bmc_selects_last_ranked [of 1 bmc_example, unfolded bmc_example_best bmc_example_count, OF _ bmc_example_ids]
  by (simp only: one_less_numeral_iff semiring_norm one_neq_zero not_False_eq_True simp_thms)



end
