(* ===== verification/PtpMsg.thy ===== *)
theory PtpMsg
  imports PtpArith
begin

unbundle bit_operations_syntax

text \<open>
  Packing and unpacking of PTP messages, \<^verbatim>\<open>src/supports/lwip/lwip/src/exts/ptp/ptpMsg.c\<close>. A store
  through a cast pointer such as \<open>*(int16_t*)(buf + 2) = flip16(x)\<close> is a little endian store of the
  swapped word, as on the two targets of the program; \<open>flip16\<close> and \<open>flip32\<close> are \<open>htons\<close> and \<open>htonl\<close>
  of lwIP. Every field access is a \<open>put_bytes\<close> or \<open>get_bytes\<close>, and the laws of the interface
  \<open>field_codec\<close> carry the round trips: a receiver unpacks from a packet exactly what the sender put in.
\<close>

subsection \<open>Byte order\<close>

definition flip16 :: "u16 \<Rightarrow> u16" where
  "flip16 x = push_bit 8 (x AND 0x00ff) OR drop_bit 8 (x AND 0xff00)"

definition flip32 :: "u32w \<Rightarrow> u32w" where
  "flip32 x = push_bit 24 (x AND 0x000000ff) OR push_bit 8 (x AND 0x0000ff00) OR
              drop_bit 8 (x AND 0x00ff0000) OR drop_bit 24 (x AND 0xff000000)"

text \<open>Little endian memory images of 16 and 32 bit objects.\<close>

definition le16 :: "u16 \<Rightarrow> bytes" where
  "le16 w = [ucast w, ucast (drop_bit 8 w)]"

definition un16 :: "bytes \<Rightarrow> u16" where
  "un16 bs = ucast (bs ! 0) OR push_bit 8 (ucast (bs ! 1))"

definition le32 :: "u32w \<Rightarrow> bytes" where
  "le32 w = [ucast w, ucast (drop_bit 8 w), ucast (drop_bit 16 w), ucast (drop_bit 24 w)]"

definition un32 :: "bytes \<Rightarrow> u32w" where
  "un32 bs = ucast (bs ! 0) OR push_bit 8 (ucast (bs ! 1)) OR push_bit 16 (ucast (bs ! 2)) OR
             push_bit 24 (ucast (bs ! 3))"

definition st8 :: "nat \<Rightarrow> u8 \<Rightarrow> bytes \<Rightarrow> bytes" where "st8 off v buf = put_bytes off [v] buf"
definition st16 :: "nat \<Rightarrow> u16 \<Rightarrow> bytes \<Rightarrow> bytes" where "st16 off v buf = put_bytes off (le16 v) buf"
definition st32 :: "nat \<Rightarrow> u32w \<Rightarrow> bytes \<Rightarrow> bytes" where "st32 off v buf = put_bytes off (le32 v) buf"
definition ld8 :: "nat \<Rightarrow> bytes \<Rightarrow> u8" where "ld8 off buf = get_bytes off 1 buf ! 0"
definition ld16 :: "nat \<Rightarrow> bytes \<Rightarrow> u16" where "ld16 off buf = un16 (get_bytes off 2 buf)"
definition ld32 :: "nat \<Rightarrow> bytes \<Rightarrow> u32w" where "ld32 off buf = un32 (get_bytes off 4 buf)"

lemma mask_bits: "(0x00ff::u16) = mask 8" "(0xff00::u16) = push_bit 8 (mask 8)"
  "(0xff::u32w) = mask 8" "(0xff00::u32w) = push_bit 8 (mask 8)"
  "(0xff0000::u32w) = push_bit 16 (mask 8)" "(0xff000000::u32w) = push_bit 24 (mask 8)"
  by (simp_all add: mask_eq_exp_minus_1)

lemma flip16_flip16 [simp]: "flip16 (flip16 x) = x"
  by (rule bit_word_eqI) (auto simp: flip16_def mask_bits bit_simps dest: bit_imp_le_length)

lemma bit_flip32:
  "bit (flip32 x) n \<longleftrightarrow> n < 32 \<and>
     bit x (if n < 8 then 24 + n else if n < 16 then 8 + n else if n < 24 then n - 8 else n - 24)"
  by (cases "n < 8"; cases "n < 16"; cases "n < 24"; cases "n < 32")
    (auto simp: flip32_def mask_bits bit_simps dest: bit_imp_le_length)

lemma flip32_flip32 [simp]: "flip32 (flip32 x) = x"
  by (rule bit_word_eqI) (auto simp: bit_flip32)

lemma un16_le16: "un16 (le16 w) = w"
  by (rule bit_word_eqI) (auto simp: un16_def le16_def bit_simps dest: bit_imp_le_length)

lemma un32_le32: "un32 (le32 w) = w"
  apply (rule bit_word_eqI)
  subgoal for n
    by (cases "n < 8"; cases "n < 16"; cases "n < 24")
      (auto simp: un32_def le32_def bit_simps dest: bit_imp_le_length)
  done

interpretation byte_field: field_codec "\<lambda>v. [v]" "\<lambda>bs. bs ! 0" 1
  by unfold_locales simp_all

interpretation be16: field_codec "\<lambda>v. le16 (flip16 v)" "\<lambda>bs. flip16 (un16 bs)" 2
  by unfold_locales (simp_all add: un16_le16, simp add: le16_def)

interpretation be32: field_codec "\<lambda>v. le32 (flip32 v)" "\<lambda>bs. flip32 (un32 bs)" 4
  by unfold_locales (simp_all add: un32_le32, simp add: le32_def)

text \<open>Loads after stores, at the same offset and at disjoint ones.\<close>

lemma length_le [simp]: "length (le16 w) = 2" "length (le32 x) = 4"
  by (simp_all add: le16_def le32_def)

lemma length_st [simp]:
  "length (st8 off v buf) = length buf" "length (st16 off w buf) = length buf"
  "length (st32 off x buf) = length buf"
  by (simp_all add: st8_def st16_def st32_def)

lemma ld_same [buf_simps]:
  "off + 1 \<le> length buf \<Longrightarrow> ld8 off (st8 off v buf) = v"
  "off + 2 \<le> length buf \<Longrightarrow> flip16 (ld16 off (st16 off (flip16 w) buf)) = w"
  "off + 4 \<le> length buf \<Longrightarrow> flip32 (ld32 off (st32 off (flip32 x) buf)) = x"
  by (simp_all add: ld8_def st8_def ld16_def st16_def ld32_def st32_def
      byte_field.load_store [simplified] be16.load_store be32.load_store)

lemma get_st_other [buf_simps]:
  "off' + n \<le> length buf \<Longrightarrow> off' + n \<le> off \<or> off + 1 \<le> off' \<Longrightarrow>
     get_bytes off' n (st8 off v buf) = get_bytes off' n buf"
  "off' + n \<le> length buf \<Longrightarrow> off' + n \<le> off \<or> off + 2 \<le> off' \<Longrightarrow>
     get_bytes off' n (st16 off w buf) = get_bytes off' n buf"
  "off' + n \<le> length buf \<Longrightarrow> off' + n \<le> off \<or> off + 4 \<le> off' \<Longrightarrow>
     get_bytes off' n (st32 off x buf) = get_bytes off' n buf"
  unfolding st8_def st16_def st32_def by (rule get_put_other; simp)+

lemma get_put_eq [buf_simps]:
  "n = length xs \<Longrightarrow> off + n \<le> length buf \<Longrightarrow> get_bytes off n (put_bytes off xs buf) = xs"
  by (simp add: get_put_same)

lemma get_put_range [buf_simps]:
  "off' + n \<le> length buf \<Longrightarrow> off' + n \<le> off \<or> off + length xs \<le> off' \<Longrightarrow>
     get_bytes off' n (put_bytes off xs buf) = get_bytes off' n buf"
  by (rule get_put_other)

lemma ld_other [buf_simps]:
  "off' + 1 \<le> length buf \<Longrightarrow> off' + 1 \<le> off \<or> off + 1 \<le> off' \<Longrightarrow> ld8 off' (st8 off v buf) = ld8 off' buf"
  "off' + 2 \<le> length buf \<Longrightarrow> off' + 2 \<le> off \<or> off + 1 \<le> off' \<Longrightarrow> ld16 off' (st8 off v buf) = ld16 off' buf"
  "off' + 4 \<le> length buf \<Longrightarrow> off' + 4 \<le> off \<or> off + 1 \<le> off' \<Longrightarrow> ld32 off' (st8 off v buf) = ld32 off' buf"
  "off' + 1 \<le> length buf \<Longrightarrow> off' + 1 \<le> off \<or> off + 2 \<le> off' \<Longrightarrow> ld8 off' (st16 off w buf) = ld8 off' buf"
  "off' + 2 \<le> length buf \<Longrightarrow> off' + 2 \<le> off \<or> off + 2 \<le> off' \<Longrightarrow> ld16 off' (st16 off w buf) = ld16 off' buf"
  "off' + 4 \<le> length buf \<Longrightarrow> off' + 4 \<le> off \<or> off + 2 \<le> off' \<Longrightarrow> ld32 off' (st16 off w buf) = ld32 off' buf"
  "off' + 1 \<le> length buf \<Longrightarrow> off' + 1 \<le> off \<or> off + 4 \<le> off' \<Longrightarrow> ld8 off' (st32 off x buf) = ld8 off' buf"
  "off' + 2 \<le> length buf \<Longrightarrow> off' + 2 \<le> off \<or> off + 4 \<le> off' \<Longrightarrow> ld16 off' (st32 off x buf) = ld16 off' buf"
  "off' + 4 \<le> length buf \<Longrightarrow> off' + 4 \<le> off \<or> off + 4 \<le> off' \<Longrightarrow> ld32 off' (st32 off x buf) = ld32 off' buf"
  "off' + 1 \<le> length buf \<Longrightarrow> off' + 1 \<le> off \<or> off + length bs \<le> off' \<Longrightarrow> ld8 off' (put_bytes off bs buf) = ld8 off' buf"
  "off' + 2 \<le> length buf \<Longrightarrow> off' + 2 \<le> off \<or> off + length bs \<le> off' \<Longrightarrow> ld16 off' (put_bytes off bs buf) = ld16 off' buf"
  "off' + 4 \<le> length buf \<Longrightarrow> off' + 4 \<le> off \<or> off + length bs \<le> off' \<Longrightarrow> ld32 off' (put_bytes off bs buf) = ld32 off' buf"
  by (simp_all add: ld8_def ld16_def ld32_def get_st_other get_put_range)

subsection \<open>Unpacking\<close>

definition msgUnpackHeader :: "bytes \<Rightarrow> MsgHeader" where
  "msgUnpackHeader buf =
     \<lparr>transportSpecific = drop_bit 4 (ld8 0 buf),
      messageType = ld8 0 buf AND 0x0F,
      versionPTP = ld8 1 buf AND 0x0F,
      messageLength = flip16 (ld16 2 buf),
      h_domainNumber = ld8 4 buf,
      flagField = get_bytes 6 FLAG_FIELD_LENGTH buf,
      correctionfield = push_bit 32 (ucast (flip32 (ld32 8 buf))) + ucast (flip32 (ld32 12 buf)),
      sourcePortIdentity = \<lparr>clockIdentity = get_bytes 20 CLOCK_IDENTITY_LENGTH buf,
                            portNumber = flip16 (ld16 28 buf)\<rparr>,
      sequenceId = flip16 (ld16 30 buf),
      controlField = ld8 32 buf,
      logMessageInterval = ld8 33 buf\<rparr>"

text \<open>The time stamp at offset 34, common to all messages that carry one.\<close>

definition unpackTimestamp :: "bytes \<Rightarrow> Timestamp" where
  "unpackTimestamp buf =
     \<lparr>secondsField_lsb = flip32 (ld32 36 buf),
      secondsField_msb = flip16 (ld16 34 buf),
      nanosecondsField = flip32 (ld32 40 buf)\<rparr>"

definition packTimestamp :: "Timestamp \<Rightarrow> bytes \<Rightarrow> bytes" where
  "packTimestamp ts buf =
     st32 40 (flip32 (nanosecondsField ts))
       (st32 36 (flip32 (secondsField_lsb ts)) (st16 34 (flip16 (secondsField_msb ts)) buf))"

definition msgUnpackAnnounce :: "bytes \<Rightarrow> MsgAnnounce" where
  "msgUnpackAnnounce buf =
     \<lparr>originTimestamp = unpackTimestamp buf,
      a_currentUtcOffset = flip16 (ld16 44 buf),
      a_grandmasterPriority1 = ld8 47 buf,
      a_grandmasterClockQuality =
        \<lparr>clockClass = ld8 48 buf, clockAccuracy = ld8 49 buf, offsetScaledLogVariance = flip16 (ld16 50 buf)\<rparr>,
      a_grandmasterPriority2 = ld8 52 buf,
      a_grandmasterIdentity = get_bytes 53 CLOCK_IDENTITY_LENGTH buf,
      a_stepsRemoved = flip16 (ld16 61 buf),
      a_timeSource = ld8 63 buf\<rparr>"

definition msgUnpackSync :: "bytes \<Rightarrow> Timestamp" where
  "msgUnpackSync buf = unpackTimestamp buf"

definition msgUnpackDelayReq :: "bytes \<Rightarrow> Timestamp" where
  "msgUnpackDelayReq buf = unpackTimestamp buf"

definition msgUnpackFollowUp :: "bytes \<Rightarrow> Timestamp" where
  "msgUnpackFollowUp buf = unpackTimestamp buf"

definition msgUnpackPDelayReq :: "bytes \<Rightarrow> Timestamp" where
  "msgUnpackPDelayReq buf = unpackTimestamp buf"

definition msgUnpackDelayResp :: "bytes \<Rightarrow> MsgDelayResp" where
  "msgUnpackDelayResp buf =
     \<lparr>receiveTimestamp = unpackTimestamp buf,
      requestingPortIdentity = \<lparr>clockIdentity = get_bytes 44 CLOCK_IDENTITY_LENGTH buf,
                                portNumber = flip16 (ld16 52 buf)\<rparr>\<rparr>"

definition msgUnpackPDelayResp :: "bytes \<Rightarrow> MsgDelayResp" where
  "msgUnpackPDelayResp buf = 
     \<lparr>receiveTimestamp = unpackTimestamp buf,
      requestingPortIdentity = \<lparr>clockIdentity = get_bytes 44 CLOCK_IDENTITY_LENGTH buf,
                                portNumber = flip16 (ld16 52 buf)\<rparr>\<rparr>"

definition msgUnpackPDelayRespFollowUp :: "bytes \<Rightarrow> MsgDelayResp" where
  "msgUnpackPDelayRespFollowUp buf = 
     \<lparr>receiveTimestamp = unpackTimestamp buf,
      requestingPortIdentity = \<lparr>clockIdentity = get_bytes 44 CLOCK_IDENTITY_LENGTH buf,
                                portNumber = flip16 (ld16 52 buf)\<rparr>\<rparr>"

subsection \<open>Packing\<close>

definition memset0 :: "nat \<Rightarrow> nat \<Rightarrow> bytes \<Rightarrow> bytes" where
  "memset0 off n buf = put_bytes off (replicate n 0) buf"

definition msgPackHeader :: "PtpClock \<Rightarrow> bytes \<Rightarrow> bytes" where
  "msgPackHeader c buf =
     (let buf = st8 0 0x80 buf;
          buf = st8 1 (versionNumber (portDS c)) buf;
          buf = st8 4 (d_domainNumber (defaultDS c)) buf;
          buf = (if twoStepFlag (defaultDS c) then st8 6 FLAG0_TWO_STEP buf else buf);
          buf = memset0 8 8 buf;
          buf = put_bytes 20 (clockIdentity (portIdentity (portDS c))) buf;
          buf = st16 28 (flip16 (portNumber (portIdentity (portDS c)))) buf
      in st8 33 0x7F buf)"

text \<open>\<open>*(char*)(buf + 0) & 0xF0 | type\<close>: the header is packed once and only retyped afterwards.\<close>

definition setMessageType :: "u8 \<Rightarrow> bytes \<Rightarrow> bytes" where
  "setMessageType t buf =
     (let buf = st8 0 (ld8 0 buf AND 0xF0) buf in st8 0 (ld8 0 buf OR t) buf)"

definition msgPackAnnounce :: "PtpClock \<Rightarrow> bytes \<Rightarrow> bytes" where
  "msgPackAnnounce c buf =
     (let buf = setMessageType ANNOUNCE buf;
          buf = st16 2 (flip16 64) buf;
          buf = st16 30 (flip16 (sentAnnounceSequenceId c)) buf;
          buf = st8 32 CTRL_OTHER buf;
          buf = st8 33 (logAnnounceInterval (portDS c)) buf;
          buf = memset0 34 10 buf;
          buf = st16 44 (flip16 (currentUtcOffset (timePropertiesDS c))) buf;
          buf = st8 47 (grandmasterPriority1 (parentDS c)) buf;
          buf = st8 48 (clockClass (d_clockQuality (defaultDS c))) buf;
          buf = st8 49 (clockAccuracy (d_clockQuality (defaultDS c))) buf;
          buf = st16 50 (flip16 (offsetScaledLogVariance (d_clockQuality (defaultDS c)))) buf;
          buf = st8 52 (grandmasterPriority2 (parentDS c)) buf;
          buf = put_bytes 53 (grandmasterIdentity (parentDS c)) buf;
          buf = st16 61 (flip16 (stepsRemoved (currentDS c))) buf
      in st8 63 (timeSource (timePropertiesDS c)) buf)"

definition msgPackSync :: "PtpClock \<Rightarrow> bytes \<Rightarrow> Timestamp \<Rightarrow> bytes" where
  "msgPackSync c buf ts =
     (let buf = setMessageType SYNC buf;
          buf = st16 2 (flip16 44) buf;
          buf = st16 30 (flip16 (sentSyncSequenceId c)) buf;
          buf = st8 32 CTRL_SYNC buf;
          buf = st8 33 (logSyncInterval (portDS c)) buf;
          buf = memset0 8 8 buf
      in packTimestamp ts buf)"

definition msgPackDelayReq :: "PtpClock \<Rightarrow> bytes \<Rightarrow> Timestamp \<Rightarrow> bytes" where
  "msgPackDelayReq c buf ts =
     (let buf = setMessageType DELAY_REQ buf;
          buf = st16 2 (flip16 44) buf;
          buf = st16 30 (flip16 (sentDelayReqSequenceId c)) buf;
          buf = st8 32 CTRL_DELAY_REQ buf;
          buf = st8 33 0x7F buf;
          buf = memset0 8 8 buf
      in packTimestamp ts buf)"

definition msgPackFollowUp :: "PtpClock \<Rightarrow> bytes \<Rightarrow> Timestamp \<Rightarrow> bytes" where
  "msgPackFollowUp c buf ts =
     (let buf = setMessageType FOLLOW_UP buf;
          buf = st16 2 (flip16 44) buf;
          buf = st16 30 (flip16 (sentSyncSequenceId c - 1)) buf;
          buf = st8 32 CTRL_FOLLOW_UP buf;
          buf = st8 33 (logSyncInterval (portDS c)) buf
      in packTimestamp ts buf)"

text \<open>The correction field of a request is copied into its response in two halves.\<close>

definition packCorrection :: "u64 \<Rightarrow> bytes \<Rightarrow> bytes" where
  "packCorrection cf buf = st32 12 (flip32 (ucast cf)) (st32 8 (flip32 (ucast (drop_bit 32 cf))) buf)"

definition packPortIdentity :: "PortIdentity \<Rightarrow> bytes \<Rightarrow> bytes" where
  "packPortIdentity i buf = st16 52 (flip16 (portNumber i)) (put_bytes 44 (clockIdentity i) buf)"

definition msgPackDelayResp :: "PtpClock \<Rightarrow> bytes \<Rightarrow> MsgHeader \<Rightarrow> Timestamp \<Rightarrow> bytes" where
  "msgPackDelayResp c buf h ts =
     (let buf = setMessageType DELAY_RESP buf;
          buf = st16 2 (flip16 54) buf;
          buf = memset0 8 8 buf;
          buf = packCorrection (correctionfield h) buf;
          buf = st16 30 (flip16 (sequenceId h)) buf;
          buf = st8 32 CTRL_DELAY_RESP buf;
          buf = st8 33 (logMinDelayReqInterval (portDS c)) buf;
          buf = packTimestamp ts buf
      in packPortIdentity (sourcePortIdentity h) buf)"

definition msgPackPDelayReq :: "PtpClock \<Rightarrow> bytes \<Rightarrow> Timestamp \<Rightarrow> bytes" where
  "msgPackPDelayReq c buf ts =
     (let buf = setMessageType PDELAY_REQ buf;
          buf = st16 2 (flip16 54) buf;
          buf = st16 30 (flip16 (sentPDelayReqSequenceId c)) buf;
          buf = st8 32 CTRL_OTHER buf;
          buf = st8 33 0x7F buf;
          buf = memset0 8 8 buf;
          buf = packTimestamp ts buf
      in memset0 44 10 buf)"

definition msgPackPDelayResp :: "bytes \<Rightarrow> MsgHeader \<Rightarrow> Timestamp \<Rightarrow> bytes" where
  "msgPackPDelayResp buf h ts =
     (let buf = setMessageType PDELAY_RESP buf;
          buf = st16 2 (flip16 54) buf;
          buf = memset0 8 8 buf;
          buf = st16 30 (flip16 (sequenceId h)) buf;
          buf = st8 32 CTRL_OTHER buf;
          buf = st8 33 0x7F buf;
          buf = packTimestamp ts buf
      in packPortIdentity (sourcePortIdentity h) buf)"

definition msgPackPDelayRespFollowUp :: "bytes \<Rightarrow> MsgHeader \<Rightarrow> Timestamp \<Rightarrow> bytes" where
  "msgPackPDelayRespFollowUp buf h ts =
     (let buf = setMessageType PDELAY_RESP_FOLLOW_UP buf;
          buf = st16 2 (flip16 54) buf;
          buf = st16 30 (flip16 (sequenceId h)) buf;
          buf = st8 32 CTRL_OTHER buf;
          buf = st8 33 0x7F buf;
          buf = packCorrection (correctionfield h) buf;
          buf = packTimestamp ts buf
      in packPortIdentity (sourcePortIdentity h) buf)"

lemmas pack_defs = msgPackHeader_def msgPackAnnounce_def msgPackSync_def msgPackDelayReq_def
  msgPackFollowUp_def msgPackDelayResp_def msgPackPDelayReq_def msgPackPDelayResp_def
  msgPackPDelayRespFollowUp_def

lemma length_pack_parts [simp]:
  "length (memset0 off n buf) = length buf" "length (setMessageType t buf) = length buf"
  "length (packTimestamp ts buf) = length buf" "length (packCorrection cf buf) = length buf"
  "length (packPortIdentity i buf) = length buf"
  by (simp_all add: memset0_def setMessageType_def packTimestamp_def packCorrection_def
      packPortIdentity_def Let_def)

lemma length_pack [simp]:
  "length (msgPackHeader c buf) = length buf" "length (msgPackAnnounce c buf) = length buf"
  "length (msgPackSync c buf ts) = length buf" "length (msgPackDelayReq c buf ts) = length buf"
  "length (msgPackFollowUp c buf ts) = length buf" "length (msgPackDelayResp c buf h ts) = length buf"
  "length (msgPackPDelayReq c buf ts) = length buf" "length (msgPackPDelayResp buf h ts) = length buf"
  "length (msgPackPDelayRespFollowUp buf h ts) = length buf"
  by (simp_all add: pack_defs Let_def)

subsection \<open>Round trips\<close>

lemma get_memset0 [buf_simps]:
  assumes "off \<le> off'" "off' + n \<le> off + m" "off + m \<le> length buf"
  shows "get_bytes off' n (memset0 off m buf) = replicate n 0"
  using assms by (auto intro!: nth_equalityI simp: memset0_def nth_get_bytes nth_put_bytes)

lemma get_memset0_other [buf_simps]:
  "off' + n \<le> length buf \<Longrightarrow> off' + n \<le> off \<or> off + m \<le> off' \<Longrightarrow>
     get_bytes off' n (memset0 off m buf) = get_bytes off' n buf"
  by (simp add: memset0_def get_put_range)

lemma ld_memset0 [buf_simps]:
  "off \<le> off' \<Longrightarrow> off' + 2 \<le> off + m \<Longrightarrow> off + m \<le> length buf \<Longrightarrow> ld16 off' (memset0 off m buf) = 0"
  "off \<le> off' \<Longrightarrow> off' + 4 \<le> off + m \<Longrightarrow> off + m \<le> length buf \<Longrightarrow> ld32 off' (memset0 off m buf) = 0"
  "off' + 1 \<le> length buf \<Longrightarrow> off' + 1 \<le> off \<or> off + m \<le> off' \<Longrightarrow> ld8 off' (memset0 off m buf) = ld8 off' buf"
  "off' + 2 \<le> length buf \<Longrightarrow> off' + 2 \<le> off \<or> off + m \<le> off' \<Longrightarrow> ld16 off' (memset0 off m buf) = ld16 off' buf"
  "off' + 4 \<le> length buf \<Longrightarrow> off' + 4 \<le> off \<or> off + m \<le> off' \<Longrightarrow> ld32 off' (memset0 off m buf) = ld32 off' buf"
  by (simp_all add: ld8_def ld16_def ld32_def get_memset0 get_memset0_other)
     (simp_all add: un16_def un32_def)

lemma flip_0 [simp]: "flip16 0 = 0" "flip32 0 = 0"
  by (simp_all add: flip16_def flip32_def)

text \<open>A 64 bit value is recovered from its two halves.\<close>

lemma join_halves:
  "push_bit 32 (ucast (ucast (drop_bit 32 w) :: u32w)) + ucast (ucast w :: u32w) = (w :: u64)"
proof -
  have "push_bit 32 (ucast (ucast (drop_bit 32 w) :: u32w)) + ucast (ucast w :: u32w) =
        push_bit 32 (ucast (ucast (drop_bit 32 w) :: u32w)) OR (ucast (ucast w :: u32w) :: u64)"
    by (rule disjunctive_add) (auto simp: bit_simps)
  also have "\<dots> = w"
    by (rule bit_word_eqI) (auto simp: bit_simps dest: bit_imp_le_length)
  finally show ?thesis .
qed

text \<open>
  What a receiver reads from the header of a packet: what \<open>msgPackHeader\<close> wrote once and for all
  (\<open>hdr_ready\<close>: the state of the transmit buffer after initialisation, kept by every packing
  function) and what the packing function of the message changed.
\<close>

definition hdr_ready :: "PtpClock \<Rightarrow> bytes \<Rightarrow> bool" where
  "hdr_ready c buf \<longleftrightarrow> length buf = PTP_PACKET_SIZE \<and> ld8 0 buf AND 0xF0 = 0x80 \<and>
     ld8 1 buf = versionNumber (portDS c) \<and> ld8 4 buf = d_domainNumber (defaultDS c) \<and>
     get_bytes 20 8 buf = clockIdentity (portIdentity (portDS c)) \<and>
     flip16 (ld16 28 buf) = portNumber (portIdentity (portDS c))"

lemma hdr_ready_pack:
  assumes "length buf = PTP_PACKET_SIZE" "length (clockIdentity (portIdentity (portDS c))) = 8"
  shows "hdr_ready c (msgPackHeader c buf)"
  using assms by (simp add: hdr_ready_def msgPackHeader_def Let_def buf_simps)

lemma type_nibble:
  fixes x t :: u8
  assumes "t AND 0x0F = t"
  shows "(x AND 0xF0 OR t) AND 0x0F = t" and "(x AND 0xF0 OR t) AND 0xF0 = x AND 0xF0"
proof -
  show "(x AND 0xF0 OR t) AND 0x0F = t"
    using assms by (simp add: bit.conj_disj_distrib2 and.assoc)
  have "t AND 0xF0 = (t AND 0x0F) AND 0xF0" using assms by simp
  also have "\<dots> = 0" by (simp add: and.assoc)
  finally show "(x AND 0xF0 OR t) AND 0xF0 = x AND 0xF0"
    by (simp add: bit.conj_disj_distrib2 and.assoc)
qed

lemma ld8_0_type [buf_simps]:
  "0 < length buf \<Longrightarrow> ld8 0 (setMessageType t buf) = ld8 0 buf AND 0xF0 OR t"
  by (simp add: setMessageType_def Let_def ld_same Suc_le_eq)

lemma setMessageType_other [buf_simps]:
  "0 < off \<Longrightarrow> off + n \<le> length buf \<Longrightarrow> get_bytes off n (setMessageType t buf) = get_bytes off n buf"
  "0 < off \<Longrightarrow> off + 1 \<le> length buf \<Longrightarrow> ld8 off (setMessageType t buf) = ld8 off buf"
  "0 < off \<Longrightarrow> off + 2 \<le> length buf \<Longrightarrow> ld16 off (setMessageType t buf) = ld16 off buf"
  "0 < off \<Longrightarrow> off + 4 \<le> length buf \<Longrightarrow> ld32 off (setMessageType t buf) = ld32 off buf"
  by (simp_all add: setMessageType_def Let_def buf_simps)

lemmas part_defs = packTimestamp_def packCorrection_def packPortIdentity_def Let_def

lemma hdr_ready_keep:
  assumes "hdr_ready c buf"
  shows "length (grandmasterIdentity (parentDS c')) = 8 \<Longrightarrow> hdr_ready c (msgPackAnnounce c' buf)"
    and "hdr_ready c (msgPackSync c' buf ts)" and "hdr_ready c (msgPackDelayReq c' buf ts)"
    and "hdr_ready c (msgPackFollowUp c' buf ts)" and "hdr_ready c (msgPackPDelayReq c' buf ts)"
    and "length (clockIdentity (sourcePortIdentity h)) = 8 \<Longrightarrow> hdr_ready c (msgPackDelayResp c' buf h ts)"
    and "length (clockIdentity (sourcePortIdentity h)) = 8 \<Longrightarrow> hdr_ready c (msgPackPDelayResp buf h ts)"
    and "length (clockIdentity (sourcePortIdentity h)) = 8 \<Longrightarrow> hdr_ready c (msgPackPDelayRespFollowUp buf h ts)"
  using assms by (simp_all add: hdr_ready_def pack_defs part_defs buf_simps type_nibble)

text \<open>The fields of the header that identify the sender, as the receiver's filters read them.\<close>

lemma unpack_sender:
  assumes "hdr_ready c buf"
  shows "versionPTP (msgUnpackHeader buf) = versionNumber (portDS c) AND 0x0F"
    and "h_domainNumber (msgUnpackHeader buf) = d_domainNumber (defaultDS c)"
    and "sourcePortIdentity (msgUnpackHeader buf) = portIdentity (portDS c)"
  using assms by (simp_all add: hdr_ready_def msgUnpackHeader_def)

subsection \<open>Properties\<close>

text \<open>
  C22: an Announce message packed by a master on its prepared transmit buffer is unpacked by a
  receiver into the master's own data: the type, length, domain, port identity and sequence number
  of the header, and the time properties, grandmaster priorities and identity, clock quality and
  steps removed of the body. The length of the identities is that of the C arrays.
\<close>

theorem announce_roundtrip:
  assumes "hdr_ready c buf" "length (grandmasterIdentity (parentDS c)) = 8"
  shows "let p = msgPackAnnounce c buf; h = msgUnpackHeader p; a = msgUnpackAnnounce p in
     messageType h = ANNOUNCE \<and> messageLength h = 64 \<and> sequenceId h = sentAnnounceSequenceId c \<and>
     h_domainNumber h = d_domainNumber (defaultDS c) \<and> sourcePortIdentity h = portIdentity (portDS c) \<and>
     a_currentUtcOffset a = currentUtcOffset (timePropertiesDS c) \<and>
     a_grandmasterPriority1 a = grandmasterPriority1 (parentDS c) \<and>
     a_grandmasterPriority2 a = grandmasterPriority2 (parentDS c) \<and>
     a_grandmasterClockQuality a = d_clockQuality (defaultDS c) \<and>
     a_grandmasterIdentity a = grandmasterIdentity (parentDS c) \<and>
     a_stepsRemoved a = stepsRemoved (currentDS c) \<and> a_timeSource a = timeSource (timePropertiesDS c)"
  using assms unpack_sender [OF hdr_ready_keep(1) [OF assms]]
  by (simp add: Let_def hdr_ready_def msgUnpackHeader_def msgUnpackAnnounce_def msgPackAnnounce_def
      buf_simps type_nibble)

theorem announce_roundtrip_witness:
  "a_grandmasterIdentity (msgUnpackAnnounce
      (msgPackAnnounce ptpClock_zero (msgPackHeader ptpClock_zero (replicate 300 0)))) = replicate 8 0"
  using announce_roundtrip [OF hdr_ready_pack [of "replicate 300 0" ptpClock_zero]]
  by (simp add: Let_def zero_defs)

text \<open>
  a Delay\_Resp carries the time stamp given to it, and returns to the requester its own port
  identity, sequence number and correction field, which are those of the request it answers; the
  requester therefore recognises its own request.
\<close>

theorem delay_resp_roundtrip:
  assumes "hdr_ready c buf" "length (clockIdentity (sourcePortIdentity req)) = 8"
  shows "let p = msgPackDelayResp c buf req ts; h = msgUnpackHeader p; r = msgUnpackDelayResp p in
     messageType h = DELAY_RESP \<and> messageLength h = 54 \<and> sequenceId h = sequenceId req \<and>
     correctionfield h = correctionfield req \<and> sourcePortIdentity h = portIdentity (portDS c) \<and>
     logMessageInterval h = logMinDelayReqInterval (portDS c) \<and>
     receiveTimestamp r = ts \<and> requestingPortIdentity r = sourcePortIdentity req"
  using assms unpack_sender(3) [OF hdr_ready_keep(6) [OF assms]]
  by (simp add: Let_def hdr_ready_def msgUnpackHeader_def msgUnpackDelayResp_def msgPackDelayResp_def
      unpackTimestamp_def part_defs buf_simps type_nibble join_halves)

theorem delay_resp_roundtrip_witness:
  "sequenceId (msgUnpackHeader (msgPackDelayResp ptpClock_zero (msgPackHeader ptpClock_zero (replicate 300 0))
      (MsgHeader_zero\<lparr>sequenceId := 0xABCD\<rparr>) Timestamp_zero)) = 0xABCD"
  using delay_resp_roundtrip [OF hdr_ready_pack [of "replicate 300 0" ptpClock_zero],
      of "MsgHeader_zero\<lparr>sequenceId := 0xABCD\<rparr>" Timestamp_zero]
  by (simp add: Let_def zero_defs)

text \<open>
  the precise origin time stamp and the sequence number of a Sync reach the slave in the
  Follow\_Up: after the sender has counted the Sync, the Follow\_Up has the sequence number the Sync
  had, and unpacking it gives the time stamp packed.
\<close>

theorem sync_follow_up_match:
  assumes "hdr_ready c buf" "hdr_ready c buf'" 
  shows "let s = msgPackSync c buf ts;
             f = msgPackFollowUp (c\<lparr>sentSyncSequenceId := sentSyncSequenceId c + 1\<rparr>) buf' ts' in
     messageType (msgUnpackHeader s) = SYNC \<and> msgUnpackSync s = ts \<and>
     messageType (msgUnpackHeader f) = FOLLOW_UP \<and> msgUnpackFollowUp f = ts' \<and>
     sequenceId (msgUnpackHeader f) = sequenceId (msgUnpackHeader s) \<and>
     sourcePortIdentity (msgUnpackHeader f) = sourcePortIdentity (msgUnpackHeader s)"
  using assms
  by (simp add: Let_def hdr_ready_def msgUnpackHeader_def msgUnpackSync_def msgUnpackFollowUp_def
      msgPackSync_def msgPackFollowUp_def unpackTimestamp_def part_defs buf_simps type_nibble)

theorem sync_follow_up_match_witness:
  "sequenceId (msgUnpackHeader (msgPackFollowUp (ptpClock_zero\<lparr>sentSyncSequenceId := sentSyncSequenceId ptpClock_zero + 1\<rparr>)
      (msgPackHeader ptpClock_zero (replicate 300 0)) Timestamp_zero)) =
   sequenceId (msgUnpackHeader (msgPackSync ptpClock_zero (msgPackHeader ptpClock_zero (replicate 300 0)) Timestamp_zero))"
  using sync_follow_up_match [OF hdr_ready_pack [of "replicate 300 0" ptpClock_zero]
      hdr_ready_pack [of "replicate 300 0" ptpClock_zero], of Timestamp_zero Timestamp_zero]
  by (simp add: Let_def zero_defs)

end
