(* ===== verification/PtpProtocol.thy ===== *)
theory PtpProtocol
  imports PtpBmc PtpMsg
begin

text \<open>
  The protocol engine, \<^verbatim>\<open>src/supports/lwip/lwip/src/exts/ptp/ptpProtocol.c\<close>: the messages the clock
  issues, the handler of every message it receives, the state changes and the state machine. One
  definition per C function, with the state of the daemon passed explicitly; a function with an output
  parameter returns its value beside the state.
\<close>

subsection \<open>State changes\<close>

definition setState :: "port_state \<Rightarrow> world \<Rightarrow> world" where
  "setState st w = w\<lparr>clk := (clk w)\<lparr>portDS := (portDS (clk w))\<lparr>portState := st\<rparr>\<rparr>\<rparr>"

definition recommend :: "port_state \<Rightarrow> world \<Rightarrow> world" where
  "recommend st w = w\<lparr>clk := (clk w)\<lparr>recommendedState := st\<rparr>\<rparr>"

definition startAnnounceReceipt :: "env \<Rightarrow> world \<Rightarrow> world" where
  "startAnnounceReceipt e w =
     (let (p, w1) = use_pow2ms (sint (logAnnounceInterval (portDS (clk w)))) w
      in timerStart e ANNOUNCE_RECEIPT_TIMER (u32 (s32 (uint (announceReceiptTimeout (portDS (clk w))) * p))) w1)"

definition startInterval :: "env \<Rightarrow> timer_id \<Rightarrow> u8 \<Rightarrow> world \<Rightarrow> world" where
  "startInterval e i lg w = (let (p, w1) = use_pow2ms (sint lg) w in timerStart e i (u32 p) w1)"

text \<open>\<open>timerStart(i, getRand(pow2ms(lg + 1)))\<close>\<close>

definition startRandom :: "env \<Rightarrow> timer_id \<Rightarrow> u8 \<Rightarrow> world \<Rightarrow> world" where
  "startRandom e i lg w =
     (let (p, w1) = use_pow2ms (sint lg + 1) w; (r, w2) = getRand e p w1 in timerStart e i r w2)"

text \<open>Leaving a state: the first switch of \<open>toState\<close>.\<close>

definition leaveState :: "port_state \<Rightarrow> world \<Rightarrow> world" where
  "leaveState st w =
     (case portState (portDS (clk w)) of
        PTP_MASTER \<Rightarrow> timerStop PDELAYREQ_INTERVAL_TIMER (timerStop ANNOUNCE_INTERVAL_TIMER
                        (timerStop SYNC_INTERVAL_TIMER (initClock w)))
      | PTP_UNCALIBRATED \<Rightarrow>
          if st = PTP_UNCALIBRATED \<or> st = PTP_SLAVE then w
          else initClock (case delayMechanism (portDS (clk w)) of
                 E2E \<Rightarrow> timerStop DELAYREQ_INTERVAL_TIMER (timerStop ANNOUNCE_RECEIPT_TIMER w)
               | P2P \<Rightarrow> timerStop PDELAYREQ_INTERVAL_TIMER (timerStop ANNOUNCE_RECEIPT_TIMER w)
               | DELAY_DISABLED \<Rightarrow> timerStop ANNOUNCE_RECEIPT_TIMER w)
      | PTP_SLAVE \<Rightarrow>
          if st = PTP_UNCALIBRATED \<or> st = PTP_SLAVE then w
          else initClock (case delayMechanism (portDS (clk w)) of
                 E2E \<Rightarrow> timerStop DELAYREQ_INTERVAL_TIMER (timerStop ANNOUNCE_RECEIPT_TIMER w)
               | P2P \<Rightarrow> timerStop PDELAYREQ_INTERVAL_TIMER (timerStop ANNOUNCE_RECEIPT_TIMER w)
               | DELAY_DISABLED \<Rightarrow> timerStop ANNOUNCE_RECEIPT_TIMER w)
      | PTP_PASSIVE \<Rightarrow> timerStop ANNOUNCE_RECEIPT_TIMER (timerStop PDELAYREQ_INTERVAL_TIMER (initClock w))
      | PTP_LISTENING \<Rightarrow> timerStop ANNOUNCE_RECEIPT_TIMER (initClock w)
      | PTP_PRE_MASTER \<Rightarrow> timerStop QUALIFICATION_TIMEOUT (initClock w)
      | _ \<Rightarrow> w)"

text \<open>Entering \<open>PTP_MASTER\<close>, and \<open>PTP_PRE_MASTER\<close>, which falls through to it.\<close>

definition enterMaster :: "env \<Rightarrow> world \<Rightarrow> world" where
  "enterMaster e w =
     (let w1 = w\<lparr>clk := (clk w)\<lparr>portDS := (portDS (clk w))\<lparr>logMinDelayReqInterval := DEFAULT_DELAYREQ_INTERVAL\<rparr>\<rparr>\<rparr>;
          w2 = startInterval e SYNC_INTERVAL_TIMER (logSyncInterval (portDS (clk w1))) w1;
          w3 = startInterval e ANNOUNCE_INTERVAL_TIMER (logAnnounceInterval (portDS (clk w2))) w2;
          w4 = (if delayMechanism (portDS (clk w3)) = P2P
                then let (p, w5) = use_pow2ms (sint (logMinPdelayReqInterval (portDS (clk w3)))) w3;
                         (r, w6) = getRand e (s32 (p + 1)) w5
                     in timerStart e PDELAYREQ_INTERVAL_TIMER r w6
                else w3)
      in setState PTP_MASTER w4)"

definition enterState :: "env \<Rightarrow> port_state \<Rightarrow> world \<Rightarrow> world" where
  "enterState e st w =
     (case st of
        PTP_INITIALIZING \<Rightarrow> recommend PTP_INITIALIZING (setState PTP_INITIALIZING w)
      | PTP_FAULTY \<Rightarrow> setState PTP_FAULTY w
      | PTP_DISABLED \<Rightarrow> setState PTP_DISABLED w
      | PTP_LISTENING \<Rightarrow> recommend PTP_LISTENING (setState PTP_LISTENING (startAnnounceReceipt e w))
      | PTP_PRE_MASTER \<Rightarrow> enterMaster e w
      | PTP_MASTER \<Rightarrow> enterMaster e w
      | PTP_PASSIVE \<Rightarrow>
          let w1 = startAnnounceReceipt e w;
              w2 = (if delayMechanism (portDS (clk w1)) = P2P
                    then startRandom e PDELAYREQ_INTERVAL_TIMER (logMinPdelayReqInterval (portDS (clk w1))) w1 else w1)
          in setState PTP_PASSIVE w2
      | PTP_UNCALIBRATED \<Rightarrow>
          let w1 = startAnnounceReceipt e w;
              w2 = (case delayMechanism (portDS (clk w1)) of
                      E2E \<Rightarrow> startRandom e DELAYREQ_INTERVAL_TIMER (logMinDelayReqInterval (portDS (clk w1))) w1
                    | P2P \<Rightarrow> startRandom e PDELAYREQ_INTERVAL_TIMER (logMinPdelayReqInterval (portDS (clk w1))) w1
                    | DELAY_DISABLED \<Rightarrow> w1)
          in setState PTP_UNCALIBRATED w2
      | PTP_SLAVE \<Rightarrow> setState PTP_SLAVE w)"

definition toState :: "env \<Rightarrow> port_state \<Rightarrow> world \<Rightarrow> world" where
  "toState e st w = enterState e st (leaveState st (w\<lparr>clk := (clk w)\<lparr>messageActivity := True\<rparr>\<rparr>))"

subsection \<open>Issuing messages\<close>

definition after_send :: "world \<Rightarrow> int \<times> TimeInternal \<times> packet list \<times> bool \<Rightarrow> int \<times> TimeInternal \<times> world" where
  "after_send w r =
     (case r of (len, t, pks, fault) \<Rightarrow>
        (len, t, w\<lparr>calls := calls w + 1, sent := sent w @ pks,
           clk := (clk w)\<lparr>netPath := (netPath (clk w))\<lparr>netFault := netFault (netPath (clk w)) \<or> fault\<rparr>\<rparr>\<rparr>))"

definition sendEvent :: "env \<Rightarrow> int \<Rightarrow> TimeInternal \<Rightarrow> world \<Rightarrow> int \<times> TimeInternal \<times> world" where
  "sendEvent e len t w = after_send w (ptpNetSendEvent (e_tx e (calls w)) (netPath (clk w)) (msgObuf (clk w)) len t)"

definition sendPeerEvent :: "env \<Rightarrow> int \<Rightarrow> TimeInternal \<Rightarrow> world \<Rightarrow> int \<times> TimeInternal \<times> world" where
  "sendPeerEvent e len t w = after_send w (ptpNetSendPeerEvent (e_tx e (calls w)) (netPath (clk w)) (msgObuf (clk w)) len t)"

definition sendGeneral :: "env \<Rightarrow> int \<Rightarrow> world \<Rightarrow> int \<times> TimeInternal \<times> world" where
  "sendGeneral e len w = after_send w (ptpNetSendGeneral (e_tx e (calls w)) (netPath (clk w)) (msgObuf (clk w)) len)"

definition sendPeerGeneral :: "env \<Rightarrow> int \<Rightarrow> world \<Rightarrow> int \<times> TimeInternal \<times> world" where
  "sendPeerGeneral e len w = after_send w (ptpNetSendPeerGeneral (e_tx e (calls w)) (netPath (clk w)) (msgObuf (clk w)) len)"

definition issuePDelayReq :: "env \<Rightarrow> world \<Rightarrow> world" where
  "issuePDelayReq e w =
     (let (internalTime, w1) = getTime e w;
          ts = fromInternalTime (e_local_ts e (calls w1)) internalTime;
          w2 = w1\<lparr>clk := (clk w1)\<lparr>msgObuf := msgPackPDelayReq (clk w1) (msgObuf (clk w1)) ts\<rparr>\<rparr>;
          (n, t, w3) = sendPeerEvent e PDELAY_REQ_LENGTH internalTime w2
      in if n = 0 then toState e PTP_FAULTY w3
         else w3\<lparr>clk := (clk w3)\<lparr>sentPDelayReqSequenceId := sentPDelayReqSequenceId (clk w3) + 1,
                   pdelay_t1 := (if seconds t \<noteq> 0 then addTime t (outboundLatency (clk w3)) else pdelay_t1 (clk w3))\<rparr>\<rparr>)"

definition issueDelayReq :: "env \<Rightarrow> world \<Rightarrow> world" where
  "issueDelayReq e w =
     (let (internalTime, w1) = getTime e w;
          ts = fromInternalTime (e_local_ts e (calls w1)) internalTime;
          w2 = w1\<lparr>clk := (clk w1)\<lparr>msgObuf := msgPackDelayReq (clk w1) (msgObuf (clk w1)) ts\<rparr>\<rparr>;
          (n, t, w3) = sendEvent e DELAY_REQ_LENGTH internalTime w2
      in if n = 0 then toState e PTP_FAULTY w3
         else w3\<lparr>clk := (clk w3)\<lparr>sentDelayReqSequenceId := sentDelayReqSequenceId (clk w3) + 1,
                   timestamp_delayReqSend := (if seconds t \<noteq> 0 then addTime t (outboundLatency (clk w3))
                                              else timestamp_delayReqSend (clk w3))\<rparr>\<rparr>)"

definition issueDelayReqTimerExpired :: "env \<Rightarrow> world \<Rightarrow> world" where
  "issueDelayReqTimerExpired e w =
     (case delayMechanism (portDS (clk w)) of
        E2E \<Rightarrow>
          if portState (portDS (clk w)) \<noteq> PTP_SLAVE then w
          else (case timerExpired DELAYREQ_INTERVAL_TIMER w of
                  (False, w1) \<Rightarrow> w1
                | (True, w1) \<Rightarrow> issueDelayReq e
                    (startRandom e DELAYREQ_INTERVAL_TIMER (logMinDelayReqInterval (portDS (clk w1))) w1))
      | P2P \<Rightarrow>
          (case timerExpired PDELAYREQ_INTERVAL_TIMER w of
             (False, w1) \<Rightarrow> w1
           | (True, w1) \<Rightarrow> issuePDelayReq e
               (startRandom e PDELAYREQ_INTERVAL_TIMER (logMinPdelayReqInterval (portDS (clk w1))) w1))
      | DELAY_DISABLED \<Rightarrow> w)"

definition issueAnnounce :: "env \<Rightarrow> world \<Rightarrow> world" where
  "issueAnnounce e w =
     (let w1 = w\<lparr>clk := (clk w)\<lparr>msgObuf := msgPackAnnounce (clk w) (msgObuf (clk w))\<rparr>\<rparr>;
          (n, t, w2) = sendGeneral e ANNOUNCE_LENGTH w1
      in if n = 0 then toState e PTP_FAULTY w2
         else w2\<lparr>clk := (clk w2)\<lparr>sentAnnounceSequenceId := sentAnnounceSequenceId (clk w2) + 1\<rparr>\<rparr>)"

definition issueFollowup :: "env \<Rightarrow> TimeInternal \<Rightarrow> world \<Rightarrow> world" where
  "issueFollowup e time w =
     (let ts = fromInternalTime (e_local_ts e (calls w)) time;
          w1 = w\<lparr>clk := (clk w)\<lparr>msgObuf := msgPackFollowUp (clk w) (msgObuf (clk w)) ts\<rparr>\<rparr>;
          (n, t, w2) = sendGeneral e FOLLOW_UP_LENGTH w1
      in if n = 0 then toState e PTP_FAULTY w2 else w2)"

definition issueSync :: "env \<Rightarrow> world \<Rightarrow> world" where
  "issueSync e w =
     (let (internalTime, w1) = getTime e w;
          ts = fromInternalTime (e_local_ts e (calls w1)) internalTime;
          w2 = w1\<lparr>clk := (clk w1)\<lparr>msgObuf := msgPackSync (clk w1) (msgObuf (clk w1)) ts\<rparr>\<rparr>;
          (n, t, w3) = sendEvent e SYNC_LENGTH internalTime w2
      in if n = 0 then toState e PTP_FAULTY w3
         else let w4 = w3\<lparr>clk := (clk w3)\<lparr>sentSyncSequenceId := sentSyncSequenceId (clk w3) + 1\<rparr>\<rparr>
              in if seconds t \<noteq> 0 \<and> twoStepFlag (defaultDS (clk w4))
                 then issueFollowup e (addTime t (outboundLatency (clk w4))) w4 else w4)"

definition issuePDelayResp :: "env \<Rightarrow> TimeInternal \<Rightarrow> MsgHeader \<Rightarrow> world \<Rightarrow> TimeInternal \<times> world" where
  "issuePDelayResp e time pDelayReqHeader w =
     (let ts = fromInternalTime (e_local_ts e (calls w)) time;
          w1 = w\<lparr>clk := (clk w)\<lparr>msgObuf := msgPackPDelayResp (msgObuf (clk w)) pDelayReqHeader ts\<rparr>\<rparr>;
          (n, t, w2) = sendPeerEvent e PDELAY_RESP_LENGTH time w1
      in if n = 0 then (t, toState e PTP_FAULTY w2)
         else (if seconds t \<noteq> 0 then addTime t (outboundLatency (clk w2)) else t, w2))"

definition issueDelayResp :: "env \<Rightarrow> TimeInternal \<Rightarrow> MsgHeader \<Rightarrow> world \<Rightarrow> world" where
  "issueDelayResp e time delayReqHeader w =
     (let ts = fromInternalTime (e_local_ts e (calls w)) time;
          w1 = w\<lparr>clk := (clk w)\<lparr>msgObuf := msgPackDelayResp (clk w) (msgObuf (clk w)) delayReqHeader ts\<rparr>\<rparr>;
          (n, t, w2) = sendGeneral e PDELAY_RESP_LENGTH w1
      in if n = 0 then toState e PTP_FAULTY w2 else w2)"

definition issuePDelayRespFollowUp :: "env \<Rightarrow> TimeInternal \<Rightarrow> MsgHeader \<Rightarrow> world \<Rightarrow> world" where
  "issuePDelayRespFollowUp e time pDelayReqHeader w =
     (let ts = fromInternalTime (e_local_ts e (calls w)) time;
          w1 = w\<lparr>clk := (clk w)\<lparr>msgObuf := msgPackPDelayRespFollowUp (msgObuf (clk w)) pDelayReqHeader ts\<rparr>\<rparr>;
          (n, t, w2) = sendPeerGeneral e PDELAY_RESP_FOLLOW_UP_LENGTH w1
      in if n = 0 then toState e PTP_FAULTY w2 else w2)"


subsection \<open>Handling messages\<close>

definition updClk :: "(PtpClock \<Rightarrow> PtpClock) \<Rightarrow> world \<Rightarrow> world" where
  "updClk f w = w\<lparr>clk := f (clk w)\<rparr>"

definition addForeignClk :: "PtpClock \<Rightarrow> PtpClock" where
  "addForeignClk c = c\<lparr>foreignMasterDS := addForeign (msgTmpHeader c) (msgTmp_announce c) (foreignMasterDS c)\<rparr>"

definition fromParent :: "PtpClock \<Rightarrow> bool" where
  "fromParent c = isSamePortIdentity (parentPortIdentity (parentDS c)) (sourcePortIdentity (msgTmpHeader c))"

definition unpackAnnounceClk :: "PtpClock \<Rightarrow> PtpClock" where
  "unpackAnnounceClk c = c\<lparr>msgTmp_announce := msgUnpackAnnounce (msgIbuf c)\<rparr>"

definition decisionEvent :: "PtpClock \<Rightarrow> PtpClock" where
  "decisionEvent c = c\<lparr>events := setFlag (events c) STATE_DECISION_EVENT\<rparr>"

text \<open>An Announce in the states \<open>PTP_UNCALIBRATED\<close> and \<open>PTP_SLAVE\<close>.\<close>

definition slaveAnnounce :: "env \<Rightarrow> world \<Rightarrow> world" where
  "slaveAnnounce e w =
     (let c = decisionEvent (clk w); isFromCurrentParent = fromParent c; c1 = unpackAnnounceClk c
      in if isFromCurrentParent
         then startAnnounceReceipt e (w\<lparr>clk := s1 (msgTmpHeader c1) (msgTmp_announce c1) c1\<rparr>)
         else w\<lparr>clk := addForeignClk c1\<rparr>)"

definition handleAnnounce :: "env \<Rightarrow> bool \<Rightarrow> world \<Rightarrow> world" where
  "handleAnnounce e isFromSelf w =
     (if msgIbufLength (clk w) < ANNOUNCE_LENGTH then toState e PTP_FAULTY w
      else if isFromSelf then w
      else (case portState (portDS (clk w)) of
          PTP_INITIALIZING \<Rightarrow> w | PTP_FAULTY \<Rightarrow> w | PTP_DISABLED \<Rightarrow> w
        | PTP_UNCALIBRATED \<Rightarrow> slaveAnnounce e w
        | PTP_SLAVE \<Rightarrow> slaveAnnounce e w
        | PTP_PASSIVE \<Rightarrow> updClk (addForeignClk \<circ> decisionEvent \<circ> unpackAnnounceClk) (startAnnounceReceipt e w)
        | _ \<Rightarrow> updClk (addForeignClk \<circ> decisionEvent \<circ> unpackAnnounceClk) w))"

text \<open>
  A Sync in the states \<open>PTP_UNCALIBRATED\<close> and \<open>PTP_SLAVE\<close>. The local \<open>originTimestamp\<close> is not
  initialised, and \<open>toInternalTime\<close> does not write it when the seconds are out of range.
\<close>

definition slaveSync :: "env \<Rightarrow> TimeInternal \<Rightarrow> bool \<Rightarrow> world \<Rightarrow> world" where
  "slaveSync e time isFromSelf w =
     (let c = clk w
      in if isFromSelf then w
         else if \<not> fromParent c then w
         else let c1 = c\<lparr>timestamp_syncRecieve := time\<rparr>;
                  correctionField = scaledNanosecondsToInternalTime (correctionfield (msgTmpHeader c1))
              in if getFlag (flagField (msgTmpHeader c1) ! 0) FLAG0_TWO_STEP
                 then w\<lparr>clk := c1\<lparr>waitingForFollowUp := True, recvSyncSequenceId := sequenceId (msgTmpHeader c1),
                                 correctionField_sync := correctionField\<rparr>\<rparr>
                 else let c2 = c1\<lparr>msgTmp_timestamp := msgUnpackSync (msgIbuf c1), waitingForFollowUp := False\<rparr>;
                          originTimestamp = toInternalTime (e_local e (calls w)) (msgTmp_timestamp c2);
                          c3 = updateOffset (timestamp_syncRecieve c2) originTimestamp correctionField c2
                      in issueDelayReqTimerExpired e (updateClock e (w\<lparr>clk := c3, calls := calls w + 1\<rparr>)))"

definition handleSync :: "env \<Rightarrow> TimeInternal \<Rightarrow> bool \<Rightarrow> world \<Rightarrow> world" where
  "handleSync e time isFromSelf w =
     (if msgIbufLength (clk w) < SYNC_LENGTH then toState e PTP_FAULTY w
      else (case portState (portDS (clk w)) of
          PTP_UNCALIBRATED \<Rightarrow> slaveSync e time isFromSelf w
        | PTP_SLAVE \<Rightarrow> slaveSync e time isFromSelf w
        | PTP_PASSIVE \<Rightarrow> issueDelayReqTimerExpired e w
        | _ \<Rightarrow> w))"

definition slaveFollowUp :: "env \<Rightarrow> world \<Rightarrow> world" where
  "slaveFollowUp e w =
     (let c = clk w
      in if \<not> waitingForFollowUp c then w
         else if \<not> fromParent c then w
         else if recvSyncSequenceId c \<noteq> sequenceId (msgTmpHeader c) then w
         else let c1 = c\<lparr>msgTmp_timestamp := msgUnpackFollowUp (msgIbuf c), waitingForFollowUp := False\<rparr>;
                  preciseOriginTimestamp = toInternalTime (e_local e (calls w)) (msgTmp_timestamp c1);
                  correctionField = addTime (scaledNanosecondsToInternalTime (correctionfield (msgTmpHeader c1)))
                    (correctionField_sync c1);
                  c2 = updateOffset (timestamp_syncRecieve c1) preciseOriginTimestamp correctionField c1
              in issueDelayReqTimerExpired e (updateClock e (w\<lparr>clk := c2, calls := calls w + 1\<rparr>)))"

definition handleFollowUp :: "env \<Rightarrow> bool \<Rightarrow> world \<Rightarrow> world" where
  "handleFollowUp e isFromSelf w =
     (if msgIbufLength (clk w) < FOLLOW_UP_LENGTH then toState e PTP_FAULTY w
      else if isFromSelf then w
      else (case portState (portDS (clk w)) of
          PTP_UNCALIBRATED \<Rightarrow> slaveFollowUp e w
        | PTP_SLAVE \<Rightarrow> slaveFollowUp e w
        | PTP_PASSIVE \<Rightarrow> issueDelayReqTimerExpired e w
        | _ \<Rightarrow> w))"

definition handleDelayReq :: "env \<Rightarrow> TimeInternal \<Rightarrow> bool \<Rightarrow> world \<Rightarrow> world" where
  "handleDelayReq e time isFromSelf w =
     (case delayMechanism (portDS (clk w)) of
        E2E \<Rightarrow>
          if msgIbufLength (clk w) < DELAY_REQ_LENGTH then toState e PTP_FAULTY w
          else if portState (portDS (clk w)) = PTP_MASTER then issueDelayResp e time (msgTmpHeader (clk w)) w
          else w
      | _ \<Rightarrow> w)"

definition acceptDelayResp :: "PtpClock \<Rightarrow> PtpClock" where
  "acceptDelayResp c =
     (let rcv = toInternalTime (timestamp_delayReqRecieve c) (receiveTimestamp (msgTmp_resp c));
          cf = scaledNanosecondsToInternalTime (correctionfield (msgTmpHeader c));
          c1 = updateDelay (timestamp_delayReqSend c) rcv cf (c\<lparr>timestamp_delayReqRecieve := rcv\<rparr>)
      in c1\<lparr>portDS := (portDS c1)\<lparr>logMinDelayReqInterval := logMessageInterval (msgTmpHeader c1)\<rparr>\<rparr>)"

definition slaveDelayResp :: "PtpClock \<Rightarrow> PtpClock" where
  "slaveDelayResp c0 =
     (let c = c0\<lparr>msgTmp_resp := msgUnpackDelayResp (msgIbuf c0)\<rparr>;
          isFromCurrentParent = fromParent c;
          isCurrentRequest = isSamePortIdentity (portIdentity (portDS c)) (requestingPortIdentity (msgTmp_resp c))
      in if sint (sentDelayReqSequenceId c) - 1 = sint (sequenceId (msgTmpHeader c)) \<and> isCurrentRequest \<and> isFromCurrentParent
         then acceptDelayResp c else c)"

definition handleDelayResp :: "env \<Rightarrow> bool \<Rightarrow> world \<Rightarrow> world" where
  "handleDelayResp e isFromSelf w =
     (case delayMechanism (portDS (clk w)) of
        E2E \<Rightarrow>
          if msgIbufLength (clk w) < DELAY_RESP_LENGTH then toState e PTP_FAULTY w
          else if portState (portDS (clk w)) \<in> {PTP_UNCALIBRATED, PTP_SLAVE} then updClk slaveDelayResp w
          else w
      | _ \<Rightarrow> w)"

definition handlePDelayReq :: "env \<Rightarrow> TimeInternal \<Rightarrow> bool \<Rightarrow> world \<Rightarrow> world" where
  "handlePDelayReq e time isFromSelf w =
     (case delayMechanism (portDS (clk w)) of
        P2P \<Rightarrow>
          if msgIbufLength (clk w) < PDELAY_REQ_LENGTH then toState e PTP_FAULTY w
          else if portState (portDS (clk w)) \<in> {PTP_PASSIVE, PTP_SLAVE, PTP_MASTER} then
            (if isFromSelf then w
             else let (t, w1) = issuePDelayResp e time (msgTmpHeader (clk w)) w
                  in if seconds t \<noteq> 0 \<and> getFlag (flagField (msgTmpHeader (clk w1)) ! 0) FLAG0_TWO_STEP
                     then issuePDelayRespFollowUp e t (msgTmpHeader (clk w1)) w1 else w1)
          else w
      | _ \<Rightarrow> w)"

text \<open>A peer delay response that arrived at \<open>time\<close>; \<open>garbage\<close> is the uninitialised local \<open>requestReceiptTimestamp\<close>.\<close>

definition peerDelayResp :: "TimeInternal \<Rightarrow> TimeInternal \<Rightarrow> PtpClock \<Rightarrow> PtpClock" where
  "peerDelayResp garbage time c0 =
     (let c = c0\<lparr>msgTmp_resp := msgUnpackPDelayResp (msgIbuf c0)\<rparr>;
          isCurrentRequest = isSamePortIdentity (portIdentity (portDS c)) (requestingPortIdentity (msgTmp_resp c));
          cf = scaledNanosecondsToInternalTime (correctionfield (msgTmpHeader c))
      in if sint (sentPDelayReqSequenceId c) - 1 = sint (sequenceId (msgTmpHeader c)) \<and> isCurrentRequest
         then if getFlag (flagField (msgTmpHeader c) ! 0) FLAG0_TWO_STEP
              then c\<lparr>waitingForPDelayRespFollowUp := True, pdelay_t4 := time,
                     pdelay_t2 := toInternalTime garbage (receiveTimestamp (msgTmp_resp c)),
                     correctionField_pDelayResp := cf\<rparr>
              else updatePeerDelay cf False (c\<lparr>waitingForPDelayRespFollowUp := False, pdelay_t4 := time\<rparr>)
         else c)"

definition handlePDelayResp :: "env \<Rightarrow> TimeInternal \<Rightarrow> bool \<Rightarrow> world \<Rightarrow> world" where
  "handlePDelayResp e time isFromSelf w =
     (case delayMechanism (portDS (clk w)) of
        P2P \<Rightarrow>
          if msgIbufLength (clk w) < PDELAY_RESP_LENGTH then toState e PTP_FAULTY w
          else if portState (portDS (clk w)) \<in> {PTP_MASTER, PTP_SLAVE} then
            (if isFromSelf then w else updClk (peerDelayResp (e_local e (calls w)) time) (w\<lparr>calls := calls w + 1\<rparr>))
          else w
      | _ \<Rightarrow> w)"

definition peerDelayRespFollowUp :: "TimeInternal \<Rightarrow> PtpClock \<Rightarrow> PtpClock" where
  "peerDelayRespFollowUp garbage c0 =
     (if \<not> waitingForPDelayRespFollowUp c0 then c0
      else if sint (sequenceId (msgTmpHeader c0)) = sint (sentPDelayReqSequenceId c0) - 1
      then let c = c0\<lparr>msgTmp_resp := msgUnpackPDelayRespFollowUp (msgIbuf c0)\<rparr>;
               c = c\<lparr>pdelay_t3 := toInternalTime garbage (receiveTimestamp (msgTmp_resp c))\<rparr>;
               cf = addTime (scaledNanosecondsToInternalTime (correctionfield (msgTmpHeader c))) (correctionField_pDelayResp c)
           in (updatePeerDelay cf True c)\<lparr>waitingForPDelayRespFollowUp := False\<rparr>
      else c0)"

definition handlePDelayRespFollowUp :: "env \<Rightarrow> bool \<Rightarrow> world \<Rightarrow> world" where
  "handlePDelayRespFollowUp e isFromSelf w =
     (case delayMechanism (portDS (clk w)) of
        P2P \<Rightarrow>
          if msgIbufLength (clk w) < PDELAY_RESP_FOLLOW_UP_LENGTH then toState e PTP_FAULTY w
          else if portState (portDS (clk w)) \<in> {PTP_SLAVE, PTP_MASTER}
          then updClk (peerDelayRespFollowUp (e_local e (calls w))) (w\<lparr>calls := calls w + 1\<rparr>)
          else w
      | _ \<Rightarrow> w)"

definition handleManagement :: "bool \<Rightarrow> world \<Rightarrow> world" where
  "handleManagement isFromSelf w = w"

definition handleSignaling :: "bool \<Rightarrow> world \<Rightarrow> world" where
  "handleSignaling isFromSelf w = w"

text \<open>The switch of \<open>_handle\<close> on the message type.\<close>

definition dispatch :: "env \<Rightarrow> TimeInternal \<Rightarrow> bool \<Rightarrow> world \<Rightarrow> world" where
  "dispatch e time isFromSelf w =
     (let t = messageType (msgTmpHeader (clk w))
      in if t = ANNOUNCE then handleAnnounce e isFromSelf w
         else if t = SYNC then handleSync e time isFromSelf w
         else if t = FOLLOW_UP then handleFollowUp e isFromSelf w
         else if t = DELAY_REQ then handleDelayReq e time isFromSelf w
         else if t = PDELAY_REQ then handlePDelayReq e time isFromSelf w
         else if t = DELAY_RESP then handleDelayResp e isFromSelf w
         else if t = PDELAY_RESP then handlePDelayResp e time isFromSelf w
         else if t = PDELAY_RESP_FOLLOW_UP then handlePDelayRespFollowUp e isFromSelf w
         else if t = MANAGEMENT then handleManagement isFromSelf w
         else if t = SIGNALING then handleSignaling isFromSelf w
         else w)"

text \<open>The part of \<open>_handle\<close> after a message of at least one byte was received.\<close>

definition handleReceived :: "env \<Rightarrow> TimeInternal \<Rightarrow> world \<Rightarrow> world" where
  "handleReceived e time w0 =
     (let w = updClk (\<lambda>c. c\<lparr>messageActivity := True\<rparr>) w0
      in if msgIbufLength (clk w) < HEADER_LENGTH then toState e PTP_FAULTY w
         else let w1 = updClk (\<lambda>c. c\<lparr>msgTmpHeader := msgUnpackHeader (msgIbuf c)\<rparr>) w; c = clk w1
              in if versionPTP (msgTmpHeader c) \<noteq> versionNumber (portDS c) then w1
                 else if h_domainNumber (msgTmpHeader c) \<noteq> d_domainNumber (defaultDS c) then w1
                 else let isFromSelf = isSamePortIdentity (portIdentity (portDS c)) (sourcePortIdentity (msgTmpHeader c));
                          t = (if \<not> isFromSelf \<and> seconds time > 0 then subTime time (inboundLatency c) else time)
                      in dispatch e t isFromSelf w1)"

definition recvEvent :: "TimeInternal \<Rightarrow> world \<Rightarrow> TimeInternal \<times> world" where
  "recvEvent time w =
     (case ptpNetRecvEvent (netPath (clk w)) (msgIbuf (clk w)) time of
        (n, buf, t, np) \<Rightarrow> (t, updClk (\<lambda>c. c\<lparr>msgIbufLength := n, msgIbuf := buf, netPath := np\<rparr>) w))"

definition recvGeneral :: "TimeInternal \<Rightarrow> world \<Rightarrow> TimeInternal \<times> world" where
  "recvGeneral time w =
     (case ptpNetRecvGeneral (netPath (clk w)) (msgIbuf (clk w)) time of
        (n, buf, t, np) \<Rightarrow> (t, updClk (\<lambda>c. c\<lparr>msgIbufLength := n, msgIbuf := buf, netPath := np\<rparr>) w))"

definition handle :: "env \<Rightarrow> world \<Rightarrow> world" where
  "handle e w =
     (if \<not> messageActivity (clk w) \<and> \<not> ptpNetSelect (netPath (clk w)) then w
      else let (t1, w1) = recvEvent TimeInternal_zero w
           in if msgIbufLength (clk w1) < 0 then toState e PTP_FAULTY w1
              else if msgIbufLength (clk w1) = 0
              then let (t2, w2) = recvGeneral t1 w1
                   in if msgIbufLength (clk w2) < 0 then toState e PTP_FAULTY w2
                      else if msgIbufLength (clk w2) = 0 then w2
                      else handleReceived e t2 w2
              else handleReceived e t1 w1)"

subsection \<open>The state machine\<close>

definition doInit :: "env \<Rightarrow> world \<Rightarrow> bool \<times> world" where
  "doInit e w =
     (let np = snd (ptpNetShutdown (netPath (clk w)));
          (ok, np', uuid) = ptpNetInit (e_net e (calls w)) np (portUuidField (clk w));
          w1 = (updClk (\<lambda>c. c\<lparr>netPath := np', portUuidField := uuid\<rparr>) w)\<lparr>calls := calls w + 1\<rparr>
      in if \<not> ok then (False, w1)
         else let w2 = initClock (initTimer (updClk initData w1));
                  w3 = updClk m1 w2
              in (True, updClk (\<lambda>c. c\<lparr>msgObuf := msgPackHeader c (msgObuf c)\<rparr>) w3))"

definition isSlaveOnly :: "PtpClock \<Rightarrow> bool" where
  "isSlaveOnly c \<longleftrightarrow> d_slaveOnly (defaultDS c) \<or> clockClass (d_clockQuality (defaultDS c)) = 255"

text \<open>The first switch: the state decision event.\<close>

definition decisionStep :: "world \<Rightarrow> world" where
  "decisionStep w =
     (if portState (portDS (clk w)) \<in> {PTP_LISTENING, PTP_UNCALIBRATED, PTP_SLAVE, PTP_PRE_MASTER, PTP_MASTER, PTP_PASSIVE}
         \<and> getFlag (events (clk w)) STATE_DECISION_EVENT
      then let (st, c) = bmc ((clk w)\<lparr>events := clearFlag (events (clk w)) STATE_DECISION_EVENT\<rparr>);
               st' = (if st \<in> {PTP_MASTER, PTP_PASSIVE} \<and> isSlaveOnly c then PTP_LISTENING else st)
           in w\<lparr>clk := c\<lparr>recommendedState := st'\<rparr>\<rparr>
      else w)"

definition testClear :: "u32w \<Rightarrow> world \<Rightarrow> bool \<times> world" where
  "testClear ev w =
     (if getFlag (events (clk w)) ev then (True, updClk (\<lambda>c. c\<lparr>events := clearFlag (events c) ev\<rparr>) w) else (False, w))"

text \<open>The events of the states \<open>PTP_UNCALIBRATED\<close> and \<open>PTP_SLAVE\<close> when the recommendation is \<open>PTP_SLAVE\<close>.\<close>

definition uncalibratedEvents :: "env \<Rightarrow> world \<Rightarrow> world" where
  "uncalibratedEvents e w =
     (let (sel, w1) = testClear MASTER_CLOCK_SELECTED w;
          w2 = (if sel then toState e PTP_SLAVE w1 else w1)
      in snd (testClear MASTER_CLOCK_CHANGED w2))"

definition slaveEvents :: "env \<Rightarrow> world \<Rightarrow> world" where
  "slaveEvents e w =
     (let (flt, w1) = testClear SYNCHRONIZATION_FAULT w;
          w2 = (if flt then toState e PTP_UNCALIBRATED w1 else w1);
          (chg, w3) = testClear MASTER_CLOCK_CHANGED w2
      in (if chg then toState e PTP_UNCALIBRATED w3 else w3))"

text \<open>The second switch: following the recommended state.\<close>

definition recommendedStep :: "env \<Rightarrow> world \<Rightarrow> world" where
  "recommendedStep e w =
     (case recommendedState (clk w) of
        PTP_MASTER \<Rightarrow>
          (case portState (portDS (clk w)) of
             PTP_PRE_MASTER \<Rightarrow> (case timerExpired QUALIFICATION_TIMEOUT w of
                                  (True, w1) \<Rightarrow> toState e PTP_MASTER w1 | (False, w1) \<Rightarrow> w1)
           | PTP_MASTER \<Rightarrow> w
           | _ \<Rightarrow> toState e PTP_PRE_MASTER w)
      | PTP_PASSIVE \<Rightarrow> if portState (portDS (clk w)) \<noteq> PTP_PASSIVE then toState e PTP_PASSIVE w else w
      | PTP_SLAVE \<Rightarrow>
          (case portState (portDS (clk w)) of
             PTP_UNCALIBRATED \<Rightarrow> uncalibratedEvents e w
           | PTP_SLAVE \<Rightarrow> slaveEvents e w
           | _ \<Rightarrow> toState e PTP_UNCALIBRATED w)
      | PTP_LISTENING \<Rightarrow> if portState (portDS (clk w)) \<noteq> PTP_LISTENING then toState e PTP_LISTENING w else w
      | _ \<Rightarrow> w)"

definition announceTimeout :: "env \<Rightarrow> world \<Rightarrow> world" where
  "announceTimeout e w0 =
     (let w = updClk (\<lambda>c. c\<lparr>foreignMasterDS := (foreignMasterDS c)\<lparr>fm_count := 0, fm_i := 0\<rparr>\<rparr>) w0
      in if \<not> isSlaveOnly (clk w) then toState e PTP_MASTER (recommend PTP_MASTER (updClk m1 w))
         else if portState (portDS (clk w)) \<noteq> PTP_LISTENING then toState e PTP_LISTENING w
         else w)"

text \<open>The third switch: the work of the current state.\<close>

definition stateWork :: "env \<Rightarrow> world \<Rightarrow> world" where
  "stateWork e w =
     (case portState (portDS (clk w)) of
        PTP_INITIALIZING \<Rightarrow> (case doInit e w of (True, w1) \<Rightarrow> toState e PTP_LISTENING w1 | (False, w1) \<Rightarrow> toState e PTP_FAULTY w1)
      | PTP_FAULTY \<Rightarrow> toState e PTP_INITIALIZING w
      | PTP_DISABLED \<Rightarrow> handle e w
      | PTP_PRE_MASTER \<Rightarrow> w
      | PTP_MASTER \<Rightarrow>
          let w2 = (case timerExpired SYNC_INTERVAL_TIMER w of (True, w1) \<Rightarrow> issueSync e w1 | (False, w1) \<Rightarrow> w1);
              w4 = (case timerExpired ANNOUNCE_INTERVAL_TIMER w2 of (True, w3) \<Rightarrow> issueAnnounce e w3 | (False, w3) \<Rightarrow> w3)
          in issueDelayReqTimerExpired e (handle e w4)
      | _ \<Rightarrow> (case timerExpired ANNOUNCE_RECEIPT_TIMER w of
                (True, w1) \<Rightarrow> announceTimeout e w1
              | (False, w1) \<Rightarrow> handle e w1))"

definition ptpStateMachine :: "env \<Rightarrow> world \<Rightarrow> world" where
  "ptpStateMachine e w =
     stateWork e (recommendedStep e (decisionStep (updClk (\<lambda>c. c\<lparr>messageActivity := False\<rparr>) w)))"


subsection \<open>What the operations leave alone\<close>

lemma timer_clk [simp]:
  "clk (timerStart e i ms w) = clk w" "clk (timerStop i w) = clk w" "clk (initTimer w) = clk w"
  "clk (snd (timerExpired i w)) = clk w" "clk (timer_fire i w) = clk w"
  "clk (snd (use_pow2ms a w)) = clk w" "clk (snd (getRand e m w)) = clk w" "clk (snd (getTime e w)) = clk w"
  "clk (setTime t w) = clk w" "clk (adjFreq a w) = clk w"
  "clk (startAnnounceReceipt e w) = clk w" "clk (startInterval e i lg w) = clk w" "clk (startRandom e i lg w) = clk w"
  by (simp_all add: timerStart_def timerStop_def initTimer_def timerExpired_def timer_fire_unfold use_pow2ms_def getRand_def
      getTime_def setTime_def adjFreq_def startAnnounceReceipt_def startInterval_def startRandom_def case_prod_beta)

lemma timer_sent [simp]:
  "sent (timerStart e i ms w) = sent w" "sent (timerStop i w) = sent w" "sent (initTimer w) = sent w"
  "sent (snd (timerExpired i w)) = sent w" "sent (timer_fire i w) = sent w"
  "sent (snd (use_pow2ms a w)) = sent w" "sent (snd (getRand e m w)) = sent w" "sent (snd (getTime e w)) = sent w"
  "sent (setTime t w) = sent w" "sent (adjFreq a w) = sent w"
  "sent (startAnnounceReceipt e w) = sent w" "sent (startInterval e i lg w) = sent w" "sent (startRandom e i lg w) = sent w"
  "sent (setState st w) = sent w" "sent (recommend st w) = sent w" "sent (updClk f w) = sent w" "sent (initClock w) = sent w"
  by (simp_all add: timerStart_def timerStop_def initTimer_def timerExpired_def timer_fire_unfold use_pow2ms_def getRand_def
      getTime_def setTime_def adjFreq_def startAnnounceReceipt_def startInterval_def startRandom_def case_prod_beta
      setState_def recommend_def updClk_def initClock_def Let_def)

lemma updClk_clk [simp]: "clk (updClk f w) = f (clk w)"
  by (simp add: updClk_def)

lemma setState_clk [simp]: "clk (setState st w) = (clk w)\<lparr>portDS := (portDS (clk w))\<lparr>portState := st\<rparr>\<rparr>"
  "clk (recommend st w) = (clk w)\<lparr>recommendedState := st\<rparr>"
  by (simp_all add: setState_def recommend_def)

lemma initClock_clk [simp]:
  "rtOpts (clk (initClock w)) = rtOpts (clk w)" "defaultDS (clk (initClock w)) = defaultDS (clk w)"
  "portDS (clk (initClock w)) = portDS (clk w)" "recommendedState (clk (initClock w)) = recommendedState (clk w)"
  "foreignMasterDS (clk (initClock w)) = foreignMasterDS (clk w)" "events (clk (initClock w)) = events (clk w)"
  "msgObuf (clk (initClock w)) = msgObuf (clk w)" "msgIbuf (clk (initClock w)) = msgIbuf (clk w)"
  "msgTmpHeader (clk (initClock w)) = msgTmpHeader (clk w)" "msgIbufLength (clk (initClock w)) = msgIbufLength (clk w)"
  "messageActivity (clk (initClock w)) = messageActivity (clk w)"
  "netPath (clk (initClock w)) = ptpNetEmptyEventQ (netPath (clk w))"
  by (simp_all add: initClock_def Let_def)

lemma leaveState_clk [simp]:
  "rtOpts (clk (leaveState st w)) = rtOpts (clk w)" "defaultDS (clk (leaveState st w)) = defaultDS (clk w)"
  "portDS (clk (leaveState st w)) = portDS (clk w)" "recommendedState (clk (leaveState st w)) = recommendedState (clk w)"
  "foreignMasterDS (clk (leaveState st w)) = foreignMasterDS (clk w)" "events (clk (leaveState st w)) = events (clk w)"
  "msgObuf (clk (leaveState st w)) = msgObuf (clk w)" "msgIbuf (clk (leaveState st w)) = msgIbuf (clk w)"
  "messageActivity (clk (leaveState st w)) = messageActivity (clk w)"
  "msgTmpHeader (clk (leaveState st w)) = msgTmpHeader (clk w)"
  "sent (leaveState st w) = sent w"
  by (simp_all add: leaveState_def split: port_state.split delay_mechanism.split)

lemma enterState_clk [simp]:
  "rtOpts (clk (enterState e st w)) = rtOpts (clk w)" "defaultDS (clk (enterState e st w)) = defaultDS (clk w)"
  "foreignMasterDS (clk (enterState e st w)) = foreignMasterDS (clk w)" "events (clk (enterState e st w)) = events (clk w)"
  "msgObuf (clk (enterState e st w)) = msgObuf (clk w)" "msgIbuf (clk (enterState e st w)) = msgIbuf (clk w)"
  "messageActivity (clk (enterState e st w)) = messageActivity (clk w)"
  "netPath (clk (enterState e st w)) = netPath (clk w)"
  "msgTmpHeader (clk (enterState e st w)) = msgTmpHeader (clk w)"
  "portState (portDS (clk (enterState e st w))) = (if st = PTP_PRE_MASTER then PTP_MASTER else st)"
  "recommendedState (clk (enterState e st w)) = (if st \<in> {PTP_INITIALIZING, PTP_LISTENING} then st else recommendedState (clk w))"
  "portIdentity (portDS (clk (enterState e st w))) = portIdentity (portDS (clk w))"
  "sent (enterState e st w) = sent w"
  by (simp_all add: enterState_def enterMaster_def Let_def case_prod_beta split: port_state.split delay_mechanism.split)

lemma toState_clk [simp]:
  "rtOpts (clk (toState e st w)) = rtOpts (clk w)" "defaultDS (clk (toState e st w)) = defaultDS (clk w)"
  "foreignMasterDS (clk (toState e st w)) = foreignMasterDS (clk w)" "events (clk (toState e st w)) = events (clk w)"
  "msgObuf (clk (toState e st w)) = msgObuf (clk w)" "msgIbuf (clk (toState e st w)) = msgIbuf (clk w)"
  "messageActivity (clk (toState e st w))"
  "msgTmpHeader (clk (toState e st w)) = msgTmpHeader (clk w)"
  "portState (portDS (clk (toState e st w))) = (if st = PTP_PRE_MASTER then PTP_MASTER else st)"
  "recommendedState (clk (toState e st w)) = (if st \<in> {PTP_INITIALIZING, PTP_LISTENING} then st else recommendedState (clk w))"
  "portIdentity (portDS (clk (toState e st w))) = portIdentity (portDS (clk w))"
  "sent (toState e st w) = sent w"
  by (simp_all add: toState_def)

text \<open>The send functions return the length they were given, so that the error branches are never taken.\<close>

lemma send_result [simp]:
  "fst (sendEvent e len t w) = len" "fst (sendPeerEvent e len t w) = len"
  "fst (sendGeneral e len w) = len" "fst (sendPeerGeneral e len w) = len"
  by (simp_all add: sendEvent_def sendPeerEvent_def sendGeneral_def sendPeerGeneral_def after_send_def ptpNetSendEvent_def
      ptpNetSendPeerEvent_def ptpNetSendGeneral_def ptpNetSendPeerGeneral_def netSend_def split: tx_result.split)

lemma after_send_clk:
  "\<exists>b. clk (snd (snd (after_send w r))) = (clk w)\<lparr>netPath := (netPath (clk w))\<lparr>netFault := b\<rparr>\<rparr>"
  by (auto simp: after_send_def case_prod_beta)


lemma send_frame [simp]:
  "clk (snd (snd (after_send w r))) = (clk w)\<lparr>netPath := (netPath (clk w))\<lparr>netFault := netFault (netPath (clk w)) \<or> snd (snd (snd r))\<rparr>\<rparr>"
  "sent (snd (snd (after_send w r))) = sent w @ fst (snd (snd r))"
  by (auto simp: after_send_def case_prod_beta)

text \<open>The clock after a transmission: only the fault ghost of the network path may change.\<close>

definition faultClk :: "bool \<Rightarrow> PtpClock \<Rightarrow> PtpClock" where
  "faultClk b c = c\<lparr>netPath := (netPath c)\<lparr>netFault := netFault (netPath c) \<or> b\<rparr>\<rparr>"

definition tx_fault :: "pcb_ref \<Rightarrow> tx_result \<Rightarrow> bool" where
  "tx_fault pcb tx \<longleftrightarrow> pcb \<noteq> PcbLive \<and> (case tx of TxNoBuffer \<Rightarrow> False | TxTakeFailed \<Rightarrow> False | _ \<Rightarrow> True)"

lemma send_clk:
  "clk (snd (snd (sendEvent e len t w))) = faultClk (tx_fault (eventPcb (netPath (clk w))) (e_tx e (calls w))) (clk w)"
  "clk (snd (snd (sendPeerEvent e len t w))) = faultClk (tx_fault (eventPcb (netPath (clk w))) (e_tx e (calls w))) (clk w)"
  "clk (snd (snd (sendGeneral e len w))) = faultClk (tx_fault (generalPcb (netPath (clk w))) (e_tx e (calls w))) (clk w)"
  "clk (snd (snd (sendPeerGeneral e len w))) = faultClk (tx_fault (generalPcb (netPath (clk w))) (e_tx e (calls w))) (clk w)"
  by (auto simp: sendEvent_def sendPeerEvent_def sendGeneral_def sendPeerGeneral_def faultClk_def tx_fault_def netSend_def
      ptpNetSendEvent_def ptpNetSendPeerEvent_def ptpNetSendGeneral_def ptpNetSendPeerGeneral_def split: tx_result.split)

text \<open>What the servo and the table operations leave alone.\<close>

definition same_config :: "PtpClock \<Rightarrow> PtpClock \<Rightarrow> bool" where
  "same_config c c' \<longleftrightarrow> rtOpts c' = rtOpts c \<and> defaultDS c' = defaultDS c \<and> portState (portDS c') = portState (portDS c) \<and>
     delayMechanism (portDS c') = delayMechanism (portDS c) \<and> portIdentity (portDS c') = portIdentity (portDS c) \<and>
     recommendedState c' = recommendedState c \<and> msgObuf c' = msgObuf c \<and> msgIbuf c' = msgIbuf c"

lemma same_config_refl [simp]: "same_config c c"
  by (simp add: same_config_def)

lemma same_config_trans: "same_config c c' \<Longrightarrow> same_config c' c'' \<Longrightarrow> same_config c c''"
  by (simp add: same_config_def)

lemma servo_config [simp]:
  "same_config c (updateOffset a b d c)" "same_config c (updateDelay a b d c)" "same_config c (updatePeerDelay d two c)"
  by (simp_all add: same_config_def updateOffset_def updateDelay_def updatePeerDelay_def Let_def case_prod_beta
      split: delay_mechanism.split)

lemma updateClock_config [simp]: "same_config (clk w) (clk (updateClock e w))" "sent (updateClock e w) = sent w"
  by (simp_all add: same_config_def updateClock_def Let_def case_prod_beta)

lemma bmc_parts_config [simp]:
  "same_config c (s1 h a c)" "same_config c (m1 c)" "same_config c (addForeignClk c)" "same_config c (decisionEvent c)"
  "same_config c (unpackAnnounceClk c)"
  by (simp_all add: same_config_def s1_def m1_def addForeignClk_def decisionEvent_def unpackAnnounceClk_def Let_def)

lemma initClock_config [simp]: "same_config (clk w) (clk (initClock w))"
  by (simp add: same_config_def)

lemma handler_config:
  "same_config c (slaveDelayResp c)" "same_config c (peerDelayResp g t c)" "same_config c (peerDelayRespFollowUp g c)"
proof -
  have u: "same_config c1 c2 \<Longrightarrow> same_config c1 (c2\<lparr>portDS := (portDS c2)\<lparr>logMinDelayReqInterval := l\<rparr>\<rparr>)"
    "same_config c1 c2 \<Longrightarrow> same_config c1 (c2\<lparr>waitingForPDelayRespFollowUp := b\<rparr>)" for c1 c2 l b
    by (simp_all add: same_config_def)
  have v: "same_config c (updateDelay x y z (c\<lparr>msgTmp_resp := r, timestamp_delayReqRecieve := q\<rparr>))"
    "same_config c (updatePeerDelay z two (c\<lparr>msgTmp_resp := r, pdelay_t3 := q\<rparr>))"
    "same_config c (updatePeerDelay z two (c\<lparr>msgTmp_resp := r, waitingForPDelayRespFollowUp := b, pdelay_t4 := q\<rparr>))" for x y z r q b two
    by (rule same_config_trans [OF _ servo_config(2)] same_config_trans [OF _ servo_config(3)], simp add: same_config_def)+
  show "same_config c (slaveDelayResp c)"
    using v(1) u(1) by (simp add: slaveDelayResp_def acceptDelayResp_def Let_def) (simp add: same_config_def)
  show "same_config c (peerDelayResp g t c)"
    using v(3) by (simp add: peerDelayResp_def Let_def) (simp add: same_config_def)
  show "same_config c (peerDelayRespFollowUp g c)"
    using v(2) u(2) by (simp add: peerDelayRespFollowUp_def Let_def)
qed

subsection \<open>Types of the packets sent\<close>

definition pk_type :: "packet \<Rightarrow> u8" where
  "pk_type p = messageType (msgUnpackHeader (pk_data p))"

lemma pk_type_take:
  "1 \<le> n \<Longrightarrow> pk_type \<lparr>pk_addr = a, pk_event = v, pk_data = take n buf\<rparr> = ld8 0 buf AND 0x0F"
  by (simp add: pk_type_def msgUnpackHeader_def ld8_def get_bytes_def min_def)

lemma pack_type:
  assumes "length buf = PTP_PACKET_SIZE"
  shows "ld8 0 (msgPackAnnounce c buf) AND 0x0F = ANNOUNCE" "ld8 0 (msgPackSync c buf ts) AND 0x0F = SYNC"
    "ld8 0 (msgPackFollowUp c buf ts) AND 0x0F = FOLLOW_UP" "ld8 0 (msgPackDelayReq c buf ts) AND 0x0F = DELAY_REQ"
    "ld8 0 (msgPackDelayResp c buf h ts) AND 0x0F = DELAY_RESP"
    "ld8 0 (msgPackPDelayReq c buf ts) AND 0x0F = PDELAY_REQ" "ld8 0 (msgPackPDelayResp buf h ts) AND 0x0F = PDELAY_RESP"
    "ld8 0 (msgPackPDelayRespFollowUp buf h ts) AND 0x0F = PDELAY_RESP_FOLLOW_UP"
proof -
  have z: "((x::u8) AND 0xF0) AND 0x0F = 0" for x by (simp add: and.assoc)
  show "ld8 0 (msgPackAnnounce c buf) AND 0x0F = ANNOUNCE" "ld8 0 (msgPackSync c buf ts) AND 0x0F = SYNC"
    "ld8 0 (msgPackFollowUp c buf ts) AND 0x0F = FOLLOW_UP" "ld8 0 (msgPackDelayReq c buf ts) AND 0x0F = DELAY_REQ"
    "ld8 0 (msgPackDelayResp c buf h ts) AND 0x0F = DELAY_RESP"
    "ld8 0 (msgPackPDelayReq c buf ts) AND 0x0F = PDELAY_REQ" "ld8 0 (msgPackPDelayResp buf h ts) AND 0x0F = PDELAY_RESP"
    "ld8 0 (msgPackPDelayRespFollowUp buf h ts) AND 0x0F = PDELAY_RESP_FOLLOW_UP"
    using assms by (simp_all add: pack_defs part_defs buf_simps type_nibble z)
qed

lemma netSend_type:
  "0 < len \<Longrightarrow> p \<in> set (fst (snd (snd (netSend tx buf len t addr ev pcb)))) \<Longrightarrow> pk_type p = ld8 0 buf AND 0x0F"
  by (auto simp: netSend_def pk_type_take split: tx_result.splits)


subsection \<open>A slave-only clock\<close>

definition slave_types :: "u8 set" where
  "slave_types = {DELAY_REQ, PDELAY_REQ, PDELAY_RESP, PDELAY_RESP_FOLLOW_UP}"

definition slave_cfg :: "PtpClock \<Rightarrow> bool" where
  "slave_cfg c \<longleftrightarrow> r_slaveOnly (rtOpts c) \<and> length (msgObuf c) = PTP_PACKET_SIZE \<and>
     (recommendedState c = PTP_INITIALIZING \<and> portState (portDS c) \<in> {PTP_INITIALIZING, PTP_FAULTY} \<or>
      d_slaveOnly (defaultDS c) \<and> recommendedState c \<in> {PTP_INITIALIZING, PTP_LISTENING, PTP_SLAVE} \<and>
      portState (portDS c) \<in> {PTP_INITIALIZING, PTP_FAULTY, PTP_LISTENING, PTP_UNCALIBRATED, PTP_SLAVE})"

definition slave_inv :: "world \<Rightarrow> bool" where
  "slave_inv w \<longleftrightarrow> slave_cfg (clk w) \<and> (\<forall>p\<in>set (sent w). pk_type p \<in> slave_types)"

lemma slave_cfg_same: "same_config c c' \<Longrightarrow> slave_cfg c \<Longrightarrow> slave_cfg c'"
  by (simp add: slave_cfg_def same_config_def)

lemma slave_inv_same: "same_config (clk w) (clk w') \<Longrightarrow> sent w' = sent w \<Longrightarrow> slave_inv w \<Longrightarrow> slave_inv w'"
  using slave_cfg_same by (auto simp: slave_inv_def)

lemma slave_inv_upd [simp]:
  "slave_inv (timerStart e i ms w) = slave_inv w" "slave_inv (startRandom e i lg w) = slave_inv w"
  "slave_inv (startAnnounceReceipt e w) = slave_inv w" "slave_inv (snd (timerExpired i w)) = slave_inv w"
  "slave_inv (w\<lparr>calls := n\<rparr>) = slave_inv w" "slave_inv (w\<lparr>timers := ts\<rparr>) = slave_inv w"
  by (simp_all add: slave_inv_def)

lemma slave_fault: "slave_inv w \<Longrightarrow> slave_inv (toState e PTP_FAULTY w)"
  by (auto simp: slave_inv_def slave_cfg_def)

lemma slave_toState:
  "slave_inv w \<Longrightarrow> d_slaveOnly (defaultDS (clk w)) \<Longrightarrow> st \<in> {PTP_LISTENING, PTP_UNCALIBRATED, PTP_SLAVE} \<Longrightarrow>
   slave_inv (toState e st w)"
  by (auto simp: slave_inv_def slave_cfg_def)

text \<open>Sending one packet of an allowed type.\<close>

lemma slave_send:
  assumes "slave_inv w" "buf = msgObuf (clk w)" "0 < len" "ld8 0 buf AND 0x0F \<in> slave_types"
  shows "slave_inv (snd (snd (after_send w (netSend tx buf len t addr ev pcb))))"
  using assms netSend_type [OF assms(3), of _ tx buf t addr ev pcb] by (auto simp: slave_inv_def slave_cfg_def)

lemma slave_obuf: "slave_inv w \<Longrightarrow> length buf = PTP_PACKET_SIZE \<Longrightarrow> slave_inv (w\<lparr>clk := (clk w)\<lparr>msgObuf := buf\<rparr>\<rparr>)"
  by (simp add: slave_inv_def slave_cfg_def)

lemma slave_len: "slave_inv w \<Longrightarrow> length (msgObuf (clk w)) = 300"
  by (simp add: slave_inv_def slave_cfg_def)

lemma slave_issue:
  assumes "slave_inv w"
  shows "slave_inv (issueDelayReq e w)" "slave_inv (issuePDelayReq e w)"
    "slave_inv (snd (issuePDelayResp e t h w))" "slave_inv (issuePDelayRespFollowUp e t h w)"
proof -
  note len = slave_len [OF assms]
  note defs = sendEvent_def sendPeerEvent_def sendPeerGeneral_def ptpNetSendEvent_def ptpNetSendPeerEvent_def
    ptpNetSendPeerGeneral_def slave_inv_def slave_cfg_def Let_def case_prod_beta
  show "slave_inv (issueDelayReq e w)" "slave_inv (issuePDelayReq e w)"
    using assms len by (auto simp: issueDelayReq_def issuePDelayReq_def defs pack_type slave_types_def dest!: netSend_type [rotated])
  show "slave_inv (snd (issuePDelayResp e t h w))" "slave_inv (issuePDelayRespFollowUp e t h w)"
    using assms len by (auto simp: issuePDelayResp_def issuePDelayRespFollowUp_def defs pack_type slave_types_def dest!: netSend_type [rotated])
qed

lemma slave_timerReq: "slave_inv w \<Longrightarrow> slave_inv (issueDelayReqTimerExpired e w)"
  by (auto simp: issueDelayReqTimerExpired_def case_prod_beta timerExpired_def
      intro!: slave_issue split: delay_mechanism.split)


lemma slave_updClk: "slave_inv w \<Longrightarrow> same_config (clk w) (f (clk w)) \<Longrightarrow> slave_inv (updClk f w)"
  by (rule slave_inv_same [of w]) simp_all

lemma slave_clk: "slave_inv w \<Longrightarrow> same_config (clk w) c \<Longrightarrow> slave_inv (w\<lparr>clk := c\<rparr>)"
  by (rule slave_inv_same [of w]) simp_all

lemma slave_updateClock: "slave_inv w \<Longrightarrow> slave_inv (updateClock e w)"
  by (rule slave_inv_same [of w]) simp_all

lemma slave_not_master: "slave_inv w \<Longrightarrow> portState (portDS (clk w)) \<notin> {PTP_MASTER, PTP_PRE_MASTER, PTP_PASSIVE, PTP_DISABLED}"
  by (auto simp: slave_inv_def slave_cfg_def)

lemma slave_handlers:
  assumes "slave_inv w"
  shows "slave_inv (handleAnnounce e self w)" "slave_inv (handleSync e t self w)" "slave_inv (handleFollowUp e self w)"
    "slave_inv (handleDelayReq e t self w)" "slave_inv (handleDelayResp e self w)" "slave_inv (handlePDelayReq e t self w)"
    "slave_inv (handlePDelayResp e t self w)" "slave_inv (handlePDelayRespFollowUp e self w)"
proof -
  have add: "same_config c (addForeignClk (decisionEvent (unpackAnnounceClk c)))" for c
    by (rule same_config_trans [OF same_config_trans]) (rule bmc_parts_config)+
  have ann: "slave_inv (slaveAnnounce e w)"
    unfolding slaveAnnounce_def Let_def
    using assms by (auto intro!: slave_clk)
       (auto simp: same_config_def s1_def addForeignClk_def decisionEvent_def unpackAnnounceClk_def Let_def)
  show "slave_inv (handleAnnounce e self w)"
    unfolding handleAnnounce_def
    using assms ann slave_fault add by (auto intro!: slave_updClk split: port_state.split)
  have off: "same_config c (updateOffset a b d (c\<lparr>timestamp_syncRecieve := x, msgTmp_timestamp := y, waitingForFollowUp := z\<rparr>))"
    "same_config c (updateOffset a b d (c\<lparr>msgTmp_timestamp := y, waitingForFollowUp := z\<rparr>))" for c a b d x y z
    by (rule same_config_trans [OF _ servo_config(1)], simp add: same_config_def)+
  have syn: "slave_inv (slaveSync e t self w)"
    unfolding slaveSync_def Let_def using assms off
    by (auto intro!: slave_clk slave_timerReq slave_updateClock) (auto simp: same_config_def)
  show "slave_inv (handleSync e t self w)"
    unfolding handleSync_def using assms syn slave_fault slave_timerReq by (auto split: port_state.split)
  have fol: "slave_inv (slaveFollowUp e w)"
    unfolding slaveFollowUp_def Let_def using assms off by (auto intro!: slave_clk slave_timerReq slave_updateClock)
  show "slave_inv (handleFollowUp e self w)"
    unfolding handleFollowUp_def using assms fol slave_fault slave_timerReq by (auto split: port_state.split)
  show "slave_inv (handleDelayReq e t self w)"
    unfolding handleDelayReq_def using assms slave_not_master [OF assms] slave_fault by (auto split: delay_mechanism.split)
  show "slave_inv (handleDelayResp e self w)"
    unfolding handleDelayResp_def using assms slave_fault handler_config by (auto intro!: slave_updClk split: delay_mechanism.split)
  show "slave_inv (handlePDelayReq e t self w)"
    unfolding handlePDelayReq_def Let_def case_prod_beta
    using assms slave_fault slave_issue by (auto split: delay_mechanism.split)
  show "slave_inv (handlePDelayResp e t self w)"
    unfolding handlePDelayResp_def using assms slave_fault handler_config by (auto intro!: slave_updClk split: delay_mechanism.split)
  show "slave_inv (handlePDelayRespFollowUp e self w)"
    unfolding handlePDelayRespFollowUp_def using assms slave_fault handler_config by (auto intro!: slave_updClk split: delay_mechanism.split)
qed

lemma slave_handle: "slave_inv w \<Longrightarrow> slave_inv (handle e w)"
proof -
  assume i: "slave_inv w"
  have d: "slave_inv v \<Longrightarrow> slave_inv (dispatch e t self v)" for v t self
    by (simp add: dispatch_def Let_def slave_handlers handleManagement_def handleSignaling_def)
  have r: "slave_inv v \<Longrightarrow> slave_inv (handleReceived e t v)" for v t
    unfolding handleReceived_def Let_def by (auto intro!: d slave_fault slave_updClk simp: same_config_def)
  have n: "slave_inv v \<Longrightarrow> slave_inv (snd (recvEvent t v))" "slave_inv v \<Longrightarrow> slave_inv (snd (recvGeneral t v))" for v t
    by (simp_all add: recvEvent_def recvGeneral_def case_prod_beta slave_inv_def slave_cfg_def)
  show ?thesis unfolding handle_def Let_def case_prod_beta using i by (auto intro!: n r slave_fault)
qed

lemma slave_decision:
  assumes "slave_inv w"
  shows "slave_inv (decisionStep w)"
proof -
  have b: "fst (bmc c) \<in> {PTP_LISTENING, PTP_MASTER, PTP_PASSIVE, PTP_SLAVE}" for c
    by (simp add: bmc_def bmcStateDecision_def Let_def)
  have o: "msgObuf (snd (bmc c)) = msgObuf c" for c
    by (simp add: bmc_def bmcStateDecision_def Let_def copyD0_def m1_def p1_def s1_def)
  let ?c = "(clk w)\<lparr>events := clearFlag (events (clk w)) STATE_DECISION_EVENT\<rparr>"
  show ?thesis
    using assms b [of ?c] o [of ?c]
    by (auto simp: decisionStep_def Let_def case_prod_beta slave_inv_def slave_cfg_def isSlaveOnly_def)
qed

lemma slave_recommended:
  assumes "slave_inv w"
  shows "slave_inv (recommendedStep e w)"
proof -
  have t: "slave_inv v \<Longrightarrow> slave_inv (snd (testClear ev v))" "defaultDS (clk (snd (testClear ev v))) = defaultDS (clk v)" for v ev
    by (auto simp: testClear_def intro!: slave_updClk) (simp add: same_config_def)
  show ?thesis
  proof (cases "recommendedState (clk w) = PTP_INITIALIZING")
    case True
    with assms show ?thesis by (simp add: recommendedStep_def uncalibratedEvents_def slaveEvents_def)
  next
    case False
    with assms have "d_slaveOnly (defaultDS (clk w))" "recommendedState (clk w) \<in> {PTP_LISTENING, PTP_SLAVE}"
      by (auto simp: slave_inv_def slave_cfg_def)
    with assms t slave_toState show ?thesis
      by (auto simp: recommendedStep_def uncalibratedEvents_def slaveEvents_def Let_def case_prod_beta split: port_state.split)
  qed
qed


lemma doInit_clk:
  "rtOpts (clk (snd (doInit e w))) = rtOpts (clk w)" "length (msgObuf (clk (snd (doInit e w)))) = length (msgObuf (clk w))"
  "portState (portDS (clk (snd (doInit e w)))) = portState (portDS (clk w))"
  "recommendedState (clk (snd (doInit e w))) = recommendedState (clk w)" "sent (snd (doInit e w)) = sent w"
  "fst (doInit e w) \<Longrightarrow> d_slaveOnly (defaultDS (clk (snd (doInit e w)))) = r_slaveOnly (rtOpts (clk w))"
  "length (msgIbuf (clk (snd (doInit e w)))) = length (msgIbuf (clk w))"
  by (auto simp: doInit_def Let_def case_prod_beta initData_def m1_def split: if_splits)

lemma slave_stateWork:
  assumes "slave_inv w" "portState (portDS (clk w)) = PTP_FAULTY \<longrightarrow> recommendedState (clk w) = PTP_INITIALIZING"
  shows "slave_inv (stateWork e w)"
proof -
  have ini: "slave_inv (toState e PTP_LISTENING (snd (doInit e w)))" if "fst (doInit e w)"
    using assms(1) that doInit_clk [of e w] by (auto simp: slave_inv_def slave_cfg_def)
  have bad: "slave_inv (toState e PTP_FAULTY (snd (doInit e w)))" if "portState (portDS (clk w)) = PTP_INITIALIZING" "\<not> fst (doInit e w)"
  proof -
    have "\<not> fst (doInit e w) \<Longrightarrow> defaultDS (clk (snd (doInit e w))) = defaultDS (clk w)"
      by (auto simp: doInit_def Let_def case_prod_beta split: if_splits)
    then show ?thesis using assms(1) that doInit_clk [of e w] by (auto simp: slave_inv_def slave_cfg_def)
  qed
  have flt: "slave_inv (toState e PTP_INITIALIZING w)"
    using assms(1) by (auto simp: slave_inv_def slave_cfg_def)
  have tmo: "slave_inv (announceTimeout e v)" if "slave_inv v" "portState (portDS (clk v)) \<in> {PTP_LISTENING, PTP_UNCALIBRATED, PTP_SLAVE}" for v
  proof -
    let ?v = "updClk (\<lambda>c. c\<lparr>foreignMasterDS := (foreignMasterDS c)\<lparr>fm_count := 0, fm_i := 0\<rparr>\<rparr>) v"
    have "slave_inv ?v" "d_slaveOnly (defaultDS (clk ?v))" using that by (auto simp: slave_inv_def slave_cfg_def)
    then show ?thesis by (auto simp: announceTimeout_def Let_def isSlaveOnly_def intro!: slave_toState)
  qed
  have st: "portState (portDS (clk w)) \<in> {PTP_INITIALIZING, PTP_FAULTY, PTP_LISTENING, PTP_UNCALIBRATED, PTP_SLAVE}"
    using assms(1) by (auto simp: slave_inv_def slave_cfg_def)
  then show ?thesis
    using assms(1) ini bad flt tmo [of "snd (timerExpired ANNOUNCE_RECEIPT_TIMER w)"]
      slave_handle [of "snd (timerExpired ANNOUNCE_RECEIPT_TIMER w)" e]
    by (auto simp: stateWork_def case_prod_beta split: bool.split)
qed

lemma recommended_not_faulty:
  "recommendedState (clk w) \<in> {PTP_LISTENING, PTP_SLAVE, PTP_MASTER, PTP_PASSIVE} \<Longrightarrow>
   portState (portDS (clk (recommendedStep e w))) \<notin> {PTP_FAULTY, PTP_INITIALIZING}"
  by (auto simp: recommendedStep_def uncalibratedEvents_def slaveEvents_def Let_def case_prod_beta testClear_def timerExpired_def split: port_state.split)

lemma recommended_keep: "recommendedState (clk (recommendedStep e w)) = recommendedState (clk w)"
  by (auto simp: recommendedStep_def uncalibratedEvents_def slaveEvents_def Let_def case_prod_beta testClear_def timerExpired_def split: port_state.split)

lemma slave_machine:
  assumes "slave_inv w"
  shows "slave_inv (ptpStateMachine e w)"
proof -
  let ?w1 = "decisionStep (updClk (\<lambda>c. c\<lparr>messageActivity := False\<rparr>) w)"
  have 1: "slave_inv ?w1" using assms by (intro slave_decision slave_updClk) (simp_all add: same_config_def)
  then have 2: "slave_inv (recommendedStep e ?w1)" by (rule slave_recommended)
  have "recommendedState (clk ?w1) \<in> {PTP_INITIALIZING, PTP_LISTENING, PTP_SLAVE}"
    using 1 by (auto simp: slave_inv_def slave_cfg_def)
  then have "portState (portDS (clk (recommendedStep e ?w1))) = PTP_FAULTY \<longrightarrow>
      recommendedState (clk (recommendedStep e ?w1)) = PTP_INITIALIZING"
    using recommended_not_faulty [of ?w1 e] recommended_keep [of e ?w1] by auto
  with 2 show ?thesis unfolding ptpStateMachine_def by (rule slave_stateWork)
qed


subsection \<open>Properties of message handling\<close>

text \<open>
  A message shorter than the common header, whatever it contains, makes the port faulty and
  nothing is sent. A message of another protocol version or another domain changes nothing but the
  header buffer and the activity flag.
\<close>

theorem handleReceived_filter:
  fixes e :: env and t :: TimeInternal and w :: world
  defines "h \<equiv> msgUnpackHeader (msgIbuf (clk w))"
  shows "(msgIbufLength (clk w) < HEADER_LENGTH \<longrightarrow>
      portState (portDS (clk (handleReceived e t w))) = PTP_FAULTY \<and> sent (handleReceived e t w) = sent w) \<and>
    (HEADER_LENGTH \<le> msgIbufLength (clk w) \<longrightarrow>
      versionPTP h \<noteq> versionNumber (portDS (clk w)) \<or> h_domainNumber h \<noteq> d_domainNumber (defaultDS (clk w)) \<longrightarrow>
      handleReceived e t w = w\<lparr>clk := (clk w)\<lparr>messageActivity := True, msgTmpHeader := h\<rparr>\<rparr>)"
  by (auto simp: h_def handleReceived_def Let_def updClk_def)

theorem handleReceived_filter_witness:
  "portState (portDS (clk (handleReceived env_example TimeInternal_zero world_zero))) = PTP_FAULTY"
  using handleReceived_filter [of world_zero env_example TimeInternal_zero]
  by (simp add: world_zero_def ptpClock_zero_def)

lemma waiting_frame [simp]:
  "waitingForFollowUp (updateOffset a b d c) = waitingForFollowUp c"
  "\<not> waitingForFollowUp (clk w) \<Longrightarrow> \<not> waitingForFollowUp (clk (updateClock e w))"
  by (auto simp: updateOffset_def updateClock_def Let_def case_prod_beta initClock_def split: delay_mechanism.split)

lemma issue_waiting [simp]:
  "waitingForFollowUp (clk (issueDelayReqTimerExpired e w)) = waitingForFollowUp (clk w)"
  "portState (portDS (clk (issueDelayReqTimerExpired e w))) = portState (portDS (clk w))"
  "msgIbufLength (clk (issueDelayReqTimerExpired e w)) = msgIbufLength (clk w)"
  by (simp_all add: issueDelayReqTimerExpired_def issueDelayReq_def issuePDelayReq_def Let_def case_prod_beta
      timerExpired_def send_clk faultClk_def split: delay_mechanism.split)

lemma slaveFollowUp_done:
  "waitingForFollowUp (clk w) \<Longrightarrow> fromParent (clk w) \<Longrightarrow> recvSyncSequenceId (clk w) = sequenceId (msgTmpHeader (clk w)) \<Longrightarrow>
   \<not> waitingForFollowUp (clk (slaveFollowUp e w))"
  by (simp add: slaveFollowUp_def Let_def)


lemma updateClock_ibuf [simp]: "msgIbufLength (clk (updateClock e w)) = msgIbufLength (clk w)"
  "msgIbufLength (updateOffset a b d c) = msgIbufLength c"
  by (simp_all add: updateClock_def updateOffset_def Let_def case_prod_beta split: delay_mechanism.split)

lemma slaveFollowUp_keep:
  "portState (portDS (clk (slaveFollowUp e w))) = portState (portDS (clk w))"
  "msgIbufLength (clk (slaveFollowUp e w)) = msgIbufLength (clk w)"
proof -
  have u: "portState (portDS (clk (updateClock e v))) = portState (portDS (clk v))" for v
    using updateClock_config(1) [of v e] by (simp add: same_config_def)
  have "portState (portDS (updateOffset a b d c)) = portState (portDS c)" for a b d c
    using servo_config(1) [of c a b d] by (simp add: same_config_def)
  then show "portState (portDS (clk (slaveFollowUp e w))) = portState (portDS (clk w))"
    "msgIbufLength (clk (slaveFollowUp e w)) = msgIbufLength (clk w)"
    by (simp_all add: slaveFollowUp_def Let_def u)
qed

text \<open>
  C23: In the states uncalibrated and slave, a Follow\_Up is used only if the port waits for one, it
  comes from the current parent and carries the sequence number of the last two-step Sync; otherwise
  it changes nothing. Once used, the port does not wait any more, so that the same Follow\_Up received
  again changes nothing.
\<close>

theorem followUp_used_once:
  assumes "portState (portDS (clk w)) \<in> {PTP_UNCALIBRATED, PTP_SLAVE}" "FOLLOW_UP_LENGTH \<le> msgIbufLength (clk w)"
  shows "(\<not> (waitingForFollowUp (clk w) \<and> fromParent (clk w) \<and> recvSyncSequenceId (clk w) = sequenceId (msgTmpHeader (clk w))) \<longrightarrow>
      handleFollowUp e False w = w) \<and>
    handleFollowUp e False (handleFollowUp e False w) = handleFollowUp e False w"
proof -
  have h: "handleFollowUp e False v = slaveFollowUp e v"
    if "portState (portDS (clk v)) \<in> {PTP_UNCALIBRATED, PTP_SLAVE}" "44 \<le> msgIbufLength (clk v)" for v
    using that by (auto simp: handleFollowUp_def split: port_state.split)
  have n: "slaveFollowUp e w = w" if "\<not> (waitingForFollowUp (clk w) \<and> fromParent (clk w) \<and>
      recvSyncSequenceId (clk w) = sequenceId (msgTmpHeader (clk w)))"
    using that by (auto simp: slaveFollowUp_def Let_def)
  have t: "slaveFollowUp e (slaveFollowUp e w) = slaveFollowUp e w"
  proof (cases "waitingForFollowUp (clk w) \<and> fromParent (clk w) \<and> recvSyncSequenceId (clk w) = sequenceId (msgTmpHeader (clk w))")
    case True
    then have "\<not> waitingForFollowUp (clk (slaveFollowUp e w))" using slaveFollowUp_done by blast
    then show ?thesis by (simp add: slaveFollowUp_def [of e "slaveFollowUp e w"] Let_def)
  next
    case False
    then show ?thesis using n by simp
  qed
  show ?thesis using n t assms by (simp add: h slaveFollowUp_keep)
qed

definition slave_example :: world where
  "slave_example = world_zero\<lparr>clk := ptpClock_zero\<lparr>portDS := (portDS ptpClock_zero)\<lparr>portState := PTP_SLAVE\<rparr>, msgIbufLength := 44\<rparr>\<rparr>"

theorem followUp_used_once_witness:
  "handleFollowUp env_example False slave_example = slave_example"
  using followUp_used_once [of slave_example env_example]
  by (simp add: slave_example_def ptpClock_zero_def)

text \<open>
  A slave takes a delay response for its measurement exactly when it comes from the current parent,
  names the port as the requester and carries the sequence number of the request sent last; otherwise
  only the receive buffer of the body changes.
\<close>

theorem delayResp_match:
  assumes "delayMechanism (portDS (clk w)) = E2E" "portState (portDS (clk w)) \<in> {PTP_UNCALIBRATED, PTP_SLAVE}"
    and "DELAY_RESP_LENGTH \<le> msgIbufLength (clk w)"
  defines "c \<equiv> (clk w)\<lparr>msgTmp_resp := msgUnpackDelayResp (msgIbuf (clk w))\<rparr>"
  shows "handleDelayResp e self w = w\<lparr>clk :=
      if sint (sequenceId (msgTmpHeader c)) = sint (sentDelayReqSequenceId c) - 1 \<and>
         isSamePortIdentity (portIdentity (portDS c)) (requestingPortIdentity (msgTmp_resp c)) \<and> fromParent c
      then acceptDelayResp c else c\<rparr>"
  using assms by (auto simp: handleDelayResp_def slaveDelayResp_def Let_def updClk_def)

theorem delayResp_match_witness:
  "clk (handleDelayResp env_example False (slave_example\<lparr>clk := (clk slave_example)\<lparr>msgIbufLength := 54,
      portDS := (portDS (clk slave_example))\<lparr>delayMechanism := E2E\<rparr>\<rparr>\<rparr>)) =
   (clk slave_example)\<lparr>msgIbufLength := 54, portDS := (portDS (clk slave_example))\<lparr>delayMechanism := E2E\<rparr>,
      msgTmp_resp := msgUnpackDelayResp (msgIbuf (clk slave_example))\<rparr>"
  using delayResp_match [of "slave_example\<lparr>clk := (clk slave_example)\<lparr>msgIbufLength := 54,
      portDS := (portDS (clk slave_example))\<lparr>delayMechanism := E2E\<rparr>\<rparr>\<rparr>" env_example False]
  by (simp add: slave_example_def world_zero_def zero_defs)

text \<open>
  The response to the delay request with sequence number 32767 is never accepted: the counter has
  then wrapped to -32768, and the code subtracts one in \<open>int\<close> instead of \<open>int16_t\<close>, so that no 16 bit
  sequence number can be equal to it. The same holds for both peer delay messages.
\<close>

theorem response_lost_at_wrap:
  "(sentDelayReqSequenceId c = 0x8000 \<longrightarrow> slaveDelayResp c = c\<lparr>msgTmp_resp := msgUnpackDelayResp (msgIbuf c)\<rparr>) \<and>
   (sentPDelayReqSequenceId c = 0x8000 \<longrightarrow> peerDelayResp g t c = c\<lparr>msgTmp_resp := msgUnpackPDelayResp (msgIbuf c)\<rparr> \<and>
      peerDelayRespFollowUp g c = c)"
proof -
  have n: "sint (0x8000 :: u16) - 1 \<noteq> sint (x :: u16)" for x
    using sint_ge [of x] by simp
  show ?thesis
    using n n [symmetric] by (simp add: slaveDelayResp_def peerDelayResp_def peerDelayRespFollowUp_def Let_def)
qed

theorem response_lost_at_wrap_witness:
  "slaveDelayResp (ptpClock_zero\<lparr>sentDelayReqSequenceId := 0x8000\<rparr>) = ptpClock_zero\<lparr>sentDelayReqSequenceId := 0x8000,
     msgTmp_resp := msgUnpackDelayResp (msgIbuf ptpClock_zero)\<rparr>"
  using response_lost_at_wrap [of "ptpClock_zero\<lparr>sentDelayReqSequenceId := 0x8000\<rparr>"] by simp

end
