(* ===== verification/PtpMain.thy ===== *)
theory PtpMain
  imports PtpProtocol
begin

text \<open>
  The daemon, \<^verbatim>\<open>src/supports/lwip/lwip/src/exts/ptp/ptpMain.c\<close>: its options, its start, and its life as a
  step relation in which runs of the state machine, arriving packets and expiring timers follow each
  other in any order. The invariants of the step relation: a slave-only clock never acts as a master,
  and every index into the packet rings and into the table of foreign masters stays in bounds.
\<close>

subsection \<open>Start\<close>

text \<open>The assignments to the run-time options at the head of \<open>_ptpdTask\<close>.\<close>

definition ptpdOptions :: "RunTimeOpts \<Rightarrow> RunTimeOpts" where
  "ptpdOptions o0 =
     o0\<lparr>r_announceInterval := 1, r_syncInterval := 0,
        r_clockQuality := \<lparr>clockClass = 248, clockAccuracy = 0xFE, offsetScaledLogVariance = 5000\<rparr>,
        r_priority1 := 248, r_priority2 := 248, r_domainNumber := 0, r_slaveOnly := True, r_currentUtcOffset := 34,
        r_servo := \<lparr>noResetClock = False, noAdjust = False, ap = 2, ai = 16, sDelay = 6, sOffset = 1\<rparr>,
        r_inboundLatency := (r_inboundLatency o0)\<lparr>nanoseconds := 0\<rparr>,
        r_outboundLatency := (r_outboundLatency o0)\<lparr>nanoseconds := 0\<rparr>,
        r_maxForeignRecords := DEFAULT_MAX_FOREIGN_RECORDS, r_delayMechanism := E2E\<rparr>"

definition ptpdStartup :: "env \<Rightarrow> world \<Rightarrow> world" where
  "ptpdStartup e w =
     (let o1 = rtOpts (clk w);
          o2 = (if r_slaveOnly o1 then o1\<lparr>r_clockQuality := (r_clockQuality o1)\<lparr>clockClass := 255\<rparr>\<rparr> else o1);
          o3 = (if ap (r_servo o2) < 1 then o2\<lparr>r_servo := (r_servo o2)\<lparr>ap := 1\<rparr>\<rparr> else o2);
          o4 = (if ai (r_servo o3) < 1 then o3\<lparr>r_servo := (r_servo o3)\<lparr>ai := 1\<rparr>\<rparr> else o3)
      in toState e PTP_INITIALIZING (updClk (\<lambda>c. c\<lparr>rtOpts := o4\<rparr>) w))"

definition ptpdTask_start :: "env \<Rightarrow> (RunTimeOpts \<Rightarrow> RunTimeOpts) \<Rightarrow> world \<Rightarrow> world" where
  "ptpdTask_start e opts w =
     ptpdStartup e (updClk (\<lambda>c. c\<lparr>rtOpts := opts (rtOpts c),
         foreignMasterDS := (foreignMasterDS c)\<lparr>fmr_records := replicate DEFAULT_MAX_FOREIGN_RECORDS ForeignMasterRecord_zero\<rparr>,
         netPath := (netPath c)\<lparr>multicastAddr := 0\<rparr>\<rparr>) w)"

text \<open>\<open>ptpd_init\<close>: the cleared clock, on which the task starts.\<close>

definition ptpd_init :: "env \<Rightarrow> (RunTimeOpts \<Rightarrow> RunTimeOpts) \<Rightarrow> world" where
  "ptpd_init e opts = ptpdTask_start e opts world_zero"

subsection \<open>Steps\<close>

inductive daemon_step :: "env \<Rightarrow> world \<Rightarrow> world \<Rightarrow> bool" for e where
  machine: "daemon_step e w (ptpStateMachine e w)"
| event: "daemon_step e w (updClk (\<lambda>c. c\<lparr>netPath := udpRecvEventCallback (netPath c) p\<rparr>) w)"
| general: "daemon_step e w (updClk (\<lambda>c. c\<lparr>netPath := udpRecvGeneralCallback (netPath c) p\<rparr>) w)"
| timer: "daemon_step e w (timer_fire i w)"

inductive_cases daemon_stepE: "daemon_step e w w'"

subsection \<open>Slave-only\<close>

lemma slave_step: "slave_inv w \<Longrightarrow> daemon_step e w w' \<Longrightarrow> slave_inv w'"
proof (erule daemon_stepE)
  assume i: "slave_inv w"
  show "slave_inv w'" if "w' = ptpStateMachine e w" using that i slave_machine by simp
  show "slave_inv w'" if "w' = updClk (\<lambda>c. c\<lparr>netPath := udpRecvEventCallback (netPath c) p\<rparr>) w" for p
    using that i by (auto intro!: slave_updClk simp: same_config_def)
  show "slave_inv w'" if "w' = updClk (\<lambda>c. c\<lparr>netPath := udpRecvGeneralCallback (netPath c) p\<rparr>) w" for p
    using that i by (auto intro!: slave_updClk simp: same_config_def)
  show "slave_inv w'" if "w' = timer_fire i w" for i
    using that i by (simp add: timer_fire_unfold)
qed

lemma ptpd_init_clk:
  "portState (portDS (clk (ptpd_init e opts))) = PTP_INITIALIZING" "recommendedState (clk (ptpd_init e opts)) = PTP_INITIALIZING"
  "sent (ptpd_init e opts) = []" "msgObuf (clk (ptpd_init e opts)) = replicate 300 0" "msgIbuf (clk (ptpd_init e opts)) = replicate 300 0"
  "r_slaveOnly (rtOpts (clk (ptpd_init e opts))) = r_slaveOnly (opts RunTimeOpts_zero)"
  "r_maxForeignRecords (rtOpts (clk (ptpd_init e opts))) = r_maxForeignRecords (opts RunTimeOpts_zero)"
  "foreignMasterDS (clk (ptpd_init e opts)) = \<lparr>fmr_records = replicate 5 ForeignMasterRecord_zero, fm_count = 0, fm_capacity = 0, fm_i = 0, fm_best = 0\<rparr>"
  by (simp_all add: ptpd_init_def ptpdTask_start_def ptpdStartup_def Let_def world_zero_def ptpClock_zero_def)

lemma slave_init: "r_slaveOnly (opts RunTimeOpts_zero) \<Longrightarrow> slave_inv (ptpd_init e opts)"
  by (simp add: slave_inv_def slave_cfg_def ptpd_init_clk)

interpretation slave_only: step_system "\<lambda>w. \<exists>opts. r_slaveOnly (opts RunTimeOpts_zero) \<and> w = ptpd_init e opts" "daemon_step e" slave_inv
  for e
  by unfold_locales (auto intro: slave_init slave_step)

text \<open>
  C1: A slave-only clock stays a slave. Started with the option set, as the task of this firmware
  does, whatever packets arrive, in whatever order timers expire and the state machine runs, and however
  transmissions and allocations turn out, the port never becomes master, pre-master or passive, and no
  Sync, Follow\_Up, Announce or Delay\_Resp is ever sent.
\<close>

theorem slave_only_never_master:
  assumes "r_slaveOnly (opts RunTimeOpts_zero)" "(daemon_step e)\<^sup>*\<^sup>* (ptpd_init e opts) w"
  shows "portState (portDS (clk w)) \<notin> {PTP_MASTER, PTP_PRE_MASTER, PTP_PASSIVE} \<and>
    (\<forall>p\<in>set (sent w). pk_type p \<notin> {SYNC, FOLLOW_UP, ANNOUNCE, DELAY_RESP})"
proof -
  have "slave_inv w" using slave_only.inv_reachable [of "ptpd_init e opts" e w] assms by blast
  then show ?thesis by (auto simp: slave_inv_def slave_cfg_def slave_types_def)
qed

theorem slave_only_never_master_witness:
  "portState (portDS (clk (ptpStateMachine env_example (ptpd_init env_example ptpdOptions)))) \<noteq> PTP_MASTER"
  using slave_only_never_master [of ptpdOptions env_example "ptpStateMachine env_example (ptpd_init env_example ptpdOptions)"]
    r_into_rtranclp [of "daemon_step env_example", OF daemon_step.machine [of env_example "ptpd_init env_example ptpdOptions"]]
  by (simp add: ptpdOptions_def)


subsection \<open>Indices in bounds\<close>

lemma emptyQ_valid:
  "ring_valid (eventQ np) \<Longrightarrow> ring_valid (eventQ (ptpNetEmptyEventQ np))" "generalQ (ptpNetEmptyEventQ np) = generalQ np"
  by (auto simp: ptpNetEmptyEventQ_def netQEmpty_spec case_prod_beta) (simp add: ring_valid_def)

lemma netRecv_keep:
  assumes "ring_valid q" "length buf = PTP_PACKET_SIZE"
  shows "ring_valid (rx_queue (netRecv buf t q))" "length (rx_buf (netRecv buf t q)) = PTP_PACKET_SIZE"
proof -
  have c: "copyChain n i j segs b = Some b' \<Longrightarrow> length b' = length b" for n i j segs b b'
    by (induction n i j segs b rule: copyChain.induct) (auto split: if_splits)
  show "ring_valid (rx_queue (netRecv buf t q))" "length (rx_buf (netRecv buf t q)) = PTP_PACKET_SIZE"
    using ring.inv_get [OF assms(1)] assms(2) by (auto simp: netRecv_def split: prod.split option.split dest: c)
qed

text \<open>Steps that leave the table, the states and the pending decision alone and keep the rings valid.\<close>

definition rings_ok :: "PtpClock \<Rightarrow> bool" where
  "rings_ok c \<longleftrightarrow> ring_valid (eventQ (netPath c)) \<and> ring_valid (generalQ (netPath c)) \<and> length (msgIbuf c) = PTP_PACKET_SIZE"

definition quiet :: "PtpClock \<Rightarrow> PtpClock \<Rightarrow> bool" where
  "quiet c c' \<longleftrightarrow> rtOpts c' = rtOpts c \<and> foreignMasterDS c' = foreignMasterDS c \<and> portState (portDS c') = portState (portDS c) \<and>
     recommendedState c' = recommendedState c \<and> (rings_ok c \<longrightarrow> rings_ok c') \<and>
     (getFlag (events c) STATE_DECISION_EVENT \<longrightarrow> getFlag (events c') STATE_DECISION_EVENT)"

lemma quiet_refl [simp]: "quiet c c"
  by (simp add: quiet_def)

lemma quiet_trans: "quiet c c' \<Longrightarrow> quiet c' c'' \<Longrightarrow> quiet c c''"
  by (auto simp: quiet_def)

lemma flag_mono: "getFlag f m \<Longrightarrow> getFlag (setFlag f k) m"
  by (auto simp: getFlag_def setFlag_def bit_eq_iff bit_simps)

lemma quiet_servo [simp]:
  "quiet c (updateOffset a b d c)" "quiet c (updateDelay a b d c)" "quiet c (updatePeerDelay d two c)"
  by (simp_all add: quiet_def rings_ok_def updateOffset_def updateDelay_def updatePeerDelay_def Let_def case_prod_beta flag_mono
      split: delay_mechanism.split)

lemma quiet_initClock [simp]: "quiet (clk w) (clk (initClock w))"
  by (simp add: quiet_def rings_ok_def emptyQ_valid)

lemma quiet_updateClock [simp]: "quiet (clk w) (clk (updateClock e w))"
  by (auto simp: updateClock_def Let_def case_prod_beta) (auto simp: quiet_def rings_ok_def emptyQ_valid)

lemma quiet_fault [simp]: "quiet c (faultClk b c)"
  by (simp add: quiet_def rings_ok_def faultClk_def)

lemma quiet_issue [simp]:
  "quiet (clk w) (clk (issueDelayReqTimerExpired e w))" "quiet (clk w) (clk (issueAnnounce e w))"
  "quiet (clk w) (clk (issueFollowup e t w))" "quiet (clk w) (clk (issueSync e w))"
  "quiet (clk w) (clk (snd (issuePDelayResp e t h w)))" "quiet (clk w) (clk (issueDelayResp e t h w))"
  "quiet (clk w) (clk (issuePDelayRespFollowUp e t h w))"
  by (simp_all add: issueDelayReqTimerExpired_def issueDelayReq_def issuePDelayReq_def issueAnnounce_def issueFollowup_def
      issueSync_def issuePDelayResp_def issueDelayResp_def issuePDelayRespFollowUp_def Let_def case_prod_beta timerExpired_def
      send_clk faultClk_def quiet_def rings_ok_def split: delay_mechanism.split)

lemma quiet_delayResp: "quiet c (slaveDelayResp c)" "quiet c (peerDelayResp g t c)" "quiet c (peerDelayRespFollowUp g c)"
proof -
  have u: "quiet c1 c2 \<Longrightarrow> quiet c1 (c2\<lparr>portDS := (portDS c2)\<lparr>logMinDelayReqInterval := l\<rparr>\<rparr>)"
    "quiet c1 c2 \<Longrightarrow> quiet c1 (c2\<lparr>waitingForPDelayRespFollowUp := b\<rparr>)" for c1 c2 l b
    by (simp_all add: quiet_def rings_ok_def)
  have v: "quiet c (updateDelay x y z (c\<lparr>msgTmp_resp := r, timestamp_delayReqRecieve := q\<rparr>))"
    "quiet c (updatePeerDelay z two (c\<lparr>msgTmp_resp := r, pdelay_t3 := q\<rparr>))"
    "quiet c (updatePeerDelay z two (c\<lparr>msgTmp_resp := r, waitingForPDelayRespFollowUp := b, pdelay_t4 := q\<rparr>))" for x y z r q b two
    by (rule quiet_trans [OF _ quiet_servo(2)] quiet_trans [OF _ quiet_servo(3)], simp add: quiet_def rings_ok_def)+
  show "quiet c (slaveDelayResp c)"
    using v(1) u(1) by (simp add: slaveDelayResp_def acceptDelayResp_def Let_def) (simp add: quiet_def rings_ok_def)
  show "quiet c (peerDelayResp g t c)"
    using v(3) by (simp add: peerDelayResp_def Let_def) (simp add: quiet_def rings_ok_def)
  show "quiet c (peerDelayRespFollowUp g c)"
    using v(2) u(2) by (simp add: peerDelayRespFollowUp_def Let_def)
qed


definition mem_base :: "PtpClock \<Rightarrow> bool" where
  "mem_base c \<longleftrightarrow> rings_ok c \<and> r_maxForeignRecords (rtOpts c) = DEFAULT_MAX_FOREIGN_RECORDS \<and>
     length (fmr_records (foreignMasterDS c)) = DEFAULT_MAX_FOREIGN_RECORDS"

definition pristine :: "PtpClock \<Rightarrow> bool" where
  "pristine c \<longleftrightarrow> recommendedState c = PTP_INITIALIZING \<and> portState (portDS c) \<in> {PTP_INITIALIZING, PTP_FAULTY} \<and>
     fm_count (foreignMasterDS c) = 0 \<and> fm_i (foreignMasterDS c) = 0 \<and> fm_best (foreignMasterDS c) = 0"

definition running :: "PtpClock \<Rightarrow> bool" where
  "running c \<longleftrightarrow> recommendedState c \<in> {PTP_LISTENING, PTP_MASTER, PTP_PASSIVE, PTP_SLAVE} \<and> fm_tab (foreignMasterDS c) \<and>
     portState (portDS c) \<in> {PTP_FAULTY, PTP_LISTENING, PTP_UNCALIBRATED, PTP_SLAVE, PTP_MASTER, PTP_PASSIVE}"

text \<open>Between two runs of the state machine, and within a run once the pending decision was taken.\<close>

definition mem_inv :: "PtpClock \<Rightarrow> bool" where
  "mem_inv c \<longleftrightarrow> mem_base c \<and> (pristine c \<or> running c \<and> (fm_ok (foreignMasterDS c) \<or>
     portState (portDS c) \<noteq> PTP_FAULTY \<and> getFlag (events c) STATE_DECISION_EVENT))"

definition mem_strong :: "PtpClock \<Rightarrow> bool" where
  "mem_strong c \<longleftrightarrow> mem_base c \<and> (pristine c \<or> running c \<and> fm_ok (foreignMasterDS c))"

lemmas mem_defs = mem_inv_def mem_strong_def mem_base_def pristine_def running_def

lemma mem_strong_inv: "mem_strong c \<Longrightarrow> mem_inv c"
  by (auto simp: mem_inv_def mem_strong_def)

lemma mem_quiet: "quiet c c' \<Longrightarrow> mem_strong c \<Longrightarrow> mem_strong c'" "quiet c c' \<Longrightarrow> mem_inv c \<Longrightarrow> mem_inv c'"
  by (auto simp: mem_defs quiet_def)

lemma rings_toState: "rings_ok (clk w) \<Longrightarrow> rings_ok (clk (toState e st w))"
proof -
  have "rings_ok (clk v) \<Longrightarrow> rings_ok (clk (leaveState st v))" for v
    by (auto simp: leaveState_def rings_ok_def emptyQ_valid split: port_state.split delay_mechanism.split)
  then show "rings_ok (clk w) \<Longrightarrow> rings_ok (clk (toState e st w))"
    by (simp add: toState_def) (simp add: rings_ok_def)
qed

lemma mem_toState:
  assumes "mem_strong (clk w)"
  shows "mem_strong (clk (toState e PTP_FAULTY w))"
    and "running (clk w) \<Longrightarrow> st \<in> {PTP_LISTENING, PTP_UNCALIBRATED, PTP_SLAVE, PTP_MASTER, PTP_PRE_MASTER, PTP_PASSIVE} \<Longrightarrow>
      mem_strong (clk (toState e st w)) \<and> running (clk (toState e st w))"
    and "portState (portDS (clk w)) = PTP_FAULTY \<Longrightarrow> recommendedState (clk w) = PTP_INITIALIZING \<Longrightarrow>
      mem_strong (clk (toState e PTP_INITIALIZING w))"
  using assms rings_toState [of w e] by (auto simp: mem_defs)

lemma mem_slaveAnnounce:
  assumes "mem_strong (clk w)" "running (clk w)" "portState (portDS (clk w)) \<noteq> PTP_FAULTY"
    and "length (clockIdentity (sourcePortIdentity (msgTmpHeader (clk w)))) = 8"
  shows "mem_inv (clk (slaveAnnounce e w))" "mem_inv (addForeignClk (decisionEvent (unpackAnnounceClk (clk w))))"
proof -
  have ok: "fm_ok (foreignMasterDS (clk w))" using assms(1,2) by (auto simp: mem_defs)
  have len: "length (fmr_records (addForeign h a ds)) = length (fmr_records ds)" for h a ds
    by (simp add: addForeign_def split: option.split)
  have q: "quiet c (s1 h a (unpackAnnounceClk (decisionEvent c)))" for c h a
    by (simp add: quiet_def rings_ok_def s1_def unpackAnnounceClk_def decisionEvent_def Let_def flag_mono)
  show "mem_inv (addForeignClk (decisionEvent (unpackAnnounceClk (clk w))))"
    using assms addForeign_ok [OF ok] by (auto simp: mem_defs rings_ok_def addForeignClk_def decisionEvent_def unpackAnnounceClk_def len)
  moreover have "addForeignClk (decisionEvent (unpackAnnounceClk c)) = addForeignClk (unpackAnnounceClk (decisionEvent c))" for c
    by (simp add: addForeignClk_def decisionEvent_def unpackAnnounceClk_def)
  moreover have "mem_inv (s1 h a (unpackAnnounceClk (decisionEvent (clk w))))" for h a
    using mem_quiet(2) [OF q] mem_strong_inv [OF assms(1)] by blast
  ultimately show "mem_inv (clk (slaveAnnounce e w))"
    by (simp add: slaveAnnounce_def Let_def)
qed


lemma quiet_clock: "quiet c (clk v) \<Longrightarrow> quiet c (clk (issueDelayReqTimerExpired e (updateClock e v)))"
  by (blast intro: quiet_trans quiet_updateClock quiet_issue(1))

lemma quiet_sync: "quiet (clk w) (clk (slaveSync e t self w))" "quiet (clk w) (clk (slaveFollowUp e w))"
proof -
  have off: "quiet c (updateOffset a b d (c\<lparr>timestamp_syncRecieve := x, msgTmp_timestamp := y, waitingForFollowUp := z\<rparr>))"
    "quiet c (updateOffset a b d (c\<lparr>msgTmp_timestamp := y, waitingForFollowUp := z\<rparr>))" for c a b d x y z
    by (rule quiet_trans [OF _ quiet_servo(1)], simp add: quiet_def rings_ok_def)+
  have r: "quiet c (c\<lparr>timestamp_syncRecieve := x, waitingForFollowUp := y, recvSyncSequenceId := z, correctionField_sync := u\<rparr>)" for c x y z u
    by (simp add: quiet_def rings_ok_def)
  show "quiet (clk w) (clk (slaveSync e t self w))"
    using r off by (auto simp: slaveSync_def Let_def intro!: quiet_clock)
  show "quiet (clk w) (clk (slaveFollowUp e w))"
    using off by (auto simp: slaveFollowUp_def Let_def intro!: quiet_clock)
qed

lemma quiet_pdelay: "quiet (clk w) (clk (let (t', w1) = issuePDelayResp e t h w in if P t' w1 then issuePDelayRespFollowUp e t' (k w1) w1 else w1))"
  by (auto simp: Let_def case_prod_beta intro: quiet_trans [OF quiet_issue(5) quiet_issue(7)])

lemma mem_dispatch:
  assumes "mem_strong (clk w)" "running (clk w)"
    and "length (clockIdentity (sourcePortIdentity (msgTmpHeader (clk w)))) = 8"
  shows "mem_inv (clk (dispatch e t self w))"
proof -
  have i: "mem_inv (clk w)" using assms(1) by (rule mem_strong_inv)
  have f: "mem_inv (clk (toState e PTP_FAULTY w))" using mem_toState(1) [OF assms(1)] by (rule mem_strong_inv)
  have q: "quiet (clk w) c \<Longrightarrow> mem_inv c" for c using mem_quiet(2) i by blast
  have ann: "mem_inv (clk (handleAnnounce e self w))"
    using i f mem_slaveAnnounce [OF assms(1,2) _ assms(3)] assms(2)
    by (auto simp: handleAnnounce_def running_def split: port_state.split)
  have syn: "mem_inv (clk (handleSync e t self w))" "mem_inv (clk (handleFollowUp e self w))"
    using i f by (auto simp: handleSync_def handleFollowUp_def intro!: q quiet_sync split: port_state.split)
  have dly: "mem_inv (clk (handleDelayReq e t self w))" "mem_inv (clk (handleDelayResp e self w))"
    "mem_inv (clk (handlePDelayResp e t self w))" "mem_inv (clk (handlePDelayRespFollowUp e self w))"
    using i f by (auto simp: handleDelayReq_def handleDelayResp_def handlePDelayResp_def handlePDelayRespFollowUp_def
        intro!: q quiet_delayResp split: delay_mechanism.split)
  have pdl: "mem_inv (clk (handlePDelayReq e t self w))"
    using i f q [OF quiet_pdelay] by (auto simp: handlePDelayReq_def split: delay_mechanism.split)
  show ?thesis using ann syn dly pdl i by (simp add: dispatch_def Let_def handleManagement_def handleSignaling_def)
qed

lemma mem_handle:
  assumes "mem_strong (clk w)" "running (clk w)"
  shows "mem_inv (clk (handle e w))"
proof -
  have r: "mem_inv (clk (handleReceived e t v))" if "mem_strong (clk v)" "running (clk v)" for v t
  proof -
    let ?v = "updClk (\<lambda>c. c\<lparr>messageActivity := True\<rparr>) v"
    let ?u = "updClk (\<lambda>c. c\<lparr>msgTmpHeader := msgUnpackHeader (msgIbuf c)\<rparr>) ?v"
    have q: "quiet (clk v) (clk ?v)" "quiet (clk v) (clk ?u)" by (simp_all add: quiet_def rings_ok_def)
    have v: "mem_strong (clk ?v)" "mem_strong (clk ?u)" using mem_quiet(1) q that(1) by blast+
    have "running (clk ?u)" using that(2) by (simp add: running_def)
    moreover have "length (clockIdentity (sourcePortIdentity (msgTmpHeader (clk ?u)))) = 8"
      using that(1) by (simp add: msgUnpackHeader_def mem_defs rings_ok_def)
    ultimately have "mem_inv (clk (dispatch e t' self ?u))" for t' self by (rule mem_dispatch [OF v(2)])
    with v mem_toState(1) [OF v(1), of e] show ?thesis
      by (auto simp: handleReceived_def Let_def mem_strong_inv)
  qed
  have n: "mem_strong (clk (snd (recvEvent t v))) \<and> running (clk (snd (recvEvent t v)))"
    "mem_strong (clk (snd (recvGeneral t v))) \<and> running (clk (snd (recvGeneral t v)))" if "mem_strong (clk v)" "running (clk v)" for v t
    using that netRecv_keep [of "eventQ (netPath (clk v))" "msgIbuf (clk v)" t] netRecv_keep [of "generalQ (netPath (clk v))" "msgIbuf (clk v)" t]
    by (simp_all add: recvEvent_def recvGeneral_def ptpNetRecvEvent_def ptpNetRecvGeneral_def Let_def mem_defs rings_ok_def)
  have f: "mem_strong (clk v) \<Longrightarrow> mem_inv (clk (toState e PTP_FAULTY v))" for v
    using mem_toState(1) mem_strong_inv by blast
  note n1 = n(1) [OF assms, of TimeInternal_zero]
  let ?w1 = "snd (recvEvent TimeInternal_zero w)"
  note n2 = n(2) [of ?w1 "fst (recvEvent TimeInternal_zero w)"]
  show ?thesis
    unfolding handle_def Let_def case_prod_beta
    using assms n1 n2 by (auto intro!: r f simp: mem_strong_inv)
qed

lemma mem_decision:
  assumes "mem_inv (clk w)"
  shows "mem_strong (clk (decisionStep w))"
proof -
  let ?c = "(clk w)\<lparr>events := clearFlag (events (clk w)) STATE_DECISION_EVENT\<rparr>"
  have b: "fst (bmc ?c) \<in> {PTP_LISTENING, PTP_MASTER, PTP_PASSIVE, PTP_SLAVE}"
    by (simp add: bmc_def bmcStateDecision_def Let_def)
  have o: "msgIbuf (snd (bmc ?c)) = msgIbuf (clk w)"
    by (simp add: bmc_def bmcStateDecision_def Let_def copyD0_def m1_def p1_def s1_def)
  show ?thesis
  proof (cases "portState (portDS (clk w)) \<in> {PTP_LISTENING, PTP_UNCALIBRATED, PTP_SLAVE, PTP_PRE_MASTER, PTP_MASTER, PTP_PASSIVE}
      \<and> getFlag (events (clk w)) STATE_DECISION_EVENT")
    case True
    then have r: "mem_base (clk w)" "running (clk w)" using assms by (auto simp: mem_inv_def pristine_def)
    obtain st where d: "clk (decisionStep w) = (snd (bmc ?c))\<lparr>recommendedState := st\<rparr>"
        "st \<in> {PTP_LISTENING, PTP_MASTER, PTP_PASSIVE, PTP_SLAVE}"
      using True b by (auto simp: decisionStep_def Let_def case_prod_beta)
    have "fm_ok (foreignMasterDS (snd (bmc ?c)))" using bmc_fm_ok [of ?c] r(2) by (simp add: running_def)
    moreover have "length (fmr_records (foreignMasterDS (snd (bmc ?c)))) = length (fmr_records (foreignMasterDS (clk w)))" by simp
    moreover have "rtOpts (snd (bmc ?c)) = rtOpts (clk w)" "portDS (snd (bmc ?c)) = portDS (clk w)" "netPath (snd (bmc ?c)) = netPath (clk w)" by simp_all
    ultimately show ?thesis
      using r o d(2) unfolding d(1) mem_strong_def mem_base_def running_def rings_ok_def fm_ok_def by (simp del: bmc_frame)
  next
    case False
    then have "clk (decisionStep w) = clk w" by (auto simp: decisionStep_def)
    with False assms show ?thesis by (auto simp: mem_inv_def mem_strong_def running_def)
  qed
qed


lemma testClear_quiet:
  "ev AND STATE_DECISION_EVENT = 0 \<Longrightarrow> quiet (clk w) (clk (snd (testClear ev w)))"
proof -
  assume "ev AND STATE_DECISION_EVENT = 0"
  then have "getFlag f STATE_DECISION_EVENT \<Longrightarrow> getFlag (clearFlag f ev) STATE_DECISION_EVENT" for f
    by (auto simp: getFlag_def clearFlag_def bit_eq_iff bit_simps)
  then show ?thesis by (simp add: testClear_def quiet_def rings_ok_def)
qed

lemma mem_recommended:
  assumes "mem_strong (clk w)"
  shows "mem_strong (clk (recommendedStep e w))" and "running (clk w) \<longleftrightarrow> running (clk (recommendedStep e w))"
proof -
  have z: "MASTER_CLOCK_SELECTED AND STATE_DECISION_EVENT = 0" "MASTER_CLOCK_CHANGED AND STATE_DECISION_EVENT = 0"
    "SYNCHRONIZATION_FAULT AND STATE_DECISION_EVENT = 0" by simp_all
  have t: "mem_strong (clk v) \<and> running (clk v) \<Longrightarrow> mem_strong (clk (snd (testClear ev v))) \<and> running (clk (snd (testClear ev v)))"
    if "ev AND STATE_DECISION_EVENT = 0" for v ev
    using mem_quiet(1) testClear_quiet [OF that] by (auto simp: quiet_def running_def)
  have s: "mem_strong (clk v) \<and> running (clk v) \<Longrightarrow> st \<in> {PTP_LISTENING, PTP_UNCALIBRATED, PTP_SLAVE, PTP_MASTER, PTP_PRE_MASTER, PTP_PASSIVE} \<Longrightarrow>
      mem_strong (clk (toState e st v)) \<and> running (clk (toState e st v))" for v st
    using mem_toState(2) by blast
  have r: "mem_strong (clk (recommendedStep e w)) \<and> running (clk (recommendedStep e w))" if run: "running (clk w)"
  proof -
    have w: "mem_strong (clk w) \<and> running (clk w)" using assms run by simp
    have te: "clk (snd (timerExpired i w)) = clk w" for i by simp
    have ul: "mem_strong (clk (uncalibratedEvents e w)) \<and> running (clk (uncalibratedEvents e w))"
      unfolding uncalibratedEvents_def Let_def case_prod_beta by (intro t z) (simp add: t [OF z(1) w] s)
    have sl: "mem_strong (clk (slaveEvents e w)) \<and> running (clk (slaveEvents e w))"
    proof -
      let ?w2 = "if fst (testClear SYNCHRONIZATION_FAULT w) then toState e PTP_UNCALIBRATED (snd (testClear SYNCHRONIZATION_FAULT w))
        else snd (testClear SYNCHRONIZATION_FAULT w)"
      have "mem_strong (clk ?w2) \<and> running (clk ?w2)" by (simp add: t [OF z(3) w] s)
      note t [OF z(2) this]
      then show ?thesis unfolding slaveEvents_def Let_def case_prod_beta by (simp add: s)
    qed
    have q: "mem_strong (clk v) \<and> running (clk v)" if "clk v = clk w" for v using that w by simp
    show ?thesis
      unfolding recommendedStep_def
      by (auto simp: case_prod_beta w s ul sl q split: port_state.split bool.split)
  qed
  have p: "recommendedStep e w = w" if "pristine (clk w)"
    using that by (simp add: recommendedStep_def pristine_def)
  show "mem_strong (clk (recommendedStep e w))" using r p assms by (auto simp: mem_strong_def)
  show "running (clk w) \<longleftrightarrow> running (clk (recommendedStep e w))"
    using r p assms by (auto simp: mem_strong_def)
qed


lemma netInit_rings:
  "ring_valid (eventQ np) \<Longrightarrow> ring_valid (generalQ np) \<Longrightarrow>
   ring_valid (eventQ (fst (snd (ptpNetInit ne np u)))) \<and> ring_valid (generalQ (fst (snd (ptpNetInit ne np u))))"
  by (simp add: ptpNetInit_def findIface_def Let_def fail04_def ring_valid_def netQInit_def split: option.split)

lemma netShutdown_rings:
  "eventQ (snd (ptpNetShutdown np)) = eventQ np" "generalQ (snd (ptpNetShutdown np)) = generalQ np"
  by (simp_all add: ptpNetShutdown_def Let_def)

lemma mem_doInit:
  assumes "mem_strong (clk w)" "portState (portDS (clk w)) = PTP_INITIALIZING"
  shows "fst (doInit e w) \<Longrightarrow> mem_strong (clk (toState e PTP_LISTENING (snd (doInit e w))))"
    and "\<not> fst (doInit e w) \<Longrightarrow> mem_strong (clk (toState e PTP_FAULTY (snd (doInit e w))))"
proof -
  let ?v = "snd (doInit e w)"
  have p: "mem_base (clk w)" "pristine (clk w)" using assms by (auto simp: mem_strong_def running_def)
  have "rings_ok (clk ?v)"
    using p(1) netInit_rings [of "snd (ptpNetShutdown (netPath (clk w)))"]
    by (auto simp: doInit_def Let_def case_prod_beta mem_base_def rings_ok_def netShutdown_rings initData_def m1_def emptyQ_valid)
  then have r: "rings_ok (clk (toState e st ?v))" for st by (rule rings_toState)
  have fm: "fmr_records (foreignMasterDS (clk ?v)) = fmr_records (foreignMasterDS (clk w))" "fm_count (foreignMasterDS (clk ?v)) = 0"
    "fm_i (foreignMasterDS (clk ?v)) = 0" "fm_best (foreignMasterDS (clk ?v)) = 0"
    "fst (doInit e w) \<Longrightarrow> fm_capacity (foreignMasterDS (clk ?v)) = 5"
    using p by (auto simp: doInit_def Let_def case_prod_beta initData_def m1_def pristine_def mem_base_def split: if_splits)
  note d = doInit_clk [of e w]
  show "fst (doInit e w) \<Longrightarrow> mem_strong (clk (toState e PTP_LISTENING ?v))"
    using p r fm d by (auto simp: mem_strong_def mem_base_def running_def fm_ok_def fm_tab_def)
  show "\<not> fst (doInit e w) \<Longrightarrow> mem_strong (clk (toState e PTP_FAULTY ?v))"
    using p r fm d by (auto simp: mem_strong_def mem_base_def pristine_def)
qed

lemma mem_timeout:
  assumes "mem_strong (clk w)" "running (clk w)" "portState (portDS (clk w)) \<noteq> PTP_FAULTY"
  shows "mem_strong (clk (announceTimeout e w))"
proof -
  let ?v = "updClk (\<lambda>c. c\<lparr>foreignMasterDS := (foreignMasterDS c)\<lparr>fm_count := 0, fm_i := 0\<rparr>\<rparr>) w"
  have v: "mem_strong (clk ?v)" "running (clk ?v)"
    using assms by (auto simp: mem_strong_def mem_base_def running_def fm_ok_def fm_tab_def rings_ok_def)
  have m: "mem_strong (clk (recommend PTP_MASTER (updClk m1 ?v)))" "running (clk (recommend PTP_MASTER (updClk m1 ?v)))"
    using v by (auto simp: mem_strong_def mem_base_def running_def pristine_def rings_ok_def m1_def)
  show ?thesis
    using v mem_toState(2) [OF m] mem_toState(2) [OF v] by (auto simp: announceTimeout_def Let_def)
qed

lemma mem_stateWork:
  assumes "mem_strong (clk w)" "portState (portDS (clk w)) = PTP_FAULTY \<longrightarrow> recommendedState (clk w) = PTP_INITIALIZING"
  shows "mem_inv (clk (stateWork e w))"
proof (cases "running (clk w)")
  case True
  then have st: "portState (portDS (clk w)) \<in> {PTP_LISTENING, PTP_UNCALIBRATED, PTP_SLAVE, PTP_MASTER, PTP_PASSIVE}"
    using assms(2) by (auto simp: running_def)
  let ?x = "snd (timerExpired ANNOUNCE_RECEIPT_TIMER w)"
  have x: "mem_inv (clk (announceTimeout e ?x))" "mem_inv (clk (handle e ?x))"
    using mem_timeout [of ?x e] mem_handle [of ?x e] assms(1) True st by (auto intro: mem_strong_inv)
  have i: "mem_strong (clk v) \<and> running (clk v) \<Longrightarrow> mem_strong (clk (issueSync e v)) \<and> running (clk (issueSync e v))"
    "mem_strong (clk v) \<and> running (clk v) \<Longrightarrow> mem_strong (clk (issueAnnounce e v)) \<and> running (clk (issueAnnounce e v))" for v
    using mem_quiet(1) quiet_issue(4) [of v e] quiet_issue(2) [of v e] by (auto simp: quiet_def running_def)
  let ?y = "if fst (timerExpired SYNC_INTERVAL_TIMER w) then issueSync e (snd (timerExpired SYNC_INTERVAL_TIMER w))
      else snd (timerExpired SYNC_INTERVAL_TIMER w)"
  let ?z = "if fst (timerExpired ANNOUNCE_INTERVAL_TIMER ?y) then issueAnnounce e (snd (timerExpired ANNOUNCE_INTERVAL_TIMER ?y))
      else snd (timerExpired ANNOUNCE_INTERVAL_TIMER ?y)"
  have y: "mem_strong (clk ?y) \<and> running (clk ?y)" using assms(1) True i(1) [of "snd (timerExpired SYNC_INTERVAL_TIMER w)"] by simp
  then have z: "mem_strong (clk ?z) \<and> running (clk ?z)" using i(2) [of "snd (timerExpired ANNOUNCE_INTERVAL_TIMER ?y)"] by simp
  then have m: "mem_inv (clk (issueDelayReqTimerExpired e (handle e ?z)))"
    using mem_quiet(2) [OF quiet_issue(1)] mem_handle by blast
  have mw: "portState (portDS (clk w)) = PTP_MASTER \<Longrightarrow> stateWork e w = issueDelayReqTimerExpired e (handle e ?z)"
    by (simp add: stateWork_def Let_def case_prod_beta split: bool.split)
  have ow: "portState (portDS (clk w)) \<noteq> PTP_MASTER \<Longrightarrow> stateWork e w =
      (if fst (timerExpired ANNOUNCE_RECEIPT_TIMER w) then announceTimeout e ?x else handle e ?x)"
    using st by (auto simp: stateWork_def case_prod_beta split: bool.split)
  show ?thesis using x m mw ow by metis
next
  case False
  then have p: "pristine (clk w)" using assms(1) by (simp add: mem_strong_def)
  show ?thesis
  proof (cases "portState (portDS (clk w)) = PTP_FAULTY")
    case True
    with assms mem_toState(3) [OF assms(1) True] show ?thesis by (simp add: stateWork_def mem_strong_inv)
  next
    case False
    with p have "portState (portDS (clk w)) = PTP_INITIALIZING" by (simp add: pristine_def)
    with mem_doInit [OF assms(1) this, of e] show ?thesis
      by (auto simp: stateWork_def case_prod_beta mem_strong_inv split: bool.split)
  qed
qed

lemma mem_machine:
  assumes "mem_inv (clk w)"
  shows "mem_inv (clk (ptpStateMachine e w))"
proof -
  let ?w0 = "updClk (\<lambda>c. c\<lparr>messageActivity := False\<rparr>) w"
  let ?w1 = "decisionStep ?w0"
  have "quiet (clk w) (clk ?w0)" by (simp add: quiet_def rings_ok_def)
  then have "mem_inv (clk ?w0)" using mem_quiet(2) assms by blast
  then have 1: "mem_strong (clk ?w1)" by (rule mem_decision)
  note 2 = mem_recommended [OF 1, of e]
  have "recommendedState (clk ?w1) \<in> {PTP_INITIALIZING, PTP_LISTENING, PTP_SLAVE, PTP_MASTER, PTP_PASSIVE}"
    using 1 by (auto simp: mem_strong_def running_def pristine_def)
  then have "portState (portDS (clk (recommendedStep e ?w1))) = PTP_FAULTY \<longrightarrow>
      recommendedState (clk (recommendedStep e ?w1)) = PTP_INITIALIZING"
    using recommended_not_faulty [of ?w1 e] recommended_keep [of e ?w1] by auto
  with 2(1) show ?thesis unfolding ptpStateMachine_def by (rule mem_stateWork)
qed

lemma mem_step: "mem_inv (clk w) \<Longrightarrow> daemon_step e w w' \<Longrightarrow> mem_inv (clk w')"
proof (erule daemon_stepE)
  assume i: "mem_inv (clk w)"
  have cb: "quiet c (c\<lparr>netPath := udpRecvEventCallback (netPath c) p\<rparr>)" "quiet c (c\<lparr>netPath := udpRecvGeneralCallback (netPath c) p\<rparr>)" for c p
    using ring.inv_put [of "eventQ (netPath c)" p] ring.inv_put [of "generalQ (netPath c)" p]
    by (auto simp: quiet_def rings_ok_def udpRecvEventCallback_def udpRecvGeneralCallback_def case_prod_beta split: bool.split)
  show "mem_inv (clk w')" if "w' = ptpStateMachine e w" using that i mem_machine by simp
  show "mem_inv (clk w')" if "w' = updClk (\<lambda>c. c\<lparr>netPath := udpRecvEventCallback (netPath c) p\<rparr>) w" for p
    using that i mem_quiet(2) [OF cb(1)] by simp
  show "mem_inv (clk w')" if "w' = updClk (\<lambda>c. c\<lparr>netPath := udpRecvGeneralCallback (netPath c) p\<rparr>) w" for p
    using that i mem_quiet(2) [OF cb(2)] by simp
  show "mem_inv (clk w')" if "w' = timer_fire i w" for i using that i by simp
qed

lemma mem_init: "r_maxForeignRecords (opts RunTimeOpts_zero) = DEFAULT_MAX_FOREIGN_RECORDS \<Longrightarrow> mem_inv (clk (ptpd_init e opts))"
proof -
  assume o: "r_maxForeignRecords (opts RunTimeOpts_zero) = DEFAULT_MAX_FOREIGN_RECORDS"
  have "rings_ok (clk (ptpd_init e opts))"
    unfolding ptpd_init_def ptpdTask_start_def ptpdStartup_def Let_def
    by (rule rings_toState) (simp add: rings_ok_def world_zero_def ptpClock_zero_def BufQueue_zero_def ring_valid_def)
  with o show ?thesis by (simp add: mem_inv_def mem_base_def pristine_def ptpd_init_clk)
qed

interpretation memory: step_system "\<lambda>w. \<exists>opts. r_maxForeignRecords (opts RunTimeOpts_zero) = DEFAULT_MAX_FOREIGN_RECORDS \<and> w = ptpd_init e opts"
  "daemon_step e" "\<lambda>w. mem_inv (clk w)" for e
  by unfold_locales (auto intro: mem_init mem_step)

text \<open>
  C5: Memory safety of the daemon's tables. With a table of the size the task configures, and any
  other options, master or slave: in every reachable state the head and tail of both packet rings are
  inside the ring, and the count, ring index and selected index of the foreign masters are inside the
  table, which holds one record per sender. The states pre-master and disabled are never entered.
\<close>

theorem daemon_tables_in_bounds:
  assumes "r_maxForeignRecords (opts RunTimeOpts_zero) = DEFAULT_MAX_FOREIGN_RECORDS" "(daemon_step e)\<^sup>*\<^sup>* (ptpd_init e opts) w"
  defines "np \<equiv> netPath (clk w)" and "fm \<equiv> foreignMasterDS (clk w)"
  shows "ring_valid (eventQ np) \<and> ring_valid (generalQ np) \<and> length (fmr_records fm) = DEFAULT_MAX_FOREIGN_RECORDS \<and>
    fm_count fm \<le> DEFAULT_MAX_FOREIGN_RECORDS \<and> fm_i fm < DEFAULT_MAX_FOREIGN_RECORDS \<and> fm_best fm < DEFAULT_MAX_FOREIGN_RECORDS \<and>
    (\<forall>j<fm_count fm. \<forall>k<fm_count fm. j \<noteq> k \<longrightarrow>
       foreignMasterPortIdentity (fmr_records fm ! j) \<noteq> foreignMasterPortIdentity (fmr_records fm ! k)) \<and>
    portState (portDS (clk w)) \<notin> {PTP_PRE_MASTER, PTP_DISABLED}"
proof -
  have "mem_inv (clk w)" using memory.inv_reachable [of "ptpd_init e opts" e w] assms by blast
  then have b: "mem_base (clk w)" and d: "pristine (clk w) \<or> running (clk w)" by (auto simp: mem_inv_def)
  from d have "fm_count fm \<le> 5 \<and> fm_i fm < 5 \<and> fm_best fm < 5 \<and>
    (\<forall>j<fm_count fm. \<forall>k<fm_count fm. j \<noteq> k \<longrightarrow>
       foreignMasterPortIdentity (fmr_records fm ! j) \<noteq> foreignMasterPortIdentity (fmr_records fm ! k)) \<and>
    portState (portDS (clk w)) \<notin> {PTP_PRE_MASTER, PTP_DISABLED}"
  proof
    assume "pristine (clk w)"
    then show ?thesis unfolding pristine_def fm_def by auto
  next
    assume r: "running (clk w)"
    then have t: "fm_tab fm" by (simp add: running_def fm_def)
    have l: "length (fmr_records fm) = 5" using b by (simp add: mem_base_def fm_def)
    have "fm_count fm \<le> 5" "fm_i fm < 5" "fm_best fm < 5" using t l unfolding fm_tab_def by linarith+
    moreover have "portState (portDS (clk w)) \<notin> {PTP_PRE_MASTER, PTP_DISABLED}" using r by (auto simp: running_def)
    ultimately show ?thesis using t unfolding fm_tab_def by blast
  qed
  then show ?thesis using b by (simp add: mem_base_def rings_ok_def np_def fm_def)
qed

theorem daemon_tables_in_bounds_witness:
  "ring_valid (eventQ (netPath (clk (ptpStateMachine env_example (ptpd_init env_example ptpdOptions)))))"
  using daemon_tables_in_bounds [of ptpdOptions env_example "ptpStateMachine env_example (ptpd_init env_example ptpdOptions)"]
    r_into_rtranclp [of "daemon_step env_example", OF daemon_step.machine [of env_example "ptpd_init env_example ptpdOptions"]]
  by (simp add: ptpdOptions_def)

end
