(* ===== verification/SpiFlash.thy ===== *)
theory SpiFlash
  imports Prelude
begin

text \<open>
  The SPI flash of the board, which holds the images of the firmware:
  \<^verbatim>\<open>src/an767/bsp/src/hw/bspHwSpiFlash.c\<close> (commands to the device) and
  \<^verbatim>\<open>src/an767/bsp/src/bspSpiFlash.c\<close> (a continuous stream of bytes written page by page, with a buffer
  of 1024 bytes that belongs to the run-time configuration and is shared with the callers, and the copy
  of a new FPGA image at boot).

  The flash device itself is hardware: its erase, program and read operations are functions of the
  environment, and \<open>nor_ok\<close> states what the data sheet promises of them. The SPI bus may time out at
  any packet, which is an answer of the environment too.
  The lemmas show that on a working bus the stream ends up in the memory, byte by byte, wherever the
  boundaries of the writes are, and that nothing outside the sectors used is touched.
\<close>

subsection \<open>State\<close>

text \<open>
  \<open>spi_write\<close> and \<open>spi_read\<close> give the outcome of a packet: \<open>None\<close> for a complete one, \<open>Some k\<close> for a timeout
  after \<open>k\<close> bytes. \<open>spi_idle\<close> is what is read from the bus when the device was not addressed.
\<close>

record board_env =
  dev_erase :: "nat \<Rightarrow> (nat \<Rightarrow> u8) \<Rightarrow> nat \<Rightarrow> u8"
  dev_program :: "nat \<Rightarrow> bytes \<Rightarrow> (nat \<Rightarrow> u8) \<Rightarrow> nat \<Rightarrow> u8"
  dev_read :: "nat \<Rightarrow> nat \<Rightarrow> (nat \<Rightarrow> u8) \<Rightarrow> bytes"
  spi_write :: "nat \<Rightarrow> nat option"
  spi_read :: "nat \<Rightarrow> nat option"
  spi_idle :: "nat \<Rightarrow> nat \<Rightarrow> bytes"

record SPI_FLASH =
  startSector :: nat
  startAddress :: nat
  currentSector :: nat
  pageIndex :: nat
  leftBytesWrite :: nat
  offsetRead :: nat

text \<open>
  \<open>mem\<close> is the content of the device, \<open>packets\<close> counts the packets on the bus; \<open>bufWrite\<close> and \<open>bufRead\<close>
  are the two buffers of the run-time configuration. \<open>memFault\<close> is a ghost: a copy left a buffer, or
  copied between overlapping ranges.
\<close>

record board =
  mem :: "nat \<Rightarrow> u8"
  packets :: nat
  extSpiFlash :: SPI_FLASH
  bufWrite :: bytes
  bufRead :: bytes
  memFault :: bool

abbreviation (input) PAGE_SIZE :: nat where "PAGE_SIZE \<equiv> 256"
abbreviation (input) RW_BUFFER_SIZE :: nat where "RW_BUFFER_SIZE \<equiv> 1024"
abbreviation (input) SECTOR_SIZE :: nat where "SECTOR_SIZE \<equiv> 65536"
abbreviation (input) PAGES_IN_ONE_SECTOR :: nat where "PAGES_IN_ONE_SECTOR \<equiv> 256"
abbreviation (input) FLASH_PAGE_COUNT :: nat where "FLASH_PAGE_COUNT \<equiv> 131072"
abbreviation (input) ADDRESS_128M :: nat where "ADDRESS_128M \<equiv> 0xFFFFFF"
abbreviation (input) EXIT_SUCCESS :: int where "EXIT_SUCCESS \<equiv> 0"
abbreviation (input) EXIT_FAILURE :: int where "EXIT_FAILURE \<equiv> 1"

subsection \<open>Commands to the device\<close>

definition hwSendAddress :: "nat \<Rightarrow> nat \<Rightarrow> bytes" where
  "hwSendAddress address n =
     (if n = 4 then [of_nat (address div 16777216)] else []) @
     [of_nat (address div 65536), of_nat (address div 256), of_nat address]"

text \<open>The device takes the first three bytes after the command as the address.\<close>

definition be24 :: "bytes \<Rightarrow> nat" where
  "be24 bs = unat (bs ! 0) * 65536 + unat (bs ! 1) * 256 + unat (bs ! 2)"

definition hwPacket :: "board_env \<Rightarrow> board \<Rightarrow> nat option \<times> board" where
  "hwPacket e b = (spi_write e (packets b), b\<lparr>packets := packets b + 1\<rparr>)"

definition bspHwSpiFlashEraseSector :: "board_env \<Rightarrow> nat \<Rightarrow> board \<Rightarrow> board" where
  "bspHwSpiFlashEraseSector e sectorNo b =
     (let (we, b1) = hwPacket e b; (cm, b2) = hwPacket e b1 in
      if we = None \<and> cm = None
      then b2\<lparr>mem := dev_erase e (be24 (hwSendAddress (sectorNo * 65536 mod 4294967296) 3)) (mem b2)\<rparr>
      else b2)"

definition hwAddress :: "nat \<Rightarrow> bytes" where
  "hwAddress address =
     (if address > ADDRESS_128M then 0xB7 # hwSendAddress address 4 else hwSendAddress address 3)"

definition bspHwSpiFlashWritePage :: "board_env \<Rightarrow> nat \<Rightarrow> bytes \<Rightarrow> board \<Rightarrow> int \<times> board" where
  "bspHwSpiFlashWritePage e pageNo data b =
     (let address = pageNo * 256 mod 4294967296;
          (we, b1) = hwPacket e b;
          (cm, b2) = hwPacket e b1
      in case cm of
           Some _ \<Rightarrow> (EXIT_FAILURE, b2)
         | None \<Rightarrow>
             (let (dt, b3) = hwPacket e b2;
                  stream = hwAddress address @ (case dt of None \<Rightarrow> data | Some k \<Rightarrow> take k data)
              in (if dt = None then EXIT_SUCCESS else EXIT_FAILURE,
                  if we = None then b3\<lparr>mem := dev_program e (be24 stream) (drop 3 stream) (mem b3)\<rparr> else b3)))"

definition bspHwSpiFlashRead :: "board_env \<Rightarrow> nat \<Rightarrow> nat \<Rightarrow> board \<Rightarrow> int \<times> bytes \<times> board" where
  "bspHwSpiFlashRead e address len b =
     (let (cm, b1) = hwPacket e b;
          b2 = b1\<lparr>packets := packets b1 + 1\<rparr>;
          data = (if cm = None then dev_read e (be24 (hwAddress address)) len (mem b2) else spi_idle e (packets b1) len)
      in case spi_read e (packets b1) of
           None \<Rightarrow> (EXIT_SUCCESS, data, b2)
         | Some k \<Rightarrow> (EXIT_FAILURE, take k data, b2))"

subsection \<open>Writing pages\<close>

text \<open>The handle passed to the functions below is one of several: a state is a handle and the board.\<close>

definition bspSpiFlashInit_on :: "board_env \<Rightarrow> nat \<Rightarrow> nat \<Rightarrow> bool \<Rightarrow> board \<Rightarrow> SPI_FLASH \<times> board" where
  "bspSpiFlashInit_on e sector address isWrite b =
     (\<lparr>startSector = sector, startAddress = (if isWrite then sector * 65536 mod 4294967296 else address),
       currentSector = sector mod 65536, pageIndex = 0, leftBytesWrite = 0, offsetRead = 0\<rparr>,
      if isWrite then bspHwSpiFlashEraseSector e (sector mod 65536) b else b)"

definition bspSpiFlashRead_on :: "board_env \<Rightarrow> nat \<Rightarrow> SPI_FLASH \<Rightarrow> board \<Rightarrow> int \<times> bytes \<times> SPI_FLASH \<times> board" where
  "bspSpiFlashRead_on e len f b =
     (let (ret, data, b') = bspHwSpiFlashRead e ((startAddress f + offsetRead f) mod 4294967296) len b
      in if ret = EXIT_SUCCESS then (int len, data, f\<lparr>offsetRead := (offsetRead f + len) mod 4294967296\<rparr>, b')
         else (-1, data, f, b'))"

text \<open>One page. The error results of this function are \<open>-1\<close>; its success is the number of bytes.\<close>

definition bspSpiFlashWriteOnePage :: "board_env \<Rightarrow> bytes \<Rightarrow> SPI_FLASH \<times> board \<Rightarrow> int \<times> SPI_FLASH \<times> board" where
  "bspSpiFlashWriteOnePage e data s =
     (let (f, b) = s;
          (r, b1) = bspHwSpiFlashWritePage e (currentSector f * 256 + pageIndex f) data b
      in if r = EXIT_FAILURE then (-1, f, b1)
         else let f1 = f\<lparr>pageIndex := (pageIndex f + 1) mod 65536\<rparr>
              in if pageIndex f1 \<ge> PAGES_IN_ONE_SECTOR
                 then let f2 = f1\<lparr>currentSector := (currentSector f1 + 1) mod 65536\<rparr>
                      in if currentSector f2 \<ge> FLASH_PAGE_COUNT then (-1, f2, b1)
                         else (int (length data), f2\<lparr>pageIndex := 0\<rparr>, bspHwSpiFlashEraseSector e (currentSector f2) b1)
                 else (int (length data), f1, b1))"

text \<open>The loop over the pages stops when the result is \<open>EXIT_FAILURE\<close>, which is 1.\<close>

fun flashPages :: "board_env \<Rightarrow> bytes list \<Rightarrow> SPI_FLASH \<times> board \<Rightarrow> bool \<times> SPI_FLASH \<times> board" where
  "flashPages e [] s = (True, s)"
| "flashPages e (p # ps) s =
     (let (r, s') = bspSpiFlashWriteOnePage e p s in if r = EXIT_FAILURE then (False, s') else flashPages e ps s')"

definition pages_of :: "bytes \<Rightarrow> bytes list" where
  "pages_of data = map (\<lambda>i. take PAGE_SIZE (drop (i * PAGE_SIZE) data)) [0..<(length data + PAGE_SIZE - 1) div PAGE_SIZE]"

definition bspSpiFlashWrite_on :: "board_env \<Rightarrow> bytes \<Rightarrow> SPI_FLASH \<times> board \<Rightarrow> int \<times> SPI_FLASH \<times> board" where
  "bspSpiFlashWrite_on e data s =
     (let (ok, s') = flashPages e (pages_of data) s in (if ok then int (length data) else -1, s'))"

subsection \<open>The stream of bytes\<close>

definition bspSpiFlashInit :: "board_env \<Rightarrow> nat \<Rightarrow> nat \<Rightarrow> bool \<Rightarrow> board \<Rightarrow> board" where
  "bspSpiFlashInit e sector address isWrite b =
     (let (f, b1) = bspSpiFlashInit_on e sector address isWrite b in b1\<lparr>extSpiFlash := f\<rparr>)"

definition bspSpiFlashRead :: "board_env \<Rightarrow> nat \<Rightarrow> board \<Rightarrow> int \<times> bytes \<times> board" where
  "bspSpiFlashRead e len b =
     (let (r, data, f, b1) = bspSpiFlashRead_on e len (extSpiFlash b) b in (r, data, b1\<lparr>extSpiFlash := f\<rparr>))"

text \<open>The caller's data: other memory, or the buffer of the configuration itself.\<close>

datatype data_src = OwnBuffer | Data bytes

fun src_bytes :: "data_src \<Rightarrow> board \<Rightarrow> bytes" where
  "src_bytes OwnBuffer b = bufWrite b"
| "src_bytes (Data d) b = d"

text \<open>\<open>memcpy\<close> of \<open>n\<close> bytes from the source at \<open>index\<close> to \<open>bufWrite\<close> at \<open>off\<close>.\<close>

definition copyIn :: "data_src \<Rightarrow> nat \<Rightarrow> nat \<Rightarrow> nat \<Rightarrow> board \<Rightarrow> board" where
  "copyIn src index off n b =
     b\<lparr>bufWrite := put_bytes off (get_bytes index n (src_bytes src b)) (bufWrite b),
       memFault := (memFault b \<or> length (bufWrite b) < off + n \<or> length (src_bytes src b) < index + n \<or>
         (src = OwnBuffer \<and> index \<noteq> off \<and> index < off + n \<and> off < index + n))\<rparr>"

definition setLeft :: "nat \<Rightarrow> board \<Rightarrow> board" where
  "setLeft n b = b\<lparr>extSpiFlash := (extSpiFlash b)\<lparr>leftBytesWrite := n mod 65536\<rparr>\<rparr>"

definition flashFill :: "data_src \<Rightarrow> nat \<Rightarrow> nat \<Rightarrow> board \<Rightarrow> nat \<times> nat \<times> board" where
  "flashFill src left index b =
     (let lbw = leftBytesWrite (extSpiFlash b) in
      if lbw + left < RW_BUFFER_SIZE then (0, index, setLeft (lbw + left) (copyIn src index lbw left b))
      else let n = RW_BUFFER_SIZE - lbw
           in (left - n, index + n,
               setLeft RW_BUFFER_SIZE ((copyIn src index lbw n b)\<lparr>memFault := (memFault (copyIn src index lbw n b) \<or> lbw > RW_BUFFER_SIZE)\<rparr>)))"

fun writeFull :: "board_env \<Rightarrow> nat \<Rightarrow> nat \<Rightarrow> board \<Rightarrow> bool \<times> board" where
  "writeFull e i 0 b = (True, b)"
| "writeFull e i (Suc n) b =
     (let (r, f, b1) = bspSpiFlashWrite_on e (get_bytes (i * PAGE_SIZE) PAGE_SIZE (bufWrite b)) (extSpiFlash b, b);
          b2 = b1\<lparr>extSpiFlash := f\<rparr>
      in if r < 0 then (False, b2) else writeFull e (i + 1) n b2)"

definition flashDrain :: "board_env \<Rightarrow> board \<Rightarrow> bool \<times> board" where
  "flashDrain e b =
     (let n = leftBytesWrite (extSpiFlash b) div PAGE_SIZE;
          (ok, b1) = writeFull e 0 n b
      in if \<not> ok then (False, b1)
         else let lbw = leftBytesWrite (extSpiFlash b1) - n * PAGE_SIZE;
                  b2 = setLeft lbw b1
              in (True, if lbw \<noteq> 0 then copyIn OwnBuffer (n * PAGE_SIZE) 0 lbw b2 else b2))"

lemma hw_frame [simp]:
  "extSpiFlash (snd (bspHwSpiFlashWritePage e n d b)) = extSpiFlash b" "bufWrite (snd (bspHwSpiFlashWritePage e n d b)) = bufWrite b"
  "memFault (snd (bspHwSpiFlashWritePage e n d b)) = memFault b" "bufRead (snd (bspHwSpiFlashWritePage e n d b)) = bufRead b"
  "extSpiFlash (bspHwSpiFlashEraseSector e n b) = extSpiFlash b" "bufWrite (bspHwSpiFlashEraseSector e n b) = bufWrite b"
  "memFault (bspHwSpiFlashEraseSector e n b) = memFault b" "bufRead (bspHwSpiFlashEraseSector e n b) = bufRead b"
  by (auto simp: bspHwSpiFlashWritePage_def bspHwSpiFlashEraseSector_def hwPacket_def Let_def split: option.splits)

lemma onePage_left: "leftBytesWrite (fst (snd (bspSpiFlashWriteOnePage e p s))) = leftBytesWrite (fst s)"
  by (cases s) (auto simp: bspSpiFlashWriteOnePage_def Let_def split_beta)

lemma flashPages_left: "leftBytesWrite (fst (snd (flashPages e ps s))) = leftBytesWrite (fst s)"
  by (induction ps arbitrary: s) (simp_all add: Let_def split_beta onePage_left)

lemma writeFull_left: "leftBytesWrite (extSpiFlash (snd (writeFull e i n b))) = leftBytesWrite (extSpiFlash b)"
  by (induction e i n b rule: writeFull.induct)
    (auto simp: Let_def split_beta bspSpiFlashWrite_on_def flashPages_left)

lemma flashDrain_left: "fst (flashDrain e b) \<Longrightarrow> leftBytesWrite (extSpiFlash (snd (flashDrain e b))) < PAGE_SIZE"
  by (auto simp: flashDrain_def Let_def split_beta setLeft_def copyIn_def writeFull_left minus_div_mult_eq_mod)

text \<open>
  The do-while loop of \<open>bspSpiFlashWrite\<close>. It ends: a round either takes all that is left, or fills the
  buffer, of which less than a page is occupied after a round.
\<close>

function bspSpiFlashWrite_loop :: "board_env \<Rightarrow> data_src \<Rightarrow> nat \<Rightarrow> nat \<Rightarrow> board \<Rightarrow> bool \<times> board" where
  "bspSpiFlashWrite_loop e src left index b =
     (let (left1, index1, b1) = flashFill src left index b;
          (ok, b2) = flashDrain e b1
      in if \<not> ok then (False, b2)
         else if left1 > 0 then bspSpiFlashWrite_loop e src left1 index1 b2 else (True, b2))"
  by pat_completeness auto
termination
proof (relation "measure (\<lambda>(e, src, left, index, b). 2 * left + (if leftBytesWrite (extSpiFlash b) \<ge> RW_BUFFER_SIZE then 1 else 0))", goal_cases)
  case 1
  show ?case by simp
next
  case (2 e src left index b fill left1 r index1 b1 drain ok b2)
  then have "leftBytesWrite (extSpiFlash b2) < PAGE_SIZE" using flashDrain_left [of e b1] by (metis fst_conv snd_conv)
  with 2 show ?case by (auto simp: flashFill_def Let_def split: if_splits)
qed

declare bspSpiFlashWrite_loop.simps [simp del]

definition bspSpiFlashWrite :: "board_env \<Rightarrow> data_src \<Rightarrow> nat \<Rightarrow> board \<Rightarrow> int \<times> board" where
  "bspSpiFlashWrite e src len b =
     (let (ok, b') = bspSpiFlashWrite_loop e src (len mod 65536) 0 b in (if ok then int len else -1, b'))"

definition bspSpiFlashFlush :: "board_env \<Rightarrow> board \<Rightarrow> nat \<times> board" where
  "bspSpiFlashFlush e b =
     (let lbw = leftBytesWrite (extSpiFlash b) in
      if lbw > 0
      then let (r, f, b1) = bspSpiFlashWrite_on e (get_bytes 0 lbw (bufWrite b)) (extSpiFlash b, b)
           in (lbw, b1\<lparr>extSpiFlash := f\<rparr>)
      else (lbw, b))"

subsection \<open>The FPGA image at boot\<close>

text \<open>The copy loop; its argument \<open>fuel\<close> bounds the rounds, \<open>None\<close> means that they were not enough.\<close>

fun bootCopy :: "nat \<Rightarrow> board_env \<Rightarrow> nat \<Rightarrow> nat \<Rightarrow> SPI_FLASH \<Rightarrow> board \<Rightarrow> (int \<times> board) option" where
  "bootCopy 0 e imageSize tot f b = None"
| "bootCopy (Suc fuel) e imageSize tot f b =
     (if tot < imageSize
      then let (len, data, f', b1) = bspSpiFlashRead_on e RW_BUFFER_SIZE f b;
               b2 = b1\<lparr>bufRead := put_bytes 0 data (bufRead b1)\<rparr>
           in if len < 0 then Some (int tot, b2)
              else let (n, b3) = bspSpiFlashWrite e (Data (bufRead b2)) (nat len) b2
                   in if n \<noteq> len then Some (0, b3)
                      else bootCopy fuel e imageSize ((tot + nat n) mod 4294967296) f' b3
      else Some (int tot, b))"

definition bspBootUpdateFpga :: "nat \<Rightarrow> board_env \<Rightarrow> nat \<Rightarrow> board \<Rightarrow> (int \<times> board) option" where
  "bspBootUpdateFpga fuel e imageSize b =
     (let (f, b1) = bspSpiFlashInit_on e 144 (144 * 65536) False b
      in bootCopy fuel e imageSize 0 f (bspSpiFlashInit e 0 0 True b1))"


subsection \<open>The device on a working bus\<close>

text \<open>
  What the data sheet of a NOR flash promises: erasing sets the bytes of a sector, programming stores
  into erased bytes of a page, reading returns consecutive bytes.
\<close>

definition nor_ok :: "board_env \<Rightarrow> bool" where
  "nor_ok e \<longleftrightarrow>
     (\<forall>a m x. a mod 65536 = 0 \<longrightarrow> a < 16777216 \<longrightarrow> dev_erase e a m x = (if a \<le> x \<and> x < a + 65536 then 0xFF else m x)) \<and>
     (\<forall>a d m x. a mod 256 = 0 \<longrightarrow> a < 16777216 \<longrightarrow> length d \<le> 256 \<longrightarrow> (\<forall>y. a \<le> y \<and> y < a + length d \<longrightarrow> m y = 0xFF) \<longrightarrow>
        dev_program e a d m x = (if a \<le> x \<and> x < a + length d then d ! (x - a) else m x)) \<and>
     (\<forall>a n m. a + n \<le> 16777216 \<longrightarrow> dev_read e a n m = map m [a..<a + n])"

definition bus_ok :: "board_env \<Rightarrow> bool" where
  "bus_ok e \<longleftrightarrow> (\<forall>n. spi_write e n = None \<and> spi_read e n = None)"

definition same_ram :: "board \<Rightarrow> board \<Rightarrow> bool" where
  "same_ram b b' \<longleftrightarrow> extSpiFlash b' = extSpiFlash b \<and> bufWrite b' = bufWrite b \<and> bufRead b' = bufRead b \<and> memFault b' = memFault b"

lemma unat_byte: "unat (of_nat n :: u8) = n mod 256"
  by (simp add: unat_of_nat)

lemma split_24: "(a::nat) div 65536 * 65536 + a div 256 mod 256 * 256 + a mod 256 = a"
proof -
  have "a div 65536 = a div 256 div 256" by (simp add: div_mult2_eq [symmetric])
  then show ?thesis using div_mult_mod_eq [of a 256] div_mult_mod_eq [of "a div 256" 256] by linarith
qed

lemma be24_address: "a < 16777216 \<Longrightarrow> be24 (hwSendAddress a 3 @ xs) = a" "a < 16777216 \<Longrightarrow> be24 (hwSendAddress a 3) = a"
  by (simp_all add: be24_def hwSendAddress_def unat_byte split_24)

lemma hwAddress_3: "a < 16777216 \<Longrightarrow> hwAddress a = hwSendAddress a 3" "length (hwSendAddress a 3) = 3"
  by (simp_all add: hwAddress_def hwSendAddress_def)

lemma erase_ok:
  assumes "nor_ok e" "bus_ok e" "n < 256"
  shows "mem (bspHwSpiFlashEraseSector e n b) x = (if n * 65536 \<le> x \<and> x < (n + 1) * 65536 then 0xFF else mem b x)"
proof -
  have "n * 65536 < 16777216" using assms(3) by simp
  then show ?thesis using assms
    by (simp add: bspHwSpiFlashEraseSector_def hwPacket_def bus_ok_def be24_address nor_ok_def)
qed

lemma program_ok:
  assumes "nor_ok e" "bus_ok e" "n < 65536" "length d \<le> 256" "\<forall>y. n * 256 \<le> y \<and> y < n * 256 + length d \<longrightarrow> mem b y = 0xFF"
  shows "fst (bspHwSpiFlashWritePage e n d b) = EXIT_SUCCESS"
    "mem (snd (bspHwSpiFlashWritePage e n d b)) x = (if n * 256 \<le> x \<and> x < n * 256 + length d then d ! (x - n * 256) else mem b x)"
proof -
  have a: "n * 256 < 16777216" using assms(3) by simp
  show "fst (bspHwSpiFlashWritePage e n d b) = EXIT_SUCCESS"
    using assms(2) by (simp add: bspHwSpiFlashWritePage_def hwPacket_def bus_ok_def Let_def)
  show "mem (snd (bspHwSpiFlashWritePage e n d b)) x = (if n * 256 \<le> x \<and> x < n * 256 + length d then d ! (x - n * 256) else mem b x)"
    using assms a by (simp add: bspHwSpiFlashWritePage_def hwPacket_def bus_ok_def be24_address hwAddress_3 nor_ok_def)
qed

subsection \<open>The stream is in the memory\<close>

text \<open>
  \<open>flash_at base w m0 f m\<close>: the handle \<open>f\<close> stands behind the whole pages \<open>w\<close>, which the memory \<open>m\<close> holds from
  the start of the sector at \<open>base\<close>; the rest of the current sector is erased, and all other sectors
  are as in \<open>m0\<close>.
\<close>

definition flash_at :: "nat \<Rightarrow> bytes \<Rightarrow> (nat \<Rightarrow> u8) \<Rightarrow> SPI_FLASH \<Rightarrow> (nat \<Rightarrow> u8) \<Rightarrow> bool" where
  "flash_at base w m0 f m \<longleftrightarrow>
     pageIndex f < 256 \<and> currentSector f < 256 \<and> currentSector f * 65536 + pageIndex f * 256 = base + length w \<and>
     (\<forall>k<length w. m (base + k) = w ! k) \<and>
     (\<forall>x. base + length w \<le> x \<and> x < (currentSector f + 1) * 65536 \<longrightarrow> m x = 0xFF) \<and>
     (\<forall>x. x < base \<or> (currentSector f + 1) * 65536 \<le> x \<longrightarrow> m x = m0 x)"

text \<open>The memory holds \<open>w\<close> at \<open>base\<close>, and no sector behind the one that follows the last page was touched.\<close>

definition image_at :: "nat \<Rightarrow> bytes \<Rightarrow> (nat \<Rightarrow> u8) \<Rightarrow> (nat \<Rightarrow> u8) \<Rightarrow> bool" where
  "image_at base w m0 m \<longleftrightarrow>
     (\<forall>k<length w. m (base + k) = w ! k) \<and>
     (\<forall>x. x < base \<or> ((base + length w + 255) div 65536 + 1) * 65536 \<le> x \<longrightarrow> m x = m0 x)"

lemma page_programmed:
  assumes "nor_ok e" "bus_ok e" "flash_at base w m0 f (mem b)" "length p \<le> 256"
  defines "b1 \<equiv> snd (bspHwSpiFlashWritePage e (currentSector f * 256 + pageIndex f) p b)"
  shows "fst (bspHwSpiFlashWritePage e (currentSector f * 256 + pageIndex f) p b) = EXIT_SUCCESS"
    "\<And>k. k < length (w @ p) \<Longrightarrow> mem b1 (base + k) = (w @ p) ! k"
    "\<And>x. base + length w + length p \<le> x \<Longrightarrow> x < (currentSector f + 1) * 65536 \<Longrightarrow> mem b1 x = 0xFF"
    "\<And>x. x < base \<or> (currentSector f + 1) * 65536 \<le> x \<Longrightarrow> mem b1 x = m0 x"
proof -
  let ?n = "currentSector f * 256 + pageIndex f"
  from assms(3) have a: "?n * 256 = base + length w" "?n < 65536" and i: "pageIndex f < 256"
    and pos: "currentSector f * 65536 + pageIndex f * 256 = base + length w" by (auto simp: flash_at_def algebra_simps)
  then have up: "base + length w + 256 \<le> (currentSector f + 1) * 65536" by simp
  have pre: "\<forall>y. ?n * 256 \<le> y \<and> y < ?n * 256 + length p \<longrightarrow> mem b y = 0xFF"
    using assms(3,4) a up by (auto simp: flash_at_def)
  note pg = program_ok [OF assms(1,2) a(2) assms(4) pre, unfolded a(1)]
  show "fst (bspHwSpiFlashWritePage e ?n p b) = EXIT_SUCCESS" by (rule pg(1))
  show "mem b1 (base + k) = (w @ p) ! k" if "k < length (w @ p)" for k
    using that assms(3) pg(2) [of "base + k"] by (auto simp: b1_def nth_append flash_at_def)
  show "mem b1 x = 0xFF" if "base + length w + length p \<le> x" "x < (currentSector f + 1) * 65536" for x
    using that assms(3) pg(2) [of x] by (auto simp: b1_def flash_at_def)
  show "mem b1 x = m0 x" if "x < base \<or> (currentSector f + 1) * 65536 \<le> x" for x
    using that assms(3,4) pg(2) [of x] up by (auto simp: b1_def flash_at_def)
qed


lemma onePage_ok:
  assumes "nor_ok e" "bus_ok e" "flash_at base w m0 f (mem b)" "length p = 256" "base + length w + 256 < 16777216"
  obtains f' b' where "bspSpiFlashWriteOnePage e p (f, b) = (256, f', b')" "flash_at base (w @ p) m0 f' (mem b')"
    "leftBytesWrite f' = leftBytesWrite f" "same_ram b b'"
proof -
  let ?r = "bspHwSpiFlashWritePage e (currentSector f * 256 + pageIndex f) p b"
  from assms(3) have i: "pageIndex f < 256" "currentSector f < 256"
    and pos: "currentSector f * 65536 + pageIndex f * 256 = base + length w" by (auto simp: flash_at_def)
  note pg = page_programmed [OF assms(1-3), of p]
  have same: "same_ram b (snd ?r)" by (simp add: same_ram_def)
  show thesis
  proof (cases "pageIndex f = 255")
    case False
    let ?f = "f\<lparr>pageIndex := pageIndex f + 1\<rparr>"
    from False i have l: "pageIndex f + 1 < 256" by simp
    have "flash_at base (w @ p) m0 ?f (mem (snd ?r))"
      unfolding flash_at_def using pg(2-4) l i pos assms(4) by auto
    moreover have "bspSpiFlashWriteOnePage e p (f, b) = (256, ?f, snd ?r)"
      using pg(1) l assms(4) by (simp add: bspSpiFlashWriteOnePage_def Let_def split_beta)
    ultimately show thesis using that same by simp
  next
    case True
    let ?f = "f\<lparr>pageIndex := 0, currentSector := currentSector f + 1\<rparr>"
    let ?b = "bspHwSpiFlashEraseSector e (currentSector f + 1) (snd ?r)"
    from True pos assms(5) have s: "currentSector f + 1 < 256" "base + length (w @ p) = (currentSector f + 1) * 65536"
      using assms(4) by simp_all
    note er = erase_ok [OF assms(1,2) s(1), of "snd ?r"]
    have "flash_at base (w @ p) m0 ?f (mem ?b)"
      unfolding flash_at_def
    proof (intro conjI allI impI)
      show "mem ?b (base + k) = (w @ p) ! k" if "k < length (w @ p)" for k
        using er [of "base + k"] pg(2) [of k] that s(2) assms(4) by simp
      show "mem ?b x = 0xFF" if "base + length (w @ p) \<le> x \<and> x < (currentSector ?f + 1) * 65536" for x
        using er [of x] that s(2) by simp
      show "mem ?b x = m0 x" if "x < base \<or> (currentSector ?f + 1) * 65536 \<le> x" for x
        using er [of x] pg(4) [of x] that s(2) assms(4) by auto
    qed (use s in auto)
    moreover have "bspSpiFlashWriteOnePage e p (f, b) = (256, ?f, ?b)"
      using pg(1) True s assms(4) by (simp add: bspSpiFlashWriteOnePage_def Let_def split_beta)
    moreover have "same_ram b ?b" by (simp add: same_ram_def)
    ultimately show thesis using that by simp
  qed
qed

lemma lastPage_ok:
  assumes "nor_ok e" "bus_ok e" "flash_at base w m0 f (mem b)" "length p < 256" "base + length w + 256 < 16777216" "p \<noteq> []"
  obtains r f' b' where "bspSpiFlashWriteOnePage e p (f, b) = (r, f', b')" "image_at base (w @ p) m0 (mem b')"
    "same_ram b b'" "leftBytesWrite f' = leftBytesWrite f"
proof -
  let ?r = "bspHwSpiFlashWritePage e (currentSector f * 256 + pageIndex f) p b"
  let ?b = "if pageIndex f = 255 then bspHwSpiFlashEraseSector e (currentSector f + 1) (snd ?r) else snd ?r"
  let ?f = "if pageIndex f = 255 then f\<lparr>pageIndex := 0, currentSector := currentSector f + 1\<rparr> else f\<lparr>pageIndex := pageIndex f + 1\<rparr>"
  from assms(3) have i: "pageIndex f < 256" "currentSector f < 256"
    and pos: "currentSector f * 65536 + pageIndex f * 256 = base + length w" by (auto simp: flash_at_def)
  have pl: "length p \<le> 256" using assms(4) by simp
  note pg = page_programmed [OF assms(1-3) pl]
  have s: "pageIndex f = 255 \<Longrightarrow> currentSector f + 1 < 256" using pos assms(5) by simp
  have "image_at base (w @ p) m0 (mem ?b)"
    unfolding image_at_def
  proof (intro conjI allI impI)
    show "mem ?b (base + k) = (w @ p) ! k" if k: "k < length (w @ p)" for k
      using pg(2) [OF k] erase_ok [OF assms(1,2) s, of "snd ?r" "base + k"] k pos pl i by auto
  next
    fix x assume x: "x < base \<or> ((base + length (w @ p) + 255) div 65536 + 1) * 65536 \<le> x"
    have "currentSector f * 65536 \<le> base + length (w @ p) + 255" using pos by simp
    then have c: "currentSector f \<le> (base + length (w @ p) + 255) div 65536" by (simp add: less_eq_div_iff_mult_less_eq)
    have x1: "x < base \<or> (currentSector f + 1) * 65536 \<le> x" using x c by auto
    show "mem ?b x = m0 x"
    proof (cases "pageIndex f = 255")
      case True
      then have "currentSector f + 1 \<le> (base + length (w @ p) + 255) div 65536"
        using pos assms(6) by (cases p) (simp_all add: less_eq_div_iff_mult_less_eq)
      then have "x < base \<or> (currentSector f + 2) * 65536 \<le> x" using x by auto
      then show ?thesis using pg(4) [OF x1] erase_ok [OF assms(1,2) s, of "snd ?r" x] pos True by auto
    next
      case False
      then show ?thesis using pg(4) [OF x1] by simp
    qed
  qed
  moreover have "bspSpiFlashWriteOnePage e p (f, b) = (int (length p), ?f, ?b)"
    using pg(1) i s by (auto simp: bspSpiFlashWriteOnePage_def Let_def split_beta)
  moreover have "same_ram b ?b" by (simp add: same_ram_def)
  ultimately show thesis using that by auto
qed


lemma pages_of_one: "0 < length d \<Longrightarrow> length d \<le> 256 \<Longrightarrow> pages_of d = [d]"
proof -
  assume d: "0 < length d" "length d \<le> 256"
  then have "(length d + 255) div 256 = 1" by (intro div_nat_eqI) (auto simp: Suc_le_eq)
  then show ?thesis using d by (simp add: pages_of_def add.commute)
qed

lemma writeFull_ok:
  assumes "nor_ok e" "bus_ok e" "flash_at base w m0 (extSpiFlash b) (mem b)" "(i + n) * 256 \<le> length (bufWrite b)"
    "base + length w + n * 256 < 16777216"
  obtains b' where "writeFull e i n b = (True, b')" "flash_at base (w @ get_bytes (i * 256) (n * 256) (bufWrite b)) m0 (extSpiFlash b') (mem b')"
    "leftBytesWrite (extSpiFlash b') = leftBytesWrite (extSpiFlash b)" "bufWrite b' = bufWrite b" "memFault b' = memFault b" "bufRead b' = bufRead b"
  using assms(3-5)
proof (induction n arbitrary: i w b thesis)
  case 0
  show ?case by (rule "0.prems"(1)) (use "0.prems"(2) in \<open>simp_all add: get_bytes_def\<close>)
next
  case (Suc n)
  let ?p = "get_bytes (i * 256) 256 (bufWrite b)"
  have lp: "length ?p = 256" using Suc.prems(3) by simp
  have room: "base + length w + 256 < 16777216" using Suc.prems(4) by simp
  obtain f' b' where w1: "bspSpiFlashWriteOnePage e ?p (extSpiFlash b, b) = (256, f', b')"
    and fl: "flash_at base (w @ ?p) m0 f' (mem b')" and lb: "leftBytesWrite f' = leftBytesWrite (extSpiFlash b)" and sr: "same_ram b b'"
    by (rule onePage_ok [OF assms(1,2) Suc.prems(2) lp room])
  have on: "bspSpiFlashWrite_on e ?p (extSpiFlash b, b) = (256, f', b')"
    using w1 lp by (simp add: bspSpiFlashWrite_on_def pages_of_one)
  let ?b1 = "b'\<lparr>extSpiFlash := f'\<rparr>"
  have buf: "bufWrite ?b1 = bufWrite b" "memFault ?b1 = memFault b" "bufRead ?b1 = bufRead b" using sr by (simp_all add: same_ram_def)
  have cat: "?p @ get_bytes ((i + 1) * 256) (n * 256) (bufWrite b) = get_bytes (i * 256) (Suc n * 256) (bufWrite b)"
    by (simp add: get_bytes_def take_add add.commute)
  show ?case
  proof (rule Suc.IH [where b = ?b1 and w = "w @ ?p" and i = "i + 1"])
    show "flash_at base (w @ ?p) m0 (extSpiFlash ?b1) (mem ?b1)" using fl by simp
    show "(i + 1 + n) * 256 \<le> length (bufWrite ?b1)" using Suc.prems(3) buf by simp
    show "base + length (w @ ?p) + n * 256 < 16777216" using Suc.prems(4) lp by simp
  next
    fix b2
    assume w2: "writeFull e (i + 1) n ?b1 = (True, b2)"
      and f2: "flash_at base ((w @ ?p) @ get_bytes ((i + 1) * 256) (n * 256) (bufWrite ?b1)) m0 (extSpiFlash b2) (mem b2)"
      and l2: "leftBytesWrite (extSpiFlash b2) = leftBytesWrite (extSpiFlash ?b1)" "bufWrite b2 = bufWrite ?b1" "memFault b2 = memFault ?b1" "bufRead b2 = bufRead ?b1"
    show ?case
    proof (rule Suc.prems(1))
      show "writeFull e i (Suc n) b = (True, b2)" using on w2 by simp
      show "flash_at base (w @ get_bytes (i * 256) (Suc n * 256) (bufWrite b)) m0 (extSpiFlash b2) (mem b2)"
        using f2 buf(1) by (simp only: append_assoc cat)
    qed (use l2 lb buf in simp_all)
  qed
qed


text \<open>
  The stream \<open>w\<close> written since the start at \<open>base\<close>: whole pages in the memory, less than one page
  in the buffer.
\<close>

definition pending_stream :: "nat \<Rightarrow> bytes \<Rightarrow> (nat \<Rightarrow> u8) \<Rightarrow> board \<Rightarrow> bool" where
  "pending_stream base w m0 b \<longleftrightarrow>
     length (bufWrite b) = RW_BUFFER_SIZE \<and> \<not> memFault b \<and>
     (\<exists>v. flash_at base v m0 (extSpiFlash b) (mem b) \<and> w = v @ take (leftBytesWrite (extSpiFlash b)) (bufWrite b))"

definition flash_stream :: "nat \<Rightarrow> bytes \<Rightarrow> (nat \<Rightarrow> u8) \<Rightarrow> board \<Rightarrow> bool" where
  "flash_stream base w m0 b \<longleftrightarrow> pending_stream base w m0 b \<and> leftBytesWrite (extSpiFlash b) < PAGE_SIZE"

lemma setLeft_simps [simp]:
  "mem (setLeft n b) = mem b" "bufWrite (setLeft n b) = bufWrite b" "memFault (setLeft n b) = memFault b"
  "leftBytesWrite (extSpiFlash (setLeft n b)) = n mod 65536" "bufRead (setLeft n b) = bufRead b"
  "flash_at base w m0 (extSpiFlash (setLeft n b)) m = flash_at base w m0 (extSpiFlash b) m"
  by (simp_all add: setLeft_def flash_at_def)

lemma copyIn_simps [simp]:
  "mem (copyIn src i off n b) = mem b" "extSpiFlash (copyIn src i off n b) = extSpiFlash b" "bufRead (copyIn src i off n b) = bufRead b"
  "length (bufWrite (copyIn src i off n b)) = length (bufWrite b)"
  by (simp_all add: copyIn_def)

lemma take_put: "off + length xs \<le> length buf \<Longrightarrow> take (off + length xs) (put_bytes off xs buf) = take off buf @ xs"
  by (rule nth_equalityI) (auto simp: nth_put_bytes nth_append)

lemma put_get_same: "put_bytes off (get_bytes off n buf) buf = buf"
  by (rule nth_equalityI) (auto simp: nth_put_bytes get_bytes_def)

lemma flashDrain_ok:
  assumes "nor_ok e" "bus_ok e" "pending_stream base w m0 b" "leftBytesWrite (extSpiFlash b) \<le> RW_BUFFER_SIZE"
    "base + length w < 16777216"
  obtains b' where "flashDrain e b = (True, b')" "flash_stream base w m0 b'"
    "leftBytesWrite (extSpiFlash b') = leftBytesWrite (extSpiFlash b) mod PAGE_SIZE" "bufRead b' = bufRead b"
proof -
  let ?l = "leftBytesWrite (extSpiFlash b)"
  let ?n = "?l div PAGE_SIZE"
  from assms(3) obtain v where v: "flash_at base v m0 (extSpiFlash b) (mem b)" "w = v @ take ?l (bufWrite b)"
    and buf: "length (bufWrite b) = 1024" "\<not> memFault b" by (auto simp: pending_stream_def)
  have nl: "?n * 256 \<le> ?l" by simp
  have r1: "(0 + ?n) * 256 \<le> length (bufWrite b)" using order_trans [OF nl assms(4)] buf(1) by simp
  have r2: "base + length v + ?n * 256 < 16777216" using nl assms(4,5) v(2) buf(1) by simp
  obtain b1 where w1: "writeFull e 0 ?n b = (True, b1)"
    and f1: "flash_at base (v @ get_bytes (0 * 256) (?n * 256) (bufWrite b)) m0 (extSpiFlash b1) (mem b1)"
    and k1: "leftBytesWrite (extSpiFlash b1) = ?l" "bufWrite b1 = bufWrite b" "memFault b1 = memFault b" "bufRead b1 = bufRead b"
    by (rule writeFull_ok [OF assms(1,2) v(1) r1 r2])
  let ?k = "?l mod 256"
  let ?b2 = "if ?k \<noteq> 0 then copyIn OwnBuffer (?n * 256) 0 ?k (setLeft ?k b1) else setLeft ?k b1"
  have dr: "flashDrain e b = (True, ?b2)"
    by (simp only: flashDrain_def Let_def w1 prod.case k1 minus_div_mult_eq_mod) simp
  have nk: "?n * 256 + ?k = ?l" by simp
  have len: "?n * 256 + ?k \<le> length (bufWrite b)" using assms(4) buf(1) nk by simp
  have tk: "take ?k (bufWrite ?b2) = get_bytes (?n * 256) ?k (bufWrite b)"
    using take_put [of 0 "get_bytes (?n * 256) ?k (bufWrite b)" "bufWrite b"] len k1(2) by (simp add: copyIn_def get_bytes_def)
  have "w = (v @ get_bytes 0 (?n * 256) (bufWrite b)) @ take ?k (bufWrite ?b2)"
    using v(2) tk nk by (simp add: get_bytes_def take_add [symmetric])
  moreover have "flash_at base (v @ get_bytes 0 (?n * 256) (bufWrite b)) m0 (extSpiFlash ?b2) (mem ?b2)" using f1 by auto
  moreover have "\<not> memFault ?b2"
  proof -
    have "?k < 256" by simp
    then show ?thesis using buf k1 len by (cases "?n = 0") (auto simp: copyIn_def)
  qed
  moreover have "length (bufWrite ?b2) = 1024" "leftBytesWrite (extSpiFlash ?b2) = ?k" "bufRead ?b2 = bufRead b" using k1 buf by auto
  ultimately show thesis using dr by (intro that [of ?b2]) (auto simp: flash_stream_def pending_stream_def)
qed


lemma copyIn_pending:
  assumes "pending_stream base w m0 b" "l = leftBytesWrite (extSpiFlash b)" "l + n \<le> RW_BUFFER_SIZE" "index + n \<le> length d"
  shows "pending_stream base (w @ get_bytes index n d) m0 (setLeft (l + n) (copyIn (Data d) index l n b))"
proof -
  from assms obtain v where v: "flash_at base v m0 (extSpiFlash b) (mem b)" "w = v @ take l (bufWrite b)"
    and buf: "length (bufWrite b) = 1024" "\<not> memFault b" by (auto simp: pending_stream_def)
  let ?x = "get_bytes index n d"
  have x: "length ?x = n" using assms(4) by simp
  have "take (l + n) (put_bytes l ?x (bufWrite b)) = take l (bufWrite b) @ ?x"
    using take_put [of l ?x "bufWrite b"] x assms(3) buf(1) by simp
  moreover have "(l + n) mod 65536 = l + n" using assms(3) by simp
  ultimately show ?thesis using v buf assms(3,4)
    unfolding pending_stream_def by (auto simp: copyIn_def intro!: exI [of _ v])
qed

lemma flashFill_ok:
  assumes "flash_stream base w m0 b" "index + left \<le> length d"
  obtains n i b1 where "n \<le> left" "n < left \<longrightarrow> 0 < n \<and> i = index + n" "flashFill (Data d) left index b = (left - n, i, b1)"
    "pending_stream base (w @ get_bytes index n d) m0 b1" "leftBytesWrite (extSpiFlash b1) \<le> RW_BUFFER_SIZE" "bufRead b1 = bufRead b"
proof -
  let ?l = "leftBytesWrite (extSpiFlash b)"
  from assms(1) have p: "pending_stream base w m0 b" and l: "?l < 256" by (auto simp: flash_stream_def)
  show thesis
  proof (cases "?l + left < 1024")
    case True
    show thesis
    proof (rule that [of left index "setLeft (?l + left) (copyIn (Data d) index ?l left b)"])
      show "pending_stream base (w @ get_bytes index left d) m0 (setLeft (?l + left) (copyIn (Data d) index ?l left b))"
        using copyIn_pending [OF p refl, of left index d] True assms(2) by simp
    qed (use True in \<open>simp_all add: flashFill_def Let_def\<close>)
  next
    case False
    let ?n = "1024 - ?l"
    let ?b = "(copyIn (Data d) index ?l ?n b)\<lparr>memFault := (memFault (copyIn (Data d) index ?l ?n b) \<or> ?l > 1024)\<rparr>"
    have same: "?b = copyIn (Data d) index ?l ?n b" using l by simp
    show thesis
    proof (rule that [of ?n "index + ?n" "setLeft 1024 ?b"])
      show "pending_stream base (w @ get_bytes index ?n d) m0 (setLeft 1024 ?b)"
        using copyIn_pending [OF p refl, of ?n index d] False l assms(2) unfolding same by simp
      show "flashFill (Data d) left index b = (left - ?n, index + ?n, setLeft 1024 ?b)"
        using False by (simp add: flashFill_def Let_def)
    qed (use False l in simp_all)
  qed
qed

lemma writeLoop_ok:
  assumes "nor_ok e" "bus_ok e" "flash_stream base w m0 b" "index + left = length d" "base + length w + left < 16777216"
  shows "\<exists>b'. bspSpiFlashWrite_loop e (Data d) left index b = (True, b') \<and> flash_stream base (w @ drop index d) m0 b' \<and> bufRead b' = bufRead b"
  using assms(3-5)
proof (induction left arbitrary: index w b rule: less_induct)
  case (less left)
  from less.prems(2) have il: "index + left \<le> length d" by simp
  obtain n i b1 where n: "n \<le> left" "n < left \<longrightarrow> 0 < n \<and> i = index + n"
    and fill: "flashFill (Data d) left index b = (left - n, i, b1)"
    and pend: "pending_stream base (w @ get_bytes index n d) m0 b1" and lb: "leftBytesWrite (extSpiFlash b1) \<le> RW_BUFFER_SIZE"
    and br: "bufRead b1 = bufRead b"
    by (rule flashFill_ok [OF less.prems(1) il])
  have gl: "length (get_bytes index n d) = n" using il n(1) by simp
  have room: "base + length (w @ get_bytes index n d) < 16777216" using less.prems(3) n(1) gl by simp
  obtain b2 where dr: "flashDrain e b1 = (True, b2)" and st: "flash_stream base (w @ get_bytes index n d) m0 b2" and br2: "bufRead b2 = bufRead b1"
    by (rule flashDrain_ok [OF assms(1,2) pend lb room])
  show ?case
  proof (cases "n < left")
    case True
    have "\<exists>b'. bspSpiFlashWrite_loop e (Data d) (left - n) (index + n) b2 = (True, b') \<and>
        flash_stream base ((w @ get_bytes index n d) @ drop (index + n) d) m0 b' \<and> bufRead b' = bufRead b2"
      by (rule less.IH) (use True n st less.prems gl in auto)
    moreover have "get_bytes index n d @ drop (index + n) d = drop index d"
      by (simp add: get_bytes_def add.commute [of index] drop_drop [symmetric] del: drop_drop)
    ultimately show ?thesis using True n fill dr br br2
      by (subst bspSpiFlashWrite_loop.simps) simp
  next
    case False
    then have "get_bytes index n d = drop index d" using n less.prems(2) by (simp add: get_bytes_def)
    then show ?thesis using False fill dr st br br2
      by (subst bspSpiFlashWrite_loop.simps) simp
  qed
qed

lemma flashWrite_ok:
  assumes "nor_ok e" "bus_ok e" "flash_stream base w m0 b" "length d < 65536" "base + length w + length d < 16777216"
  shows "\<exists>b'. bspSpiFlashWrite e (Data d) (length d) b = (int (length d), b') \<and> flash_stream base (w @ d) m0 b' \<and> bufRead b' = bufRead b"
  using writeLoop_ok [OF assms(1-3), of 0 "length d" d] assms(4,5) by (auto simp: bspSpiFlashWrite_def)


text \<open>
  A caller may pass the shared buffer itself. When no byte is pending, up to 1024 bytes at the start of
  the buffer are taken where they are.
\<close>

lemma flashFill_own:
  assumes "leftBytesWrite (extSpiFlash b) = 0" "length (bufWrite b) = RW_BUFFER_SIZE" "\<not> memFault b" "n \<le> RW_BUFFER_SIZE"
  obtains i b1 where "flashFill OwnBuffer n 0 b = (0, i, b1)" "mem b1 = mem b" "bufWrite b1 = bufWrite b" "\<not> memFault b1"
    "extSpiFlash b1 = (extSpiFlash b)\<lparr>leftBytesWrite := n\<rparr>"
proof (cases "n < 1024")
  case True
  show thesis
    by (rule that [of 0 "setLeft n (copyIn OwnBuffer 0 0 n b)"])
      (use True assms in \<open>simp_all add: flashFill_def Let_def copyIn_def setLeft_def put_get_same\<close>)
next
  case False
  then have n: "n = 1024" using assms(4) by simp
  show thesis
    by (rule that [of 1024 "setLeft 1024 (copyIn OwnBuffer 0 0 1024 b)"])
      (use n assms in \<open>simp_all add: flashFill_def Let_def copyIn_def setLeft_def put_get_same\<close>)
qed

lemma flashWrite_own:
  assumes "nor_ok e" "bus_ok e" "flash_stream base w m0 b" "leftBytesWrite (extSpiFlash b) = 0" "n \<le> RW_BUFFER_SIZE"
    "base + length w + n < 16777216"
  shows "\<exists>b'. bspSpiFlashWrite e OwnBuffer n b = (int n, b') \<and> flash_stream base (w @ take n (bufWrite b)) m0 b' \<and>
    leftBytesWrite (extSpiFlash b') = n mod PAGE_SIZE"
proof -
  from assms(3,4) obtain b1 i where fill: "flashFill OwnBuffer n 0 b = (0, i, b1)"
    and b1: "mem b1 = mem b" "bufWrite b1 = bufWrite b" "\<not> memFault b1" "extSpiFlash b1 = (extSpiFlash b)\<lparr>leftBytesWrite := n\<rparr>"
    by (auto simp: flash_stream_def pending_stream_def intro: flashFill_own [OF _ _ _ assms(5)])
  have len: "length (bufWrite b) = 1024" using assms(3) by (simp add: flash_stream_def pending_stream_def)
  have p: "pending_stream base (w @ take n (bufWrite b)) m0 b1"
    using assms(3,4) b1 by (auto simp: flash_stream_def pending_stream_def flash_at_def)
  have l: "leftBytesWrite (extSpiFlash b1) \<le> RW_BUFFER_SIZE" using b1 assms(5) by simp
  have r: "base + length (w @ take n (bufWrite b)) < 16777216" using assms(5,6) len by simp
  obtain b2 where dr: "flashDrain e b1 = (True, b2)" "flash_stream base (w @ take n (bufWrite b)) m0 b2"
      "leftBytesWrite (extSpiFlash b2) = leftBytesWrite (extSpiFlash b1) mod PAGE_SIZE"
    by (rule flashDrain_ok [OF assms(1,2) p l r])
  have "n mod 65536 = n" using assms(5) by simp
  then show ?thesis using fill dr b1 by (simp add: bspSpiFlashWrite_def bspSpiFlashWrite_loop.simps)
qed

lemma flashInit_ok:
  assumes "nor_ok e" "bus_ok e" "sector < 256" "length (bufWrite b) = RW_BUFFER_SIZE" "\<not> memFault b"
  shows "flash_stream (sector * 65536) [] (mem b) (bspSpiFlashInit e sector a True b)"
    "leftBytesWrite (extSpiFlash (bspSpiFlashInit e sector a True b)) = 0"
proof -
  let ?f = "\<lparr>startSector = sector, startAddress = sector * 65536, currentSector = sector, pageIndex = 0, leftBytesWrite = 0, offsetRead = 0\<rparr>"
  have i: "bspSpiFlashInit e sector a True b = (bspHwSpiFlashEraseSector e sector b)\<lparr>extSpiFlash := ?f\<rparr>"
    using assms(3) by (simp add: bspSpiFlashInit_def bspSpiFlashInit_on_def)
  have "flash_at (sector * 65536) [] (mem b) ?f (mem (bspHwSpiFlashEraseSector e sector b))"
    using erase_ok [OF assms(1-3)] assms(3) by (auto simp: flash_at_def)
  then show "flash_stream (sector * 65536) [] (mem b) (bspSpiFlashInit e sector a True b)"
    unfolding i using assms(4,5) by (auto simp: flash_stream_def pending_stream_def)
  show "leftBytesWrite (extSpiFlash (bspSpiFlashInit e sector a True b)) = 0" unfolding i by simp
qed

lemma flash_at_image: "flash_at base w m0 f m \<Longrightarrow> image_at base w m0 m"
proof -
  assume a: "flash_at base w m0 f m"
  then have "currentSector f * 65536 \<le> base + length w + 255" by (simp add: flash_at_def)
  then have "currentSector f \<le> (base + length w + 255) div 65536" by (simp add: less_eq_div_iff_mult_less_eq)
  then have le: "(currentSector f + 1) * 65536 \<le> ((base + length w + 255) div 65536 + 1) * 65536" by simp
  have "m x = m0 x" if "x < base \<or> ((base + length w + 255) div 65536 + 1) * 65536 \<le> x" for x
  proof -
    have "x < base \<or> (currentSector f + 1) * 65536 \<le> x" using that order_trans [OF le] by blast
    then show ?thesis using a unfolding flash_at_def by blast
  qed
  then show ?thesis using a unfolding image_at_def flash_at_def by blast
qed

lemma flashFlush_ok:
  assumes "nor_ok e" "bus_ok e" "flash_stream base w m0 b" "base + length w + 256 < 16777216"
  shows "image_at base w m0 (mem (snd (bspSpiFlashFlush e b))) \<and> memFault (snd (bspSpiFlashFlush e b)) = memFault b \<and>
    bufWrite (snd (bspSpiFlashFlush e b)) = bufWrite b"
proof -
  let ?l = "leftBytesWrite (extSpiFlash b)"
  from assms(3) obtain v where v: "flash_at base v m0 (extSpiFlash b) (mem b)" "w = v @ take ?l (bufWrite b)"
    and buf: "length (bufWrite b) = 1024" and l: "?l < 256" by (auto simp: flash_stream_def pending_stream_def)
  show ?thesis
  proof (cases "?l = 0")
    case True
    then show ?thesis using v flash_at_image by (auto simp: bspSpiFlashFlush_def Let_def)
  next
    case False
    let ?p = "take ?l (bufWrite b)"
    have lp: "length ?p < 256" "?p \<noteq> []" and r: "base + length v + 256 < 16777216" using False l buf v(2) assms(4) by auto
    have one: "pages_of ?p = [?p]" using lp by (intro pages_of_one) auto
    obtain r f' b' where w1: "bspSpiFlashWriteOnePage e ?p (extSpiFlash b, b) = (r, f', b')"
      and im: "image_at base (v @ ?p) m0 (mem b')" and sr: "same_ram b b'"
      by (rule lastPage_ok [OF assms(1,2) v(1) lp(1) r lp(2)])
    have "\<exists>q. bspSpiFlashWrite_on e ?p (extSpiFlash b, b) = (q, f', b')"
      using w1 one by (simp add: bspSpiFlashWrite_on_def)
    then show ?thesis using False im v(2) sr by (auto simp: bspSpiFlashFlush_def Let_def get_bytes_def same_ram_def)
  qed
qed


subsection \<open>The interface: a sink for bytes\<close>

text \<open>
  What a client of a byte stream relies on: a chunk below a limit is accepted as a whole and appended
  to what the sink holds, as long as there is room.
\<close>

locale byte_sink =
  fixes holds :: "bytes \<Rightarrow> 's \<Rightarrow> bool" and put :: "bytes \<Rightarrow> 's \<Rightarrow> int \<times> 's" and limit :: nat and room :: nat
    and accepted :: "bytes \<Rightarrow> int"
  assumes put_holds: "holds w s \<Longrightarrow> length d < limit \<Longrightarrow> length w + length d < room \<Longrightarrow>
      fst (put d s) = accepted d \<and> holds (w @ d) (snd (put d s))"
begin

lemma put_all:
  "holds w s \<Longrightarrow> \<forall>d\<in>set ds. length d < limit \<Longrightarrow> length w + length (concat ds) < room \<Longrightarrow>
   holds (w @ concat ds) (fold (\<lambda>d s. snd (put d s)) ds s)"
proof (induction ds arbitrary: w s)
  case (Cons d ds)
  have "holds (w @ d) (snd (put d s))" using put_holds [of w s d] Cons.prems by simp
  then have "holds ((w @ d) @ concat ds) (fold (\<lambda>d s. snd (put d s)) ds (snd (put d s)))"
    by (rule Cons.IH) (use Cons.prems in auto)
  then show ?case by simp
qed simp

end

interpretation flash: byte_sink "\<lambda>w b. nor_ok e \<and> bus_ok e \<and> flash_stream base w m0 b" "\<lambda>d. bspSpiFlashWrite e (Data d) (length d)"
    65536 "16777216 - base" "\<lambda>d. int (length d)" for e base m0
proof
  fix w b and d :: bytes
  assume a: "nor_ok e \<and> bus_ok e \<and> flash_stream base w m0 b" "length d < 65536" "length w + length d < 16777216 - base"
  have "base + length w + length d < 16777216" using a(3) by linarith
  then obtain b' where "bspSpiFlashWrite e (Data d) (length d) b = (int (length d), b')" "flash_stream base (w @ d) m0 b'"
    using flashWrite_ok [of e base w m0 b d] a by auto
  then show "fst (bspSpiFlashWrite e (Data d) (length d) b) = int (length d) \<and>
      nor_ok e \<and> bus_ok e \<and> flash_stream base (w @ d) m0 (snd (bspSpiFlashWrite e (Data d) (length d) b))"
    using a by simp
qed

subsection \<open>Properties\<close>

text \<open>An example of a device: the behaviour of the data sheet.\<close>

definition nor_example :: board_env where
  "nor_example =
     \<lparr>dev_erase = (\<lambda>a m x. if a \<le> x \<and> x < a + 65536 then 0xFF else m x),
      dev_program = (\<lambda>a d m x. if a \<le> x \<and> x < a + length d then m x AND d ! (x - a) else m x),
      dev_read = (\<lambda>a n m. map m [a..<a + n]),
      spi_write = (\<lambda>_. None), spi_read = (\<lambda>_. None), spi_idle = (\<lambda>_ n. replicate n 0)\<rparr>"

definition board_zero :: board where
  "board_zero = \<lparr>mem = (\<lambda>_. 0), packets = 0,
     extSpiFlash = \<lparr>startSector = 0, startAddress = 0, currentSector = 0, pageIndex = 0, leftBytesWrite = 0, offsetRead = 0\<rparr>,
     bufWrite = replicate RW_BUFFER_SIZE 0, bufRead = replicate RW_BUFFER_SIZE 0, memFault = False\<rparr>"

lemma and_FF: "(0xFF::u8) AND x = x"
proof -
  have "(0xFF::u8) = -1" by simp
  then show ?thesis by (metis and.left_neutral)
qed

lemma board_zero_simps [simp]: "length (bufWrite board_zero) = 1024" "length (bufRead board_zero) = 1024" "\<not> memFault board_zero"
  by (simp_all add: board_zero_def)

lemma nor_example_ok: "nor_ok nor_example" "bus_ok nor_example"
  by (auto simp: nor_ok_def bus_ok_def nor_example_def and_FF)

text \<open>
  C4: A stream written to the flash is stored byte by byte. After opening at a sector, writing any
  chunks of less than 64 KB each and flushing, on a working device with enough room, the memory holds
  the concatenation of the chunks from the start of the sector, whatever their sizes are; no sector before
  it and none behind the one after the last page has changed, and every copy stayed inside its buffer.
\<close>
theorem flash_stores_stream:
  fixes b :: board and ds :: "bytes list" and a :: nat
  assumes "nor_ok e" "bus_ok e" "length (bufWrite b) = RW_BUFFER_SIZE" "\<not> memFault b" "\<forall>d\<in>set ds. length d < 65536"
    and "sector * SECTOR_SIZE + length (concat ds) + PAGE_SIZE < 16777216"
  defines "b' \<equiv> snd (bspSpiFlashFlush e (fold (\<lambda>d b. snd (bspSpiFlashWrite e (Data d) (length d) b)) ds (bspSpiFlashInit e sector a True b)))"
  shows "(\<forall>k<length (concat ds). mem b' (sector * SECTOR_SIZE + k) = concat ds ! k) \<and>
    (\<forall>x. x < sector * SECTOR_SIZE \<or> ((sector * SECTOR_SIZE + length (concat ds) + 255) div SECTOR_SIZE + 1) * SECTOR_SIZE \<le> x \<longrightarrow> mem b' x = mem b x) \<and>
    \<not> memFault b'"
proof -
  have s: "sector < 256" using assms(6) by simp
  let ?b1 = "fold (\<lambda>d b. snd (bspSpiFlashWrite e (Data d) (length d) b)) ds (bspSpiFlashInit e sector a True b)"
  have "flash_stream (sector * 65536) ([] @ concat ds) (mem b) ?b1"
    using flash.put_all [of e "sector * 65536" "[]" "mem b" "bspSpiFlashInit e sector a True b" ds]
      flashInit_ok(1) [OF assms(1,2) s assms(3,4)] assms by simp
  then have st: "flash_stream (sector * 65536) (concat ds) (mem b) ?b1" by simp
  then have "\<not> memFault ?b1" by (simp add: flash_stream_def pending_stream_def)
  then show ?thesis using flashFlush_ok [OF assms(1,2) st] assms(6) unfolding b'_def image_at_def by auto
qed

theorem flash_stores_stream_witness:
  "mem (snd (bspSpiFlashFlush nor_example (snd (bspSpiFlashWrite nor_example (Data [2, 3]) 2 (snd (bspSpiFlashWrite nor_example (Data [1]) 1
     (bspSpiFlashInit nor_example 144 0 True board_zero))))))) 9437186 = 3"
proof -
  have c: "\<forall>d\<in>set [[1], [2, 3::u8]]. length d < 65536" "144 * SECTOR_SIZE + length (concat [[1], [2, 3::u8]]) + PAGE_SIZE < 16777216" by simp_all
  show ?thesis
    using flash_stores_stream [OF nor_example_ok board_zero_simps(1,3) c, of 0, THEN conjunct1, rule_format, of 2]
    by (simp add: numeral_2_eq_2)
qed

lemma onePage_result:
  "fst (bspSpiFlashWriteOnePage e p (f, b)) =
     (if fst (bspHwSpiFlashWritePage e (currentSector f * 256 + pageIndex f) p b) = EXIT_FAILURE then -1 else int (length p))"
proof -
  have "n mod 65536 < 131072" for n :: nat using mod_less_divisor [of 65536 n] by linarith
  then show ?thesis by (simp add: bspSpiFlashWriteOnePage_def Let_def split_beta not_le)
qed

lemma flashPages_result: "\<forall>p\<in>set ps. length p \<noteq> 1 \<Longrightarrow> fst (flashPages e ps s)"
proof (induction ps arbitrary: s)
  case (Cons p ps)
  then have "fst (bspSpiFlashWriteOnePage e p s) \<noteq> 1" by (cases s) (simp add: onePage_result)
  with Cons show ?case by (simp add: Let_def split_beta)
qed simp

lemma pages_of_length: "p \<in> set (pages_of d) \<Longrightarrow> length p = 256 \<or> length p = length d mod 256"
proof -
  assume "p \<in> set (pages_of d)"
  then obtain i where i: "i < (length d + 255) div 256" "p = take 256 (drop (i * 256) d)" by (auto simp: pages_of_def add.commute)
  show ?thesis
  proof (cases "i * 256 + 256 \<le> length d")
    case False
    have "i * 256 \<le> length d" using i(1) by (simp add: less_eq_div_iff_mult_less_eq Suc_le_eq [symmetric])
    with False have "length d div 256 = i" by (intro div_nat_eqI) auto
    then have "length d mod 256 = length d - i * 256" by (simp add: minus_div_mult_eq_mod [symmetric])
    then show ?thesis using i(2) False by simp
  qed (use i(2) in simp)
qed

text \<open>
  Errors of the flash are not seen by the writers. The loop over the pages compares the result with
  \<open>EXIT_FAILURE\<close>, which is 1, while a page that could not be programmed gives -1: a block that does not
  end with a page of one byte is always reported as written, whatever the bus and the device do. For a
  single byte, whose success is 1, the report is the opposite of the truth.
\<close>
theorem flash_write_errors_lost:
  "(length d mod PAGE_SIZE \<noteq> 1 \<longrightarrow> fst (bspSpiFlashWrite_on e d s) = int (length d)) \<and>
   (fst (bspSpiFlashWrite_on e [x] (f, b)) = -1 \<longleftrightarrow>
      fst (bspHwSpiFlashWritePage e (currentSector f * 256 + pageIndex f) [x] b) \<noteq> EXIT_FAILURE)"
proof -
  have "fst (flashPages e (pages_of d) s)" if "length d mod 256 \<noteq> 1"
    using that pages_of_length [of _ d] by (intro flashPages_result) fastforce
  then show ?thesis
    using onePage_result [of e "[x]" f b] by (auto simp: bspSpiFlashWrite_on_def split_beta pages_of_one Let_def)
qed

definition nor_dead :: board_env where
  "nor_dead = nor_example\<lparr>spi_write := (\<lambda>_. Some 0)\<rparr>"

theorem flash_write_errors_lost_witness:
  "fst (bspSpiFlashWrite_on nor_dead (replicate 256 7) (extSpiFlash board_zero, board_zero)) = 256 \<and>
   mem (snd (snd (bspSpiFlashWrite_on nor_dead (replicate 256 7) (extSpiFlash board_zero, board_zero)))) 0 = 0"
proof -
  have "fst (bspSpiFlashWrite_on nor_dead (replicate 256 7) (extSpiFlash board_zero, board_zero)) = 256"
    using flash_write_errors_lost [of "replicate 256 7" nor_dead "(extSpiFlash board_zero, board_zero)"] by simp
  moreover have "mem (snd (snd (bspSpiFlashWriteOnePage nor_dead (replicate 256 7) (extSpiFlash board_zero, board_zero)))) 0 = 0"
    by (simp add: bspSpiFlashWriteOnePage_def bspHwSpiFlashWritePage_def hwPacket_def nor_dead_def board_zero_def Let_def)
  ultimately show ?thesis by (simp add: bspSpiFlashWrite_on_def pages_of_one Let_def split_beta)
qed

subsection \<open>The boot copy\<close>

lemma read_ok:
  assumes "nor_ok e" "bus_ok e" "startAddress f + offsetRead f + n \<le> 16777216" "0 < n"
  shows "bspSpiFlashRead_on e n f b =
    (int n, map (mem b) [startAddress f + offsetRead f..<startAddress f + offsetRead f + n],
     f\<lparr>offsetRead := offsetRead f + n\<rparr>, b\<lparr>packets := packets b + 2\<rparr>)"
proof -
  have "startAddress f + offsetRead f < 16777216" using assms(3,4) by simp
  then show ?thesis using assms
    by (simp add: bspSpiFlashRead_on_def bspHwSpiFlashRead_def hwPacket_def bus_ok_def hwAddress_3 be24_address nor_ok_def)
qed

lemma flash_stream_packets: "flash_stream base w m0 (b\<lparr>packets := n, bufRead := r\<rparr>) = flash_stream base w m0 b"
  by (simp add: flash_stream_def pending_stream_def)

text \<open>What is copied lies behind the sectors that are written.\<close>

lemma stream_frame:
  assumes "flash_stream 0 w m0 b" "length w < 9437184" "9437184 \<le> x"
  shows "mem b x = m0 x"
proof -
  from assms(1) obtain v where v: "flash_at 0 v m0 (extSpiFlash b) (mem b)" "length v \<le> length w"
    by (auto simp: flash_stream_def pending_stream_def)
  then have "currentSector (extSpiFlash b) * 65536 < 9437184" using assms(2) unfolding flash_at_def by linarith
  then have "(currentSector (extSpiFlash b) + 1) * 65536 \<le> 9437184" by simp
  then show ?thesis using v(1) assms(3) unfolding flash_at_def by (meson order_trans)
qed

lemma bootCopy_ok:
  assumes "nor_ok e" "bus_ok e" "imageSize \<le> 7340032"
    and "flash_stream 0 (map m0 [9437184..<9437184 + tot]) m0 b" "length (bufRead b) = RW_BUFFER_SIZE"
    and "startAddress f = 9437184" "offsetRead f = tot" "tot mod 1024 = 0" "tot < imageSize + 1024" "imageSize + 1024 \<le> tot + fuel * 1024"
  shows "\<exists>n b'. bootCopy fuel e imageSize tot f b = Some (int n, b') \<and> imageSize \<le> n \<and> n < imageSize + 1024 \<and> n mod 1024 = 0 \<and>
    flash_stream 0 (map m0 [9437184..<9437184 + n]) m0 b'"
  using assms(4-)
proof (induction fuel arbitrary: tot f b)
  case 0
  then show ?case by simp
next
  case (Suc fuel)
  show ?case
  proof (cases "tot < imageSize")
    case False
    then show ?thesis using Suc.prems by auto
  next
    case True
    let ?d = "map (mem b) [9437184 + tot..<9437184 + tot + 1024]"
    let ?b2 = "b\<lparr>packets := packets b + 2, bufRead := put_bytes 0 ?d (bufRead b)\<rparr>"
    let ?w = "map m0 [9437184..<9437184 + tot]"
    obtain k where k: "tot = 1024 * k" using Suc.prems(5) by (auto elim: dvdE simp: mod_eq_0_iff_dvd)
    then have "k < 7168" using True assms(3) by simp
    then have t: "tot + 1024 \<le> 7340032" using k by simp
    have rd: "bspSpiFlashRead_on e 1024 f b = (1024, ?d, f\<lparr>offsetRead := tot + 1024\<rparr>, b\<lparr>packets := packets b + 2\<rparr>)"
      using read_ok [OF assms(1,2), of f 1024 b] Suc.prems(3,4) t by simp
    have d: "?d = map m0 [9437184 + tot..<9437184 + tot + 1024]"
      using stream_frame [OF Suc.prems(1)] t by auto
    have buf: "bufRead ?b2 = ?d"
      using take_put [of 0 ?d "bufRead b"] Suc.prems(2) by simp
    have "flash_stream 0 ?w m0 ?b2" using Suc.prems(1) by (simp add: flash_stream_packets)
    then obtain b3 where w3: "bspSpiFlashWrite e (Data ?d) 1024 ?b2 = (1024, b3)" "flash_stream 0 (?w @ ?d) m0 b3" "bufRead b3 = bufRead ?b2"
      using flashWrite_ok [OF assms(1,2), of 0 ?w m0 ?b2 ?d] t by auto
    have cat: "?w @ ?d = map m0 [9437184..<9437184 + (tot + 1024)]"
      unfolding d using upt_add_eq_append [of 9437184 "9437184 + tot" 1024] by (simp flip: map_append)
    have step: "bootCopy (Suc fuel) e imageSize tot f b = bootCopy fuel e imageSize (tot + 1024) (f\<lparr>offsetRead := tot + 1024\<rparr>) b3"
      using True rd buf w3(1) t by simp
    show ?thesis unfolding step
      by (rule Suc.IH) (use w3 cat buf Suc.prems t True in \<open>simp_all add: mod_add_eq\<close>)
  qed
qed


lemma whole_pages:
  assumes "flash_stream 0 w m0 b" "length w mod 1024 = 0"
  shows "image_at 0 w m0 (mem b)"
proof -
  let ?l = "leftBytesWrite (extSpiFlash b)"
  from assms(1) obtain v where v: "flash_at 0 v m0 (extSpiFlash b) (mem b)" "w = v @ take ?l (bufWrite b)"
    and l: "?l < 256" "length (bufWrite b) = 1024" by (auto simp: flash_stream_def pending_stream_def)
  have "length v = (currentSector (extSpiFlash b) * 256 + pageIndex (extSpiFlash b)) * 256" using v(1) by (simp add: flash_at_def)
  then have "length w = (currentSector (extSpiFlash b) * 256 + pageIndex (extSpiFlash b)) * 256 + ?l" using v(2) l by simp
  then have "?l = length w mod 256" using l(1) by (simp only: mod_mult_self3 mod_less)
  moreover have "length w mod 256 = 0" using assms(2) mod_mod_cancel [of 256 1024 "length w"] by simp
  ultimately show ?thesis using v flash_at_image by simp
qed

text \<open>
  At boot the new FPGA image is copied over the first image. For every size up to 7 MB, on a working
  device, the loop ends after at most a round per kilobyte and one more, reports at least the size of
  the image, and then the memory at address 0 holds what the temporary area at 9 MB held.
\<close>
theorem boot_copies_image:
  assumes "nor_ok e" "bus_ok e" "imageSize \<le> 7340032" "length (bufWrite b) = RW_BUFFER_SIZE" "length (bufRead b) = RW_BUFFER_SIZE" "\<not> memFault b"
    and "imageSize div 1024 + 2 \<le> fuel"
  shows "\<exists>n b'. bspBootUpdateFpga fuel e imageSize b = Some (n, b') \<and> int imageSize \<le> n \<and> \<not> memFault b' \<and>
    (\<forall>k<imageSize. mem b' k = mem b (9437184 + k))"
proof -
  let ?f = "fst (bspSpiFlashInit_on e 144 (144 * 65536) False b)"
  let ?b = "bspSpiFlashInit e 0 0 True b"
  have f: "startAddress ?f = 9437184" "offsetRead ?f = 0" "snd (bspSpiFlashInit_on e 144 (144 * 65536) False b) = b"
    by (simp_all add: bspSpiFlashInit_on_def)
  have i: "flash_stream 0 (map (mem b) [9437184..<9437184 + 0]) (mem b) ?b"
    using flashInit_ok(1) [OF assms(1,2) _ assms(4,6), of 0 0] by simp
  have r: "length (bufRead ?b) = 1024" using assms(5) by (simp add: bspSpiFlashInit_def bspSpiFlashInit_on_def)
  have "imageSize + 1024 \<le> 0 + fuel * 1024"
    using assms(7) div_mult_mod_eq [of imageSize 1024] mod_less_divisor [of 1024 imageSize] by linarith
  then obtain n b' where c: "bootCopy fuel e imageSize 0 ?f ?b = Some (int n, b')" "imageSize \<le> n" "n mod 1024 = 0"
      "flash_stream 0 (map (mem b) [9437184..<9437184 + n]) (mem b) b'"
    using bootCopy_ok [OF assms(1-3) i r f(1,2), of fuel] by auto
  have "image_at 0 (map (mem b) [9437184..<9437184 + n]) (mem b) (mem b')" using whole_pages [OF c(4)] c(3) by simp
  then have "\<forall>k<imageSize. mem b' k = mem b (9437184 + k)" using c(2) by (auto simp: image_at_def)
  moreover have "\<not> memFault b'" using c(4) by (simp add: flash_stream_def pending_stream_def)
  moreover have "bspBootUpdateFpga fuel e imageSize b = Some (int n, b')" using c(1) f(3) by (simp add: bspBootUpdateFpga_def split_beta Let_def)
  ultimately show ?thesis using c(2) by auto
qed

theorem boot_copies_image_witness:
  "\<exists>n b'. bspBootUpdateFpga 7 nor_example 5000 board_zero = Some (n, b') \<and> 5000 \<le> n \<and> mem b' 4999 = 0"
proof -
  obtain n b' where "bspBootUpdateFpga 7 nor_example 5000 board_zero = Some (n, b')" "5000 \<le> n"
      "\<forall>k<5000. mem b' k = mem board_zero (9437184 + k)"
    using boot_copies_image [OF nor_example_ok _ board_zero_simps, of 5000 7] by auto
  then show ?thesis by (auto simp: board_zero_def)
qed

end
