(* ===== verification/FirmUpload.thy ===== *)
theory FirmUpload
  imports SpiFlash
begin

text \<open>
  The firmware images on their way to the flash, in the build for the board (\<open>ARM\<close>):
  \<^verbatim>\<open>src/supports/lwip/lwip/src/exts/cmn/cmnUploadFile.c\<close> opens, fills and closes an image for the web server and
  for the TFTP server, and \<^verbatim>\<open>src/an767/boot/src/bootMain.c\<close> installs it at the next boot.
  TFTP blocks are collected in the 1024 byte buffer of the configuration, which the flash driver uses
  as well: the lemmas show that the two uses do not collide, so that the image that was sent is the image
  in the flash.
\<close>

subsection \<open>State\<close>

datatype EXT_FM_T = EXT_FM_TYPE_NONE | EXT_FM_TYPE_RTOS | EXT_FM_TYPE_FPGA | EXT_FM_TYPE_UNKNOWN

text \<open>
  The part of the run-time configuration that describes an update, with the board. \<open>mcast\<close>: reception of
  broadcast and multicast frames; \<open>cfgSaved\<close>: the type and size in each configuration written by
  \<open>bspCfgSave\<close>, newest last; \<open>dataIndex\<close> belongs to the TFTP context.
\<close>

record EXT_RUNTIME_CFG =
  board_of :: board
  fu_type :: EXT_FM_T
  fu_isWrite :: bool
  fu_size :: nat
  mcast :: bool
  cfgSaved :: "(EXT_FM_T \<times> nat) list"
  dataIndex :: nat

definition setBoard :: "board \<Rightarrow> EXT_RUNTIME_CFG \<Rightarrow> EXT_RUNTIME_CFG" where
  "setBoard b r = r\<lparr>board_of := b\<rparr>"

definition clearUpdate :: "EXT_RUNTIME_CFG \<Rightarrow> EXT_RUNTIME_CFG" where
  "clearUpdate r = r\<lparr>fu_type := EXT_FM_TYPE_NONE, fu_isWrite := False, fu_size := 0\<rparr>"

definition bspCfgSave :: "EXT_RUNTIME_CFG \<Rightarrow> EXT_RUNTIME_CFG" where
  "bspCfgSave r = r\<lparr>cfgSaved := cfgSaved r @ [(fu_type r, fu_size r)]\<rparr>"

subsection \<open>Opening and closing an image\<close>

definition updateSector :: "EXT_FM_T \<Rightarrow> nat" where
  "updateSector t = (if t = EXT_FM_TYPE_RTOS then 129 else 144)"

definition firmwareUpdateInit :: "board_env \<Rightarrow> EXT_FM_T \<Rightarrow> EXT_RUNTIME_CFG \<Rightarrow> EXT_RUNTIME_CFG" where
  "firmwareUpdateInit e t r =
     (let s = updateSector t;
          r1 = (clearUpdate r)\<lparr>fu_type := t, mcast := False, fu_isWrite := True\<rparr>
      in setBoard (bspSpiFlashInit e s (s * 65536) True (board_of r1)) r1)"

definition firmwareUpdateEnd :: "board_env \<Rightarrow> EXT_RUNTIME_CFG \<Rightarrow> EXT_RUNTIME_CFG" where
  "firmwareUpdateEnd e r =
     (let r1 = (setBoard (snd (bspSpiFlashFlush e (board_of r))) r)\<lparr>mcast := True\<rparr>
      in if fu_type r1 = EXT_FM_TYPE_RTOS \<or> fu_type r1 = EXT_FM_TYPE_FPGA then bspCfgSave r1 else r1)"

text \<open>\<open>strcasecmp\<close> on the bytes before the terminating zero.\<close>

definition to_lower :: "u8 \<Rightarrow> u8" where
  "to_lower c = (if 65 \<le> c \<and> c \<le> 90 then c + 32 else c)"

definition c_string :: "bytes \<Rightarrow> bytes" where
  "c_string bs = takeWhile (\<lambda>c. c \<noteq> 0) bs"

definition is_string_equal :: "bytes \<Rightarrow> bytes \<Rightarrow> bool" where
  "is_string_equal a b \<longleftrightarrow> map to_lower (c_string a) = map to_lower (c_string b)"

definition ascii :: "string \<Rightarrow> bytes" where
  "ascii s = map of_char s"

subsection \<open>Upload from a web page\<close>

text \<open>The two pages are \<open>EXT_WEBPAGE_UPDATE_MCU\<close> and \<open>EXT_WEBPAGE_UPDATE_FPGA\<close>.\<close>

definition extUploadOpen :: "board_env \<Rightarrow> bytes \<Rightarrow> EXT_RUNTIME_CFG \<Rightarrow> EXT_RUNTIME_CFG" where
  "extUploadOpen e uri r =
     firmwareUpdateInit e
       (if is_string_equal uri (ascii ''/mcuUpdate'') then EXT_FM_TYPE_RTOS
        else if is_string_equal uri (ascii ''/fpgaUpdate'') then EXT_FM_TYPE_FPGA
        else EXT_FM_TYPE_NONE) r"

definition extUploadClose :: "board_env \<Rightarrow> EXT_RUNTIME_CFG \<Rightarrow> EXT_RUNTIME_CFG" where
  "extUploadClose e r = firmwareUpdateEnd e r"

definition extUploadWrite :: "board_env \<Rightarrow> bytes \<Rightarrow> EXT_RUNTIME_CFG \<Rightarrow> int \<times> EXT_RUNTIME_CFG" where
  "extUploadWrite e data r =
     (let (len, b) = bspSpiFlashWrite e (Data data) (length data) (board_of r) in
      if len \<noteq> int (length data) then (65535, setBoard b r)
      else (len mod 65536, (setBoard b r)\<lparr>fu_size := (fu_size r + nat len) mod 4294967296\<rparr>))"

subsection \<open>Upload by TFTP\<close>

definition extTftpWriteData :: "board_env \<Rightarrow> nat \<Rightarrow> EXT_RUNTIME_CFG \<Rightarrow> nat \<times> EXT_RUNTIME_CFG" where
  "extTftpWriteData e len r =
     (let (n, b) = bspSpiFlashWrite e OwnBuffer len (board_of r) in
      if n \<noteq> int len then (65535, setBoard b r)
      else (len, (setBoard b r)\<lparr>fu_size := (fu_size r + len) mod 4294967296\<rparr>))"

definition extTftpOpen :: "board_env \<Rightarrow> bytes \<Rightarrow> EXT_RUNTIME_CFG \<Rightarrow> EXT_RUNTIME_CFG" where
  "extTftpOpen e fname r =
     (firmwareUpdateInit e (if is_string_equal fname (ascii ''firmOs'') then EXT_FM_TYPE_RTOS else EXT_FM_TYPE_FPGA) r)\<lparr>dataIndex := 0\<rparr>"

definition extTftpClose :: "board_env \<Rightarrow> EXT_RUNTIME_CFG \<Rightarrow> EXT_RUNTIME_CFG" where
  "extTftpClose e r =
     firmwareUpdateEnd e (if dataIndex r > 0 then snd (extTftpWriteData e (dataIndex r) r) else r)"

definition extTftpRead :: "EXT_RUNTIME_CFG \<Rightarrow> int" where
  "extTftpRead r = -1"

text \<open>
  The copy loop of \<open>_extTftpWrite\<close>; the result 1 is \<open>EXIT_FAILURE\<close>. An index beyond the buffer, which
  would be a write outside of it, ends the model of the loop with the fault recorded.
\<close>

definition copyBlock :: "bytes \<Rightarrow> nat \<Rightarrow> EXT_RUNTIME_CFG \<Rightarrow> nat \<times> EXT_RUNTIME_CFG" where
  "copyBlock p copied r =
     (let n = min (length p - copied) (RW_BUFFER_SIZE - dataIndex r)
      in (copied + n, (setBoard (copyIn (Data p) copied (dataIndex r) n (board_of r)) r)\<lparr>dataIndex := dataIndex r + n\<rparr>))"

function extTftpWrite_loop :: "board_env \<Rightarrow> bytes \<Rightarrow> nat \<Rightarrow> EXT_RUNTIME_CFG \<Rightarrow> int \<times> EXT_RUNTIME_CFG" where
  "extTftpWrite_loop e p copied r =
     (if copied \<ge> length p then (0, r)
      else if dataIndex r > RW_BUFFER_SIZE then (0, setBoard ((board_of r)\<lparr>memFault := True\<rparr>) r)
      else let (copied1, r1) = copyBlock p copied r in
        if dataIndex r1 = RW_BUFFER_SIZE
        then let (len, r2) = extTftpWriteData e (dataIndex r1) r1 in
          if len \<noteq> dataIndex r2 then (EXIT_FAILURE, r2)
          else extTftpWrite_loop e p copied1 (r2\<lparr>dataIndex := 0\<rparr>)
        else extTftpWrite_loop e p copied1 r1)"
  by pat_completeness auto
termination
  by (relation "measure (\<lambda>(e, p, copied, r). 2 * (length p - copied) + (if dataIndex r = RW_BUFFER_SIZE then 1 else 0))")
    (auto simp: copyBlock_def Let_def setBoard_def min_def split: if_splits)

declare extTftpWrite_loop.simps [simp del]

definition extTftpWrite :: "board_env \<Rightarrow> bytes \<Rightarrow> EXT_RUNTIME_CFG \<Rightarrow> int \<times> EXT_RUNTIME_CFG" where
  "extTftpWrite e p r = extTftpWrite_loop e p 0 r"

subsection \<open>Installation at boot\<close>

text \<open>
  The internal flash of the processor is programmed through the vendor's driver: \<open>efc_init\<close> and
  \<open>efc_program\<close> give the outcome of the calls, the second with the pages and bytes of a call. The loop
  has fuel for its rounds; \<open>None\<close> means that they were not enough.
\<close>

record efc_env =
  efc_init :: bool
  efc_program :: "nat \<Rightarrow> bytes \<Rightarrow> bool"

fun bootRtos :: "nat \<Rightarrow> board_env \<Rightarrow> efc_env \<Rightarrow> nat \<Rightarrow> nat \<Rightarrow> nat \<Rightarrow> (nat \<times> bytes) list \<Rightarrow> board \<Rightarrow> (nat \<times> (nat \<times> bytes) list \<times> board) option" where
  "bootRtos 0 e efc imageSize page tot out b = None"
| "bootRtos (Suc fuel) e efc imageSize page tot out b =
     (if tot < imageSize
      then let (len, data, b1) = bspSpiFlashRead e RW_BUFFER_SIZE b;
               b2 = b1\<lparr>bufRead := put_bytes 0 data (bufRead b1)\<rparr>
           in if len < 0 then Some (tot, out, b2)
              else let chunk = take (nat len) (bufRead b2) in
                if \<not> efc_program efc page chunk then Some (tot, out, b2)
                else bootRtos fuel e efc imageSize (page + 2) ((tot + nat len) mod 4294967296) (out @ [(page, chunk)]) b2
      else Some (tot, out, b))"

definition bootUpdateRtos :: "nat \<Rightarrow> board_env \<Rightarrow> efc_env \<Rightarrow> nat \<Rightarrow> nat \<Rightarrow> board \<Rightarrow> (nat \<times> (nat \<times> bytes) list \<times> board) option" where
  "bootUpdateRtos fuel e efc startPage imageSize b =
     (if \<not> efc_init efc then Some (0, [], b)
      else bootRtos fuel e efc imageSize startPage 0 [] (bspSpiFlashInit e 0 (129 * 65536) False b))"

text \<open>\<open>_bootUpdate\<close>: install what the configuration asks for, then clear the request and save.\<close>

definition bootUpdate :: "nat \<Rightarrow> board_env \<Rightarrow> efc_env \<Rightarrow> nat \<Rightarrow> EXT_RUNTIME_CFG \<Rightarrow> ((nat \<times> bytes) list \<times> EXT_RUNTIME_CFG) option" where
  "bootUpdate fuel e efc startPage r =
     (case fu_type r of
        EXT_FM_TYPE_RTOS \<Rightarrow> map_option (\<lambda>(n, out, b). (out, bspCfgSave (clearUpdate (setBoard b r)))) (bootUpdateRtos fuel e efc startPage (fu_size r) (board_of r))
      | EXT_FM_TYPE_FPGA \<Rightarrow> map_option (\<lambda>(n, b). ([], bspCfgSave (clearUpdate (setBoard b r)))) (bspBootUpdateFpga fuel e (fu_size r) (board_of r))
      | _ \<Rightarrow> Some ([], r))"


subsection \<open>A TFTP image reaches the flash\<close>

text \<open>
  The image \<open>w\<close> received so far: the flash driver holds whole pages and has nothing pending, the rest,
  less than a buffer, waits in the buffer.
\<close>

definition upload_inv :: "nat \<Rightarrow> bytes \<Rightarrow> (nat \<Rightarrow> u8) \<Rightarrow> EXT_RUNTIME_CFG \<Rightarrow> bool" where
  "upload_inv base w m0 r \<longleftrightarrow>
     leftBytesWrite (extSpiFlash (board_of r)) = 0 \<and> dataIndex r < RW_BUFFER_SIZE \<and>
     (\<exists>v. flash_stream base v m0 (board_of r) \<and> fu_size r = length v \<and> w = v @ take (dataIndex r) (bufWrite (board_of r)))"

definition same_update :: "EXT_RUNTIME_CFG \<Rightarrow> EXT_RUNTIME_CFG \<Rightarrow> bool" where
  "same_update r r' \<longleftrightarrow> fu_type r' = fu_type r \<and> cfgSaved r' = cfgSaved r \<and> mcast r' = mcast r"

lemma setBoard_simps [simp]:
  "board_of (setBoard b r) = b" "dataIndex (setBoard b r) = dataIndex r" "fu_size (setBoard b r) = fu_size r"
  "fu_type (setBoard b r) = fu_type r" "cfgSaved (setBoard b r) = cfgSaved r" "mcast (setBoard b r) = mcast r" "fu_isWrite (setBoard b r) = fu_isWrite r"
  by (simp_all add: setBoard_def)

lemma flash_stream_buf:
  assumes "flash_stream base v m0 b" "leftBytesWrite (extSpiFlash b) = 0" "index + n \<le> length p" "off + n \<le> RW_BUFFER_SIZE"
  shows "flash_stream base v m0 (copyIn (Data p) index off n b)"
  using assms by (auto simp: flash_stream_def pending_stream_def copyIn_def)

lemma flash_stream_len: "flash_stream base v m0 b \<Longrightarrow> length (bufWrite b) = RW_BUFFER_SIZE"
  by (simp add: flash_stream_def pending_stream_def)

lemma copyBlock_ok:
  assumes "upload_inv base w m0 r" "copied < length p" "n = min (length p - copied) (RW_BUFFER_SIZE - dataIndex r)"
  obtains r1 v where "copyBlock p copied r = (copied + n, r1)" "dataIndex r1 = dataIndex r + n" "0 < n" "copied + n \<le> length p"
    "leftBytesWrite (extSpiFlash (board_of r1)) = 0" "flash_stream base v m0 (board_of r1)" "fu_size r1 = length v"
    "w @ get_bytes copied n p = v @ take (dataIndex r1) (bufWrite (board_of r1))" "same_update r r1" "dataIndex r1 \<le> RW_BUFFER_SIZE"
proof -
  from assms(1) obtain v where v: "flash_stream base v m0 (board_of r)" "fu_size r = length v" "w = v @ take (dataIndex r) (bufWrite (board_of r))"
    and d: "dataIndex r < 1024" "leftBytesWrite (extSpiFlash (board_of r)) = 0" by (auto simp: upload_inv_def)
  let ?b = "copyIn (Data p) copied (dataIndex r) n (board_of r)"
  let ?r = "(setBoard ?b r)\<lparr>dataIndex := dataIndex r + n\<rparr>"
  have n: "0 < n" "copied + n \<le> length p" "dataIndex r + n \<le> 1024" using assms(2,3) d by auto
  have l: "length (get_bytes copied n p) = n" using n(2) by simp
  have tk: "take (dataIndex r + n) (bufWrite ?b) = take (dataIndex r) (bufWrite (board_of r)) @ get_bytes copied n p"
    using take_put [of "dataIndex r" "get_bytes copied n p" "bufWrite (board_of r)"] flash_stream_len [OF v(1)] n(3) l
    by (simp add: copyIn_def)
  show thesis
  proof (rule that [of ?r v])
    show "copyBlock p copied r = (copied + n, ?r)" using assms(3) by (simp add: copyBlock_def Let_def)
    show "flash_stream base v m0 (board_of ?r)" using flash_stream_buf [OF v(1) d(2) n(2,3)] by simp
    show "w @ get_bytes copied n p = v @ take (dataIndex ?r) (bufWrite (board_of ?r))" using v(3) tk by simp
  qed (use n v d in \<open>simp_all add: same_update_def\<close>)
qed

lemma writeData_ok:
  assumes "nor_ok e" "bus_ok e" "flash_stream base v m0 (board_of r)" "leftBytesWrite (extSpiFlash (board_of r)) = 0"
    "fu_size r = length v" "n \<le> RW_BUFFER_SIZE" "base + length v + n < 16777216"
  obtains r' where "extTftpWriteData e n r = (n, r')" "flash_stream base (v @ take n (bufWrite (board_of r))) m0 (board_of r')"
    "fu_size r' = length v + n" "leftBytesWrite (extSpiFlash (board_of r')) = n mod PAGE_SIZE" "dataIndex r' = dataIndex r" "same_update r r'"
proof -
  obtain b' where b: "bspSpiFlashWrite e OwnBuffer n (board_of r) = (int n, b')" "flash_stream base (v @ take n (bufWrite (board_of r))) m0 b'"
      "leftBytesWrite (extSpiFlash b') = n mod PAGE_SIZE"
    using flashWrite_own [OF assms(1-4,6,7)] by auto
  show thesis
    by (rule that [of "(setBoard b' r)\<lparr>fu_size := length v + n\<rparr>"])
      (use b assms in \<open>simp_all add: extTftpWriteData_def same_update_def\<close>)
qed

lemma tftpWrite_ok:
  assumes "nor_ok e" "bus_ok e" "upload_inv base w m0 r" "base + length w + (length p - copied) < 16777216"
  shows "\<exists>r'. extTftpWrite_loop e p copied r = (0, r') \<and> upload_inv base (w @ drop copied p) m0 r' \<and> same_update r r'"
  using assms(3,4)
proof (induction "length p - copied" arbitrary: copied w r rule: less_induct)
  case less
  show ?case
  proof (cases "copied < length p")
    case False
    then show ?thesis using less.prems(1) by (subst extTftpWrite_loop.simps) (simp add: same_update_def)
  next
    case True
    define n where "n = min (length p - copied) (1024 - dataIndex r)"
    obtain r1 v where c: "copyBlock p copied r = (copied + n, r1)" "dataIndex r1 = dataIndex r + n" "0 < n" "copied + n \<le> length p"
      and s: "leftBytesWrite (extSpiFlash (board_of r1)) = 0" "flash_stream base v m0 (board_of r1)" "fu_size r1 = length v"
      and w: "w @ get_bytes copied n p = v @ take (dataIndex r1) (bufWrite (board_of r1))" and u: "same_update r r1" "dataIndex r1 \<le> 1024"
      by (rule copyBlock_ok [OF less.prems(1) True n_def])
    have cat: "get_bytes copied n p @ drop (copied + n) p = drop copied p"
      by (simp add: get_bytes_def add.commute [of copied] drop_drop [symmetric] del: drop_drop)
    have gl: "length (get_bytes copied n p) = n" using c(4) by simp
    have di: "\<not> 1024 < dataIndex r" using less.prems(1) by (simp add: upload_inv_def)
    have IH: "\<exists>r'. extTftpWrite_loop e p (copied + n) r2 = (0, r') \<and> upload_inv base ((w @ get_bytes copied n p) @ drop (copied + n) p) m0 r' \<and> same_update r2 r'"
      if "upload_inv base (w @ get_bytes copied n p) m0 r2" for r2
      by (rule less.hyps) (use that c less.prems gl in auto)
    show ?thesis
    proof (cases "dataIndex r1 = 1024")
      case False
      then have "upload_inv base (w @ get_bytes copied n p) m0 r1" using s w u by (auto simp: upload_inv_def)
      from IH [OF this] show ?thesis using True False di c(1) u(1) cat
        by (subst extTftpWrite_loop.simps) (auto simp: same_update_def)
    next
      case full: True
      have room: "base + length v + 1024 < 16777216"
        using arg_cong [OF w, of length] full gl less.prems(2) c(4) flash_stream_len [OF s(2)] by simp
      obtain r2 where r2: "extTftpWriteData e 1024 r1 = (1024, r2)" "flash_stream base (v @ take 1024 (bufWrite (board_of r1))) m0 (board_of r2)"
          "fu_size r2 = length v + 1024" "leftBytesWrite (extSpiFlash (board_of r2)) = 1024 mod PAGE_SIZE" "dataIndex r2 = dataIndex r1" "same_update r1 r2"
        by (rule writeData_ok [OF assms(1,2) s(2,1,3) order_refl room])
      have "upload_inv base (w @ get_bytes copied n p) m0 (r2\<lparr>dataIndex := 0\<rparr>)"
        using r2 w full flash_stream_len [OF s(2)] by (auto simp: upload_inv_def)
      from IH [OF this] show ?thesis using True full di c(1) u(1) cat r2
        by (subst extTftpWrite_loop.simps) (auto simp: same_update_def)
    qed
  qed
qed


lemma tftpOpen_ok:
  assumes "nor_ok e" "bus_ok e" "length (bufWrite (board_of r)) = RW_BUFFER_SIZE" "\<not> memFault (board_of r)"
  shows "upload_inv (updateSector (fu_type (extTftpOpen e fname r)) * 65536) [] (mem (board_of r)) (extTftpOpen e fname r)"
    "fu_type (extTftpOpen e fname r) = (if is_string_equal fname (ascii ''firmOs'') then EXT_FM_TYPE_RTOS else EXT_FM_TYPE_FPGA)"
    "cfgSaved (extTftpOpen e fname r) = cfgSaved r"
proof -
  have "updateSector t < 256" for t by (simp add: updateSector_def)
  then show "upload_inv (updateSector (fu_type (extTftpOpen e fname r)) * 65536) [] (mem (board_of r)) (extTftpOpen e fname r)"
    using flashInit_ok [OF assms(1,2) _ assms(3,4)] assms(3)
    by (auto simp: extTftpOpen_def firmwareUpdateInit_def Let_def upload_inv_def clearUpdate_def)
qed (simp_all add: extTftpOpen_def firmwareUpdateInit_def Let_def clearUpdate_def)

lemma updateEnd_ok:
  assumes "nor_ok e" "bus_ok e" "flash_stream base w m0 (board_of r)" "base + length w + 256 < 16777216" "fu_size r = length w"
    "fu_type r = EXT_FM_TYPE_RTOS \<or> fu_type r = EXT_FM_TYPE_FPGA"
  shows "image_at base w m0 (mem (board_of (firmwareUpdateEnd e r)))" "cfgSaved (firmwareUpdateEnd e r) = cfgSaved r @ [(fu_type r, length w)]"
    "\<not> memFault (board_of (firmwareUpdateEnd e r))" "length (bufWrite (board_of (firmwareUpdateEnd e r))) = RW_BUFFER_SIZE" "mcast (firmwareUpdateEnd e r)"
    "fu_type (firmwareUpdateEnd e r) = fu_type r" "fu_size (firmwareUpdateEnd e r) = length w"
  using flashFlush_ok [OF assms(1-4)] assms(5,6) flash_stream_len [OF assms(3)] assms(3)
  by (auto simp: firmwareUpdateEnd_def Let_def bspCfgSave_def flash_stream_def pending_stream_def)

lemma tftpClose_ok:
  assumes "nor_ok e" "bus_ok e" "upload_inv base w m0 r" "base + length w + 256 < 16777216"
    "fu_type r = EXT_FM_TYPE_RTOS \<or> fu_type r = EXT_FM_TYPE_FPGA"
  defines "r' \<equiv> extTftpClose e r"
  shows "image_at base w m0 (mem (board_of r')) \<and> cfgSaved r' = cfgSaved r @ [(fu_type r, length w)] \<and> \<not> memFault (board_of r') \<and>
    length (bufWrite (board_of r')) = RW_BUFFER_SIZE \<and> mcast r' \<and> fu_type r' = fu_type r \<and> fu_size r' = length w"
proof -
  from assms(3) obtain v where v: "flash_stream base v m0 (board_of r)" "fu_size r = length v" "w = v @ take (dataIndex r) (bufWrite (board_of r))"
    and d: "dataIndex r \<le> 1024" "leftBytesWrite (extSpiFlash (board_of r)) = 0" by (auto simp: upload_inv_def)
  show ?thesis
  proof (cases "dataIndex r = 0")
    case True
    then show ?thesis using updateEnd_ok [OF assms(1,2) v(1)] v assms(4,5) unfolding r'_def extTftpClose_def by simp
  next
    case False
    have len: "length w = length v + dataIndex r" using v(3) flash_stream_len [OF v(1)] d(1) by simp
    then have room: "base + length v + dataIndex r < 16777216" using assms(4) by simp
    obtain r1 where r1: "extTftpWriteData e (dataIndex r) r = (dataIndex r, r1)" "flash_stream base (v @ take (dataIndex r) (bufWrite (board_of r))) m0 (board_of r1)"
        "fu_size r1 = length v + dataIndex r" "same_update r r1"
      by (rule writeData_ok [OF assms(1,2) v(1) d(2) v(2) d(1) room])
    then have s: "flash_stream base w m0 (board_of r1)" "fu_size r1 = length w" using v(3) len by simp_all
    have "r' = firmwareUpdateEnd e r1" using r1(1) False by (simp add: r'_def extTftpClose_def)
    then show ?thesis using updateEnd_ok [OF assms(1,2) s(1) assms(4) s(2)] r1(4) assms(5) by (simp add: same_update_def)
  qed
qed

interpretation upload: byte_sink "\<lambda>w r. nor_ok e \<and> bus_ok e \<and> upload_inv base w m0 r \<and> fu_type r = ty \<and> cfgSaved r = cs" "extTftpWrite e"
    65536 "16777216 - base" "\<lambda>_. 0" for e base m0 ty cs
proof
  fix w r and d :: bytes
  assume a: "nor_ok e \<and> bus_ok e \<and> upload_inv base w m0 r \<and> fu_type r = ty \<and> cfgSaved r = cs" "length w + length d < 16777216 - base"
  have "base + length w + (length d - 0) < 16777216" using a(2) by linarith
  then obtain r' where "extTftpWrite_loop e d 0 r = (0, r')" "upload_inv base (w @ d) m0 r'" "same_update r r'"
    using tftpWrite_ok [of e base w m0 r d 0] a by auto
  then show "fst (extTftpWrite e d r) = 0 \<and> nor_ok e \<and> bus_ok e \<and> upload_inv base (w @ d) m0 (snd (extTftpWrite e d r)) \<and>
      fu_type (snd (extTftpWrite e d r)) = ty \<and> cfgSaved (snd (extTftpWrite e d r)) = cs"
    using a by (simp add: extTftpWrite_def same_update_def)
qed

subsection \<open>The RTOS image at boot\<close>

lemma flashRead_ok:
  assumes "nor_ok e" "bus_ok e" "startAddress (extSpiFlash b) + offsetRead (extSpiFlash b) + n \<le> 16777216" "0 < n"
  shows "bspSpiFlashRead e n b =
    (int n, map (mem b) [startAddress (extSpiFlash b) + offsetRead (extSpiFlash b)..<startAddress (extSpiFlash b) + offsetRead (extSpiFlash b) + n],
     b\<lparr>packets := packets b + 2, extSpiFlash := (extSpiFlash b)\<lparr>offsetRead := offsetRead (extSpiFlash b) + n\<rparr>\<rparr>)"
  using read_ok [OF assms, of b] by (simp add: bspSpiFlashRead_def)

lemma bootRtos_ok:
  assumes "nor_ok e" "bus_ok e" "\<forall>pg c. efc_program efc pg c" "a + imageSize + 1024 \<le> 16777216"
    and "startAddress (extSpiFlash b) = a" "offsetRead (extSpiFlash b) = tot" "length (bufRead b) = RW_BUFFER_SIZE"
    and "tot < imageSize + 1024" "imageSize + 1024 \<le> tot + fuel * 1024"
    and "concat (map snd out) = map (mem b) [a..<a + tot]" "map fst out = map (\<lambda>k. page + 2 * k) [0..<tot div 1024]" "tot mod 1024 = 0"
  shows "\<exists>n out' b'. bootRtos fuel e efc imageSize (page + 2 * (tot div 1024)) tot out b = Some (n, out', b') \<and> imageSize \<le> n \<and>
    concat (map snd out') = map (mem b) [a..<a + n] \<and> map fst out' = map (\<lambda>k. page + 2 * k) [0..<n div 1024] \<and> mem b' = mem b"
  using assms(5-)
proof (induction fuel arbitrary: tot out b)
  case 0
  then show ?case by simp
next
  case (Suc fuel)
  show ?case
  proof (cases "tot < imageSize")
    case False
    then show ?thesis using Suc.prems by auto
  next
    case True
    let ?d = "map (mem b) [a + tot..<a + tot + 1024]"
    let ?b2 = "b\<lparr>packets := packets b + 2, extSpiFlash := (extSpiFlash b)\<lparr>offsetRead := tot + 1024\<rparr>, bufRead := put_bytes 0 ?d (bufRead b)\<rparr>"
    have rd: "bspSpiFlashRead e 1024 b = (1024, ?d, b\<lparr>packets := packets b + 2, extSpiFlash := (extSpiFlash b)\<lparr>offsetRead := tot + 1024\<rparr>\<rparr>)"
      using flashRead_ok [OF assms(1,2), of b 1024] Suc.prems(1,2) True assms(4) by simp
    have buf: "put_bytes 0 ?d (bufRead b) = ?d" using take_put [of 0 ?d "bufRead b"] Suc.prems(3) by simp
    have dv: "(tot + 1024) div 1024 = tot div 1024 + 1" by simp
    have step: "bootRtos (Suc fuel) e efc imageSize (page + 2 * (tot div 1024)) tot out b =
        bootRtos fuel e efc imageSize (page + 2 * ((tot + 1024) div 1024)) (tot + 1024) (out @ [(page + 2 * (tot div 1024), ?d)]) ?b2"
      using True rd buf assms(3,4) unfolding dv by simp
    have cat: "concat (map snd (out @ [(page + 2 * (tot div 1024), ?d)])) = map (mem ?b2) [a..<a + (tot + 1024)]"
      using Suc.prems(6) upt_add_eq_append [of a "a + tot" 1024] by (simp add: add.assoc)
    have pgs: "map fst (out @ [(page + 2 * (tot div 1024), ?d)]) = map (\<lambda>k. page + 2 * k) [0..<(tot + 1024) div 1024]"
      using Suc.prems(7) unfolding dv by simp
    have IH: "\<exists>n out' b'. bootRtos fuel e efc imageSize (page + 2 * ((tot + 1024) div 1024)) (tot + 1024) (out @ [(page + 2 * (tot div 1024), ?d)]) ?b2 = Some (n, out', b') \<and>
        imageSize \<le> n \<and> concat (map snd out') = map (mem ?b2) [a..<a + n] \<and> map fst out' = map (\<lambda>k. page + 2 * k) [0..<n div 1024] \<and> mem b' = mem ?b2"
      by (rule Suc.IH [OF _ _ _ _ _ cat pgs]) (use Suc.prems True buf in simp_all)
    then show ?thesis unfolding step by simp
  qed
qed


lemma boot_rtos_image:
  assumes "nor_ok e" "bus_ok e" "efc_init efc" "\<forall>pg c. efc_program efc pg c" "fu_type r = EXT_FM_TYPE_RTOS" "fu_size r \<le> 8000000"
    and "length (bufRead (board_of r)) = RW_BUFFER_SIZE" "fu_size r div 1024 + 2 \<le> fuel"
  obtains n out b' where "bootUpdate fuel e efc startPage r = Some (out, bspCfgSave (clearUpdate (setBoard b' r)))" "fu_size r \<le> n"
    "concat (map snd out) = map (mem (board_of r)) [8454144..<8454144 + n]" "map fst out = map (\<lambda>k. startPage + 2 * k) [0..<length out]"
proof -
  let ?b = "bspSpiFlashInit e 0 (129 * 65536) False (board_of r)"
  have b: "startAddress (extSpiFlash ?b) = 8454144" "offsetRead (extSpiFlash ?b) = 0" "length (bufRead ?b) = 1024" "mem ?b = mem (board_of r)"
    using assms(7) by (simp_all add: bspSpiFlashInit_def bspSpiFlashInit_on_def)
  have f: "fu_size r + 1024 \<le> 0 + fuel * 1024"
    using assms(8) div_mult_mod_eq [of "fu_size r" 1024] mod_less_divisor [of 1024 "fu_size r"] by linarith
  have room: "8454144 + fu_size r + 1024 \<le> 16777216" using assms(6) by simp
  obtain n out b' where c: "bootRtos fuel e efc (fu_size r) startPage 0 [] ?b = Some (n, out, b')" "fu_size r \<le> n"
      "concat (map snd out) = map (mem (board_of r)) [8454144..<8454144 + n]" "map fst out = map (\<lambda>k. startPage + 2 * k) [0..<n div 1024]"
    using bootRtos_ok [OF assms(1,2,4) room b(1-3) _ f, of "[]" startPage] b(4) by auto
  have l: "length out = n div 1024" using arg_cong [OF c(4), of length] by simp
  have "bootUpdate fuel e efc startPage r = Some (out, bspCfgSave (clearUpdate (setBoard b' r)))"
    using c(1) assms(3,5) by (simp add: bootUpdate_def bootUpdateRtos_def)
  then show ?thesis using that c(2-4) l by simp
qed

subsection \<open>Properties\<close>

text \<open>
  C16: The boot loader installs an RTOS image. For a requested image of any size in the temporary area,
  on working devices, it ends after at most a round per kilobyte and one more; the bytes given to the
  internal flash are the image, padded to a whole kilobyte, on consecutive pairs of pages from the start
  page on, and the request is cleared in the configuration and in its saved copy, so that the next boot
  installs nothing.
\<close>
theorem boot_installs_rtos:
  assumes "nor_ok e" "bus_ok e" "efc_init efc" "\<forall>pg c. efc_program efc pg c" "fu_type r = EXT_FM_TYPE_RTOS" "fu_size r \<le> 8000000"
    and "length (bufRead (board_of r)) = RW_BUFFER_SIZE" "fu_size r div 1024 + 2 \<le> fuel"
  shows "\<exists>out r'. bootUpdate fuel e efc startPage r = Some (out, r') \<and>
    take (fu_size r) (concat (map snd out)) = map (mem (board_of r)) [8454144..<8454144 + fu_size r] \<and>
    map fst out = map (\<lambda>k. startPage + 2 * k) [0..<length out] \<and>
    fu_type r' = EXT_FM_TYPE_NONE \<and> cfgSaved r' = cfgSaved r @ [(EXT_FM_TYPE_NONE, 0)] \<and>
    bootUpdate fuel e efc startPage r' = Some ([], r')"
proof -
  obtain n out b' where c: "bootUpdate fuel e efc startPage r = Some (out, bspCfgSave (clearUpdate (setBoard b' r)))" "fu_size r \<le> n"
      "concat (map snd out) = map (mem (board_of r)) [8454144..<8454144 + n]" "map fst out = map (\<lambda>k. startPage + 2 * k) [0..<length out]"
    using boot_rtos_image [OF assms] by blast
  let ?r = "bspCfgSave (clearUpdate (setBoard b' r))"
  have "take (fu_size r) (concat (map snd out)) = map (mem (board_of r)) [8454144..<8454144 + fu_size r]"
    using c(2) unfolding c(3) by (simp add: take_map)
  moreover have "fu_type ?r = EXT_FM_TYPE_NONE" "cfgSaved ?r = cfgSaved r @ [(EXT_FM_TYPE_NONE, 0)]"
    by (simp_all add: bspCfgSave_def clearUpdate_def)
  ultimately show ?thesis using c(1,4) by (auto simp: bootUpdate_def)
qed

definition cfg_zero :: EXT_RUNTIME_CFG where
  "cfg_zero = \<lparr>board_of = board_zero, fu_type = EXT_FM_TYPE_NONE, fu_isWrite = False, fu_size = 0, mcast = True, cfgSaved = [], dataIndex = 0\<rparr>"

theorem boot_installs_rtos_witness:
  "\<exists>out r'. bootUpdate 4 nor_example \<lparr>efc_init = True, efc_program = (\<lambda>_ _. True)\<rparr> 128 (cfg_zero\<lparr>fu_type := EXT_FM_TYPE_RTOS, fu_size := 2000\<rparr>) = Some (out, r') \<and>
     length (take 2000 (concat (map snd out))) = 2000 \<and> fu_type r' = EXT_FM_TYPE_NONE"
proof -
  let ?r = "cfg_zero\<lparr>fu_type := EXT_FM_TYPE_RTOS, fu_size := 2000\<rparr>"
  obtain out r' where "bootUpdate 4 nor_example \<lparr>efc_init = True, efc_program = (\<lambda>_ _. True)\<rparr> 128 ?r = Some (out, r')"
      "take 2000 (concat (map snd out)) = map (mem (board_of ?r)) [8454144..<8454144 + 2000]" "fu_type r' = EXT_FM_TYPE_NONE"
    using boot_installs_rtos [OF nor_example_ok, of "\<lparr>efc_init = True, efc_program = (\<lambda>_ _. True)\<rparr>" ?r 4 128] by (auto simp: cfg_zero_def)
  moreover from this(2) have "length (take 2000 (concat (map snd out))) = 2000" by (simp only: length_map length_upt)
  ultimately show ?thesis by blast
qed

end
