(* ===== verification/TftpServer.thy ===== *)
theory TftpServer
  imports FirmUpload
begin

text \<open>
  The TFTP server of \<^verbatim>\<open>src/supports/lwip/lwip/src/exts/misc/tftpServer.c\<close> on the raw UDP interface, by which firmware
  images are sent to the board. Its file system is a table of functions, \<open>struct tftp_context\<close>; the one
  in use is \<open>extTftp\<close> of \<^verbatim>\<open>exts/cmn/cmnUploadFile.c\<close>, which stores an image in the flash.
  The lemmas follow a write transfer block by block on any file system that keeps its contract, and
  then on \<open>extTftp\<close>.
\<close>

subsection \<open>State\<close>

text \<open>
  \<open>ctx_cancel\<close> is the macro \<open>CANCEL_UPDATE\<close> on the configuration behind the context. The buffer passed to
  \<open>ctx_read\<close> is the one the block is read into.
\<close>

record 's tftp_context =
  ctx_open :: "bytes \<Rightarrow> bytes \<Rightarrow> bool \<Rightarrow> 's \<Rightarrow> bool \<times> 's"
  ctx_close :: "'s \<Rightarrow> 's"
  ctx_read :: "bytes \<Rightarrow> 's \<Rightarrow> int \<times> bytes \<times> 's"
  ctx_write :: "bytes \<Rightarrow> 's \<Rightarrow> int \<times> 's"
  ctx_cancel :: "'s \<Rightarrow> 's"

definition extTftp :: "board_env \<Rightarrow> EXT_RUNTIME_CFG tftp_context" where
  "extTftp e =
     \<lparr>ctx_open = (\<lambda>fname mode isWrite r. (True, extTftpOpen e fname r)),
      ctx_close = extTftpClose e,
      ctx_read = (\<lambda>buf r. (extTftpRead r, buf, r)),
      ctx_write = extTftpWrite e,
      ctx_cancel = clearUpdate\<rparr>"

text \<open>
  \<open>fs\<close> is the state behind the context. Ghosts: the packets sent, the pending timeouts of the server, the
  number of allocations, and a fault for a read behind the end of a packet.
\<close>

record 's tftp_state =
  fs :: 's
  t_handle :: bool
  last_data :: "bytes option"
  t_addr :: u32w
  t_port :: u16
  t_timer :: int
  t_last_pkt :: int
  t_blknum :: u16
  t_retries :: nat
  t_mode_write :: bool
  t_sent :: "(u32w \<times> u16 \<times> bytes) list"
  t_timeouts :: nat
  t_calls :: nat
  t_fault :: bool

record tftp_env =
  tx_alloc :: "nat \<Rightarrow> bool"
  tx_junk :: "nat \<Rightarrow> bytes"

abbreviation (input) ACCESS_VIOLATION :: u16 where "ACCESS_VIOLATION \<equiv> 2"

definition be16 :: "u16 \<Rightarrow> bytes" where
  "be16 w = [ucast (drop_bit 8 w), ucast w]"

definition ntohs :: "bytes \<Rightarrow> nat \<Rightarrow> u16" where
  "ntohs p i = push_bit 8 (ucast (p ! i)) OR ucast (p ! (i + 1))"

subsection \<open>Sending\<close>

definition tftpCloseHandle :: "'s tftp_context \<Rightarrow> 's tftp_state \<Rightarrow> 's tftp_state" where
  "tftpCloseHandle ctx s =
     (let s1 = s\<lparr>t_port := 0, t_addr := 0, last_data := None, t_timeouts := t_timeouts s - 1\<rparr>
      in if t_handle s1 then s1\<lparr>fs := ctx_close ctx (fs s1), t_handle := False\<rparr> else s1)"

definition sendPacket :: "tftp_env \<Rightarrow> u32w \<Rightarrow> u16 \<Rightarrow> bytes \<Rightarrow> 's tftp_state \<Rightarrow> 's tftp_state" where
  "sendPacket v addr port pkt s =
     (let s1 = s\<lparr>t_calls := t_calls s + 1\<rparr>
      in if tx_alloc v (t_calls s) then s1\<lparr>t_sent := t_sent s1 @ [(addr, port, pkt)]\<rparr> else s1)"

definition tftpSendError :: "tftp_env \<Rightarrow> u32w \<Rightarrow> u16 \<Rightarrow> u16 \<Rightarrow> string \<Rightarrow> 's tftp_state \<Rightarrow> 's tftp_state" where
  "tftpSendError v addr port code str s = sendPacket v addr port (be16 5 @ be16 code @ ascii str @ [0]) s"

definition tftpSendAck :: "tftp_env \<Rightarrow> u16 \<Rightarrow> 's tftp_state \<Rightarrow> 's tftp_state" where
  "tftpSendAck v blknum s = sendPacket v (t_addr s) (t_port s) (be16 4 @ be16 blknum) s"

definition tftpResendData :: "tftp_env \<Rightarrow> 's tftp_state \<Rightarrow> 's tftp_state" where
  "tftpResendData v s =
     (case last_data s of
        None \<Rightarrow> s\<lparr>t_fault := True\<rparr>
      | Some d \<Rightarrow> sendPacket v (t_addr s) (t_port s) d s)"

definition tftpSendData :: "tftp_env \<Rightarrow> 's tftp_context \<Rightarrow> 's tftp_state \<Rightarrow> 's tftp_state" where
  "tftpSendData v ctx s =
     (let s1 = s\<lparr>last_data := None, t_calls := t_calls s + 1\<rparr> in
      if \<not> tx_alloc v (t_calls s) then s1
      else let hdr = be16 3 @ be16 (t_blknum s1);
               (ret, buf, f) = ctx_read ctx (take 512 (tx_junk v (t_calls s))) (fs s1);
               s2 = s1\<lparr>last_data := Some (hdr @ buf), fs := f\<rparr>
           in if ret < 0
              then tftpCloseHandle ctx (tftpSendError v (t_addr s2) (t_port s2) ACCESS_VIOLATION ''Error occured while reading the file.'' s2)
              else tftpResendData v (s2\<lparr>last_data := Some (hdr @ take (nat ret) buf)\<rparr>))"

subsection \<open>Timer\<close>

definition tftpTmr :: "tftp_env \<Rightarrow> 's tftp_context \<Rightarrow> 's tftp_state \<Rightarrow> 's tftp_state" where
  "tftpTmr v ctx s =
     (let s1 = s\<lparr>t_timer := s32 (t_timer s + 1)\<rparr> in
      if \<not> t_handle s1 then s1
      else let s2 = s1\<lparr>t_timeouts := t_timeouts s1 + 1\<rparr> in
        if s32 (t_timer s2 - t_last_pkt s2) > 200
        then (if last_data s2 \<noteq> None \<and> t_retries s2 < 5
              then let s3 = tftpResendData v s2 in s3\<lparr>t_retries := t_retries s3 + 1\<rparr>
              else tftpCloseHandle ctx (s2\<lparr>fs := ctx_cancel ctx (fs s2)\<rparr>))
        else s2)"

subsection \<open>Receiving\<close>

definition memfind0 :: "bytes \<Rightarrow> nat \<Rightarrow> nat" where
  "memfind0 p start =
     (if length p \<ge> 1 + start
      then (case find (\<lambda>i. p ! i = 0) [start..<length p] of Some i \<Rightarrow> i | None \<Rightarrow> 65535)
      else 65535)"

definition recvRequest :: "tftp_env \<Rightarrow> 's tftp_context \<Rightarrow> bool \<Rightarrow> bytes \<Rightarrow> u32w \<Rightarrow> u16 \<Rightarrow> 's tftp_state \<Rightarrow> 's tftp_state" where
  "recvRequest v ctx wrq p addr port s =
     (if t_handle s then tftpSendError v addr port ACCESS_VIOLATION ''Only one connection at a time is supported'' s
      else let s1 = s\<lparr>t_timeouts := t_timeouts s + 1\<rparr>;
               fe = memfind0 p 2
           in if fe - 2 > 20 then tftpSendError v addr port ACCESS_VIOLATION ''Filename too long/not NULL terminated'' s1
              else let filename = put_bytes 0 (get_bytes 2 (fe - 2) p) (replicate 20 0);
                       me = memfind0 p (fe + 1)
                   in if me - fe > 10 then tftpSendError v addr port ACCESS_VIOLATION ''Mode too long/not NULL terminated'' s1
                      else let mode = get_bytes (fe + 1) (me - fe) p;
                               (ok, f) = ctx_open ctx filename mode wrq (fs s1);
                               s2 = s1\<lparr>t_handle := ok, fs := f, t_blknum := 1\<rparr>
                           in if \<not> ok then tftpSendError v addr port 1 ''Unable to open requested file.'' s2
                              else let s3 = s2\<lparr>t_addr := addr, t_port := port\<rparr>
                                   in if wrq then tftpSendAck v 0 (s3\<lparr>t_mode_write := True, t_blknum := 0\<rparr>)
                                      else tftpSendData v ctx (s3\<lparr>t_mode_write := False\<rparr>))"

text \<open>The sum of the block number and one is computed in \<open>int\<close>, without wrap-around.\<close>

definition recvData :: "tftp_env \<Rightarrow> 's tftp_context \<Rightarrow> bytes \<Rightarrow> u32w \<Rightarrow> u16 \<Rightarrow> 's tftp_state \<Rightarrow> 's tftp_state" where
  "recvData v ctx p addr port s =
     (if \<not> t_handle s then tftpSendError v addr port ACCESS_VIOLATION ''No connection'' s
      else if \<not> t_mode_write s then tftpSendError v addr port ACCESS_VIOLATION ''Not a write connection'' s
      else let s = s\<lparr>t_fault := (t_fault s \<or> length p < 4)\<rparr>; blknum = ntohs p 2; p = drop 4 p in
        if blknum = t_blknum s then tftpSendAck v blknum s
        else if unat blknum \<noteq> unat (t_blknum s) + 1
        then tftpCloseHandle ctx (tftpSendError v addr port ACCESS_VIOLATION ''error writing file'' s)
        else let (ret, f) = ctx_write ctx p (fs s);
                 s2 = s\<lparr>t_blknum := blknum, fs := f\<rparr>;
                 s3 = (if ret < 0
                       then tftpCloseHandle ctx (tftpSendError v addr port ACCESS_VIOLATION ''error writing file'' s2)
                       else tftpSendAck v blknum s2)
             in if length p < 512 then tftpCloseHandle ctx s3 else s3)"

definition recvAck :: "tftp_env \<Rightarrow> 's tftp_context \<Rightarrow> bytes \<Rightarrow> u32w \<Rightarrow> u16 \<Rightarrow> 's tftp_state \<Rightarrow> 's tftp_state" where
  "recvAck v ctx p addr port s =
     (if \<not> t_handle s then tftpSendError v addr port ACCESS_VIOLATION ''No connection'' s
      else if t_mode_write s then tftpSendError v addr port ACCESS_VIOLATION ''Not a read connection'' s
      else let s = s\<lparr>t_fault := (t_fault s \<or> length p < 4)\<rparr> in
        if ntohs p 2 \<noteq> t_blknum s then tftpSendError v addr port 5 ''Wrong block number'' s
        else if (case last_data s of None \<Rightarrow> False | Some d \<Rightarrow> length d \<noteq> 516) then tftpCloseHandle ctx s
        else tftpSendData v ctx (s\<lparr>t_blknum := t_blknum s + 1\<rparr>))"

definition tftpRecv :: "tftp_env \<Rightarrow> 's tftp_context \<Rightarrow> bytes \<Rightarrow> u32w \<Rightarrow> u16 \<Rightarrow> 's tftp_state \<Rightarrow> 's tftp_state" where
  "tftpRecv v ctx p addr port s =
     (if (t_port s \<noteq> 0 \<and> port \<noteq> t_port s) \<or> (t_addr s \<noteq> 0 \<and> t_addr s \<noteq> addr)
      then tftpSendError v addr port ACCESS_VIOLATION ''Only one connection at a time is supported'' s
      else let s1 = s\<lparr>t_last_pkt := t_timer s, t_retries := 0, t_fault := (t_fault s \<or> length p < 2)\<rparr>;
               opcode = ntohs p 0
           in if opcode = 1 then recvRequest v ctx False p addr port s1
              else if opcode = 2 then recvRequest v ctx True p addr port s1
              else if opcode = 3 then recvData v ctx p addr port s1
              else if opcode = 4 then recvAck v ctx p addr port s1
              else tftpSendError v addr port 4 ''Unknown operation'' s1)"

text \<open>\<open>tftp_init\<close>: the two flags tell whether a control block was available and could be bound.\<close>

definition tftp_init :: "bool \<Rightarrow> bool \<Rightarrow> 's tftp_state \<Rightarrow> bool \<times> 's tftp_state" where
  "tftp_init pcb bound s =
     (if \<not> pcb \<or> \<not> bound then (False, s)
      else (True, s\<lparr>t_handle := False, t_port := 0, t_timer := 0, last_data := None\<rparr>))"


subsection \<open>Packets of a client\<close>

definition wrq_packet :: "bytes \<Rightarrow> bytes \<Rightarrow> bytes" where
  "wrq_packet f m = be16 2 @ f @ [0] @ m @ [0]"

definition data_packet :: "u16 \<Rightarrow> bytes \<Rightarrow> bytes" where
  "data_packet k d = be16 3 @ be16 k @ d"

text \<open>The data blocks, numbered from \<open>k\<close> on, received one after the other.\<close>

fun recvBlocks :: "tftp_env \<Rightarrow> 's tftp_context \<Rightarrow> u32w \<Rightarrow> u16 \<Rightarrow> nat \<Rightarrow> bytes list \<Rightarrow> 's tftp_state \<Rightarrow> 's tftp_state" where
  "recvBlocks v ctx addr port k [] s = s"
| "recvBlocks v ctx addr port k (d # ds) s =
     recvBlocks v ctx addr port (k + 1) ds (tftpRecv v ctx (data_packet (of_nat k) d) addr port s)"

lemma ntohs_be16: "ntohs (be16 w @ xs) 0 = w" "ntohs (be16 c @ be16 w @ xs) 2 = w"
proof -
  have "push_bit 8 (ucast (ucast (drop_bit 8 w) :: u8)) OR ucast (ucast w :: u8) = w" for w :: u16
    by (rule bit_word_eqI) (auto simp: bit_simps)
  then show "ntohs (be16 w @ xs) 0 = w" "ntohs (be16 c @ be16 w @ xs) 2 = w"
    by (simp_all add: ntohs_def be16_def numeral_2_eq_2)
qed

lemma memfind0_at:
  assumes "start \<le> n" "n < length p" "p ! n = 0" "\<forall>i. start \<le> i \<and> i < n \<longrightarrow> p ! i \<noteq> 0"
  shows "memfind0 p start = n"
proof -
  have "find (\<lambda>i. p ! i = 0) [start..<length p] = Some n"
    unfolding find_Some_iff using assms by (intro exI [of _ "n - start"]) auto
  then show ?thesis using assms by (simp add: memfind0_def)
qed

lemma wrq_offsets:
  assumes "0 \<notin> set f" "0 \<notin> set m"
  shows "memfind0 (wrq_packet f m) 2 = length f + 2" "memfind0 (wrq_packet f m) (length f + 3) = length f + length m + 3"
    "get_bytes 2 (length f) (wrq_packet f m) = f"
proof -
  let ?p = "wrq_packet f m"
  have nf: "?p ! i \<noteq> 0" if "2 \<le> i" "i < length f + 2" for i
    using that assms(1) by (auto simp: wrq_packet_def be16_def nth_append nth_Cons' in_set_conv_nth)
  have nm: "?p ! i \<noteq> 0" if "length f + 3 \<le> i" "i < length f + length m + 3" for i
    using that assms(2) by (auto simp: wrq_packet_def be16_def nth_append nth_Cons' in_set_conv_nth)
  show "memfind0 ?p 2 = length f + 2"
    by (rule memfind0_at) (use nf in \<open>auto simp: wrq_packet_def be16_def nth_append\<close>)
  show "memfind0 ?p (length f + 3) = length f + length m + 3"
    by (rule memfind0_at) (use nm in \<open>auto simp: wrq_packet_def be16_def nth_append nth_Cons'\<close>)
  show "get_bytes 2 (length f) ?p = f" by (simp add: wrq_packet_def be16_def get_bytes_def numeral_2_eq_2)
qed

lemma put_prefix: "length xs \<le> n \<Longrightarrow> put_bytes 0 xs (replicate n x) = xs @ replicate (n - length xs) x"
  by (rule nth_equalityI) (auto simp: nth_put_bytes nth_append)

lemma sendPacket_simps [simp]:
  "fs (sendPacket v a q d s) = fs s" "t_handle (sendPacket v a q d s) = t_handle s" "t_mode_write (sendPacket v a q d s) = t_mode_write s"
  "t_addr (sendPacket v a q d s) = t_addr s" "t_port (sendPacket v a q d s) = t_port s" "t_blknum (sendPacket v a q d s) = t_blknum s"
  "t_fault (sendPacket v a q d s) = t_fault s" "last_data (sendPacket v a q d s) = last_data s" "t_timeouts (sendPacket v a q d s) = t_timeouts s"
  "t_timer (sendPacket v a q d s) = t_timer s" "t_last_pkt (sendPacket v a q d s) = t_last_pkt s" "t_retries (sendPacket v a q d s) = t_retries s"
  by (simp_all add: sendPacket_def Let_def)

lemma sendPacket_sent: "\<forall>n. tx_alloc v n \<Longrightarrow> t_sent (sendPacket v a q d s) = t_sent s @ [(a, q, d)]"
  by (simp add: sendPacket_def)

lemma close_simps [simp]:
  "\<not> t_handle (tftpCloseHandle ctx s)" "t_addr (tftpCloseHandle ctx s) = 0" "t_port (tftpCloseHandle ctx s) = 0" "last_data (tftpCloseHandle ctx s) = None"
  "t_sent (tftpCloseHandle ctx s) = t_sent s" "t_fault (tftpCloseHandle ctx s) = t_fault s"
  "fs (tftpCloseHandle ctx s) = (if t_handle s then ctx_close ctx (fs s) else fs s)"
  by (simp_all add: tftpCloseHandle_def Let_def)

subsection \<open>The contract of a file system\<close>

text \<open>A connection that has written \<open>w\<close> to the file \<open>f\<close> in \<open>k\<close> blocks.\<close>

definition writing :: "(bytes \<Rightarrow> bytes \<Rightarrow> 's \<Rightarrow> bool) \<Rightarrow> bytes \<Rightarrow> bytes \<Rightarrow> nat \<Rightarrow> u32w \<Rightarrow> u16 \<Rightarrow> 's tftp_state \<Rightarrow> bool" where
  "writing opened f w k addr port s \<longleftrightarrow>
     t_handle s \<and> t_mode_write s \<and> t_addr s = addr \<and> t_port s = port \<and> t_blknum s = of_nat k \<and> opened f w (fs s) \<and> \<not> t_fault s"

locale tftp_storage =
  fixes ctx :: "'s tftp_context" and ready :: "'s \<Rightarrow> bool" and opened stored :: "bytes \<Rightarrow> bytes \<Rightarrow> 's \<Rightarrow> bool" and room :: nat
  assumes open_law: "ready r \<Longrightarrow> fst (ctx_open ctx f m True r) \<and> opened f [] (snd (ctx_open ctx f m True r))"
    and write_law: "opened f w r \<Longrightarrow> length d \<le> 512 \<Longrightarrow> length w + length d < room \<Longrightarrow>
      fst (ctx_write ctx d r) \<ge> 0 \<and> opened f (w @ d) (snd (ctx_write ctx d r))"
    and close_law: "opened f w r \<Longrightarrow> length w < room \<Longrightarrow> stored f w (ctx_close ctx r)"
begin

lemma request:
  fixes v :: tftp_env and addr :: u32w and port :: u16
  assumes "ready (fs s)" "\<not> t_handle s" "t_addr s = 0" "t_port s = 0" "\<not> t_fault s" "0 \<notin> set f" "0 \<notin> set m" "length f \<le> 20" "length m \<le> 9"
  defines "s' \<equiv> tftpRecv v ctx (wrq_packet f m) addr port s"
  shows "writing opened (f @ replicate (20 - length f) 0) [] 0 addr port s'"
    "\<forall>n. tx_alloc v n \<Longrightarrow> t_sent s' = t_sent s @ [(addr, port, be16 4 @ be16 0)]"
proof -
  let ?s = "s\<lparr>t_last_pkt := t_timer s, t_retries := 0, t_fault := False\<rparr>"
  have "ntohs (wrq_packet f m) 0 = 2" "2 \<le> length (wrq_packet f m)"
    using ntohs_be16(1) [of 2 "f @ [0] @ m @ [0]"] by (simp_all add: wrq_packet_def be16_def)
  then have r: "s' = recvRequest v ctx True (wrq_packet f m) addr port ?s" using assms by (simp add: s'_def tftpRecv_def Let_def)
  note o = wrq_offsets [OF assms(6,7)]
  let ?fn = "f @ replicate (20 - length f) 0"
  let ?m = "get_bytes (length f + 3) (length m + 1) (wrq_packet f m)"
  have "s' = tftpSendAck v 0 (?s\<lparr>t_timeouts := t_timeouts s + 1, t_handle := True, fs := snd (ctx_open ctx ?fn ?m True (fs s)),
      t_addr := addr, t_port := port, t_mode_write := True, t_blknum := 0\<rparr>)"
    unfolding r recvRequest_def using assms(2,8,9) o open_law [OF assms(1), of ?fn ?m]
    by (simp add: Let_def put_prefix split_beta numeral_3_eq_3)
  then show "writing opened ?fn [] 0 addr port s'" "\<forall>n. tx_alloc v n \<Longrightarrow> t_sent s' = t_sent s @ [(addr, port, be16 4 @ be16 0)]"
    using open_law [OF assms(1), of ?fn ?m] assms(5) by (simp_all add: tftpSendAck_def writing_def sendPacket_sent)
qed

lemma block:
  fixes v :: tftp_env
  assumes "writing opened f w k addr port s" "k + 1 < 65536" "length d \<le> 512" "length w + length d < room"
  defines "s' \<equiv> tftpRecv v ctx (data_packet (of_nat (k + 1)) d) addr port s"
  shows "length d = 512 \<Longrightarrow> writing opened f (w @ d) (k + 1) addr port s'"
    "length d < 512 \<Longrightarrow> stored f (w @ d) (fs s') \<and> \<not> t_handle s' \<and> t_addr s' = 0 \<and> t_port s' = 0 \<and> \<not> t_fault s'"
    "\<forall>n. tx_alloc v n \<Longrightarrow> t_sent s' = t_sent s @ [(addr, port, be16 4 @ be16 (of_nat (k + 1)))]"
proof -
  let ?n = "of_nat (k + 1) :: u16"
  let ?p = "data_packet ?n d"
  have n: "unat ?n = k + 1" "unat (t_blknum s) = k" using assms(1,2) by (simp_all add: writing_def unat_of_nat del: of_nat_Suc of_nat_add)
  have p: "ntohs ?p 0 = 3" "ntohs ?p 2 = ?n" "drop 4 ?p = d" "4 \<le> length ?p"
    using ntohs_be16 [of 3] ntohs_be16(2) [of 3 ?n d] by (simp_all add: data_packet_def be16_def)
  have ne: "?n \<noteq> t_blknum s" using n by (metis n_not_Suc_n Suc_eq_plus1)
  let ?s = "s\<lparr>t_last_pkt := t_timer s, t_retries := 0, t_fault := False\<rparr>"
  from assms(1) have w: "t_handle s" "t_mode_write s" "t_addr s = addr" "t_port s = port" "opened f w (fs s)" "\<not> t_fault s" by (auto simp: writing_def)
  note wl = write_law [OF w(5) assms(3,4)]
  let ?s2 = "tftpSendAck v ?n (?s\<lparr>t_blknum := ?n, fs := snd (ctx_write ctx d (fs s))\<rparr>)"
  have "s' = recvData v ctx ?p addr port ?s" using w p by (simp add: s'_def tftpRecv_def)
  also have "\<dots> = (if length d < 512 then tftpCloseHandle ctx ?s2 else ?s2)"
    unfolding recvData_def using w p ne n wl by (simp add: Let_def split_beta del: of_nat_Suc of_nat_add)
  finally have s': "s' = (if length d < 512 then tftpCloseHandle ctx ?s2 else ?s2)" .
  show "writing opened f (w @ d) (k + 1) addr port s'" if "length d = 512"
    using that w wl s' by (simp add: writing_def tftpSendAck_def)
  show "stored f (w @ d) (fs s') \<and> \<not> t_handle s' \<and> t_addr s' = 0 \<and> t_port s' = 0 \<and> \<not> t_fault s'" if "length d < 512"
    using that w wl s' close_law [of f "w @ d"] assms(4) by (simp add: tftpSendAck_def)
  show "t_sent s' = t_sent s @ [(addr, port, be16 4 @ be16 ?n)]" if "\<forall>n. tx_alloc v n"
    using that w s' by (simp add: tftpSendAck_def sendPacket_sent)
qed

lemma transfer:
  assumes "writing opened f w k addr port s" "\<forall>d\<in>set ds. length d = 512" "length l < 512" "k + length ds + 1 < 65536"
    "length w + length (concat ds) + length l < room"
  shows "stored f (w @ concat ds @ l) (fs (recvBlocks v ctx addr port (k + 1) (ds @ [l]) s)) \<and>
    \<not> t_handle (recvBlocks v ctx addr port (k + 1) (ds @ [l]) s) \<and> t_addr (recvBlocks v ctx addr port (k + 1) (ds @ [l]) s) = 0 \<and>
    t_port (recvBlocks v ctx addr port (k + 1) (ds @ [l]) s) = 0 \<and> \<not> t_fault (recvBlocks v ctx addr port (k + 1) (ds @ [l]) s) \<and>
    ((\<forall>n. tx_alloc v n) \<longrightarrow> t_sent (recvBlocks v ctx addr port (k + 1) (ds @ [l]) s) =
       t_sent s @ map (\<lambda>j. (addr, port, be16 4 @ be16 (of_nat j))) [k + 1..<k + length ds + 2])"
  using assms
proof (induction ds arbitrary: w k s)
  case Nil
  then show ?case using block [of f w k addr port s l v] by simp
next
  case (Cons d ds)
  let ?s = "tftpRecv v ctx (data_packet (of_nat (k + 1)) d) addr port s"
  have b: "length d \<le> 512" "k + 1 < 65536" "length w + length d < room" using Cons.prems by auto
  note bl = block [OF Cons.prems(1) b(2,1,3), of v]
  have w: "writing opened f (w @ d) (k + 1) addr port ?s" using bl(1) Cons.prems(2) by simp
  have up: "[k + 1..<k + length (d # ds) + 2] = (k + 1) # [(k + 1) + 1..<(k + 1) + length ds + 2]" by (simp add: upt_rec)
  have step: "recvBlocks v ctx addr port (k + 1) ((d # ds) @ [l]) s = recvBlocks v ctx addr port (k + 1 + 1) (ds @ [l]) ?s" by simp
  have IH: "stored f ((w @ d) @ concat ds @ l) (fs (recvBlocks v ctx addr port (k + 1 + 1) (ds @ [l]) ?s)) \<and>
    \<not> t_handle (recvBlocks v ctx addr port (k + 1 + 1) (ds @ [l]) ?s) \<and> t_addr (recvBlocks v ctx addr port (k + 1 + 1) (ds @ [l]) ?s) = 0 \<and>
    t_port (recvBlocks v ctx addr port (k + 1 + 1) (ds @ [l]) ?s) = 0 \<and> \<not> t_fault (recvBlocks v ctx addr port (k + 1 + 1) (ds @ [l]) ?s) \<and>
    ((\<forall>n. tx_alloc v n) \<longrightarrow> t_sent (recvBlocks v ctx addr port (k + 1 + 1) (ds @ [l]) ?s) =
       t_sent ?s @ map (\<lambda>j. (addr, port, be16 4 @ be16 (of_nat j))) [(k + 1) + 1..<(k + 1) + length ds + 2])"
    by (rule Cons.IH [OF w]) (use Cons.prems in auto)
  then show ?case using bl(3) unfolding step up by (simp del: of_nat_Suc of_nat_add upt_Suc recvBlocks.simps)
qed

end

subsection \<open>Firmware in the flash\<close>

definition image_type :: "bytes \<Rightarrow> EXT_FM_T" where
  "image_type f = (if is_string_equal f (ascii ''firmOs'') then EXT_FM_TYPE_RTOS else EXT_FM_TYPE_FPGA)"

lemma image_type_buffer: "0 \<notin> set f \<Longrightarrow> image_type (f @ replicate n 0) = image_type f"
proof -
  assume f: "0 \<notin> set f"
  have "takeWhile (\<lambda>c. c \<noteq> 0) (f @ zs) = f @ takeWhile (\<lambda>c. c \<noteq> 0) zs" for zs
    by (rule takeWhile_append2) (use f in auto)
  from this [of "replicate n 0"] this [of "[]"] have "c_string (f @ replicate n 0) = c_string f"
    by (cases n) (simp_all add: c_string_def del: takeWhile_eq_all_conv)
  then show ?thesis by (simp add: image_type_def is_string_equal_def)
qed

lemma image_type_cases: "image_type f = EXT_FM_TYPE_RTOS \<or> image_type f = EXT_FM_TYPE_FPGA" "updateSector (image_type f) \<le> 144"
  by (simp_all add: image_type_def updateSector_def)

interpretation ext: tftp_storage "extTftp e"
    "\<lambda>r. nor_ok e \<and> bus_ok e \<and> length (bufWrite (board_of r)) = RW_BUFFER_SIZE \<and> \<not> memFault (board_of r) \<and> mem (board_of r) = m0 \<and> cfgSaved r = cs"
    "\<lambda>f w r. nor_ok e \<and> bus_ok e \<and> upload_inv (updateSector (image_type f) * 65536) w m0 r \<and> fu_type r = image_type f \<and> cfgSaved r = cs"
    "\<lambda>f w r. image_at (updateSector (image_type f) * 65536) w m0 (mem (board_of r)) \<and> cfgSaved r = cs @ [(image_type f, length w)] \<and>
       \<not> memFault (board_of r) \<and> length (bufWrite (board_of r)) = RW_BUFFER_SIZE \<and> mcast r \<and> fu_type r = image_type f \<and> fu_size r = length w"
    7339776 for e m0 cs
proof
  fix r :: EXT_RUNTIME_CFG and f m
  assume "nor_ok e \<and> bus_ok e \<and> length (bufWrite (board_of r)) = RW_BUFFER_SIZE \<and> \<not> memFault (board_of r) \<and> mem (board_of r) = m0 \<and> cfgSaved r = cs"
  then show "fst (ctx_open (extTftp e) f m True r) \<and> nor_ok e \<and> bus_ok e \<and>
      upload_inv (updateSector (image_type f) * 65536) [] m0 (snd (ctx_open (extTftp e) f m True r)) \<and>
      fu_type (snd (ctx_open (extTftp e) f m True r)) = image_type f \<and> cfgSaved (snd (ctx_open (extTftp e) f m True r)) = cs"
    using tftpOpen_ok [of e r f] by (auto simp: extTftp_def image_type_def split: if_splits)
next
  fix f w r and d :: bytes
  assume "nor_ok e \<and> bus_ok e \<and> upload_inv (updateSector (image_type f) * 65536) w m0 r \<and> fu_type r = image_type f \<and> cfgSaved r = cs"
    "length d \<le> 512" "length w + length d < 7339776"
  then show "0 \<le> fst (ctx_write (extTftp e) d r) \<and> nor_ok e \<and> bus_ok e \<and>
      upload_inv (updateSector (image_type f) * 65536) (w @ d) m0 (snd (ctx_write (extTftp e) d r)) \<and>
      fu_type (snd (ctx_write (extTftp e) d r)) = image_type f \<and> cfgSaved (snd (ctx_write (extTftp e) d r)) = cs"
    using upload.put_holds [of e "updateSector (image_type f) * 65536" w m0 r "image_type f" cs d] image_type_cases(2) [of f]
    by (simp add: extTftp_def)
next
  fix f w r
  assume "nor_ok e \<and> bus_ok e \<and> upload_inv (updateSector (image_type f) * 65536) w m0 r \<and> fu_type r = image_type f \<and> cfgSaved r = cs" "length w < 7339776"
  then show "image_at (updateSector (image_type f) * 65536) w m0 (mem (board_of (ctx_close (extTftp e) r))) \<and>
      cfgSaved (ctx_close (extTftp e) r) = cs @ [(image_type f, length w)] \<and> \<not> memFault (board_of (ctx_close (extTftp e) r)) \<and>
      length (bufWrite (board_of (ctx_close (extTftp e) r))) = RW_BUFFER_SIZE \<and> mcast (ctx_close (extTftp e) r) \<and>
      fu_type (ctx_close (extTftp e) r) = image_type f \<and> fu_size (ctx_close (extTftp e) r) = length w"
    using tftpClose_ok [of e "updateSector (image_type f) * 65536" w m0 r] image_type_cases [of f] by (simp add: extTftp_def)
qed


subsection \<open>Properties\<close>

definition idle :: "'s tftp_state \<Rightarrow> bool" where
  "idle s \<longleftrightarrow> \<not> t_handle s \<and> t_addr s = 0 \<and> t_port s = 0"

definition board_ready :: "board \<Rightarrow> bool" where
  "board_ready b \<longleftrightarrow> length (bufWrite b) = RW_BUFFER_SIZE \<and> \<not> memFault b"


definition tftp_zero :: "EXT_RUNTIME_CFG tftp_state" where
  "tftp_zero = \<lparr>fs = cfg_zero, t_handle = False, last_data = None, t_addr = 0, t_port = 0, t_timer = 0, t_last_pkt = 0, t_blknum = 0,
     t_retries = 0, t_mode_write = False, t_sent = [], t_timeouts = 0, t_calls = 0, t_fault = False\<rparr>"

definition tx_example :: tftp_env where
  "tx_example = \<lparr>tx_alloc = (\<lambda>_. True), tx_junk = (\<lambda>_. replicate 512 0)\<rparr>"

lemma tftp_zero_simps: "idle tftp_zero" "\<not> t_fault tftp_zero" "board_ready (board_of (fs tftp_zero))"
  by (simp_all add: tftp_zero_def idle_def board_ready_def cfg_zero_def)



text \<open>
  The server as a step system: packets of at least four bytes from anyone, in any order, and expirations
  of its pending timeouts, on any file system.
\<close>

inductive tftp_step :: "tftp_env \<Rightarrow> 's tftp_context \<Rightarrow> 's tftp_state \<Rightarrow> 's tftp_state \<Rightarrow> bool" for v ctx where
  recv: "4 \<le> length p \<Longrightarrow> tftp_step v ctx s (tftpRecv v ctx p addr port s)"
| tick: "0 < t_timeouts s \<Longrightarrow> tftp_step v ctx s (tftpTmr v ctx (s\<lparr>t_timeouts := t_timeouts s - 1\<rparr>))"

inductive_cases tftp_stepE: "tftp_step v ctx s s'"

definition tftp_inv :: "'s tftp_state \<Rightarrow> bool" where
  "tftp_inv s \<longleftrightarrow> (\<not> t_handle s \<longrightarrow> t_addr s = 0 \<and> t_port s = 0 \<and> last_data s = None) \<and>
     (t_handle s \<longrightarrow> 0 < t_timeouts s) \<and> t_retries s \<le> 5 \<and> \<not> t_fault s"

lemma inv_send [simp]: "tftp_inv (sendPacket v a q d s) = tftp_inv s" "tftp_inv (tftpSendError v a q c m s) = tftp_inv s" "tftp_inv (tftpSendAck v k s) = tftp_inv s"
  by (simp_all add: tftp_inv_def tftpSendError_def tftpSendAck_def)

lemma inv_close: "t_retries s \<le> 5 \<Longrightarrow> \<not> t_fault s \<Longrightarrow> tftp_inv (tftpCloseHandle ctx s)"
  by (simp add: tftp_inv_def) (simp add: tftpCloseHandle_def Let_def)

lemma send_retries [simp]:
  "t_retries (tftpSendError v a q c m s) = t_retries s" "t_fault (tftpSendError v a q c m s) = t_fault s"
  "t_retries (tftpSendAck v k s) = t_retries s" "t_fault (tftpSendAck v k s) = t_fault s" "t_retries (tftpCloseHandle ctx s) = t_retries s"
  by (simp_all add: tftpSendError_def tftpSendAck_def tftpCloseHandle_def Let_def)

lemma inv_resend: "tftp_inv s \<Longrightarrow> last_data s \<noteq> None \<Longrightarrow> tftp_inv (tftpResendData v s)"
  by (auto simp: tftpResendData_def)

lemma inv_sendData:
  assumes "t_handle s" "0 < t_timeouts s" "t_retries s \<le> 5" "\<not> t_fault s"
  shows "tftp_inv (tftpSendData v ctx s)"
proof -
  have h: "tftp_inv (s\<lparr>t_calls := n, fs := f, last_data := d\<rparr>)" "tftp_inv (s\<lparr>last_data := d, t_calls := n\<rparr>)" for d n f
    using assms by (simp_all add: tftp_inv_def)
  show ?thesis using assms
    by (auto simp: tftpSendData_def Let_def split_beta h intro!: inv_close inv_resend)
qed

lemma inv_request: "tftp_inv s \<Longrightarrow> tftp_inv (recvRequest v ctx b p addr port s)"
  by (auto simp: recvRequest_def Let_def split_beta intro!: inv_sendData) (auto simp: tftp_inv_def)

lemma inv_data: "tftp_inv s \<Longrightarrow> 4 \<le> length p \<Longrightarrow> tftp_inv (recvData v ctx p addr port s)"
proof -
  assume a: "tftp_inv s" "4 \<le> length p"
  then have "t_retries s \<le> 5" "\<not> t_fault s" "tftp_inv (s\<lparr>t_fault := False\<rparr>)" "\<And>k f. t_handle s \<Longrightarrow> tftp_inv (s\<lparr>t_fault := False, t_blknum := k, fs := f\<rparr>)"
    by (auto simp: tftp_inv_def)
  with a show ?thesis by (auto simp: recvData_def Let_def split_beta intro!: inv_close)
qed

lemma inv_ack: "tftp_inv s \<Longrightarrow> 4 \<le> length p \<Longrightarrow> tftp_inv (recvAck v ctx p addr port s)"
proof -
  assume a: "tftp_inv s" "4 \<le> length p"
  then have "t_retries s \<le> 5" "\<not> t_fault s" "tftp_inv (s\<lparr>t_fault := False\<rparr>)" "t_handle s \<Longrightarrow> 0 < t_timeouts s" by (auto simp: tftp_inv_def)
  with a show ?thesis by (auto simp: recvAck_def Let_def intro!: inv_close inv_sendData)
qed

lemma tftp_inv_step: "tftp_inv s \<Longrightarrow> tftp_step v ctx s s' \<Longrightarrow> tftp_inv s'"
proof (erule tftp_stepE)
  fix p addr port
  assume i: "tftp_inv s" and p: "s' = tftpRecv v ctx p addr port s" "4 \<le> length p"
  have "tftp_inv (s\<lparr>t_last_pkt := t_timer s, t_retries := 0\<rparr>)" using i by (simp add: tftp_inv_def)
  then show "tftp_inv s'" using i p inv_request inv_data inv_ack by (auto simp: tftpRecv_def Let_def)
next
  assume i: "tftp_inv s" and t: "s' = tftpTmr v ctx (s\<lparr>t_timeouts := t_timeouts s - Suc 0\<rparr>)" "0 < t_timeouts s"
  let ?s = "s\<lparr>t_timeouts := t_timeouts s, t_timer := s32 (t_timer s + 1)\<rparr>"
  have h: "tftp_inv ?s" using i by (simp add: tftp_inv_def)
  have "tftp_inv ((tftpResendData v ?s)\<lparr>t_retries := t_retries (tftpResendData v ?s) + 1\<rparr>)" if "last_data s \<noteq> None" "t_retries s < 5"
    using inv_resend [OF h] that by (auto simp: tftp_inv_def tftpResendData_def)
  moreover have "tftp_inv (tftpCloseHandle ctx (?s\<lparr>fs := x\<rparr>))" for x using i by (intro inv_close) (auto simp: tftp_inv_def)
  moreover have "tftp_inv (s\<lparr>t_timeouts := t_timeouts s - 1, t_timer := s32 (t_timer s + 1)\<rparr>)" if "\<not> t_handle s" using that i by (simp add: tftp_inv_def)
  ultimately show "tftp_inv s'" unfolding t(1) tftpTmr_def using h t(2) by (simp add: Let_def)
qed

interpretation server: step_system "\<lambda>s. \<exists>s0. t_addr s0 = 0 \<and> t_retries s0 = 0 \<and> \<not> t_fault s0 \<and> s = snd (tftp_init True True s0)" "tftp_step v ctx" tftp_inv for v ctx
proof
  show "tftp_inv s" if "\<exists>s0. t_addr s0 = 0 \<and> t_retries s0 = 0 \<and> \<not> t_fault s0 \<and> s = snd (tftp_init True True s0)" for s
    using that by (auto simp: tftp_inv_def tftp_init_def)
qed (rule tftp_inv_step)





subsection \<open>Broken transfers\<close>

definition tick :: "tftp_env \<Rightarrow> 's tftp_context \<Rightarrow> 's tftp_state \<Rightarrow> 's tftp_state" where
  "tick v ctx s = tftpTmr v ctx (s\<lparr>t_timeouts := t_timeouts s - 1\<rparr>)"

lemma tick_quiet:
  assumes "t_handle s" "0 < t_timeouts s" "t_timer s = t_last_pkt s + int j" "0 \<le> t_last_pkt s" "t_last_pkt s \<le> 2147483000" "j < 200"
  shows "tick v ctx s = s\<lparr>t_timer := t_timer s + 1\<rparr>"
  using assms by (simp add: tick_def tftpTmr_def Let_def s32_id)

lemma ticks_quiet:
  assumes "t_handle s" "0 < t_timeouts s" "t_timer s = t_last_pkt s" "0 \<le> t_last_pkt s" "t_last_pkt s \<le> 2147483000" "n \<le> 200"
  shows "(tick v ctx ^^ n) s = s\<lparr>t_timer := t_timer s + int n\<rparr>"
  using assms(6)
proof (induction n)
  case (Suc n)
  have "tick v ctx (s\<lparr>t_timer := t_timer s + int n\<rparr>) = (s\<lparr>t_timer := t_timer s + int n\<rparr>)\<lparr>t_timer := t_timer s + int n + 1\<rparr>"
    using tick_quiet [of "s\<lparr>t_timer := t_timer s + int n\<rparr>" n v ctx] assms Suc.prems by simp
  then show ?case using Suc by simp
qed simp

lemma tick_late:
  assumes "t_handle s" "0 < t_timeouts s" "t_timer s - t_last_pkt s \<ge> 200" "0 \<le> t_last_pkt s" "t_timer s \<le> 2147483600"
  shows "\<not> t_handle (tick v ctx s) \<and> fs (tick v ctx s) = ctx_close ctx (ctx_cancel ctx (fs s)) \<or>
    t_retries s < 5 \<and> t_handle (tick v ctx s) \<and> 0 < t_timeouts (tick v ctx s) \<and> t_timer (tick v ctx s) = t_timer s + 1 \<and>
    t_last_pkt (tick v ctx s) = t_last_pkt s \<and> t_retries (tick v ctx s) = t_retries s + 1 \<and> fs (tick v ctx s) = fs s"
proof -
  have "s32 (t_timer s + 1) = t_timer s + 1" "s32 (t_timer s + 1 - t_last_pkt s) = t_timer s + 1 - t_last_pkt s"
    using assms(3-5) by (simp_all add: s32_id)
  then show ?thesis using assms
    by (cases "last_data s") (auto simp: tick_def tftpTmr_def Let_def tftpResendData_def)
qed

lemma ticks_late:
  assumes "t_handle s" "0 < t_timeouts s" "t_timer s - t_last_pkt s \<ge> 200" "0 \<le> t_last_pkt s" "t_timer s \<le> 2147483590 + int (t_retries s)" "t_retries s \<le> 5"
  shows "\<exists>n\<le>6 - t_retries s. \<not> t_handle ((tick v ctx ^^ n) s) \<and> fs ((tick v ctx ^^ n) s) = ctx_close ctx (ctx_cancel ctx (fs s))"
  using assms
proof (induction "5 - t_retries s" arbitrary: s rule: less_induct)
  case less
  have t: "t_timer s \<le> 2147483600" using less.prems(5,6) by simp
  consider "\<not> t_handle (tick v ctx s) \<and> fs (tick v ctx s) = ctx_close ctx (ctx_cancel ctx (fs s))"
    | "t_retries s < 5 \<and> t_handle (tick v ctx s) \<and> 0 < t_timeouts (tick v ctx s) \<and> t_timer (tick v ctx s) = t_timer s + 1 \<and>
      t_last_pkt (tick v ctx s) = t_last_pkt s \<and> t_retries (tick v ctx s) = t_retries s + 1 \<and> fs (tick v ctx s) = fs s"
    using tick_late [OF less.prems(1-4) t] by blast
  then show ?case
  proof cases
    case 1
    then show ?thesis using less.prems(6) by (intro exI [of _ 1]) simp
  next
    case 2
    have m: "5 - t_retries (tick v ctx s) < 5 - t_retries s" using 2 by (intro diff_less_mono2) auto
    obtain n where "n \<le> 6 - t_retries (tick v ctx s)" "\<not> t_handle ((tick v ctx ^^ n) (tick v ctx s))"
        "fs ((tick v ctx ^^ n) (tick v ctx s)) = ctx_close ctx (ctx_cancel ctx (fs (tick v ctx s)))"
      using less.hyps [OF m] 2 less.prems by auto
    then show ?thesis using 2 by (intro exI [of _ "Suc n"]) (auto simp: funpow_swap1)
  qed
qed

text \<open>
  C24: A silent client is disconnected, and its image is not installed. If no packet of the client arrives
  any more, the connection stays open for 200 rounds of the timer and is closed after at most 206, with up
  to five retries in between; the update is cancelled first, so that the saved configuration is not
  written and the boot loader keeps the installed firmware.
\<close>
theorem tftp_timeout_cancels:
  fixes s :: "EXT_RUNTIME_CFG tftp_state"
  assumes "t_handle s" "0 < t_timeouts s" "t_timer s = t_last_pkt s" "0 \<le> t_last_pkt s" "t_last_pkt s \<le> 2147483000" "t_retries s = 0"
  shows "(\<forall>n\<le>200. t_handle ((tick v (extTftp e) ^^ n) s)) \<and>
    (\<exists>n\<le>206. \<not> t_handle ((tick v (extTftp e) ^^ n) s) \<and> cfgSaved (fs ((tick v (extTftp e) ^^ n) s)) = cfgSaved (fs s) \<and>
       fu_type (fs ((tick v (extTftp e) ^^ n) s)) = EXT_FM_TYPE_NONE)"
proof -
  let ?t = "tick v (extTftp e)"
  let ?s = "s\<lparr>t_timer := t_timer s + 200\<rparr>"
  have q: "(?t ^^ n) s = s\<lparr>t_timer := t_timer s + int n\<rparr>" if "n \<le> 200" for n using ticks_quiet [OF assms(1-5) that] .
  obtain n where n: "n \<le> 6" "\<not> t_handle ((?t ^^ n) ?s)" "fs ((?t ^^ n) ?s) = ctx_close (extTftp e) (ctx_cancel (extTftp e) (fs s))"
    using ticks_late [of ?s v "extTftp e"] assms by auto
  have "cfgSaved (extTftpClose e (clearUpdate r)) = cfgSaved r" "fu_type (extTftpClose e (clearUpdate r)) = EXT_FM_TYPE_NONE" for r
    by (auto simp: extTftpClose_def clearUpdate_def firmwareUpdateEnd_def extTftpWriteData_def Let_def split_beta)
  moreover have "(?t ^^ (n + 200)) s = (?t ^^ n) ?s" using q [of 200] by (simp add: funpow_add)
  ultimately have "\<not> t_handle ((?t ^^ (n + 200)) s) \<and> cfgSaved (fs ((?t ^^ (n + 200)) s)) = cfgSaved (fs s) \<and> fu_type (fs ((?t ^^ (n + 200)) s)) = EXT_FM_TYPE_NONE"
    using n by (simp add: extTftp_def)
  moreover have "n + 200 \<le> 206" using n(1) by simp
  moreover have "\<forall>n\<le>200. t_handle ((?t ^^ n) s)" using q assms(1) by simp
  ultimately show ?thesis by blast
qed

theorem tftp_timeout_cancels_witness:
  "\<exists>n\<le>206. \<not> t_handle ((tick tx_example (extTftp nor_example) ^^ n) (tftp_zero\<lparr>t_handle := True, t_timeouts := 1\<rparr>))"
  using tftp_timeout_cancels [of "tftp_zero\<lparr>t_handle := True, t_timeouts := 1\<rparr>" tx_example nor_example] by (auto simp: tftp_zero_def)

text \<open>
  A transfer that is broken by a wrong block number leaves an incomplete image that will be installed.
  When a block arrives that is neither the last one nor the next, the server closes the file, which
  saves the request to install the bytes received so far as if they were the image. The first block after
  block 65535 is such a block, since the code expects number 65536 and not 0.
\<close>
theorem tftp_abort_installs_partial:
  fixes s :: "EXT_RUNTIME_CFG tftp_state" and v :: tftp_env and d :: bytes
  assumes "nor_ok e" "bus_ok e" "t_handle s" "t_mode_write s" "upload_inv base w m0 (fs s)" "base + length w + PAGE_SIZE < 16777216"
    and "fu_type (fs s) = EXT_FM_TYPE_RTOS \<or> fu_type (fs s) = EXT_FM_TYPE_FPGA"
    and "blk \<noteq> t_blknum s" "unat blk \<noteq> unat (t_blknum s) + 1 \<or> t_blknum s = 65535 \<and> blk = t_blknum s + 1"
  defines "s' \<equiv> tftpRecv v (extTftp e) (data_packet blk d) (t_addr s) (t_port s) s"
  shows "\<not> t_handle s' \<and> cfgSaved (fs s') = cfgSaved (fs s) @ [(fu_type (fs s), length w)]"
proof -
  have p: "ntohs (data_packet blk d) 0 = 3" "ntohs (data_packet blk d) 2 = blk"
    using ntohs_be16 [of 3] ntohs_be16(2) [of 3 blk d] by (simp_all add: data_packet_def)
  have b: "unat blk \<noteq> unat (t_blknum s) + 1" using assms(9) by auto
  have "fs s' = extTftpClose e (fs s)" "\<not> t_handle s'"
    using p b assms(3,4,8) by (simp_all add: s'_def tftpRecv_def recvData_def Let_def tftpSendError_def extTftp_def)
  then show ?thesis using tftpClose_ok [OF assms(1,2,5,6,7)] by simp
qed


definition tftp_open_example :: "EXT_RUNTIME_CFG tftp_state" where
  "tftp_open_example = tftp_zero\<lparr>fs := extTftpOpen nor_example [102] cfg_zero, t_handle := True, t_mode_write := True, t_timeouts := 1\<rparr>"

theorem tftp_abort_installs_partial_witness:
  "cfgSaved (fs (tftpRecv tx_example (extTftp nor_example) (data_packet 2 [1, 2, 3]) 0 0 tftp_open_example)) = [(EXT_FM_TYPE_FPGA, 0)]"
proof -
  have c: "length (bufWrite (board_of cfg_zero)) = 1024" "\<not> memFault (board_of cfg_zero)" by (simp_all add: cfg_zero_def)
  note o = tftpOpen_ok [OF nor_example_ok c, of "[102]"]
  have ty: "fu_type (fs tftp_open_example) = EXT_FM_TYPE_FPGA"
    using o(2) by (simp add: tftp_open_example_def is_string_equal_def c_string_def to_lower_def ascii_def)
  have inv: "upload_inv (144 * 65536) [] (mem (board_of cfg_zero)) (fs tftp_open_example)"
    using o(1) ty by (simp add: tftp_open_example_def updateSector_def)
  have s: "t_handle tftp_open_example" "t_mode_write tftp_open_example" "2 \<noteq> t_blknum tftp_open_example"
    "unat (2::u16) \<noteq> unat (t_blknum tftp_open_example) + 1 \<or> t_blknum tftp_open_example = 65535 \<and> 2 = t_blknum tftp_open_example + 1"
    "t_addr tftp_open_example = 0" "t_port tftp_open_example = 0" "cfgSaved (fs tftp_open_example) = []"
    using o(3) by (simp_all add: tftp_open_example_def tftp_zero_def cfg_zero_def)
  show ?thesis using tftp_abort_installs_partial [OF nor_example_ok s(1,2) inv _ _ s(3,4), where v = tx_example and d = "[1, 2, 3]"] ty s(5-7)
    by simp
qed

end
