(* ===== verification/HttpUpload.thy ===== *)
theory HttpUpload
  imports FirmUpload
begin

text \<open>
  Uploads through the web server: \<^verbatim>\<open>src/supports/lwip/lwip/src/exts/http/httpPost.c\<close>, with the search for the length of the
  contents of \<^verbatim>\<open>exts/http/httpRequest.c\<close> and the error reply of \<^verbatim>\<open>exts/nmos/nnmosHttpErrors.c\<close>. A browser sends a
  file as one part of a multipart body; the server collects it in blocks of 3072 bytes, looks for the
  final boundary in each, and gives the blocks to the upload functions of theory \<open>FirmUpload\<close>.
  \<open>LWIP_EXT_NMOS\<close> and the progress bar are switched off in the configuration.
  The lemmas follow the blocks and show for which lengths the image is stored and for which it is not.
\<close>

subsection \<open>State\<close>

datatype upload_status = UPLOAD_INIT | UPLOAD_COPY | UPLOAD_END | UPLOAD_ERROR

datatype req_type = REQ_REST | REQ_FILE | REQ_WEBSOCKET | REQ_CGI | REQ_UPLOAD

text \<open>
  The part of a connection an upload uses. Texts that the code writes with \<open>snprintf\<close> into a buffer of their own are
  the bytes before the terminating zero. A chain of packet buffers is the list of their payloads.
  \<open>uploadCtx\<close> is either null or the table of the upload functions; \<open>runCfg\<close> is what the pointer of that
  name points to. \<open>h_fault\<close> is a ghost: a null pointer was followed or a buffer was left.
\<close>

record MuxHttpConn =
  h_uri :: bytes
  h_boundary :: bytes
  h_filename :: bytes
  uploadStatus :: upload_status
  uploadCtx :: bool
  reqType :: req_type
  h_req :: "bytes list"
  h_data :: bytes
  dataSendIndex :: nat
  contentLength :: nat
  updateProgress :: bytes
  updateIndex :: nat
  updateLength :: nat
  httpStatusCode :: nat
  postDataLeft :: nat
  runCfg :: EXT_RUNTIME_CFG
  h_fault :: bool

abbreviation (input) URI_SIZE :: nat where "URI_SIZE \<equiv> 128"
abbreviation (input) DATA_SIZE :: nat where "DATA_SIZE \<equiv> 3072"
abbreviation (input) ERR_OK :: int where "ERR_OK \<equiv> 0"
abbreviation (input) ERR_INPROGRESS :: int where "ERR_INPROGRESS \<equiv> -5"
abbreviation (input) ERR_ARG :: int where "ERR_ARG \<equiv> -16"

subsection \<open>Strings\<close>

text \<open>\<open>lwip_strnstr\<close> on the first \<open>n\<close> bytes, \<open>memmem\<close> and \<open>strchr\<close>; the results are offsets.\<close>

fun strnstr :: "bytes \<Rightarrow> bytes \<Rightarrow> nat option" where
  "strnstr token [] = None"
| "strnstr token (c # cs) =
     (if c = 0 \<or> length (c # cs) < length token then None
      else if take (length token) (c # cs) = token then Some 0
      else map_option Suc (strnstr token cs))"

definition lwip_strnstr :: "bytes \<Rightarrow> bytes \<Rightarrow> nat \<Rightarrow> nat option" where
  "lwip_strnstr buffer token n = (if token = [] then Some 0 else strnstr token (take n buffer))"

fun memmem :: "bytes \<Rightarrow> bytes \<Rightarrow> nat option" where
  "memmem token [] = (if token = [] then Some 0 else None)"
| "memmem token (c # cs) = (if take (length token) (c # cs) = token then Some 0 else map_option Suc (memmem token cs))"

definition strchr :: "u8 \<Rightarrow> bytes \<Rightarrow> nat option" where
  "strchr c s = (let k = length (takeWhile (\<lambda>x. x \<noteq> c \<and> x \<noteq> 0) s) in if k < length s \<and> s ! k = c then Some k else None)"

text \<open>\<open>snprintf\<close> with the format \<open>%.*s\<close>: a negative precision counts as none.\<close>

definition snprintf_s :: "nat \<Rightarrow> int \<Rightarrow> bytes \<Rightarrow> bytes" where
  "snprintf_s bufsize prec s = take (bufsize - 1) (if prec < 0 then c_string s else take (nat prec) (c_string s))"

text \<open>\<open>%d\<close> of an unsigned value shows it as a signed one.\<close>

definition printf_d :: "nat \<Rightarrow> bytes" where
  "printf_d n = (if n mod 4294967296 < 2147483648 then decimal (n mod 4294967296) else 45 # decimal (4294967296 - n mod 4294967296))"

definition atoi :: "bytes \<Rightarrow> int" where
  "atoi s =
     (let t = dropWhile (\<lambda>c. c = 32 \<or> 9 \<le> c \<and> c \<le> 13) s;
          neg = (t \<noteq> [] \<and> hd t = 45);
          d = takeWhile (\<lambda>c. 48 \<le> c \<and> c \<le> 57) (if t \<noteq> [] \<and> (hd t = 45 \<or> hd t = 43) then tl t else t);
          v = fold (\<lambda>c n. 10 * n + (unat c - 48)) d 0
      in if neg then - int v else int v)"

definition CRLF :: bytes where
  "CRLF = [13, 10]"

subsection \<open>Replies\<close>

text \<open>\<open>extHttpRestError\<close> for the status 400, the only one used here.\<close>

definition extHttpRestError400 :: "bytes \<Rightarrow> MuxHttpConn \<Rightarrow> MuxHttpConn" where
  "extHttpRestError400 debug c =
     (let text = ascii ''{'' @ [34] @ ascii ''code'' @ [34] @ ascii '':400,'' @ [34] @ ascii ''error'' @ [34, 58, 34] @ ascii ''Bad Request'' @ [34, 44, 34]
          @ ascii ''debug'' @ [34, 58, 34] @ debug @ [34] @ ascii ''}''
      in c\<lparr>httpStatusCode := 400, reqType := REQ_REST, h_data := put_bytes 0 (text @ [0]) (h_data c),
           contentLength := length text, dataSendIndex := 0\<rparr>)"

definition httpWebPagePrintHeader :: bytes where
  "httpWebPagePrintHeader = ascii ''HTTP/1.0 200 OK'' @ CRLF @ ascii ''Server: MuxLab/500767'' @ CRLF @ ascii ''Content-type: text/html'' @ CRLF
     @ ascii ''Content-Length: 955 '' @ CRLF @ CRLF"

text \<open>
  A page: the number of bytes of its body is printed over the place holder in the header, with its
  terminating zero, and the length grows by the digits printed there.
\<close>

definition webPage :: "nat \<Rightarrow> bytes \<Rightarrow> nat \<times> bytes" where
  "webPage bufsize body =
     (let hdr = httpWebPagePrintHeader;
          p1 = put_bytes 0 (hdr @ [0]) (replicate bufsize 0);
          p2 = put_bytes (length hdr) (take (bufsize - length hdr - 1) body @ [0]) p1;
          number = decimal (length body);
          p3 = put_bytes (length hdr - 8) (take 4 number @ [0]) p2
      in ((length hdr + length number + length body) mod 65536, p3))"

definition updatePageResult :: "bytes \<Rightarrow> bytes \<Rightarrow> MuxHttpConn \<Rightarrow> MuxHttpConn" where
  "updatePageResult title msg c =
     (let body = ascii ''<DIV class='' @ [34] @ ascii ''title'' @ [34] @ ascii ''><H2>'' @ title @ ascii ''</H2></DIV>Result:'' @ msg
            @ ascii ''. Please reboot system</DIV>'';
          (n, p) = webPage 1024 body
      in c\<lparr>updateProgress := p, updateLength := n, updateIndex := 0, httpStatusCode := 200\<rparr>)"

definition extHttpWebPageResult :: "bytes \<Rightarrow> bytes \<Rightarrow> MuxHttpConn \<Rightarrow> MuxHttpConn" where
  "extHttpWebPageResult title msg c =
     (let body = ascii ''<DIV class='' @ [34] @ ascii ''title'' @ [34] @ ascii ''><H2>'' @ title @ ascii ''</H2></DIV><DIV class='' @ [34]
            @ ascii ''fields-info'' @ [34] @ ascii ''><DIV class='' @ [34] @ ascii ''field'' @ [34] @ ascii ''><LABEL >Result:'' @ msg
            @ ascii ''</LABEL></DIV></DIV>'';
          (n, p) = webPage DATA_SIZE body
      in c\<lparr>h_data := p, contentLength := n, dataSendIndex := 0, httpStatusCode := 200\<rparr>)"

subsection \<open>The body of an upload\<close>

text \<open>The texts left in \<open>uri\<close> for the result page.\<close>

definition uploadedText :: "nat \<Rightarrow> MuxHttpConn \<Rightarrow> bytes" where
  "uploadedText n c = take (URI_SIZE - 1) (printf_d n @ ascii '' bytes uploaded for '' @ [39] @ h_filename c @ [39])"

definition findEndingBoundary :: "MuxHttpConn \<Rightarrow> bool \<times> MuxHttpConn" where
  "findEndingBoundary c =
     (case memmem (h_boundary c) (take (dataSendIndex c) (h_data c)) of
        Some k \<Rightarrow>
          (True, c\<lparr>dataSendIndex := (if 4 \<le> k then k - 4 else k + 65532), uploadStatus := UPLOAD_END,
                   h_uri := uploadedText (fu_size (runCfg c)) c\<rparr>)
      | None \<Rightarrow> (False, c))"

text \<open>
  The call of \<open>uploadCtx->write\<close> with the collected data: \<open>_extUploadWrite\<close> also clears them after it
  has stored them.
\<close>

definition uploadWrite :: "board_env \<Rightarrow> MuxHttpConn \<Rightarrow> nat \<times> MuxHttpConn" where
  "uploadWrite e c =
     (let n = dataSendIndex c;
          (len, r) = extUploadWrite e (take n (h_data c)) (runCfg c)
      in (nat len, c\<lparr>runCfg := r, h_data := (if len = 65535 then h_data c else put_bytes 0 (replicate (min n DATA_SIZE) 0) (h_data c)),
                     h_fault := (h_fault c \<or> n > DATA_SIZE \<or> \<not> uploadCtx c)\<rparr>))"

definition copyPacket :: "bytes \<Rightarrow> nat \<Rightarrow> MuxHttpConn \<Rightarrow> nat \<times> MuxHttpConn" where
  "copyPacket p copied c =
     (let n = min (length p - copied) (DATA_SIZE - dataSendIndex c)
      in (copied + n, c\<lparr>h_data := put_bytes (dataSendIndex c) (get_bytes copied n p) (h_data c), dataSendIndex := dataSendIndex c + n\<rparr>))"

text \<open>
  The loop of \<open>__extHttpPostData\<close>; an index beyond the buffer ends the model of it with the fault recorded.
\<close>

function extHttpPostData :: "board_env \<Rightarrow> bytes \<Rightarrow> nat \<Rightarrow> MuxHttpConn \<Rightarrow> int \<times> MuxHttpConn" where
  "extHttpPostData e p copied c =
     (if copied \<ge> length p then (EXIT_SUCCESS, c)
      else if dataSendIndex c > DATA_SIZE then (EXIT_SUCCESS, c\<lparr>h_fault := True\<rparr>)
      else let (copied1, c1) = copyPacket p copied c in
        if dataSendIndex c1 = DATA_SIZE
        then let c2 = snd (findEndingBoundary c1); (len, c3) = uploadWrite e c2 in
          if len \<noteq> dataSendIndex c3 then (EXIT_FAILURE, c3)
          else extHttpPostData e p copied1 (c3\<lparr>dataSendIndex := 0\<rparr>)
        else extHttpPostData e p copied1 c1)"
  by pat_completeness auto
termination
  by (relation "measure (\<lambda>(e, p, copied, c). 2 * (length p - copied) + (if dataSendIndex c = DATA_SIZE then 1 else 0))")
    (auto simp: copyPacket_def Let_def min_def split: if_splits)

declare extHttpPostData.simps [simp del]

text \<open>\<open>pbuf_header\<close> on the buffer where an offset lies; \<open>None\<close> when the chain ends before.\<close>

fun skipHeader :: "nat \<Rightarrow> bytes list \<Rightarrow> bytes list option" where
  "skipHeader off [] = None"
| "skipHeader off (q # qs) = (if length q \<le> off then skipHeader (off - length q) qs else Some (drop off q # qs))"

text \<open>
  The first packet of a body: the part header, with the file name. A missing closing quote or header
  end makes the code compute with a null pointer.
\<close>

definition uploadBegin :: "board_env \<Rightarrow> bytes list \<Rightarrow> MuxHttpConn \<Rightarrow> int \<times> bytes list \<times> MuxHttpConn" where
  "uploadBegin e p c0 =
     (let len = min (length (concat p)) DATA_SIZE;
          c = c0\<lparr>h_data := put_bytes 0 (take len (concat p)) (h_data c0)\<rparr>
      in case lwip_strnstr (h_data c) (ascii ''filename'') len of
           None \<Rightarrow> (EXIT_FAILURE, p, c\<lparr>uploadStatus := UPLOAD_ERROR\<rparr>)
         | Some k \<Rightarrow>
             (let name = drop (k + 10) (h_data c); q = strchr 34 name;
                  c1 = c\<lparr>h_filename := (case q of Some n \<Rightarrow> snprintf_s URI_SIZE (int n) name | None \<Rightarrow> []), h_fault := (h_fault c \<or> q = None)\<rparr>
              in if h_filename c1 = []
                 then (EXIT_SUCCESS, [],
                       let c2 = c1\<lparr>uploadStatus := UPLOAD_ERROR, h_uri := ascii ''Error: no file is transmitted''\<rparr>
                       in extHttpWebPageResult (ascii ''Upload Firmware'') (h_uri c2) c2)
                 else let c2 = c1\<lparr>uploadStatus := UPLOAD_COPY, runCfg := extUploadOpen e (h_uri c1) (runCfg c1), h_fault := (h_fault c1 \<or> \<not> uploadCtx c1)\<rparr>
                      in case lwip_strnstr (h_data c2) (CRLF @ CRLF) len of
                           None \<Rightarrow> (EXIT_FAILURE, p, c2\<lparr>h_fault := True\<rparr>)
                         | Some h \<Rightarrow>
                             (case skipHeader (h + 4) p of
                                None \<Rightarrow> (EXIT_FAILURE, [], c2\<lparr>h_fault := True\<rparr>)
                              | Some p' \<Rightarrow> (EXIT_SUCCESS, p', c2\<lparr>dataSendIndex := 0\<rparr>))))"

definition extHttpPostDataRecv :: "board_env \<Rightarrow> bytes list \<Rightarrow> MuxHttpConn \<Rightarrow> int \<times> MuxHttpConn" where
  "extHttpPostDataRecv e p c =
     (if uploadStatus c = UPLOAD_INIT
      then let (ret, p', c') = uploadBegin e p c in
        if ret = EXIT_FAILURE then (EXIT_FAILURE, c')
        else if uploadStatus c' = UPLOAD_ERROR then (EXIT_SUCCESS, c')
        else extHttpPostData e (concat p') 0 c'
      else extHttpPostData e (concat p) 0 c)"

definition extHttpPostDataFinished :: "board_env \<Rightarrow> MuxHttpConn \<Rightarrow> MuxHttpConn" where
  "extHttpPostDataFinished e c =
     (if uploadStatus c = UPLOAD_ERROR \<or> uploadStatus c = UPLOAD_END then c
      else let (found, c1) = findEndingBoundary c;
               total = fu_size (runCfg c1) + dataSendIndex c1;
               c2 = (if found then c1\<lparr>h_uri := uploadedText total c1\<rparr>
                     else c1\<lparr>uploadStatus := UPLOAD_ERROR,
                             h_uri := take (URI_SIZE - 1) (ascii ''Error '' @ printf_d total @ ascii '' bytes uploaded for '' @ h_filename c1 @ ascii '', no boundary found'')\<rparr>);
               c3 = snd (uploadWrite e c2);
               r = (if postDataLeft c3 \<noteq> 0 then clearUpdate (runCfg c3) else runCfg c3);
               c4 = c3\<lparr>runCfg := extUploadClose e r, uploadCtx := False\<rparr>
           in updatePageResult (ascii ''Upload Firmware'') (h_uri c4) c4)"

definition extHttpPostRxDataPbuf :: "board_env \<Rightarrow> bytes list \<Rightarrow> MuxHttpConn \<Rightarrow> int \<times> MuxHttpConn" where
  "extHttpPostRxDataPbuf e p c0 =
     (let n = length (concat p);
          c = c0\<lparr>postDataLeft := (if postDataLeft c0 < n then 0 else postDataLeft c0 - n)\<rparr>;
          (ret, c1) = extHttpPostDataRecv e p c
      in if ret \<noteq> EXIT_SUCCESS then (ERR_ARG, c1\<lparr>postDataLeft := 0\<rparr>)
         else if postDataLeft c1 = 0 then (ERR_OK, extHttpPostDataFinished e c1)
         else (ERR_OK, c1))"

subsection \<open>The request\<close>

text \<open>
  \<open>extHttpParseContentLength\<close> on the header up to its end. At most eight characters stand before the line
  end, so that \<open>atoi\<close> cannot overflow.
\<close>

definition extHttpParseContentLength :: "bytes \<Rightarrow> nat \<Rightarrow> MuxHttpConn \<Rightarrow> int \<times> MuxHttpConn" where
  "extHttpParseContentLength data endHeader c =
     (let bad = (-1, extHttpRestError400 (ascii ''Content-Length is wrong'') c)
      in case lwip_strnstr data (ascii ''Content-Length: '') endHeader of
           None \<Rightarrow> bad
         | Some k \<Rightarrow>
             (let num = drop (k + 16) data
              in case lwip_strnstr num CRLF 10 of
                   None \<Rightarrow> bad
                 | Some _ \<Rightarrow>
                     (let v = atoi num; v' = (if v = 0 \<and> \<not> (num ! 0 = 48 \<and> num ! 1 = 13) then -1 else v)
                      in if v' < 0 then bad else (v', c))))"

definition extHttpPostRequest :: "board_env \<Rightarrow> bytes \<Rightarrow> nat \<Rightarrow> MuxHttpConn \<Rightarrow> int \<times> MuxHttpConn" where
  "extHttpPostRequest e data data_len c =
     (case lwip_strnstr data (CRLF @ CRLF) data_len of
        None \<Rightarrow> (ERR_INPROGRESS, c)
      | Some h \<Rightarrow>
          (let (contentLen, c1) = extHttpParseContentLength data h c
           in if contentLen < 0 then (ERR_ARG, c1\<lparr>uploadStatus := UPLOAD_ERROR\<rparr>)
              else case lwip_strnstr data (ascii ''boundary='') h of
                     None \<Rightarrow> (EXIT_FAILURE, c1\<lparr>reqType := REQ_REST\<rparr>)
                   | Some k \<Rightarrow>
                       (let c2 = c1\<lparr>reqType := REQ_UPLOAD\<rparr>
                        in if \<not> is_string_equal (h_uri c2) (ascii ''/mcuUpdate'') \<and> \<not> is_string_equal (h_uri c2) (ascii ''/fpgaUpdate'')
                           then (ERR_ARG, c2\<lparr>uploadStatus := UPLOAD_ERROR\<rparr>)
                           else let b = drop (k + 9) data; eol = strchr 10 b;
                                    c3 = c2\<lparr>uploadCtx := True,
                                            h_boundary := (case eol of Some n \<Rightarrow> snprintf_s URI_SIZE (int n - 1) b | None \<Rightarrow> []),
                                            h_fault := (h_fault c2 \<or> eol = None), postDataLeft := nat contentLen\<rparr>
                                in case skipHeader (min data_len (h + 4)) (h_req c3) of
                                     Some q \<Rightarrow> extHttpPostRxDataPbuf e q c3
                                   | None \<Rightarrow> if postDataLeft c3 = 0 then extHttpPostRxDataPbuf e [[]] c3 else (ERR_OK, c3))))"

subsection \<open>Searching\<close>

lemma memmem_Some:
  "memmem b s = Some k \<Longrightarrow> take (length b) (drop k s) = b \<and> (\<forall>i<k. take (length b) (drop i s) \<noteq> b)"
proof (induction s arbitrary: k)
  case (Cons c cs)
  show ?case
  proof (cases "take (length b) (c # cs) = b")
    case False
    then obtain j where j: "memmem b cs = Some j" "k = Suc j" using Cons.prems by auto
    have "take (length b) (drop i (c # cs)) \<noteq> b" if "i < k" for i
      using Cons.IH [OF j(1)] False j(2) that by (cases i) auto
    then show ?thesis using Cons.IH [OF j(1)] j(2) by simp
  qed (use Cons.prems in simp)
qed (simp split: if_splits)

lemma memmem_None: "memmem b s = None \<longleftrightarrow> (\<forall>i. take (length b) (drop i s) \<noteq> b)"
proof (induction s)
  case (Cons c cs)
  have "(\<forall>i. take (length b) (drop i (c # cs)) \<noteq> b) \<longleftrightarrow> take (length b) (c # cs) \<noteq> b \<and> (\<forall>i. take (length b) (drop i cs) \<noteq> b)"
    by (metis drop0 drop_Suc_Cons not0_implies_Suc)
  then show ?case using Cons.IH by simp
qed auto

lemma memmem_le: "memmem b s = Some k \<Longrightarrow> k \<le> length s"
  by (induction s arbitrary: k) (auto split: if_splits)

lemma memmem_SomeI: "take (length b) (drop k s) = b \<Longrightarrow> (\<And>i. i < k \<Longrightarrow> take (length b) (drop i s) \<noteq> b) \<Longrightarrow> memmem b s = Some k"
  using memmem_Some [of b s] memmem_None [of b s] by (metis linorder_neqE_nat option.exhaust)

lemma occurs_in_block:
  assumes "take (length b) (drop i (get_bytes o' n y)) = b"
  shows "take (length b) (drop (o' + i) y) = b" "b \<noteq> [] \<Longrightarrow> i + length b \<le> n"
proof -
  have "length b \<le> n - i" using arg_cong [OF assms, of length] by (simp add: get_bytes_def)
  then show "take (length b) (drop (o' + i) y) = b" using assms by (simp add: get_bytes_def drop_take add.commute min_def)
  then show "b \<noteq> [] \<Longrightarrow> i + length b \<le> n" using \<open>length b \<le> n - i\<close> by (cases "i \<le> n") auto
qed

lemma skipHeader_concat: "off < length (concat p) \<Longrightarrow> \<exists>p'. skipHeader off p = Some p' \<and> concat p' = drop off (concat p)"
  by (induction p arbitrary: off) auto

subsection \<open>Storing blocks\<close>

definition stored :: "board_env \<Rightarrow> nat \<Rightarrow> (nat \<Rightarrow> u8) \<Rightarrow> EXT_FM_T \<Rightarrow> (EXT_FM_T \<times> nat) list \<Rightarrow> bytes \<Rightarrow> EXT_RUNTIME_CFG \<Rightarrow> bool" where
  "stored e base m0 ty cs w r \<longleftrightarrow>
     nor_ok e \<and> bus_ok e \<and> flash_stream base w m0 (board_of r) \<and> fu_size r = length w \<and> fu_type r = ty \<and> cfgSaved r = cs"

interpretation web: byte_sink "stored e base m0 ty cs" "extUploadWrite e" 65536 "16777216 - base" "\<lambda>d. int (length d)" for e base m0 ty cs
proof
  fix w r and d :: bytes
  assume a: "stored e base m0 ty cs w r" "length d < 65536" "length w + length d < 16777216 - base"
  then have "fst (bspSpiFlashWrite e (Data d) (length d) (board_of r)) = int (length d)"
      "flash_stream base (w @ d) m0 (snd (bspSpiFlashWrite e (Data d) (length d) (board_of r)))"
    using flash.put_holds [of e base w m0 "board_of r" d] by (simp_all add: stored_def)
  then show "fst (extUploadWrite e d r) = int (length d) \<and> stored e base m0 ty cs (w @ d) (snd (extUploadWrite e d r))"
    using a by (cases "bspSpiFlashWrite e (Data d) (length d) (board_of r)") (simp add: extUploadWrite_def stored_def)
qed

text \<open>The state after the first \<open>n\<close> bytes of the body \<open>y\<close>: whole blocks are stored, the rest waits.\<close>

definition recv_inv :: "board_env \<Rightarrow> nat \<Rightarrow> (nat \<Rightarrow> u8) \<Rightarrow> EXT_FM_T \<Rightarrow> (EXT_FM_T \<times> nat) list \<Rightarrow> bytes \<Rightarrow> bytes \<Rightarrow> nat \<Rightarrow> MuxHttpConn \<Rightarrow> bool" where
  "recv_inv e base m0 ty cs b y n c \<longleftrightarrow>
     uploadStatus c = UPLOAD_COPY \<and> uploadCtx c \<and> \<not> h_fault c \<and> h_boundary c = b \<and> length (h_data c) = DATA_SIZE \<and> n \<le> length y \<and>
     dataSendIndex c = n mod DATA_SIZE \<and> take (n mod DATA_SIZE) (h_data c) = get_bytes (n - n mod DATA_SIZE) (n mod DATA_SIZE) y \<and>
     stored e base m0 ty cs (take (n - n mod DATA_SIZE) y) (runCfg c)"

text \<open>No complete block of \<open>y\<close> contains the boundary.\<close>

definition no_block :: "bytes \<Rightarrow> bytes \<Rightarrow> bool" where
  "no_block b y \<longleftrightarrow> (\<forall>j. DATA_SIZE * j + DATA_SIZE \<le> length y \<longrightarrow> memmem b (get_bytes (DATA_SIZE * j) DATA_SIZE y) = None)"

lemma take_get_bytes: "take a y @ get_bytes a n y = take (a + n) y"
  by (simp add: get_bytes_def take_add)

lemma get_bytes_split: "get_bytes a (n + m) y = get_bytes a n y @ get_bytes (a + n) m y"
  by (simp add: get_bytes_def take_add add.commute [of n a])

lemma take_put_append: "k + length xs \<le> length buf \<Longrightarrow> take (k + length xs) (put_bytes k xs buf) = take k buf @ xs"
  by (rule nth_equalityI) (auto simp: nth_put_bytes nth_append)

lemma fill_block:
  assumes "i \<le> n" "take i buf = get_bytes (n - i) i y" "length xs = m" "xs = get_bytes n m y" "i + m \<le> length buf"
  shows "take (i + m) (put_bytes i xs buf) = get_bytes (n - i) (i + m) y"
  using take_put_append [of i xs buf] get_bytes_split [of "n - i" i m y] assms by simp

lemma uploadWrite_ok:
  assumes "stored e base m0 ty cs w (runCfg c)" "dataSendIndex c \<le> DATA_SIZE" "length (h_data c) = DATA_SIZE" "uploadCtx c"
    and "base + length w + dataSendIndex c < 16777216"
  shows "\<exists>r d. uploadWrite e c = (dataSendIndex c, c\<lparr>runCfg := r, h_data := d\<rparr>) \<and> length d = DATA_SIZE \<and>
    stored e base m0 ty cs (w @ take (dataSendIndex c) (h_data c)) r"
proof -
  let ?d = "take (dataSendIndex c) (h_data c)"
  have l: "length ?d = dataSendIndex c" using assms(2,3) by simp
  have p: "fst (extUploadWrite e ?d (runCfg c)) = int (length ?d)" "stored e base m0 ty cs (w @ ?d) (snd (extUploadWrite e ?d (runCfg c)))"
    using web.put_holds [OF assms(1), of ?d] assms(2,5) l by auto
  have "uploadWrite e c = (dataSendIndex c, c\<lparr>runCfg := snd (extUploadWrite e ?d (runCfg c)), h_data := put_bytes 0 (replicate (min (dataSendIndex c) DATA_SIZE) 0) (h_data c)\<rparr>)"
    using p(1) assms(2,4) unfolding l by (auto simp: uploadWrite_def Let_def split: prod.splits)
  then show ?thesis using p(2) assms(3) by (intro exI conjI) (assumption | simp)+
qed

lemma block_full:
  assumes "recv_inv e base m0 ty cs b y n c" "n mod DATA_SIZE + m = DATA_SIZE" "n + m \<le> length y" "no_block b y" "base + length y < 16777216"
    and "take DATA_SIZE (h_data c1) = get_bytes (n - n mod DATA_SIZE) DATA_SIZE y" "length (h_data c1) = DATA_SIZE"
    and "c1 = c\<lparr>h_data := h_data c1, dataSendIndex := DATA_SIZE\<rparr>"
  shows "\<exists>r d. uploadWrite e (snd (findEndingBoundary c1)) = (DATA_SIZE, c1\<lparr>runCfg := r, h_data := d\<rparr>) \<and>
    recv_inv e base m0 ty cs b y (n + m) (c1\<lparr>runCfg := r, h_data := d, dataSendIndex := 0\<rparr>)"
proof -
  let ?a = "n - n mod DATA_SIZE"
  have nm: "n + m = ?a + DATA_SIZE" using assms(2) mod_less_eq_dividend [of n DATA_SIZE] by linarith
  have a: "?a = DATA_SIZE * (n div DATA_SIZE)" by (simp add: minus_mod_eq_mult_div)
  have idx: "(n + m) mod DATA_SIZE = 0" unfolding nm a by simp
  have s: "dataSendIndex c1 = DATA_SIZE" "runCfg c1 = runCfg c" "h_boundary c1 = b" "uploadCtx c1" "uploadStatus c1 = UPLOAD_COPY" "\<not> h_fault c1"
    "stored e base m0 ty cs (take ?a y) (runCfg c1)"
    using assms(1) assms(8) by (cases c1; cases c; simp add: recv_inv_def)+
  have "DATA_SIZE * (n div DATA_SIZE) + DATA_SIZE \<le> length y" using assms(3) nm a by simp
  then have "memmem b (get_bytes ?a DATA_SIZE y) = None" using assms(4) unfolding no_block_def a by blast
  then have f: "findEndingBoundary c1 = (False, c1)" using s(1,3) assms(6) by (simp add: findEndingBoundary_def)
  have room: "base + length (take ?a y) + dataSendIndex c1 < 16777216" using assms(3,5) nm s(1) by simp
  obtain r d where u: "uploadWrite e c1 = (DATA_SIZE, c1\<lparr>runCfg := r, h_data := d\<rparr>)" "length d = DATA_SIZE"
      "stored e base m0 ty cs (take ?a y @ take (dataSendIndex c1) (h_data c1)) r"
    using uploadWrite_ok [OF s(7) _ assms(7) s(4) room] s(1) by auto
  have "stored e base m0 ty cs (take (n + m) y) r" using u(3) assms(6) s(1) take_get_bytes [of ?a y DATA_SIZE] nm by simp
  then have "recv_inv e base m0 ty cs b y (n + m) (c1\<lparr>runCfg := r, h_data := d, dataSendIndex := 0\<rparr>)"
    using s assms(3) idx u(2) by (simp add: recv_inv_def get_bytes_def)
  then show ?thesis using f u(1) by auto
qed

lemma round_ok:
  assumes "recv_inv e base m0 ty cs b y n c" "copied < length p" "take (length p - copied) (drop n y) = drop copied p"
    and "n + (length p - copied) \<le> length y" "no_block b y" "base + length y < 16777216"
  shows "\<exists>m c'. 0 < m \<and> m \<le> length p - copied \<and> extHttpPostData e p copied c = extHttpPostData e p (copied + m) c' \<and>
    recv_inv e base m0 ty cs b y (n + m) c' \<and> postDataLeft c' = postDataLeft c"
proof -
  define i where "i = n mod DATA_SIZE"
  define m where "m = min (length p - copied) (DATA_SIZE - i)"
  let ?c1 = "c\<lparr>h_data := put_bytes i (get_bytes copied m p) (h_data c), dataSendIndex := i + m\<rparr>"
  have i: "dataSendIndex c = i" "i < DATA_SIZE" "length (h_data c) = DATA_SIZE" "take i (h_data c) = get_bytes (n - i) i y" "i \<le> n"
    using assms(1) by (simp_all add: recv_inv_def i_def)
  have m: "0 < m" "m \<le> length p - copied" "i + m \<le> DATA_SIZE" using assms(2) i(2) by (auto simp: m_def)
  have cp: "copyPacket p copied c = (copied + m, ?c1)" using i(1) by (simp add: copyPacket_def Let_def m_def)
  have g: "get_bytes copied m p = get_bytes n m y"
    using arg_cong [OF assms(3), of "take m"] m(2) by (simp add: get_bytes_def min_def split: if_splits)
  have lg: "length (get_bytes copied m p) = m" using m(2) by (simp add: get_bytes_def)
  have t: "take (i + m) (h_data ?c1) = get_bytes (n - i) (i + m) y"
    using fill_block [OF i(5,4) lg g] m(3) i(3) by simp
  have st: "extHttpPostData e p copied c =
      (if i + m = DATA_SIZE
       then let c2 = snd (findEndingBoundary ?c1); (len, c3) = uploadWrite e c2 in
          if len \<noteq> dataSendIndex c3 then (EXIT_FAILURE, c3) else extHttpPostData e p (copied + m) (c3\<lparr>dataSendIndex := 0\<rparr>)
       else extHttpPostData e p (copied + m) ?c1)"
    using assms(2) i(1,2) by (subst extHttpPostData.simps) (simp add: cp)
  have le: "n + m \<le> length y" using m(2) assms(4) by linarith
  show ?thesis
  proof (cases "i + m = DATA_SIZE")
    case True
    have "take DATA_SIZE (h_data ?c1) = get_bytes (n - n mod DATA_SIZE) DATA_SIZE y" using t unfolding i_def [symmetric] True .
    moreover have "length (h_data ?c1) = DATA_SIZE" using i(3) by simp
    moreover have "?c1 = c\<lparr>h_data := h_data ?c1, dataSendIndex := DATA_SIZE\<rparr>" using True by simp
    ultimately obtain r d where u: "uploadWrite e (snd (findEndingBoundary ?c1)) = (DATA_SIZE, ?c1\<lparr>runCfg := r, h_data := d\<rparr>)"
        "recv_inv e base m0 ty cs b y (n + m) (?c1\<lparr>runCfg := r, h_data := d, dataSendIndex := 0\<rparr>)"
      using block_full [OF assms(1) True [unfolded i_def] le assms(5,6), of ?c1] by blast
    have "extHttpPostData e p copied c = extHttpPostData e p (copied + m) (?c1\<lparr>runCfg := r, h_data := d, dataSendIndex := 0\<rparr>)"
      using st True u(1) by simp
    then show ?thesis using u(2) m by (intro exI conjI) (assumption | simp)+
  next
    case False
    have "(n + m) mod DATA_SIZE = (i + m) mod DATA_SIZE" unfolding i_def by (rule mod_add_left_eq [symmetric])
    then have md: "(n + m) mod DATA_SIZE = i + m" using m(3) False by (metis le_neq_implies_less mod_less)
    have md2: "n + m - (i + m) = n - i" by (rule diff_cancel2)
    have "recv_inv e base m0 ty cs b y (n + m) ?c1"
      using assms(1) le t i(3) unfolding recv_inv_def md md2 i_def [symmetric] by simp
    then show ?thesis using st False m by (intro exI conjI) (assumption | simp)+
  qed
qed

lemma postData_ok:
  assumes "recv_inv e base m0 ty cs b y n c" "copied \<le> length p" "take (length p - copied) (drop n y) = drop copied p"
    and "n + (length p - copied) \<le> length y" "no_block b y" "base + length y < 16777216"
  shows "\<exists>c'. extHttpPostData e p copied c = (EXIT_SUCCESS, c') \<and> recv_inv e base m0 ty cs b y (n + (length p - copied)) c' \<and> postDataLeft c' = postDataLeft c"
  using assms(1-4)
proof (induction "length p - copied" arbitrary: copied n c rule: less_induct)
  case less
  show ?case
  proof (cases "copied = length p")
    case True
    then show ?thesis using less.prems(1) by (simp add: extHttpPostData.simps)
  next
    case False
    then have lt: "copied < length p" using less.prems(2) by simp
    obtain m c' where s: "0 < m" "m \<le> length p - copied" "extHttpPostData e p copied c = extHttpPostData e p (copied + m) c'"
        "recv_inv e base m0 ty cs b y (n + m) c'" "postDataLeft c' = postDataLeft c"
      using round_ok [OF less.prems(1) lt less.prems(3,4) assms(5,6)] by blast
    have d: "length p - (copied + m) < length p - copied" "copied + m \<le> length p" "n + m + (length p - (copied + m)) \<le> length y"
      using s(1,2) lt less.prems(4) by linarith+
    have t: "take (length p - (copied + m)) (drop (n + m) y) = drop (copied + m) p"
      using arg_cong [OF less.prems(3), of "drop m"] s(2) by (simp add: drop_take add.commute)
    have e: "n + m + (length p - (copied + m)) = n + (length p - copied)" using s(2) lt by linarith
    show ?thesis using less.hyps [OF d(1) s(4) d(2) t d(3)] s(3,5) unfolding e by simp
  qed
qed

subsection \<open>The end of an upload\<close>

lemma recv_rest:
  assumes "recv_inv e base m0 ty cs b y n c"
  shows "take (dataSendIndex c) (h_data c) = get_bytes (n - n mod DATA_SIZE) (n mod DATA_SIZE) y" "dataSendIndex c \<le> DATA_SIZE" "dataSendIndex c = n mod DATA_SIZE"
  using assms by (simp_all add: recv_inv_def)

lemma uploadClose_ok:
  assumes "stored e base m0 ty cs w r" "base + length w + 256 < 16777216" "ty = EXT_FM_TYPE_RTOS \<or> ty = EXT_FM_TYPE_FPGA"
  shows "image_at base w m0 (mem (board_of (extUploadClose e r)))" "cfgSaved (extUploadClose e r) = cs @ [(ty, length w)]"
  using assms updateEnd_ok [of e base w m0 r] by (auto simp: stored_def extUploadClose_def)

lemma boundary_cut:
  assumes "a + i = length y" "take i buf = get_bytes a i y" "i \<le> length buf"
    "case memmem b (get_bytes a i y) of Some k \<Rightarrow> 4 \<le> k \<and> w = take (a + k - 4) y | None \<Rightarrow> w = y"
  shows "memmem b (get_bytes a i y) = None \<Longrightarrow> take a y @ take i buf = w"
    "memmem b (get_bytes a i y) = Some k \<Longrightarrow> take a y @ take (k - 4) buf = w \<and> k - 4 \<le> i"
proof -
  show "memmem b (get_bytes a i y) = None \<Longrightarrow> take a y @ take i buf = w"
    using assms take_get_bytes [of a y i] by simp
next
  assume k: "memmem b (get_bytes a i y) = Some k"
  have "k \<le> i" using memmem_le [OF k] assms(1) by (simp add: get_bytes_def)
  then have "take (k - 4) buf = take (k - 4) (get_bytes a i y)" using arg_cong [OF assms(2), of "take (k - 4)"] by (simp add: min_def split: if_splits)
  also have "\<dots> = get_bytes a (k - 4) y" using \<open>k \<le> i\<close> by (simp add: get_bytes_def min_def)
  finally show "take a y @ take (k - 4) buf = w \<and> k - 4 \<le> i"
    using take_get_bytes [of a y "k - 4"] assms(4) k \<open>k \<le> i\<close> by simp
qed

lemma endingBoundary_ok:
  assumes "a + i = length y" "take (dataSendIndex c) (h_data c) = get_bytes a i y" "dataSendIndex c = i" "h_boundary c = b" "i \<le> length (h_data c)"
    and w: "case memmem b (get_bytes a i y) of Some k \<Rightarrow> 4 \<le> k \<and> w = take (a + k - 4) y | None \<Rightarrow> w = y"
    and "findEndingBoundary c = (found, c1)"
  shows "found = (memmem b (get_bytes a i y) \<noteq> None) \<and> take a y @ take (dataSendIndex c1) (h_data c1) = w \<and> dataSendIndex c1 \<le> i \<and>
    uploadStatus c1 = (if found then UPLOAD_END else uploadStatus c) \<and> runCfg c1 = runCfg c \<and> h_data c1 = h_data c \<and>
    uploadCtx c1 = uploadCtx c \<and> h_fault c1 = h_fault c \<and> postDataLeft c1 = postDataLeft c"
proof (cases "memmem b (get_bytes a i y)")
  case None
  then have "found = False \<and> c1 = c" using assms(2,4,7) by (simp add: findEndingBoundary_def)
  then show ?thesis using boundary_cut(1) [OF assms(1) assms(2) [unfolded assms(3)] assms(5) w] None assms(3) by simp
next
  case (Some k)
  then have "4 \<le> k" using w by simp
  then have "found \<and> c1 = c\<lparr>dataSendIndex := k - 4, uploadStatus := UPLOAD_END, h_uri := uploadedText (fu_size (runCfg c)) c\<rparr>"
    using Some assms(2,4,7) by (simp add: findEndingBoundary_def)
  then show ?thesis using boundary_cut(2) [OF assms(1) assms(2) [unfolded assms(3)] assms(5) w] Some by simp
qed

text \<open>The last call: what is stored is \<open>w\<close>, the part of the body before the boundary if it is found.\<close>

lemma finished_ok:
  assumes "recv_inv e base m0 ty cs b y (length y) c" "postDataLeft c = 0" "ty = EXT_FM_TYPE_RTOS \<or> ty = EXT_FM_TYPE_FPGA" "base + length y + 256 < 16777216"
    and "case memmem b (get_bytes (length y - length y mod DATA_SIZE) (length y mod DATA_SIZE) y) of
           Some k \<Rightarrow> 4 \<le> k \<and> w = take (length y - length y mod DATA_SIZE + k - 4) y | None \<Rightarrow> w = y"
  defines "c' \<equiv> extHttpPostDataFinished e c"
  shows "image_at base w m0 (mem (board_of (runCfg c')))" "cfgSaved (runCfg c') = cs @ [(ty, length w)]" "\<not> h_fault c'"
    "uploadStatus c' = (if memmem b (get_bytes (length y - length y mod DATA_SIZE) (length y mod DATA_SIZE) y) = None then UPLOAD_ERROR else UPLOAD_END)"
proof -
  define a where "a = length y - length y mod DATA_SIZE"
  define i where "i = length y mod DATA_SIZE"
  have ai: "a + i = length y" "i < DATA_SIZE" by (simp_all add: a_def i_def)
  have rest: "take (dataSendIndex c) (h_data c) = get_bytes a i y" "dataSendIndex c = i" using recv_rest [OF assms(1)] by (simp_all add: a_def i_def)
  have inv: "uploadStatus c = UPLOAD_COPY" "uploadCtx c" "\<not> h_fault c" "h_boundary c = b" "length (h_data c) = DATA_SIZE"
    "stored e base m0 ty cs (take a y) (runCfg c)" using assms(1) by (simp_all add: recv_inv_def a_def)
  obtain found c1 where f: "findEndingBoundary c = (found, c1)" by fastforce
  have c1: "found = (memmem b (get_bytes a i y) \<noteq> None)" "take a y @ take (dataSendIndex c1) (h_data c1) = w" "dataSendIndex c1 \<le> i"
      "uploadStatus c1 = (if found then UPLOAD_END else UPLOAD_COPY)"
      "runCfg c1 = runCfg c" "h_data c1 = h_data c" "uploadCtx c1" "\<not> h_fault c1" "postDataLeft c1 = 0"
    using endingBoundary_ok [OF ai(1) rest inv(4) _ assms(5) [folded a_def i_def] f] inv assms(2) ai(2) by auto
  define c2 where "c2 = (if found then c1\<lparr>h_uri := uploadedText (fu_size (runCfg c1) + dataSendIndex c1) c1\<rparr>
      else c1\<lparr>uploadStatus := UPLOAD_ERROR, h_uri := take (URI_SIZE - 1) (ascii ''Error '' @ printf_d (fu_size (runCfg c1) + dataSendIndex c1) @
        ascii '' bytes uploaded for '' @ h_filename c1 @ ascii '', no boundary found'')\<rparr>)"
  have c2: "dataSendIndex c2 = dataSendIndex c1" "h_data c2 = h_data c" "runCfg c2 = runCfg c" "uploadCtx c2" "\<not> h_fault c2" "postDataLeft c2 = 0"
      "uploadStatus c2 = (if found then UPLOAD_END else UPLOAD_ERROR)"
    using c1 by (simp_all add: c2_def)
  have st: "stored e base m0 ty cs (take a y) (runCfg c2)" using inv(6) c2(3) by simp
  have room: "base + length (take a y) + dataSendIndex c2 < 16777216" using c1(3) c2(1) ai(1) assms(4) by simp
  obtain r d where u: "uploadWrite e c2 = (dataSendIndex c2, c2\<lparr>runCfg := r, h_data := d\<rparr>)" "stored e base m0 ty cs w r"
    using uploadWrite_ok [OF st _ _ c2(4) room] c1(2,3,6) c2(1,2) inv(5) ai(2) by auto
  have lw: "length w \<le> length y" using arg_cong [OF c1(2), of length] c1(3) ai(1) by simp
  have cl: "image_at base w m0 (mem (board_of (extUploadClose e r)))" "cfgSaved (extUploadClose e r) = cs @ [(ty, length w)]"
    using uploadClose_ok [OF u(2) _ assms(3)] lw assms(4) by simp_all
  have fin: "c' = updatePageResult (ascii ''Upload Firmware'') (h_uri c2) (c2\<lparr>h_data := d, runCfg := extUploadClose e r, uploadCtx := False\<rparr>)"
    using inv(1) f u(1) c2(6) unfolding c'_def extHttpPostDataFinished_def by (simp add: Let_def c2_def [symmetric])
  show "image_at base w m0 (mem (board_of (runCfg c')))" "cfgSaved (runCfg c') = cs @ [(ty, length w)]" "\<not> h_fault c'"
    "uploadStatus c' = (if memmem b (get_bytes (length y - length y mod DATA_SIZE) (length y mod DATA_SIZE) y) = None then UPLOAD_ERROR else UPLOAD_END)"
    using cl c2 c1(1) unfolding fin by (simp_all add: updatePageResult_def Let_def a_def i_def split: prod.splits)
qed

subsection \<open>A whole upload\<close>

definition image_of :: "bytes \<Rightarrow> EXT_FM_T" where
  "image_of uri = (if is_string_equal uri (ascii ''/mcuUpdate'') then EXT_FM_TYPE_RTOS else EXT_FM_TYPE_FPGA)"

definition recvBody :: "board_env \<Rightarrow> bytes list list \<Rightarrow> MuxHttpConn \<Rightarrow> MuxHttpConn" where
  "recvBody e ps c = fold (\<lambda>p c. snd (extHttpPostRxDataPbuf e p c)) ps c"

lemma recv_inv_left [simp]: "recv_inv e base m0 ty cs b y n (c\<lparr>postDataLeft := k\<rparr>) = recv_inv e base m0 ty cs b y n c"
  by (simp add: recv_inv_def)

lemma recv_data:
  assumes "recv_inv e base m0 ty cs b y n c" "take (length d) (drop n y) = d" "n + length d \<le> length y" "no_block b y" "base + length y < 16777216"
    and "postDataLeft c = length y - (n + length d)"
  shows "\<exists>c'. extHttpPostData e d 0 c = (EXIT_SUCCESS, c') \<and> recv_inv e base m0 ty cs b y (n + length d) c' \<and> postDataLeft c' = length y - (n + length d)"
  using postData_ok [OF assms(1), of 0 d] assms by simp

lemma rx_ok:
  assumes "recv_inv e base m0 ty cs b y n c" "take (length (concat p)) (drop n y) = concat p" "n + length (concat p) \<le> length y" "no_block b y"
    "base + length y < 16777216" "postDataLeft c = length y - n"
  shows "\<exists>c'. snd (extHttpPostRxDataPbuf e p c) = (if n + length (concat p) = length y then extHttpPostDataFinished e c' else c') \<and>
    recv_inv e base m0 ty cs b y (n + length (concat p)) c' \<and> postDataLeft c' = length y - (n + length (concat p))"
proof -
  let ?c = "c\<lparr>postDataLeft := length y - (n + length (concat p))\<rparr>"
  have l: "c\<lparr>postDataLeft := (if postDataLeft c < length (concat p) then 0 else postDataLeft c - length (concat p))\<rparr> = ?c" using assms(3,6) by simp
  have i: "recv_inv e base m0 ty cs b y n ?c" using assms(1) by simp
  then have st: "uploadStatus ?c = UPLOAD_COPY" by (simp add: recv_inv_def)
  obtain c' where d: "extHttpPostData e (concat p) 0 ?c = (EXIT_SUCCESS, c')" "recv_inv e base m0 ty cs b y (n + length (concat p)) c'"
      "postDataLeft c' = length y - (n + length (concat p))"
    using recv_data [OF i assms(2-5)] by auto
  have "extHttpPostDataRecv e p ?c = (EXIT_SUCCESS, c')" using st d(1) by (simp add: extHttpPostDataRecv_def)
  then have "snd (extHttpPostRxDataPbuf e p c) = (if postDataLeft c' = 0 then extHttpPostDataFinished e c' else c')"
    unfolding extHttpPostRxDataPbuf_def Let_def l by simp
  then show ?thesis using d(2,3) assms(3) by (intro exI [of _ c']) auto
qed

lemma body_ok:
  assumes "recv_inv e base m0 ty cs b y n c" "ps \<noteq> []" "\<forall>p\<in>set ps. concat p \<noteq> []" "concat (map concat ps) = drop n y" "no_block b y"
    "base + length y < 16777216" "postDataLeft c = length y - n" "n < length y"
  shows "\<exists>c'. recvBody e ps c = extHttpPostDataFinished e c' \<and> recv_inv e base m0 ty cs b y (length y) c' \<and> postDataLeft c' = 0"
  using assms(1-4,7,8)
proof (induction ps arbitrary: n c)
  case (Cons p ps)
  let ?n = "n + length (concat p)"
  have t: "take (length (concat p)) (drop n y) = concat p" using arg_cong [OF Cons.prems(4), of "take (length (concat p))"] by simp
  have dr: "concat (map concat ps) = drop ?n y" using arg_cong [OF Cons.prems(4), of "drop (length (concat p))"] by (simp add: add.commute)
  have le: "?n \<le> length y" using arg_cong [OF t, of length] Cons.prems(6) by simp
  obtain c' where c: "snd (extHttpPostRxDataPbuf e p c) = (if ?n = length y then extHttpPostDataFinished e c' else c')"
      "recv_inv e base m0 ty cs b y ?n c'" "postDataLeft c' = length y - ?n"
    using rx_ok [OF Cons.prems(1) t le assms(5,6) Cons.prems(5)] by blast
  show ?case
  proof (cases "?n = length y")
    case True
    then have "concat (map concat ps) = []" using dr by simp
    then have "ps = []" using Cons.prems(3) by (cases ps) auto
    then show ?thesis using c True by (auto simp: recvBody_def)
  next
    case False
    then have "ps \<noteq> []" using dr le by auto
    moreover have "recvBody e (p # ps) c = recvBody e ps c'" using c(1) False by (simp add: recvBody_def)
    ultimately show ?thesis using Cons.IH [OF c(2) _ _ dr c(3)] Cons.prems(3) False le by auto
  qed
qed simp

lemma uploadOpen_ok:
  assumes "nor_ok e" "bus_ok e" "length (bufWrite (board_of r)) = RW_BUFFER_SIZE" "\<not> memFault (board_of r)"
    and "is_string_equal uri (ascii ''/mcuUpdate'') \<or> is_string_equal uri (ascii ''/fpgaUpdate'')"
  shows "stored e (updateSector (image_of uri) * 65536) (mem (board_of r)) (image_of uri) (cfgSaved r) [] (extUploadOpen e uri r)"
proof -
  have "updateSector t < 256" for t by (simp add: updateSector_def)
  then show ?thesis using flashInit_ok [OF assms(1,2) _ assms(3,4)] assms(1,2,5)
    by (auto simp: stored_def extUploadOpen_def image_of_def firmwareUpdateInit_def clearUpdate_def Let_def)
qed

text \<open>A connection for which the request header has been parsed, and a first packet with a file name.\<close>

definition upload_ready :: "MuxHttpConn \<Rightarrow> bool" where
  "upload_ready c \<longleftrightarrow> uploadStatus c = UPLOAD_INIT \<and> uploadCtx c \<and> \<not> h_fault c \<and> length (h_data c) = DATA_SIZE \<and> h_boundary c \<noteq> [] \<and>
     (is_string_equal (h_uri c) (ascii ''/mcuUpdate'') \<or> is_string_equal (h_uri c) (ascii ''/fpgaUpdate'')) \<and>
     length (bufWrite (board_of (runCfg c))) = RW_BUFFER_SIZE \<and> \<not> memFault (board_of (runCfg c))"

definition part_header :: "bytes \<Rightarrow> nat \<Rightarrow> nat \<Rightarrow> nat \<Rightarrow> bool" where
  "part_header p k q h \<longleftrightarrow>
     strnstr (ascii ''filename'') (take DATA_SIZE p) = Some k \<and> strchr 34 (drop (k + 10) (take DATA_SIZE p)) = Some q \<and> 0 < q \<and>
     strnstr (CRLF @ CRLF) (take DATA_SIZE p) = Some h"

lemma strchr_append: "strchr c xs = Some q \<Longrightarrow> strchr c (xs @ ys) = Some q"
proof -
  assume a: "strchr c xs = Some q"
  let ?P = "\<lambda>x. x \<noteq> c \<and> x \<noteq> 0"
  have q: "q = length (takeWhile ?P xs)" "q < length xs" "xs ! q = c" using a by (auto simp: strchr_def Let_def split: if_splits)
  have "takeWhile ?P (xs @ ys) = takeWhile ?P xs" using nth_mem [OF q(2)] q(3) by (intro takeWhile_append1 [of c]) auto
  then show ?thesis using q by (simp add: strchr_def nth_append)
qed

lemma strchr_hd: "strchr c xs = Some q \<Longrightarrow> 0 < q \<Longrightarrow> xs \<noteq> [] \<and> hd xs \<noteq> 0"
  by (cases xs) (auto simp: strchr_def Let_def split: if_splits)

lemma begin_ok:
  assumes "nor_ok e" "bus_ok e" "upload_ready c" "part_header (concat p) k q h" "h + 4 < length (concat p)"
  shows "\<exists>p' c'. uploadBegin e p c = (EXIT_SUCCESS, p', c') \<and> concat p' = drop (h + 4) (concat p) \<and> postDataLeft c' = postDataLeft c \<and>
    recv_inv e (updateSector (image_of (h_uri c)) * 65536) (mem (board_of (runCfg c))) (image_of (h_uri c)) (cfgSaved (runCfg c)) (h_boundary c) y 0 c'"
proof -
  define len where "len = min (length (concat p)) DATA_SIZE"
  define d where "d = put_bytes 0 (take len (concat p)) (h_data c)"
  have ld: "length (h_data c) = DATA_SIZE" using assms(3) by (simp add: upload_ready_def)
  have tl: "take len (concat p) = take DATA_SIZE (concat p)" by (simp add: len_def min_def)
  have td: "take len d = take DATA_SIZE (concat p)"
    using take_put_append [of 0 "take len (concat p)" "h_data c"] ld tl by (simp add: d_def len_def)
  have ph: "strnstr (ascii ''filename'') (take len d) = Some k" "strchr 34 (drop (k + 10) (take len d)) = Some q" "0 < q" "strnstr (CRLF @ CRLF) (take len d) = Some h"
    using assms(4) td by (simp_all add: part_header_def)
  let ?name = "drop (k + 10) d"
  have name: "?name = drop (k + 10) (take len d) @ (if k + 10 \<le> len then drop len d else ?name)"
    using append_take_drop_id [of "len - (k + 10)" "drop (k + 10) d"] by (auto simp: drop_take simp del: append_take_drop_id)
  have sq: "strchr 34 ?name = Some q" using strchr_append [OF ph(2)] name by metis
  have nz: "?name \<noteq> []" "hd ?name \<noteq> 0" using strchr_hd [OF sq ph(3)] by simp_all
  have fn: "snprintf_s URI_SIZE (int q) ?name \<noteq> []"
    using nz ph(3) by (cases ?name) (auto simp: snprintf_s_def c_string_def take_Cons')
  obtain p' where p': "skipHeader (h + 4) p = Some p'" "concat p' = drop (h + 4) (concat p)" using skipHeader_concat [OF assms(5)] by blast
  have tok: "ascii ''filename'' \<noteq> []" "CRLF @ CRLF \<noteq> []" by (simp_all add: ascii_def CRLF_def)
  let ?c = "c\<lparr>h_data := d, h_filename := snprintf_s URI_SIZE (int q) ?name, uploadStatus := UPLOAD_COPY, runCfg := extUploadOpen e (h_uri c) (runCfg c), dataSendIndex := 0\<rparr>"
  have "uploadBegin e p c = (EXIT_SUCCESS, p', ?c)"
    using ph sq fn p'(1) tok assms(3) unfolding uploadBegin_def Let_def len_def [symmetric] d_def [symmetric]
    by (simp add: lwip_strnstr_def upload_ready_def)
  moreover have "stored e (updateSector (image_of (h_uri c)) * 65536) (mem (board_of (runCfg c))) (image_of (h_uri c)) (cfgSaved (runCfg c)) [] (runCfg ?c)"
    using uploadOpen_ok [OF assms(1,2), of "runCfg c" "h_uri c"] assms(3) by (simp add: upload_ready_def)
  ultimately show ?thesis using p'(2) assms(3) ld by (auto simp: recv_inv_def upload_ready_def d_def get_bytes_def)
qed

text \<open>
  Where the boundary lies. \<open>pos\<close> is its place in the body; the last, incomplete block starts at
  \<open>length y - length y mod DATA_SIZE\<close>.
\<close>

lemma last_block:
  assumes "length y = pos + n" "pos mod DATA_SIZE + n < DATA_SIZE"
  shows "length y - length y mod DATA_SIZE = pos - pos mod DATA_SIZE" "length y mod DATA_SIZE = pos mod DATA_SIZE + n"
proof -
  have "length y mod DATA_SIZE = (pos mod DATA_SIZE + n) mod DATA_SIZE" unfolding assms(1) by (rule mod_add_left_eq [symmetric])
  then show m: "length y mod DATA_SIZE = pos mod DATA_SIZE + n" using assms(2) by simp
  show "length y - length y mod DATA_SIZE = pos - pos mod DATA_SIZE" using m assms(1) by simp
qed

lemma block_below: "DATA_SIZE * j + DATA_SIZE \<le> n \<Longrightarrow> DATA_SIZE * j + DATA_SIZE \<le> n - n mod DATA_SIZE" for n j :: nat
proof -
  assume "DATA_SIZE * j + DATA_SIZE \<le> n"
  then have "DATA_SIZE * (j + 1) \<le> n" by simp
  then have "j + 1 \<le> n div DATA_SIZE" by (simp add: less_eq_div_iff_mult_less_eq mult.commute)
  then have "DATA_SIZE * (j + 1) \<le> DATA_SIZE * (n div DATA_SIZE)" by (rule mult_le_mono2)
  then show ?thesis by (simp add: minus_mod_eq_mult_div)
qed

lemma boundary_in_last_block:
  assumes "memmem b y = Some pos" "b \<noteq> []" "length y = pos + length b + t" "pos mod DATA_SIZE + length b + t < DATA_SIZE"
  shows "no_block b y" "memmem b (get_bytes (length y - length y mod DATA_SIZE) (length y mod DATA_SIZE) y) = Some (pos mod DATA_SIZE)"
    "length y - length y mod DATA_SIZE + pos mod DATA_SIZE = pos"
proof -
  note occ = memmem_Some [OF assms(1)]
  have a: "length y - length y mod DATA_SIZE = pos - pos mod DATA_SIZE" "length y mod DATA_SIZE = pos mod DATA_SIZE + (length b + t)"
    using last_block [of y pos "length b + t"] assms(3,4) by simp_all
  then show s: "length y - length y mod DATA_SIZE + pos mod DATA_SIZE = pos" by simp
  have "memmem b (get_bytes (DATA_SIZE * j) DATA_SIZE y) = None" if j: "DATA_SIZE * j + DATA_SIZE \<le> length y" for j
  proof (rule ccontr)
    assume "memmem b (get_bytes (DATA_SIZE * j) DATA_SIZE y) \<noteq> None"
    then obtain i where i: "take (length b) (drop i (get_bytes (DATA_SIZE * j) DATA_SIZE y)) = b" using memmem_Some by blast
    have "DATA_SIZE * j + i < pos" using block_below [OF j] a(1) occurs_in_block(2) [OF i assms(2)] assms(2) s by (cases b) auto
    then show False using occ occurs_in_block(1) [OF i] by blast
  qed
  then show "no_block b y" by (simp add: no_block_def)
  show "memmem b (get_bytes (length y - length y mod DATA_SIZE) (length y mod DATA_SIZE) y) = Some (pos mod DATA_SIZE)"
  proof (rule memmem_SomeI)
    have "drop (pos mod DATA_SIZE) (get_bytes (length y - length y mod DATA_SIZE) (length y mod DATA_SIZE) y) = get_bytes pos (length b + t) y"
      using a s by (simp add: get_bytes_def drop_take)
    then show "take (length b) (drop (pos mod DATA_SIZE) (get_bytes (length y - length y mod DATA_SIZE) (length y mod DATA_SIZE) y)) = b"
      using occ by (simp add: get_bytes_def)
  next
    fix i assume "i < pos mod DATA_SIZE"
    then show "take (length b) (drop i (get_bytes (length y - length y mod DATA_SIZE) (length y mod DATA_SIZE) y)) \<noteq> b"
      using occ occurs_in_block(1) [of b i "length y - length y mod DATA_SIZE" "length y mod DATA_SIZE" y] s by (metis add_less_cancel_left)
  qed
qed

lemma boundary_split:
  assumes "\<And>i. take (length b) (drop i y) = b \<Longrightarrow> i = pos" "b \<noteq> []" "DATA_SIZE < pos mod DATA_SIZE + length b"
  shows "no_block b y" "memmem b (get_bytes (length y - length y mod DATA_SIZE) (length y mod DATA_SIZE) y) = None"
proof -
  have g: "memmem b (get_bytes (DATA_SIZE * j) n y) = None" if "n \<le> DATA_SIZE" for j n
  proof (rule ccontr)
    assume "memmem b (get_bytes (DATA_SIZE * j) n y) \<noteq> None"
    then obtain i where i: "take (length b) (drop i (get_bytes (DATA_SIZE * j) n y)) = b" using memmem_Some by blast
    have l: "i + length b \<le> n" using occurs_in_block(2) [OF i assms(2)] .
    then have "i < DATA_SIZE" using that assms(2) by (cases b) auto
    then have "pos mod DATA_SIZE = i" using assms(1) [OF occurs_in_block(1) [OF i]] by (metis mod_less mod_mult_self4)
    then show False using l that assms(3) by simp
  qed
  then show "no_block b y" by (simp add: no_block_def)
  have "length y - length y mod DATA_SIZE = DATA_SIZE * (length y div DATA_SIZE)" by (simp add: minus_mod_eq_mult_div)
  then show "memmem b (get_bytes (length y - length y mod DATA_SIZE) (length y mod DATA_SIZE) y) = None"
    using g [of "length y mod DATA_SIZE" "length y div DATA_SIZE"] by simp
qed

lemma whole_body:
  assumes "nor_ok e" "bus_ok e" "upload_ready c" "part_header (concat p) k q h" "h + 4 < length (concat p)" "\<forall>p\<in>set ps. concat p \<noteq> []"
    and "postDataLeft c = length (concat p) + length (concat (map concat ps))"
    and y: "y = drop (h + 4) (concat p) @ concat (map concat ps)" and "no_block (h_boundary c) y" "updateSector (image_of (h_uri c)) * 65536 + length y < 16777216"
  shows "\<exists>c'. recvBody e (p # ps) c = extHttpPostDataFinished e c' \<and> postDataLeft c' = 0 \<and>
    recv_inv e (updateSector (image_of (h_uri c)) * 65536) (mem (board_of (runCfg c))) (image_of (h_uri c)) (cfgSaved (runCfg c)) (h_boundary c) y (length y) c'"
proof -
  let ?d = "drop (h + 4) (concat p)"
  let ?c = "c\<lparr>postDataLeft := length (concat (map concat ps))\<rparr>"
  let ?inv = "recv_inv e (updateSector (image_of (h_uri c)) * 65536) (mem (board_of (runCfg c))) (image_of (h_uri c)) (cfgSaved (runCfg c)) (h_boundary c) y"
  have l: "c\<lparr>postDataLeft := (if postDataLeft c < length (concat p) then 0 else postDataLeft c - length (concat p))\<rparr> = ?c" using assms(7) by simp
  have ready: "upload_ready ?c" using assms(3) by (simp add: upload_ready_def)
  obtain p' c0 where b: "uploadBegin e p ?c = (EXIT_SUCCESS, p', c0)" "concat p' = ?d" "postDataLeft c0 = length (concat (map concat ps))" "?inv 0 c0"
    using begin_ok [OF assms(1,2) ready assms(4,5), of y] by auto
  have left: "postDataLeft c0 = length y - (0 + length ?d)" using b(3) y by simp
  obtain c1 where d: "extHttpPostData e ?d 0 c0 = (EXIT_SUCCESS, c1)" "?inv (0 + length ?d) c1" "postDataLeft c1 = length y - (0 + length ?d)"
    using recv_data [OF b(4) _ _ assms(9,10) left] y by auto
  have "uploadStatus c0 = UPLOAD_COPY" using b(4) by (simp add: recv_inv_def)
  then have "extHttpPostDataRecv e p ?c = (EXIT_SUCCESS, c1)"
    using b(1,2) d(1) assms(3) by (simp add: extHttpPostDataRecv_def upload_ready_def)
  then have r: "snd (extHttpPostRxDataPbuf e p c) = (if postDataLeft c1 = 0 then extHttpPostDataFinished e c1 else c1)"
    unfolding extHttpPostRxDataPbuf_def Let_def l by simp
  show ?thesis
  proof (cases "ps = []")
    case True
    then have "length ?d = length y" using y by simp
    then show ?thesis using r d(2,3) True by (auto simp: recvBody_def)
  next
    case False
    then have "concat (map concat ps) \<noteq> []" using assms(6) by (cases ps) auto
    then have lt: "0 + length ?d < length y" using y by simp
    then have "recvBody e (p # ps) c = recvBody e ps c1" using r d(3) by (simp add: recvBody_def)
    moreover have "concat (map concat ps) = drop (0 + length ?d) y" using y by simp
    ultimately show ?thesis using body_ok [OF d(2) False assms(6) _ assms(9,10) d(3) lt] by metis
  qed
qed

lemma image_of_cases: "image_of u = EXT_FM_TYPE_RTOS \<or> image_of u = EXT_FM_TYPE_FPGA" "updateSector (image_of u) \<le> 144"
  by (simp_all add: image_of_def updateSector_def)

subsection \<open>Properties\<close>

text \<open>
  C14: A firmware image uploaded by a browser is in the flash. For a connection whose request header has
  been read, a first packet with a part header that names a file, and any division of the rest of the
  body into packets: if the body is the image, a line end, two dashes, the boundary and a tail, the boundary
  does not occur earlier, and the delimiter lies in the last, incomplete block of 3072 bytes, then the memory
  holds the image from the start of the area of the page, nothing before that area has changed, and the
  configuration saved asks the boot loader to install an image of that type and exactly that size.
\<close>
theorem http_upload_stored:
  assumes "nor_ok e" "bus_ok e" "upload_ready c" "part_header (concat p) k q h" "h + 4 < length (concat p)" "\<forall>p\<in>set ps. concat p \<noteq> []"
    and "postDataLeft c = length (concat p) + length (concat (map concat ps))"
    and "drop (h + 4) (concat p) @ concat (map concat ps) = img @ CRLF @ [45, 45] @ h_boundary c @ tail"
    and "memmem (h_boundary c) (img @ CRLF @ [45, 45] @ h_boundary c @ tail) = Some (length img + 4)"
    and "4 \<le> (length img + 4) mod DATA_SIZE" "(length img + 4) mod DATA_SIZE + length (h_boundary c) + length tail < DATA_SIZE"
    and "length img + length (h_boundary c) + length tail < 7339000"
  defines "c' \<equiv> recvBody e (p # ps) c" and "base \<equiv> updateSector (image_of (h_uri c)) * SECTOR_SIZE"
  shows "(\<forall>k<length img. mem (board_of (runCfg c')) (base + k) = img ! k) \<and>
    (\<forall>x<base. mem (board_of (runCfg c')) x = mem (board_of (runCfg c)) x) \<and>
    cfgSaved (runCfg c') = cfgSaved (runCfg c) @ [(image_of (h_uri c), length img)] \<and> uploadStatus c' = UPLOAD_END \<and> \<not> h_fault c'"
proof -
  define y where "y = img @ CRLF @ [45, 45] @ h_boundary c @ tail"
  let ?b = "h_boundary c"
  have b: "?b \<noteq> []" using assms(3) by (simp add: upload_ready_def)
  have ly: "length y = length img + 4 + length ?b + length tail" by (simp add: y_def CRLF_def)
  note bl = boundary_in_last_block [OF assms(9) [folded y_def] b ly assms(11)]
  have room: "updateSector (image_of (h_uri c)) * 65536 + length y + 256 < 16777216"
    using image_of_cases(2) [of "h_uri c"] ly assms(12) by simp
  obtain c1 where w: "c' = extHttpPostDataFinished e c1" "postDataLeft c1 = 0"
      "recv_inv e (updateSector (image_of (h_uri c)) * 65536) (mem (board_of (runCfg c))) (image_of (h_uri c)) (cfgSaved (runCfg c)) ?b y (length y) c1"
    using whole_body [OF assms(1-7) assms(8) [folded y_def, symmetric] bl(1)] room unfolding c'_def by auto
  have "take (length y - length y mod DATA_SIZE + (length img + 4) mod DATA_SIZE - 4) y = img" unfolding bl(3) by (simp add: y_def)
  then have cut: "case memmem ?b (get_bytes (length y - length y mod DATA_SIZE) (length y mod DATA_SIZE) y) of
      Some k \<Rightarrow> 4 \<le> k \<and> img = take (length y - length y mod DATA_SIZE + k - 4) y | None \<Rightarrow> img = y"
    using bl(2) assms(10) by simp
  show ?thesis using finished_ok [OF w(3,2) image_of_cases(1) room cut] bl(2) unfolding w(1) base_def by (simp add: image_at_def)
qed

text \<open>
  A boundary that is divided between two blocks is not found, and the upload is installed with the
  delimiter as part of the image. For the same kind of upload, with a boundary that occurs once, at a place
  where it crosses the end of a block of 3072 bytes, the whole body is stored, the status is an error, and the
  configuration saved nevertheless asks the boot loader to install an image of the length of the body.
\<close>
theorem http_split_boundary_installed:
  assumes "nor_ok e" "bus_ok e" "upload_ready c" "part_header (concat p) k q h" "h + 4 < length (concat p)" "\<forall>p\<in>set ps. concat p \<noteq> []"
    and "postDataLeft c = length (concat p) + length (concat (map concat ps))"
    and "drop (h + 4) (concat p) @ concat (map concat ps) = img @ CRLF @ [45, 45] @ h_boundary c @ tail"
    and "memmem (h_boundary c) (img @ CRLF @ [45, 45] @ h_boundary c @ tail) = Some (length img + 4)"
    and "memmem (h_boundary c) (drop (length img + 5) (img @ CRLF @ [45, 45] @ h_boundary c @ tail)) = None"
    and "DATA_SIZE < (length img + 4) mod DATA_SIZE + length (h_boundary c)" "length img + length (h_boundary c) + length tail < 7339000"
  defines "c' \<equiv> recvBody e (p # ps) c"
  shows "uploadStatus c' = UPLOAD_ERROR \<and>
    cfgSaved (runCfg c') = cfgSaved (runCfg c) @ [(image_of (h_uri c), length img + 4 + length (h_boundary c) + length tail)]"
proof -
  define y where "y = img @ CRLF @ [45, 45] @ h_boundary c @ tail"
  let ?b = "h_boundary c"
  have b: "?b \<noteq> []" using assms(3) by (simp add: upload_ready_def)
  have ly: "length y = length img + 4 + length ?b + length tail" by (simp add: y_def CRLF_def)
  have only: "i = length img + 4" if "take (length ?b) (drop i y) = ?b" for i
  proof (rule ccontr)
    assume ne: "i \<noteq> length img + 4"
    have "\<not> i < length img + 4" using memmem_Some [OF assms(9) [folded y_def]] that by blast
    then have "drop i y = drop (i - (length img + 5)) (drop (length img + 5) y)" using ne by simp
    then show False using assms(10) [folded y_def] that memmem_None [of ?b "drop (length img + 5) y"] by metis
  qed
  have bl: "no_block ?b y" "memmem ?b (get_bytes (length y - length y mod DATA_SIZE) (length y mod DATA_SIZE) y) = None"
    using boundary_split [of ?b y "length img + 4"] only b assms(11) by blast+
  have room: "updateSector (image_of (h_uri c)) * 65536 + length y + 256 < 16777216"
    using image_of_cases(2) [of "h_uri c"] ly assms(12) by simp
  obtain c1 where w: "c' = extHttpPostDataFinished e c1" "postDataLeft c1 = 0"
      "recv_inv e (updateSector (image_of (h_uri c)) * 65536) (mem (board_of (runCfg c))) (image_of (h_uri c)) (cfgSaved (runCfg c)) ?b y (length y) c1"
    using whole_body [OF assms(1-7) assms(8) [folded y_def, symmetric] bl(1)] room unfolding c'_def by auto
  have cut: "case memmem ?b (get_bytes (length y - length y mod DATA_SIZE) (length y mod DATA_SIZE) y) of
      Some k \<Rightarrow> 4 \<le> k \<and> y = take (length y - length y mod DATA_SIZE + k - 4) y | None \<Rightarrow> y = y"
    using bl(2) by simp
  have "uploadStatus c' = UPLOAD_ERROR" using finished_ok(4) [OF w(3,2) image_of_cases(1) room cut] bl(2) w(1) by simp
  moreover have "cfgSaved (runCfg c') = cfgSaved (runCfg c) @ [(image_of (h_uri c), length y)]"
    using finished_ok(2) [OF w(3,2) image_of_cases(1) room cut] w(1) by simp
  ultimately show ?thesis using ly by simp
qed

text \<open>An upload cut off before its end, when the connection is closed, is never requested for installation.\<close>

theorem http_cut_off_not_installed:
  assumes "postDataLeft c \<noteq> 0"
  shows "cfgSaved (runCfg (extHttpPostDataFinished e c)) = cfgSaved (runCfg c)"
proof -
  have f: "runCfg (snd (findEndingBoundary c)) = runCfg c" "postDataLeft (snd (findEndingBoundary c)) = postDataLeft c"
    by (simp_all add: findEndingBoundary_def split: option.split)
  have u: "cfgSaved (runCfg (snd (uploadWrite e d))) = cfgSaved (runCfg d)" "postDataLeft (snd (uploadWrite e d)) = postDataLeft d" for d
    by (simp_all add: uploadWrite_def extUploadWrite_def Let_def split: prod.split)
  have cl: "cfgSaved (extUploadClose e (clearUpdate r)) = cfgSaved r" for r
    by (simp add: extUploadClose_def firmwareUpdateEnd_def clearUpdate_def)
  have pg: "runCfg (updatePageResult t x d) = runCfg d" for t x d by (simp add: updatePageResult_def Let_def split: prod.split)
  obtain found c1 where c1: "findEndingBoundary c = (found, c1)" by fastforce
  then have "runCfg c1 = runCfg c" "postDataLeft c1 \<noteq> 0" using f assms by simp_all
  then show ?thesis by (simp add: extHttpPostDataFinished_def Let_def c1 pg u cl)
qed

subsubsection \<open>Examples\<close>

definition conn_example :: "nat \<Rightarrow> MuxHttpConn" where
  "conn_example n =
     \<lparr>h_uri = ascii ''/mcuUpdate'', h_boundary = [65, 66], h_filename = [], uploadStatus = UPLOAD_INIT, uploadCtx = True, reqType = REQ_UPLOAD,
      h_req = [], h_data = replicate DATA_SIZE 0, dataSendIndex = 0, contentLength = 0, updateProgress = [], updateIndex = 0, updateLength = 0,
      httpStatusCode = 0, postDataLeft = n, runCfg = cfg_zero, h_fault = False\<rparr>"

definition part_example :: bytes where
  "part_example = ascii ''filename='' @ [34, 97, 34] @ CRLF @ CRLF"

lemma conn_example_ready: "upload_ready (conn_example n)"
  by (simp add: upload_ready_def conn_example_def cfg_zero_def is_string_equal_def)

lemma conn_example_simps: "h_boundary (conn_example n) = [65, 66]" "image_of (h_uri (conn_example n)) = EXT_FM_TYPE_RTOS"
    "cfgSaved (runCfg (conn_example n)) = []" "postDataLeft (conn_example n) = n"
  by (simp_all add: conn_example_def image_of_def is_string_equal_def cfg_zero_def)

lemma part_example_ok:
  "part_header (part_example @ [7]) 0 1 12" "part_header (part_example @ [7, 13, 10, 45, 45, 65, 66, 45]) 0 1 12" "length part_example = 16"
  by (simp_all add: part_header_def part_example_def ascii_def CRLF_def strchr_def)

lemma memmem_replicate: "b \<noteq> [] \<Longrightarrow> x \<noteq> hd b \<Longrightarrow> memmem b (replicate n x @ s) = map_option (\<lambda>k. n + k) (memmem b s)"
proof (induction n)
  case (Suc n)
  then have "take (length b) (x # replicate n x @ s) \<noteq> b" by (cases b) auto
  then show ?case using Suc by (simp add: option.map_comp comp_def)
qed (cases "memmem b s"; simp)

theorem http_upload_stored_witness:
  "cfgSaved (runCfg (recvBody nor_example [[part_example @ [7, 13, 10, 45, 45, 65, 66, 45]], [[45]]] (conn_example 25))) = [(EXT_FM_TYPE_RTOS, 1)]"
  using http_upload_stored [OF nor_example_ok conn_example_ready, of "[part_example @ [7, 13, 10, 45, 45, 65, 66, 45]]" 0 1 12 "[[[45]]]" 25 "[7]" "[45, 45]"]
    part_example_ok
  by (simp add: conn_example_simps CRLF_def)

theorem http_split_boundary_installed_witness:
  "cfgSaved (runCfg (recvBody nor_example [[part_example @ [7]], [replicate 3066 7 @ [13, 10, 45, 45, 65, 66, 45, 45]]] (conn_example 3091))) = [(EXT_FM_TYPE_RTOS, 3075)]"
  using http_split_boundary_installed [OF nor_example_ok conn_example_ready, of "[part_example @ [7]]" 0 1 12 "[[replicate 3066 7 @ [13, 10, 45, 45, 65, 66, 45, 45]]]"
      3091 "7 # replicate 3066 7" "[45, 45]"] part_example_ok
  by (simp add: conn_example_simps CRLF_def memmem_replicate)

end
