(* ===== verification/Base64.thy ===== *)
theory Base64
  imports Prelude
begin

text \<open>
  Base64, \<^verbatim>\<open>src/supports/lwip/lwip/src/exts/cmn/base64.c\<close>, which the handshake of the web sockets uses. Sizes are
  those of the 32 bit target. The lemmas show that decoding inverts encoding, and that the decoder never
  writes more bytes than its first pass has counted.
\<close>

subsection \<open>Tables\<close>

definition enc_map :: "nat list" where
  "enc_map = [65..<91] @ [97..<123] @ [48..<58] @ [43, 47]"

definition dec_map :: "nat list" where
  "dec_map = replicate 43 127 @ [62, 127, 127, 127, 63] @ [52..<62] @ [127, 127, 127, 64, 127, 127, 127] @
     [0..<26] @ replicate 6 127 @ [26..<52] @ replicate 5 127"

definition enc_char :: "nat \<Rightarrow> u8" where
  "enc_char k = of_nat (enc_map ! (k mod 64))"

definition dec_char :: "u8 \<Rightarrow> nat" where
  "dec_char c = dec_map ! unat c"

abbreviation (input) BUFFER_TOO_SMALL :: int where "BUFFER_TOO_SMALL \<equiv> - 42"
abbreviation (input) INVALID_CHARACTER :: int where "INVALID_CHARACTER \<equiv> - 44"

subsection \<open>Encoding\<close>

text \<open>The groups of three bytes, and the padded rest.\<close>

fun encode_groups :: "bytes \<Rightarrow> bytes" where
  "encode_groups (a # b # c # rest) =
     [enc_char (unat a div 4), enc_char (unat a mod 4 * 16 + unat b div 16),
      enc_char (unat b mod 16 * 4 + unat c div 64), enc_char (unat c)] @ encode_groups rest"
| "encode_groups [a, b] =
     [enc_char (unat a div 4), enc_char (unat a mod 4 * 16 + unat b div 16), enc_char (unat b mod 16 * 4), 61]"
| "encode_groups [a] = [enc_char (unat a div 4), enc_char (unat a mod 4 * 16), 61, 61]"
| "encode_groups [] = []"

text \<open>The result is the return code, \<open>olen\<close> and the destination.\<close>

definition base64_encode :: "bytes \<Rightarrow> bytes \<Rightarrow> int \<times> nat \<times> bytes" where
  "base64_encode dst src =
     (if length src = 0 then (0, 0, dst)
      else let n = length src div 3 + (if length src mod 3 \<noteq> 0 then 1 else 0) in
        if n > (4294967295 - 1) div 4 then (BUFFER_TOO_SMALL, 4294967295, dst)
        else if length dst < n * 4 + 1 then (BUFFER_TOO_SMALL, n * 4 + 1, dst)
        else let out = encode_groups src in (0, length out, put_bytes 0 (out @ [0]) dst))"

subsection \<open>Decoding\<close>

lemma dropWhile_shorter: "dropWhile P src = c # cs \<Longrightarrow> length cs < length src"
  using length_dropWhile_le [of P src] by simp

text \<open>
  The first pass: \<open>None\<close> for an invalid character, otherwise the number of characters and of
  padding characters. Spaces are skipped first; their number is the C variable \<open>x\<close>.
\<close>

function decode_check :: "bytes \<Rightarrow> nat \<Rightarrow> nat \<Rightarrow> (nat \<times> nat) option" where
  "decode_check src n j =
     (case dropWhile (\<lambda>c. c = 32) src of
        [] \<Rightarrow> Some (n, j)
      | c # cs \<Rightarrow>
          if c = 13 \<and> cs \<noteq> [] \<and> hd cs = 10 then decode_check cs n j
          else if c = 10 then decode_check cs n j
          else if length src \<noteq> length (c # cs) then None
          else let j' = (if c = 61 then j + 1 else j) in
            if c = 61 \<and> j' > 2 then None
            else if unat c > 127 \<or> dec_char c = 127 then None
            else if dec_char c < 64 \<and> j' \<noteq> 0 then None
            else decode_check cs (n + 1) j')"
  by pat_completeness auto
termination
  by (relation "measure (\<lambda>(src, n, j). length src)") (auto dest!: dropWhile_shorter)

declare decode_check.simps [simp del]

text \<open>The second pass, with the counters \<open>j\<close> and \<open>n\<close> and the shift register \<open>x\<close> of the code.\<close>

fun decode_pass :: "bytes \<Rightarrow> nat \<Rightarrow> nat \<Rightarrow> nat \<Rightarrow> bytes" where
  "decode_pass [] j n x = []"
| "decode_pass (c # cs) j n x =
     (if c = 13 \<or> c = 10 \<or> c = 32 then decode_pass cs j n x
      else let j' = j - (if dec_char c = 64 then 1 else 0);
               x' = x * 64 mod 4294967296 + dec_char c mod 64
           in if n + 1 = 4
              then (if j' > 0 then [of_nat (x' div 65536)] else []) @ (if j' > 1 then [of_nat (x' div 256)] else []) @
                   (if j' > 2 then [of_nat x'] else []) @ decode_pass cs j' 0 x'
              else decode_pass cs j' (n + 1) x')"

text \<open>After an invalid character \<open>olen\<close> keeps the value it had, here \<open>olen0\<close>.\<close>

definition base64_decode :: "nat \<Rightarrow> bytes option \<Rightarrow> bytes \<Rightarrow> int \<times> nat \<times> bytes option" where
  "base64_decode olen0 dst src =
     (case decode_check src 0 0 of
        None \<Rightarrow> (INVALID_CHARACTER, olen0, dst)
      | Some (n, j) \<Rightarrow>
          if n = 0 then (0, 0, dst)
          else let n = (n * 6 + 7) div 8 - j in
            case dst of
              None \<Rightarrow> (BUFFER_TOO_SMALL, n, None)
            | Some d \<Rightarrow>
                if length d < n then (BUFFER_TOO_SMALL, n, Some d)
                else let out = decode_pass src 3 0 0 in (0, length out, Some (put_bytes 0 out d)))"


subsection \<open>Decoding inverts encoding\<close>

lemma tables:
  "length enc_map = 64" "length dec_map = 128"
  "\<forall>k<64. dec_map ! (enc_map ! k) = k \<and> enc_map ! k < 128 \<and> enc_map ! k \<notin> {10, 13, 32, 61}"
  "dec_map ! 61 = 64"
proof -
  have "list_all (\<lambda>k. dec_map ! (enc_map ! k) = k \<and> enc_map ! k < 128 \<and> enc_map ! k \<notin> {10, 13, 32, 61}) [0..<64]" by code_simp
  then show "\<forall>k<64. dec_map ! (enc_map ! k) = k \<and> enc_map ! k < 128 \<and> enc_map ! k \<notin> {10, 13, 32, 61}" by (simp add: list_all_iff)
  show "length enc_map = 64" "length dec_map = 128" "dec_map ! 61 = 64" by code_simp+
qed

lemma enc_char_unat: "unat (enc_char k) = enc_map ! (k mod 64)"
proof -
  have "enc_map ! (k mod 64) < 128" using tables(3) by simp
  then show ?thesis by (simp add: enc_char_def unat_of_nat)
qed

lemma enc_char_props:
  "dec_char (enc_char k) = k mod 64" "enc_char k \<noteq> 10" "enc_char k \<noteq> 13" "enc_char k \<noteq> 32" "enc_char k \<noteq> 61" "unat (enc_char k) \<le> 127"
proof -
  have m: "k mod 64 < 64" by simp
  show "dec_char (enc_char k) = k mod 64" using tables(3) m by (simp add: dec_char_def enc_char_unat)
  show "unat (enc_char k) \<le> 127" using tables(3) m by (fastforce simp: enc_char_unat)
  have "unat (enc_char k) \<notin> {10, 13, 32, 61}" using tables(3) m by (simp add: enc_char_unat)
  then show "enc_char k \<noteq> 10" "enc_char k \<noteq> 13" "enc_char k \<noteq> 32" "enc_char k \<noteq> 61" by auto
qed

lemma dec_pad: "dec_char 61 = 64"
  using tables(4) by (simp add: dec_char_def)

lemma check_enc: "decode_check (enc_char k # cs) n 0 = decode_check cs (n + 1) 0"
proof -
  have "k mod 64 < 64" by simp
  then have "k mod 64 \<noteq> 127" by linarith
  then show ?thesis using enc_char_props [of k] by (subst decode_check.simps) (simp add: Let_def)
qed

lemma check_pad: "j < 2 \<Longrightarrow> decode_check (61 # cs) n j = decode_check cs (n + 1) (j + 1)"
  using dec_pad by (subst decode_check.simps) (simp add: Let_def)

lemma check_Nil: "decode_check [] n j = Some (n, j)"
  by (simp add: decode_check.simps)

lemma check_encode:
  "decode_check (encode_groups src) n 0 = Some (n + 4 * ((length src + 2) div 3), (3 - length src mod 3) mod 3)"
proof (induction src arbitrary: n rule: encode_groups.induct)
  case (1 a b c rest)
  moreover have "(length rest + 5) div 3 = (length rest + 2) div 3 + 1" by presburger
  ultimately show ?case by (simp add: check_enc add.commute [of 5])
qed (simp_all add: check_enc check_pad check_Nil)

lemma counted: "(4 * ((n + 2) div 3) * 6 + 7) div 8 - (3 - n mod 3) mod 3 = (n::nat)"
proof -
  define q where "q = n div 3"
  have n: "n = 3 * q + n mod 3" by (simp add: q_def)
  have "n mod 3 = 0 \<or> n mod 3 = 1 \<or> n mod 3 = 2" by linarith
  then have "3 * ((n + 2) div 3) - (3 - n mod 3) mod 3 = n"
  proof (elim disjE)
    assume r: "n mod 3 = 0"
    with n have e: "n = 3 * q" by simp
    then have "(n + 2) div 3 = q" by simp
    then show ?thesis unfolding r using e by simp
  next
    assume r: "n mod 3 = 1"
    with n have e: "n = 3 * q + 1" by simp
    then have "(n + 2) div 3 = q + 1" by simp
    then show ?thesis unfolding r using e by simp
  next
    assume r: "n mod 3 = 2"
    with n have e: "n = 3 * q + 2" by simp
    then have "(n + 2) div 3 = q + 1" by simp
    then show ?thesis unfolding r using e by simp
  qed
  moreover have "(4 * m * 6 + 7) div 8 = 3 * m" for m :: nat by simp
  ultimately show ?thesis by simp
qed

text \<open>Four characters leave their 24 bits in the shift register, above what was there before.\<close>

definition shift_in :: "nat \<Rightarrow> nat \<Rightarrow> nat" where
  "shift_in x k = x * 64 mod 4294967296 + k mod 64"

lemma pass_enc:
  "decode_pass (enc_char k # cs) j 0 x = decode_pass cs j 1 (shift_in x k)"
  "decode_pass (enc_char k # cs) j 1 x = decode_pass cs j 2 (shift_in x k)"
  "decode_pass (enc_char k # cs) j 2 x = decode_pass cs j 3 (shift_in x k)"
  "decode_pass (enc_char k # cs) 3 3 x =
     [of_nat (shift_in x k div 65536), of_nat (shift_in x k div 256), of_nat (shift_in x k)] @ decode_pass cs 3 0 (shift_in x k)"
proof -
  have "k mod 64 < 64" by simp
  then have "k mod 64 \<noteq> 64" by linarith
  then show "decode_pass (enc_char k # cs) j 0 x = decode_pass cs j 1 (shift_in x k)"
    "decode_pass (enc_char k # cs) j 1 x = decode_pass cs j 2 (shift_in x k)"
    "decode_pass (enc_char k # cs) j 2 x = decode_pass cs j 3 (shift_in x k)"
    "decode_pass (enc_char k # cs) 3 3 x =
       [of_nat (shift_in x k div 65536), of_nat (shift_in x k div 256), of_nat (shift_in x k)] @ decode_pass cs 3 0 (shift_in x k)"
    using enc_char_props [of k] by (simp_all add: Let_def shift_in_def numeral_2_eq_2 numeral_3_eq_3)
qed

lemma pass_pad:
  "decode_pass (61 # cs) 3 2 x = decode_pass cs 2 3 (shift_in x 0)"
  "decode_pass [61] 3 3 x = [of_nat (shift_in x 0 div 65536), of_nat (shift_in x 0 div 256)]"
  "decode_pass [61] 2 3 x = [of_nat (shift_in x 0 div 65536)]"
  using dec_pad by (simp_all add: Let_def shift_in_def numeral_3_eq_3) (simp add: numeral_2_eq_2)

lemma byte_of_nat: "n mod 256 = unat (b :: u8) \<Longrightarrow> of_nat n = b"
  by (simp add: word_eq_iff_unsigned [where ?'a = nat] unat_of_nat)


lemma shift_in_mod: "shift_in x k mod 16777216 = (x * 64 + k mod 64) mod 16777216"
  by (simp add: shift_in_def mod_add_left_eq [symmetric, of "x * 64 mod 4294967296"] mod_mod_cancel)
    (simp add: mod_add_left_eq)

lemma shift_in_4:
  "shift_in (shift_in (shift_in (shift_in x k1) k2) k3) k4 mod 16777216 = k1 mod 64 * 262144 + k2 mod 64 * 4096 + k3 mod 64 * 64 + k4 mod 64"
proof -
  have s: "(shift_in y k * c + d) mod 16777216 = ((y * 64 + k mod 64) * c + d) mod 16777216" for y k c d
    by (rule mod_add_cong [OF mod_mult_cong [OF shift_in_mod refl] refl])
  have "shift_in (shift_in (shift_in (shift_in x k1) k2) k3) k4 mod 16777216 =
      (shift_in (shift_in (shift_in x k1) k2) k3 * 64 + k4 mod 64) mod 16777216" by (rule shift_in_mod)
  also have "\<dots> = (shift_in (shift_in x k1) k2 * 4096 + (k3 mod 64 * 64 + k4 mod 64)) mod 16777216" by (subst s) (simp add: algebra_simps)
  also have "\<dots> = (shift_in x k1 * 262144 + (k2 mod 64 * 4096 + k3 mod 64 * 64 + k4 mod 64)) mod 16777216" by (subst s) (simp add: algebra_simps)
  also have "\<dots> = (x * 16777216 + (k1 mod 64 * 262144 + k2 mod 64 * 4096 + k3 mod 64 * 64 + k4 mod 64)) mod 16777216" by (subst s) (simp add: algebra_simps)
  also have "\<dots> = k1 mod 64 * 262144 + k2 mod 64 * 4096 + k3 mod 64 * 64 + k4 mod 64"
  proof -
    have "k mod 64 \<le> 63" for k :: nat using mod_less_divisor [of 64 k] by linarith
    from this [of k1] this [of k2] this [of k3] this [of k4] show ?thesis by simp
  qed
  finally show ?thesis .
qed

lemma digits:
  assumes "b < 256" "c < (256::nat)"
  shows "(a * 65536 + b * 256 + c) div 65536 = a" "(a * 65536 + b * 256 + c) div 256 mod 256 = b" "(a * 65536 + b * 256 + c) mod 256 = c"
proof -
  have e: "a * 65536 + b * 256 + c = (a * 256 + b) * 256 + c" by simp
  have d: "(a * 65536 + b * 256 + c) div 256 = a * 256 + b" unfolding e using assms(2) by (intro div_nat_eqI) auto
  show "(a * 65536 + b * 256 + c) div 65536 = a" using assms by (intro div_nat_eqI) auto
  show "(a * 65536 + b * 256 + c) div 256 mod 256 = b" unfolding d using assms(1) by (simp only: mod_mult_self3 mod_less)
  show "(a * 65536 + b * 256 + c) mod 256 = c" unfolding e using assms(2) by (simp only: mod_mult_self3 mod_less)
qed

lemma bytes_of_register:
  assumes "x mod 16777216 = unat a * 65536 + unat b * 256 + unat (c :: u8)"
  shows "of_nat (x div 65536) = (a :: u8)" "of_nat (x div 256) = (b :: u8)" "of_nat x = c"
proof -
  have l: "unat w < 256" for w :: u8 using unsigned_less [of w] by simp
  have "x div 65536 mod 256 = x mod 16777216 div 65536" using mod_mult2_eq [of x 65536 256] by simp
  moreover have "x div 256 mod 256 = x mod 16777216 div 256 mod 256" using mod_mult2_eq [of x 256 65536] mod_mod_cancel [of 256 65536 "x div 256"] by simp
  moreover have "x mod 256 = x mod 16777216 mod 256" by (simp add: mod_mod_cancel)
  ultimately have "x div 65536 mod 256 = unat a" "x div 256 mod 256 = unat b" "x mod 256 = unat c"
    unfolding assms by (simp_all only: digits [OF l l])
  then show "of_nat (x div 65536) = a" "of_nat (x div 256) = b" "of_nat x = c" by (simp_all add: byte_of_nat)
qed


lemma sixbit_value:
  fixes a b c :: nat
  assumes "a < 256" "b < 256" "c < 256"
  shows "a div 4 mod 64 * 262144 + (a mod 4 * 16 + b div 16) mod 64 * 4096 + (b mod 16 * 4 + c div 64) mod 64 * 64 + c mod 64 =
    a * 65536 + b * 256 + c"
proof -
  have "a div 4 < 64" "b div 16 < 16" "c div 64 < 4" "a mod 4 < 4" "b mod 16 < 16" using assms by (simp_all add: less_mult_imp_div_less)
  then have "a div 4 mod 64 = a div 4" "(a mod 4 * 16 + b div 16) mod 64 = a mod 4 * 16 + b div 16" "(b mod 16 * 4 + c div 64) mod 64 = b mod 16 * 4 + c div 64"
    by simp_all
  then show ?thesis using div_mult_mod_eq [of a 4] div_mult_mod_eq [of b 16] div_mult_mod_eq [of c 64] by linarith
qed

lemma unat_byte_less: "unat (w :: u8) < 256"
  using unsigned_less [of w] by simp

lemma decode_encode_pass: "decode_pass (encode_groups src) 3 0 x = src"
proof (induction src arbitrary: x rule: encode_groups.induct)
  case (1 a b c rest)
  let ?x = "shift_in (shift_in (shift_in (shift_in x (unat a div 4)) (unat a mod 4 * 16 + unat b div 16)) (unat b mod 16 * 4 + unat c div 64)) (unat c)"
  have "?x mod 16777216 = unat a * 65536 + unat b * 256 + unat c"
    unfolding shift_in_4 by (rule sixbit_value) (rule unat_byte_less)+
  from bytes_of_register [OF this] show ?case
    by (simp only: encode_groups.simps append_Cons append_Nil pass_enc "1.IH")
next
  case (2 a b)
  let ?x = "shift_in (shift_in (shift_in (shift_in x (unat a div 4)) (unat a mod 4 * 16 + unat b div 16)) (unat b mod 16 * 4)) 0"
  have "?x mod 16777216 = unat a * 65536 + unat b * 256 + unat (0 :: u8)"
    unfolding shift_in_4 using sixbit_value [OF unat_byte_less unat_byte_less, of 0 a b] by (simp only: div_0 mod_0 add_0_right unsigned_0 zero_less_numeral)
  from bytes_of_register [OF this] show ?case
    by (simp only: encode_groups.simps pass_enc pass_pad)
next
  case (3 a)
  let ?x = "shift_in (shift_in (shift_in (shift_in x (unat a div 4)) (unat a mod 4 * 16)) 0) 0"
  have "?x mod 16777216 = unat a * 65536 + unat (0 :: u8) * 256 + unat (0 :: u8)"
    unfolding shift_in_4 using sixbit_value [OF unat_byte_less, of 0 0 a] by (simp only: div_0 mod_0 mult_0 add_0_right unsigned_0 zero_less_numeral)
  from bytes_of_register [OF this] show ?case
    by (simp only: encode_groups.simps pass_enc pass_pad)
qed simp


subsection \<open>The decoder stays inside its buffer\<close>

lemma dec_map_cases: "unat c \<le> 127 \<Longrightarrow> dec_char c = 127 \<or> dec_char c < 64 \<or> dec_char c = 64 \<and> c = 61"
proof -
  have "list_all (\<lambda>k. dec_map ! k = 127 \<or> dec_map ! k < 64 \<or> k = 61) [0..<128]" by code_simp
  moreover assume "unat c \<le> 127"
  ultimately have "dec_char c = 127 \<or> dec_char c < 64 \<or> unat c = 61" by (simp add: list_all_iff dec_char_def)
  moreover have "c = 61" if "unat c = 61" using byte_of_nat [of 61 c] that by simp
  ultimately show ?thesis using dec_pad by blast
qed

lemma dec_blank: "dec_char 13 = 127"
  by code_simp

text \<open>The bytes written when \<open>n\<close> characters, \<open>j\<close> of them padding at the end, have been read.\<close>

definition written :: "nat \<Rightarrow> nat \<Rightarrow> nat" where
  "written n j = 3 * (n div 4) - (if n mod 4 = 0 then j else if n mod 4 = 1 then j - 1 else 0)"

lemma written_counted: "j \<le> 2 \<Longrightarrow> j \<le> n \<Longrightarrow> written n j \<le> (n * 6 + 7) div 8 - j"
proof -
  assume a: "j \<le> 2" "j \<le> n"
  define q where "q = n div 4"
  have n: "n = 4 * q + n mod 4" by (simp add: q_def)
  have "n mod 4 = 0 \<or> n mod 4 = 1 \<or> n mod 4 = 2 \<or> n mod 4 = 3" by linarith
  then show ?thesis
  proof (elim disjE)
    assume r: "n mod 4 = 0"
    with n have "n * 6 + 7 = 8 * (3 * q) + 7" by simp
    then have "(n * 6 + 7) div 8 = 3 * q" by simp
    then show ?thesis using r by (simp add: written_def q_def)
  next
    assume r: "n mod 4 = 1"
    with n have "n * 6 + 7 = 8 * (3 * q + 1) + 5" by simp
    then have "(n * 6 + 7) div 8 = 3 * q + 1" by simp
    then show ?thesis using r a by (auto simp: written_def q_def)
  next
    assume r: "n mod 4 = 2"
    with n have "n * 6 + 7 = 8 * (3 * q + 2) + 3" by simp
    then have "(n * 6 + 7) div 8 = 3 * q + 2" by simp
    then show ?thesis using r a by (simp add: written_def q_def)
  next
    assume r: "n mod 4 = 3"
    with n have "n * 6 + 7 = 8 * (3 * q + 3) + 1" by simp
    then have "(n * 6 + 7) div 8 = 3 * q + 3" by simp
    then show ?thesis using r a by (simp add: written_def q_def)
  qed
qed


lemma written_step:
  assumes "j' = j \<and> j = 0 \<or> j' = j + 1 \<and> j' \<le> 2" "j \<le> n"
  shows "written (n + 1) j' = written n j + (if n mod 4 = 3 then 3 - j' else 0)"
proof -
  define q where "q = n div 4"
  have n: "n = 4 * q + n mod 4" by (simp add: q_def)
  have "n mod 4 = 0 \<or> n mod 4 = 1 \<or> n mod 4 = 2 \<or> n mod 4 = 3" by linarith
  then show ?thesis
  proof (elim disjE)
    assume r: "n mod 4 = 3"
    with n have "n + 1 = 4 * (q + 1)" by simp
    then have "(n + 1) div 4 = q + 1" "(n + 1) mod 4 = 0" by simp_all
    then show ?thesis using r assms by (auto simp: written_def q_def)
  next
    assume r: "n mod 4 = 0"
    with n have e: "n + 1 = 4 * q + 1" by simp
    then have "(n + 1) div 4 = q" "(n + 1) mod 4 = 1" by simp_all
    then show ?thesis using r assms by (auto simp: written_def q_def)
  next
    assume r: "n mod 4 = 1"
    with n have e: "n + 1 = 4 * q + 2" by simp
    then have "(n + 1) div 4 = q" "(n + 1) mod 4 = 2" by presburger+
    then show ?thesis using r assms by (auto simp: written_def q_def)
  next
    assume r: "n mod 4 = 2"
    with n have e: "n + 1 = 4 * q + 3" by simp
    then have "(n + 1) div 4 = q" "(n + 1) mod 4 = 3" by presburger+
    then show ?thesis using r assms by (auto simp: written_def q_def)
  qed
qed

lemma pass_spaces: "decode_pass (dropWhile (\<lambda>c. c = 32) src) j n x = decode_pass src j n x"
  by (induction src) simp_all

lemma pass_char:
  assumes "c \<noteq> 13" "c \<noteq> 10" "c \<noteq> 32" "j' = j \<and> dec_char c < 64 \<or> j' = j + 1 \<and> dec_char c = 64" "j' \<le> 2"
  shows "length (decode_pass (c # cs) (3 - j) (n mod 4) x) =
    (if n mod 4 = 3 then 3 - j' else 0) + length (decode_pass cs (3 - j') ((n + 1) mod 4) (x * 64 mod 4294967296 + dec_char c mod 64))"
proof (cases "n mod 4 = 3")
  case True
  then have "(n + 1) mod 4 = 0" by presburger
  moreover have "j' = 0 \<or> j' = 1 \<or> j' = 2" using assms(5) by linarith
  ultimately show ?thesis using True assms by (auto simp: Let_def)
next
  case False
  then have "n mod 4 < 3" using mod_less_divisor [of 4 n] by linarith
  then have "(n + 1) mod 4 = n mod 4 + 1" by presburger
  then show ?thesis using False assms by (auto simp: Let_def)
qed

lemma pass_bound:
  "decode_check src n j = Some (n', j') \<Longrightarrow> j \<le> 2 \<Longrightarrow> j \<le> n \<Longrightarrow>
   length (decode_pass src (3 - j) (n mod 4) x) + written n j \<le> (n' * 6 + 7) div 8 - j'"
proof (induction src n j arbitrary: x rule: decode_check.induct)
  case (1 src n j)
  let ?d = "dropWhile (\<lambda>c. c = 32) src"
  have ps: "decode_pass src (3 - j) (n mod 4) x = decode_pass ?d (3 - j) (n mod 4) x" by (simp add: pass_spaces)
  show ?case
  proof (cases ?d)
    case Nil
    then have "decode_check src n j = Some (n, j)" unfolding decode_check.simps [of src] by (simp only: list.case)
    then have "n' = n" "j' = j" using "1.prems"(1) by simp_all
    then show ?thesis using ps Nil written_counted "1.prems"(2,3) by simp
  next
    case (Cons c cs)
    note ch = "1.prems"(1) [unfolded decode_check.simps [of src] Cons list.case]
    have c32: "c \<noteq> 32" using hd_dropWhile [of "\<lambda>c. c = 32" src] Cons by auto
    show ?thesis
    proof (cases "c = 13 \<and> cs \<noteq> [] \<and> hd cs = 10 \<or> c = 10")
      case True
      then have "decode_check cs n j = Some (n', j')" using ch by (auto split: if_splits)
      then have "length (decode_pass cs (3 - j) (n mod 4) x) + written n j \<le> (n' * 6 + 7) div 8 - j'"
        using "1.IH"(1,2) [OF Cons] True "1.prems"(2,3) by blast
      then show ?thesis using ps Cons True by auto
    next
      case False
      define k where "k = (if c = 61 then j + 1 else j)"
      from ch False have ok: "length src = length (c # cs)" "\<not> (c = 61 \<and> k > 2)" "\<not> (unat c > 127 \<or> dec_char c = 127)" "\<not> (dec_char c < 64 \<and> k \<noteq> 0)"
        and nx: "decode_check cs (n + 1) k = Some (n', j')" by (auto simp: k_def Let_def split: if_splits)
      have cs: "k = j \<and> dec_char c < 64 \<and> k = 0 \<or> k = j + 1 \<and> dec_char c = 64 \<and> k \<le> 2"
        using dec_map_cases [of c] dec_pad ok by (auto simp: k_def not_less)
      have n13: "c \<noteq> 13" using ok(3) dec_blank by auto
      define y where "y = x * 64 mod 4294967296 + dec_char c mod 64"
      have ih: "length (decode_pass cs (3 - k) ((n + 1) mod 4) y) + written (n + 1) k \<le> (n' * 6 + 7) div 8 - j'"
        using "1.IH"(3) [OF Cons _ _ _ k_def] False ok nx cs "1.prems"(3) by auto
      have "length (decode_pass (c # cs) (3 - j) (n mod 4) x) = (if n mod 4 = 3 then 3 - k else 0) + length (decode_pass cs (3 - k) ((n + 1) mod 4) y)"
        unfolding y_def by (rule pass_char) (use n13 c32 False cs in auto)
      moreover have "written (n + 1) k = written n j + (if n mod 4 = 3 then 3 - k else 0)"
        by (rule written_step) (use cs "1.prems"(3) in auto)
      ultimately show ?thesis using ih unfolding ps Cons by linarith
    qed
  qed
qed


subsection \<open>Properties\<close>

lemma encode_length: "length (encode_groups src) = 4 * ((length src + 2) div 3)"
proof (induction src rule: encode_groups.induct)
  case (1 a b c rest)
  moreover have "(length rest + 5) div 3 = (length rest + 2) div 3 + 1" by presburger
  ultimately show ?case by (simp add: add.commute [of 5])
qed simp_all

lemma group_count: "n div 3 + (if n mod 3 \<noteq> 0 then 1 else 0) = (n + 2) div (3::nat)"
  by presburger

lemma decode_encode:
  assumes "src \<noteq> []" "length src \<le> length dst2"
  shows "base64_decode olen (Some dst2) (encode_groups src) = (0, length src, Some (put_bytes 0 src dst2))"
proof -
  have c: "decode_check (encode_groups src) 0 0 = Some (0 + 4 * ((length src + 2) div 3), (3 - length src mod 3) mod 3)" by (rule check_encode)
  have "(length src + 2) div 3 \<noteq> 0" using assms(1) by (cases src) simp_all
  then show ?thesis
    unfolding base64_decode_def c using assms(2) counted [of "length src"] decode_encode_pass [of src 0] by (simp add: Let_def)
qed

lemma enc_char_nonzero: "enc_char k \<noteq> 0"
proof
  assume "enc_char k = 0"
  then have "enc_map ! (k mod 64) = 0" using enc_char_unat [of k] by simp
  moreover have "list_all (\<lambda>k. enc_map ! k \<noteq> 0) [0..<64]" by code_simp
  moreover have "k mod 64 \<in> set [0..<64]" by simp
  ultimately show False unfolding list_all_iff by blast
qed

lemma encode_nonzero: "0 \<notin> set (encode_groups src)"
  by (induction src rule: encode_groups.induct) (auto simp: enc_char_nonzero dest: sym)

text \<open>
  C15: Decoding inverts encoding. If the destination has room for four characters per three bytes begun
  and a terminating zero, encoding succeeds, terminates the text, and decoding the text into a buffer
  that is large enough gives back exactly the bytes. If the destination is smaller, encoding reports the
  size that is needed and writes nothing.
\<close>
theorem base64_roundtrip:
  assumes "src \<noteq> []" "length src < 3000000000" "length src \<le> length dst2"
  defines "need \<equiv> 4 * ((length src + 2) div 3) + 1"
  shows "(need \<le> length dst \<longrightarrow>
      (\<exists>text. base64_encode dst src = (0, length text, put_bytes 0 (text @ [0]) dst) \<and> length text + 1 = need \<and>
         base64_decode olen (Some dst2) text = (0, length src, Some (put_bytes 0 src dst2)))) \<and>
    (length dst < need \<longrightarrow> base64_encode dst src = (- 42, need, dst))"
proof -
  let ?t = "encode_groups src"
  have l: "(length src + 2) div 3 \<le> 1000000000" using assms(2) by linarith
  have e: "base64_encode dst src = (if length dst < need then (- 42, need, dst) else (0, length ?t, put_bytes 0 (?t @ [0]) dst))"
    unfolding base64_encode_def group_count need_def using assms(1) l by (simp add: Let_def)
  have d: "base64_decode olen (Some dst2) ?t = (0, length src, Some (put_bytes 0 src dst2))" by (rule decode_encode [OF assms(1,3)])
  show ?thesis using e d encode_length [of src] need_def by (auto intro!: exI [of _ ?t])
qed

theorem base64_roundtrip_witness:
  "\<exists>text. base64_encode (replicate 9 0) [77, 97, 110, 33] = (0, length text, put_bytes 0 (text @ [0]) (replicate 9 0)) \<and>
     base64_decode 0 (Some [0, 0, 0, 0]) text = (0, 4, Some (put_bytes 0 [77, 97, 110, 33] [0, 0, 0, 0]))"
  using base64_roundtrip [of "[77, 97, 110, 33]" "[0, 0, 0, 0]" "replicate 9 0" 0] by auto

text \<open>
  The decoder never writes outside its destination, whatever the text is: with blanks, line ends and
  padding in any place the first pass lets through, a successful decoding reports at most as many bytes as
  the destination has, and changes only these.
\<close>
theorem base64_decode_in_bounds:
  assumes "base64_decode olen (Some d) src = (0, n, Some d')"
  shows "n \<le> length d \<and> length d' = length d \<and> drop n d' = drop n d"
proof -
  have pb: "drop (length out) (put_bytes 0 out d) = drop (length out) d" for out
    by (rule nth_equalityI) (auto simp: nth_put_bytes)
  show ?thesis
  proof (cases "decode_check src 0 0")
    case None
    then show ?thesis using assms by (simp add: base64_decode_def)
  next
    case (Some m)
    obtain k j where m: "m = (k, j)" by (cases m)
    have "length (decode_pass src 3 0 0) + written 0 0 \<le> (k * 6 + 7) div 8 - j"
      using pass_bound [of src 0 0 k j 0] Some m by simp
    then show ?thesis using assms Some m pb by (auto simp: base64_decode_def Let_def split: if_splits)
  qed
qed

theorem base64_decode_in_bounds_witness:
  "drop 1 (the (snd (snd (base64_decode 0 (Some [5, 6, 7]) [81, 81, 61, 61])))) = [6, 7]"
proof -
  have "dec_char 81 = 16" by code_simp
  then have d: "base64_decode 0 (Some [5, 6, 7]) [81, 81, 61, 61] = (0, 1, Some [65, 6, 7])"
    using dec_pad by (simp add: base64_decode_def decode_check.simps Let_def put_bytes.simps)
  show ?thesis using base64_decode_in_bounds [OF d] unfolding d by simp
qed

end
