(* ===== verification/WebSocket.thy ===== *)
theory WebSocket
  imports HttpUpload Base64
begin

text \<open>
  Web sockets, \<^verbatim>\<open>src/supports/lwip/lwip/src/exts/http/httpWebSocket.c\<close>: the opening handshake, which answers
  the key of the client with a digest in base64, and the frames. The digest function is the one of the
  PPP code and is a parameter. The lemmas show the handshake, the removal of the mask from a frame, and
  how far the unchecked length of a frame reaches.
\<close>

subsection \<open>Frames\<close>

text \<open>
  Data to send are either given, or the buffer of the connection itself, into which the frame is
  written too. Copying between overlapping ranges, which C leaves undefined, is recorded as a fault.
\<close>

datatype ws_src = ConnData | Bytes bytes

definition ws_header :: "u8 \<Rightarrow> nat \<Rightarrow> bytes" where
  "ws_header opCode len =
     (if len > 125 then [0x80 OR opCode, 126, of_nat (len div 256), of_nat len] else [0x80 OR opCode, of_nat len])"

definition extHttpWebSocketWrite :: "ws_src \<Rightarrow> nat \<Rightarrow> u8 \<Rightarrow> MuxHttpConn \<Rightarrow> nat \<times> MuxHttpConn" where
  "extHttpWebSocketWrite src len opCode c =
     (let hdr = ws_header opCode len; offset = length hdr;
          d = put_bytes 0 hdr (h_data c);
          n = (if offset + len > DATA_SIZE then DATA_SIZE - offset else len);
          (xs, bad) = (case src of ConnData \<Rightarrow> (take n d, n > offset) | Bytes b \<Rightarrow> (take n b, n > length b))
      in (n, c\<lparr>h_data := put_bytes offset xs d, dataSendIndex := offset + n, httpStatusCode := 200, h_fault := (h_fault c \<or> bad)\<rparr>))"

text \<open>The bytes \<open>extHttpWebSocketSendClose\<close> gives to TCP: the status 1000.\<close>

definition extHttpWebSocketSendClose :: bytes where
  "extHttpWebSocketSendClose = [0x88, 0x02, 0x03, 0xe8]"

text \<open>The loop that removes the mask, in place: the key is the four bytes before the payload.\<close>

definition unmaskAt :: "nat \<Rightarrow> nat \<Rightarrow> bytes \<Rightarrow> bytes" where
  "unmaskAt off n q = map (\<lambda>j. if off \<le> j \<and> j < off + n then q ! j XOR q ! (off - 4 + (j - off) mod 4) else q ! j) [0..<length q]"

abbreviation (input) ERR_VAL :: int where "ERR_VAL \<equiv> -6"
abbreviation (input) ERR_CLSD :: int where "ERR_CLSD \<equiv> -15"

text \<open>
  A text or binary frame in the chain \<open>q # qs\<close> of packet buffers, whose first one has more than six bytes.
  The result has the chain as the call leaves it.
\<close>

definition wsData :: "bytes \<Rightarrow> bytes list \<Rightarrow> MuxHttpConn \<Rightarrow> int \<times> bytes list \<times> MuxHttpConn" where
  "wsData q qs c =
     (let l7 = unat (q ! 1 AND 0x7F)
      in if l7 = 127 then (ERR_OK, q # qs, c)
         else let (off, payloadLen) = (if l7 = 126 then (8, unat (q ! 2) * 256 + unat (q ! 3)) else (6, l7)) in
           if payloadLen > length (concat (q # qs)) then (ERR_VAL, q # qs, c)
           else let q' = unmaskAt off payloadLen q;
                    xs = get_bytes off payloadLen (concat (q' # qs));
                    copied = length xs;
                    c1 = c\<lparr>h_data := (put_bytes 0 xs (h_data c))[copied := 0],
                           h_fault := (h_fault c \<or> off + payloadLen > length q \<or> copied \<ge> DATA_SIZE)\<rparr>
                in (ERR_OK, q' # qs, snd (extHttpWebSocketWrite ConnData payloadLen 1 c1)))"

definition extHttpWebSocketParseFrame :: "bytes list \<Rightarrow> MuxHttpConn \<Rightarrow> int \<times> bytes list \<times> MuxHttpConn" where
  "extHttpWebSocketParseFrame p c =
     (case p of
        [] \<Rightarrow> (ERR_VAL, p, c)
      | q # qs \<Rightarrow>
          if length (concat p) \<le> 1 then (ERR_VAL, p, c)
          else let c0 = c\<lparr>h_fault := (h_fault c \<or> length q < 1)\<rparr> in
            if q ! 0 AND 0x80 = 0 then (ERR_OK, p, c0)
            else let opcode = q ! 0 AND 0x0F in
              if opcode = 1 \<or> opcode = 2 then (if length q > 6 then wsData q qs c0 else (ERR_OK, p, c0))
              else if opcode = 8 then (ERR_CLSD, p, c0)
              else (ERR_OK, p, c0))"

subsection \<open>Handshake\<close>

definition strcasestr :: "bytes \<Rightarrow> bytes \<Rightarrow> nat option" where
  "strcasestr s token = memmem (map to_lower token) (map to_lower (c_string s))"

definition strstr :: "bytes \<Rightarrow> bytes \<Rightarrow> nat option" where
  "strstr s token = memmem token (c_string s)"

definition WEBSOCKET_HEADER :: bytes where
  "WEBSOCKET_HEADER = ascii ''Upgrade: websocket'' @ CRLF"

definition WEBSOCKET_GUID :: bytes where
  "WEBSOCKET_GUID = ascii ''258EAFA5-E914-47DA-95CA-C5AB0DC85B11''"

definition WEBSOCKET_KEY :: bytes where
  "WEBSOCKET_KEY = ascii ''Sec-WebSocket-Key: ''"

definition WEBSOCKET_RESPONSE_HEADER :: bytes where
  "WEBSOCKET_RESPONSE_HEADER = ascii ''HTTP/1.1 101 Switching Protocols'' @ CRLF @ ascii ''Upgrade: websocket'' @ CRLF @
     ascii ''Connection: Upgrade'' @ CRLF @ ascii ''Sec-WebSocket-Accept: ''"

text \<open>
  \<open>data\<close> is the request up to a zero byte. The bytes given to TCP are part of the result. \<open>uri\<close> is used
  as a buffer of 128 bytes, first for the key, then for the text of the digest.
\<close>

definition extHttpWebSocketParseHeader :: "(bytes \<Rightarrow> bytes) \<Rightarrow> bytes \<Rightarrow> MuxHttpConn \<Rightarrow> int \<times> bytes list \<times> MuxHttpConn" where
  "extHttpWebSocketParseHeader sha1 data c =
     (if strcasestr data WEBSOCKET_HEADER = None then (EXIT_FAILURE, [], c)
      else let c1 = c\<lparr>reqType := REQ_WEBSOCKET\<rparr>; bad = (EXIT_SUCCESS, [extHttpWebSocketSendClose], c1) in
        case strcasestr data WEBSOCKET_KEY of
          None \<Rightarrow> bad
        | Some k \<Rightarrow>
            (let keyStart = drop (k + length WEBSOCKET_KEY) data
             in case strstr keyStart CRLF of
                  None \<Rightarrow> bad
                | Some keyLen \<Rightarrow>
                    if keyLen + (length WEBSOCKET_GUID + 1) < URI_SIZE \<and> keyLen > 0
                    then let sha1sum = sha1 (take keyLen keyStart @ WEBSOCKET_GUID);
                             uri0 = put_bytes 0 (take keyLen keyStart @ WEBSOCKET_GUID @ [0]) (replicate URI_SIZE 0);
                             dst = snd (snd (base64_encode (take 29 uri0) sha1sum));
                             uri = c_string (put_bytes 0 dst uri0);
                             text = take (DATA_SIZE - 1) (WEBSOCKET_RESPONSE_HEADER @ uri @ CRLF @ CRLF)
                         in (EXIT_SUCCESS, [text], c1\<lparr>h_uri := uri, h_data := put_bytes 0 (text @ [0]) (h_data c1)\<rparr>)
                    else bad))"

subsection \<open>Frames of a client\<close>

text \<open>A frame as RFC 6455 asks a client to send it: final, masked, with a length of 7 or 16 bits.\<close>

definition ws_mask :: "bytes \<Rightarrow> bytes \<Rightarrow> bytes" where
  "ws_mask key d = map (\<lambda>i. d ! i XOR key ! (i mod 4)) [0..<length d]"

definition ws_client_header :: "u8 \<Rightarrow> nat \<Rightarrow> bytes" where
  "ws_client_header opcode n = (if n < 126 then [0x80 OR opcode, 0x80 OR of_nat n] else [0x80 OR opcode, 0xFE, of_nat (n div 256), of_nat n])"

lemma and_127: "(x::u8) AND 127 = take_bit 7 x"
proof -
  have "(127::u8) = mask 7" by (simp add: mask_eq_exp_minus_1)
  then show ?thesis by (simp add: take_bit_eq_mask)
qed

lemma length_field: "n < 128 \<Longrightarrow> unat ((0x80 OR of_nat n :: u8) AND 0x7F) = n"
proof -
  assume n: "n < 128"
  have "take_bit 7 (0x80 OR of_nat n :: u8) = take_bit 7 0x80 OR take_bit 7 (of_nat n)" by (rule take_bit_or)
  also have "\<dots> = take_bit 7 (of_nat n)" by simp
  finally have "unat ((0x80 OR of_nat n :: u8) AND 0x7F) = take_bit 7 (unat (of_nat n :: u8))" by (simp add: and_127 unsigned_take_bit_eq)
  also have "\<dots> = n" using n by (simp add: unat_of_nat take_bit_eq_mod)
  finally show ?thesis .
qed

lemma split_16: "n < 65536 \<Longrightarrow> unat (of_nat (n div 256) :: u8) * 256 + unat (of_nat n :: u8) = n"
  by (simp add: unat_of_nat)

lemma unmaskAt_mask:
  assumes "length key = 4" "off = length hdr + 4"
  shows "unmaskAt off (length d) (hdr @ key @ ws_mask key d) = hdr @ key @ d"
proof (rule nth_equalityI)
  fix j assume "j < length (unmaskAt off (length d) (hdr @ key @ ws_mask key d))"
  then have j: "j < off + length d" using assms by (simp add: unmaskAt_def ws_mask_def)
  show "unmaskAt off (length d) (hdr @ key @ ws_mask key d) ! j = (hdr @ key @ d) ! j"
  proof (cases "off \<le> j")
    case True
    then obtain i where i: "j = off + i" "i < length d" using j le_Suc_ex by (metis nat_add_left_cancel_less)
    have "(hdr @ key @ ws_mask key d) ! j = d ! i XOR key ! (i mod 4)" "(hdr @ key @ d) ! j = d ! i"
      using i assms by (simp_all add: nth_append ws_mask_def)
    moreover have "(hdr @ key @ ws_mask key d) ! (off - 4 + i mod 4) = key ! (i mod 4)" using assms by (simp add: nth_append)
    ultimately show ?thesis using i assms by (simp add: unmaskAt_def ws_mask_def xor.assoc)
  next
    case False
    then show ?thesis using j assms by (auto simp: unmaskAt_def ws_mask_def nth_append)
  qed
qed (use assms in \<open>simp add: unmaskAt_def ws_mask_def\<close>)

lemma client_header:
  fixes n :: nat
  assumes "opcode = 1 \<or> opcode = 2" "n < 65536"
  defines "hdr \<equiv> ws_client_header opcode n"
  shows "hdr ! 0 AND 0x80 \<noteq> 0" "hdr ! 0 AND 0x0F = opcode" "length hdr = (if n < 126 then 2 else 4)"
    "unat (hdr ! 1 AND 0x7F) = (if n < 126 then n else 126)" "\<not> n < 126 \<Longrightarrow> unat (hdr ! 2) * 256 + unat (hdr ! 3) = n"
  using assms(1) length_field [of n] split_16 [OF assms(2)] by (auto simp: hdr_def ws_client_header_def)


text \<open>
  The length of a frame is compared with the wrong bound. A text or binary frame in one packet buffer that
  announces up to six bytes more than follow its header passes the check, and the removal of the mask
  changes memory behind the packet.
\<close>
theorem ws_length_overruns:
  assumes "q ! 0 AND 0x80 \<noteq> 0" "q ! 0 AND 0x0F = 1 \<or> q ! 0 AND 0x0F = 2" "6 < length q"
    and "unat (q ! 1 AND 0x7F) < 126" "length q - 6 < unat (q ! 1 AND 0x7F)" "unat (q ! 1 AND 0x7F) \<le> length q"
  shows "fst (extHttpWebSocketParseFrame [q] c) = ERR_OK \<and> h_fault (snd (snd (extHttpWebSocketParseFrame [q] c)))"
proof -
  have "fst (wsData q [] c0) = ERR_OK \<and> h_fault (snd (snd (wsData q [] c0)))" for c0
    using assms(3-6) by (auto simp: wsData_def extHttpWebSocketWrite_def Let_def)
  then show ?thesis using assms(1-3) by (auto simp: extHttpWebSocketParseFrame_def)
qed

text \<open>
  The reply to a frame is not its payload: header and length of the reply are written over the first
  two bytes of the payload before they are copied.
\<close>
theorem ws_reply_overwrites_payload:
  assumes "2 \<le> n" "n < 126" "length (h_data c) = DATA_SIZE"
  shows "take 4 (h_data (snd (extHttpWebSocketWrite ConnData n 1 c))) = [0x81, of_nat n, 0x81, of_nat n]"
proof -
  let ?d = "put_bytes 0 [0x81, of_nat n] (h_data c)"
  have t: "take 2 ?d = [0x81, of_nat n]" using take_put_append [of 0 "[0x81, of_nat n]" "h_data c"] assms(3) by (simp add: numeral_2_eq_2)
  have "take (2 + length (take n ?d)) (put_bytes 2 (take n ?d) ?d) = take 2 ?d @ take n ?d"
    using take_put_append [of 2 "take n ?d" ?d] assms(2,3) by simp
  from arg_cong [OF this, of "take 4"] have "take 4 (put_bytes 2 (take n ?d) ?d) = take 4 (take 2 ?d @ take n ?d)"
    using assms by (simp add: min_def)
  also have "\<dots> = take 2 ?d @ take 2 ?d" using assms by (simp add: min_def)
  finally show ?thesis using t assms(2) by (simp add: extHttpWebSocketWrite_def ws_header_def Let_def numeral_2_eq_2)
qed

subsection \<open>The handshake\<close>

lemma accept_text:
  assumes "length uri0 = URI_SIZE" "length digest = 20"
  shows "c_string (put_bytes 0 (snd (snd (base64_encode (take 29 uri0) digest))) uri0) = encode_groups digest"
proof -
  let ?t = "encode_groups digest"
  have t: "length ?t = 28" using encode_length [of digest] assms(2) by simp
  have e: "snd (snd (base64_encode (take 29 uri0) digest)) = put_bytes 0 (?t @ [0]) (take 29 uri0)"
    using assms by (simp add: base64_encode_def Let_def)
  have "take 29 (put_bytes 0 (?t @ [0]) (take 29 uri0)) = ?t @ [0]"
    using take_put_append [of 0 "?t @ [0]" "take 29 uri0"] t assms(1) by simp
  then have "put_bytes 0 (?t @ [0]) (take 29 uri0) = ?t @ [0]" using assms(1) by simp
  moreover have "take 29 (put_bytes 0 (?t @ [0]) uri0) = ?t @ [0]" using take_put_append [of 0 "?t @ [0]" uri0] t assms(1) by simp
  then have "put_bytes 0 (?t @ [0]) uri0 = (?t @ [0]) @ drop 29 (put_bytes 0 (?t @ [0]) uri0)" by (metis append_take_drop_id)
  moreover have "takeWhile (\<lambda>c. c \<noteq> 0) (?t @ 0 # r) = ?t" for r
    using encode_nonzero [of digest] takeWhile_append2 [of ?t "\<lambda>c. c \<noteq> 0" "0 # r"] by fastforce
  ultimately show ?thesis unfolding e by (metis append.assoc append_Cons append_Nil c_string_def)
qed

lemma length_CRLF: "length CRLF = 2"
  by (simp add: CRLF_def)

lemma ws_lengths: "length WEBSOCKET_GUID = 36" "length WEBSOCKET_RESPONSE_HEADER = 97"
  by (simp_all add: WEBSOCKET_GUID_def WEBSOCKET_RESPONSE_HEADER_def ascii_def CRLF_def)

lemma handshake_reply:
  assumes "\<forall>m. length (sha1 m) = 20" "strcasestr data WEBSOCKET_HEADER \<noteq> None" "strcasestr data WEBSOCKET_KEY = Some k"
    and "rest = drop (k + length WEBSOCKET_KEY) data" "strstr rest CRLF = Some n" "1 \<le> n" "n \<le> 90"
  defines "t \<equiv> encode_groups (sha1 (take n rest @ WEBSOCKET_GUID))"
  shows "\<exists>c'. extHttpWebSocketParseHeader sha1 data c = (EXIT_SUCCESS, [WEBSOCKET_RESPONSE_HEADER @ t @ CRLF @ CRLF], c') \<and> reqType c' = REQ_WEBSOCKET"
proof -
  let ?uri0 = "put_bytes 0 (take n rest @ WEBSOCKET_GUID @ [0]) (replicate URI_SIZE 0)"
  let ?c = "c\<lparr>reqType := REQ_WEBSOCKET\<rparr>"
  let ?text = "WEBSOCKET_RESPONSE_HEADER @ t @ CRLF @ CRLF"
  have uri: "c_string (put_bytes 0 (snd (snd (base64_encode (take 29 ?uri0) (sha1 (take n rest @ WEBSOCKET_GUID))))) ?uri0) = t"
    unfolding t_def by (rule accept_text) (simp_all add: assms(1))
  have "length t = 28" using encode_length [of "sha1 (take n rest @ WEBSOCKET_GUID)"] assms(1) by (simp add: t_def)
  then have "length ?text \<le> DATA_SIZE - 1" using ws_lengths(2) by (simp add: CRLF_def)
  then have tx: "take (DATA_SIZE - 1) ?text = ?text" by (rule take_all)
  have key: "n + (length WEBSOCKET_GUID + 1) < URI_SIZE" "n > 0" using assms(6,7) ws_lengths(1) by simp_all
  have "extHttpWebSocketParseHeader sha1 data c =
      (EXIT_SUCCESS, [?text], ?c\<lparr>h_uri := t, h_data := put_bytes 0 (?text @ [0]) (h_data ?c)\<rparr>)"
    using assms(2) key unfolding extHttpWebSocketParseHeader_def Let_def assms(3) option.case assms(4) [symmetric] assms(5) uri tx by simp
  then show ?thesis by simp
qed

text \<open>
  C26: The opening handshake. A request without the upgrade header is left alone. A request with it and a
  key of 1 to 90 characters is answered by the status 101 with the digest of the key and the fixed identifier in
  base64, from which the client can decode the digest; the connection then takes frames. Any other request
  with the upgrade header is answered by a close frame, and the connection takes frames all the same.
\<close>
theorem ws_handshake:
  fixes c :: MuxHttpConn
  assumes "\<forall>m. length (sha1 m) = 20"
  defines "close_reply \<equiv> (EXIT_SUCCESS, [extHttpWebSocketSendClose], c\<lparr>reqType := REQ_WEBSOCKET\<rparr>)"
  shows "if strcasestr data WEBSOCKET_HEADER = None then extHttpWebSocketParseHeader sha1 data c = (EXIT_FAILURE, [], c)
    else case strcasestr data WEBSOCKET_KEY of
      None \<Rightarrow> extHttpWebSocketParseHeader sha1 data c = close_reply
    | Some k \<Rightarrow>
        (case strstr (drop (k + length WEBSOCKET_KEY) data) CRLF of
           None \<Rightarrow> extHttpWebSocketParseHeader sha1 data c = close_reply
         | Some n \<Rightarrow>
             if 1 \<le> n \<and> n \<le> 90
             then (\<exists>t c'. extHttpWebSocketParseHeader sha1 data c = (EXIT_SUCCESS, [WEBSOCKET_RESPONSE_HEADER @ t @ CRLF @ CRLF], c') \<and> reqType c' = REQ_WEBSOCKET \<and>
                    base64_decode 0 (Some (replicate 20 0)) t =
                      (0, 20, Some (sha1 (take n (drop (k + length WEBSOCKET_KEY) data) @ WEBSOCKET_GUID))))
             else extHttpWebSocketParseHeader sha1 data c = close_reply)"
proof (cases "strcasestr data WEBSOCKET_KEY")
  case None
  then show ?thesis by (simp add: extHttpWebSocketParseHeader_def close_reply_def)
next
  case (Some k)
  let ?rest = "drop (k + length WEBSOCKET_KEY) data"
  show ?thesis
  proof (cases "strstr ?rest CRLF")
    case None
    then show ?thesis using Some by (simp add: extHttpWebSocketParseHeader_def close_reply_def)
  next
    case n: (Some n)
    let ?digest = "sha1 (take n ?rest @ WEBSOCKET_GUID)"
    have l: "length ?digest = 20" using assms(1) by simp
    have "take 20 (put_bytes 0 ?digest (replicate 20 0)) = ?digest" using take_put_append [of 0 ?digest "replicate 20 0"] l by simp
    then have "put_bytes 0 ?digest (replicate 20 0) = ?digest" by simp
    then have "base64_decode 0 (Some (replicate 20 0)) (encode_groups ?digest) = (0, 20, Some ?digest)"
      using decode_encode [of ?digest "replicate 20 0" 0] l by fastforce
    moreover have "extHttpWebSocketParseHeader sha1 data c = close_reply" if "\<not> (1 \<le> n \<and> n \<le> 90)" "strcasestr data WEBSOCKET_HEADER \<noteq> None"
      using that Some n ws_lengths(1) by (auto simp: extHttpWebSocketParseHeader_def close_reply_def)
    moreover have "extHttpWebSocketParseHeader sha1 data c = (EXIT_FAILURE, [], c)" if "strcasestr data WEBSOCKET_HEADER = None"
      using that by (simp add: extHttpWebSocketParseHeader_def)
    ultimately show ?thesis using handshake_reply [OF assms(1) _ Some refl n, of c] Some n by (auto simp del: drop_append)
  qed
qed

subsubsection \<open>Examples\<close>

definition ws_request_example :: bytes where
  "ws_request_example = ascii ''upgrade: WebSocket'' @ CRLF @ ascii ''sec-websocket-key: ab'' @ CRLF @ [0]"

lemma ws_request_example_simps:
  "strcasestr ws_request_example WEBSOCKET_HEADER = Some 0" "strcasestr ws_request_example WEBSOCKET_KEY = Some 20"
  "strstr (drop (20 + length WEBSOCKET_KEY) ws_request_example) CRLF = Some 2"
  by code_simp+

theorem ws_handshake_witness:
  "fst (extHttpWebSocketParseHeader (\<lambda>_. replicate 20 7) ws_request_example (conn_example 0)) = EXIT_SUCCESS \<and>
   length (concat (fst (snd (extHttpWebSocketParseHeader (\<lambda>_. replicate 20 7) ws_request_example (conn_example 0))))) \<ge> 101"
  using ws_handshake [of "\<lambda>_. replicate 20 7" ws_request_example "conn_example 0"]
  by (auto simp: ws_request_example_simps ws_lengths length_CRLF)


theorem ws_length_overruns_witness:
  "h_fault (snd (snd (extHttpWebSocketParseFrame [[0x81, 0x88, 1, 2, 3, 4, 5, 6]] (conn_example 0))))"
  using ws_length_overruns [of "[0x81, 0x88, 1, 2, 3, 4, 5, 6]" "conn_example 0"] by simp

end
