(* ===== verification/HttpRequest.thy ===== *)
theory HttpRequest
  imports WebSocket
begin

text \<open>
  Requests to the web server, \<^verbatim>\<open>src/supports/lwip/lwip/src/exts/http/httpRequest.c\<close>: collecting packets until a
  request can be parsed, the method and the address, and the dispatch to web sockets, uploads and all
  other requests. The code that answers the latter, and the one that finds the page of an error, are
  parameters. Keep-alive is switched off in the configuration, HTTP 0.9 is switched on.
\<close>

datatype HTTP_METHOD_T =
  HTTP_METHOD_UNKNOWN | HTTP_METHOD_GET | HTTP_METHOD_POST | HTTP_METHOD_PUT | HTTP_METHOD_DELETE | HTTP_METHOD_PATCH

text \<open>
  A connection with the fields the request parser adds. \<open>sendingFile\<close>: a file is being sent
  (\<open>handle\<close> or \<open>file\<close> is not null); \<open>h_sent\<close> is a ghost, the data given to TCP.
\<close>

record HttpConn =
  hc :: MuxHttpConn
  h_method :: HTTP_METHOD_T
  isV09 :: bool
  sendingFile :: bool
  h_sent :: "bytes list"

abbreviation (input) ERR_USE :: int where "ERR_USE \<equiv> -8"

definition mHttpParseMethod :: "bytes \<Rightarrow> HTTP_METHOD_T \<Rightarrow> nat \<times> HTTP_METHOD_T" where
  "mHttpParseMethod data old =
     (if take 4 data = ascii ''GET '' then (4, HTTP_METHOD_GET)
      else if take 4 data = ascii ''PUT '' then (4, HTTP_METHOD_PUT)
      else if take 5 data = ascii ''POST '' then (5, HTTP_METHOD_POST)
      else if take 7 data = ascii ''DELETE '' then (7, HTTP_METHOD_DELETE)
      else if take 6 data = ascii ''PATCH '' then (6, HTTP_METHOD_PATCH)
      else (0, old))"

text \<open>
  The address ends at the first blank, or at the line end for HTTP 0.9. An address that fills the buffer
  leaves it without a terminating zero, which is recorded as a fault.
\<close>

definition mHttpParseUrl :: "bytes \<Rightarrow> nat \<Rightarrow> HttpConn \<Rightarrow> int \<times> HttpConn" where
  "mHttpParseUrl data data_len c0 =
     (let blank = lwip_strnstr data [32] data_len;
          c = (if blank = None then c0\<lparr>isV09 := True\<rparr> else c0);
          sp = (case blank of Some k \<Rightarrow> Some k | None \<Rightarrow> map_option Suc (lwip_strnstr (drop 1 data) CRLF data_len))
      in if blank = None \<and> h_method c = HTTP_METHOD_POST then (EXIT_FAILURE, c)
         else case sp of
                None \<Rightarrow> (EXIT_SUCCESS, c)
              | Some n \<Rightarrow>
                  if n mod 65536 = 0 then (EXIT_SUCCESS, c)
                  else if lwip_strnstr data (CRLF @ CRLF) data_len = None then (EXIT_FAILURE, c)
                  else let u = take (min URI_SIZE (n mod 65536)) data
                       in (EXIT_SUCCESS, c\<lparr>hc := (hc c)\<lparr>h_uri := c_string u, h_fault := (h_fault (hc c) \<or> length u = URI_SIZE \<and> 0 \<notin> set u)\<rparr>\<rparr>))"

definition mHttpParseRequest ::
  "(HttpConn \<Rightarrow> int \<times> HttpConn) \<Rightarrow> board_env \<Rightarrow> bytes \<Rightarrow> nat \<Rightarrow> HttpConn \<Rightarrow> int \<times> HttpConn" where
  "mHttpParseRequest extHttpHandleRequest e data data_len c =
     (let (n, meth) = mHttpParseMethod data (h_method c)
      in if n = 0 then (EXIT_FAILURE, c)
         else let (ret, c1) = mHttpParseUrl (drop n data) (data_len - n) (c\<lparr>h_method := meth\<rparr>) in
           if ret = EXIT_FAILURE then (EXIT_FAILURE, c1)
           else if h_method c1 = HTTP_METHOD_POST
           then let (r, x) = extHttpPostRequest e data data_len (hc c1) in (r, c1\<lparr>hc := x\<rparr>)
           else let (r, c2) = extHttpHandleRequest c1 in
             if r = EXIT_FAILURE then (EXIT_FAILURE, c2)
             else (EXIT_SUCCESS, c2\<lparr>hc := (hc c2)\<lparr>postDataLeft := 0\<rparr>\<rparr>))"

text \<open>
  \<open>extHttpRequestParse\<close> with the chain of the packet received. After an unknown method the fifth byte of
  the data, in the packet or in the buffer of the connection, is set to zero.
\<close>

definition zeroFifth :: "bool \<Rightarrow> HttpConn \<Rightarrow> HttpConn" where
  "zeroFifth chained c =
     (if chained then c\<lparr>hc := (hc c)\<lparr>h_data := (h_data (hc c))[4 := 0]\<rparr>\<rparr>
      else c\<lparr>hc := (hc c)\<lparr>h_req := (case h_req (hc c) of [] \<Rightarrow> [] | q # qs \<Rightarrow> q[4 := 0] # qs)\<rparr>\<rparr>)"

definition extHttpRequestParse ::
  "(HttpConn \<Rightarrow> int \<times> HttpConn) \<Rightarrow> (HttpConn \<Rightarrow> int \<times> HttpConn) \<Rightarrow> (bytes \<Rightarrow> bytes) \<Rightarrow> board_env \<Rightarrow> bytes list \<Rightarrow> HttpConn \<Rightarrow> int \<times> HttpConn" where
  "extHttpRequestParse extHttpHandleRequest findErrorFile sha1 e p c =
     (if sendingFile c then (ERR_USE, c)
      else let req = h_req (hc c) @ p; chained = (length req > 1);
               data_len = (if chained then min (length (concat req)) DATA_SIZE else length (hd req));
               data = (if chained then put_bytes 0 (take data_len (concat req)) (h_data (hc c)) else hd req);
               c1 = c\<lparr>hc := (if chained then (hc c)\<lparr>h_req := req, h_data := data, contentLength := data_len\<rparr> else (hc c)\<lparr>h_req := req\<rparr>)\<rparr>;
               more = (\<lambda>c. if length (concat req) \<le> DATA_SIZE \<and> length req \<le> 5 then (ERR_INPROGRESS, c) else findErrorFile c)
           in if data_len < 7 then more c1
              else if lwip_strnstr data CRLF data_len = None then findErrorFile c1
              else let (w, out, x) = extHttpWebSocketParseHeader sha1 data (hc c1); c2 = c1\<lparr>hc := x, h_sent := h_sent c1 @ out\<rparr> in
                if w = EXIT_SUCCESS then (ERR_OK, c2)
                else let (r, c3) = mHttpParseRequest extHttpHandleRequest e data data_len c2 in
                  if r = EXIT_SUCCESS then (ERR_OK, c3)
                  else more (if fst (mHttpParseMethod data (h_method c2)) = 0 then zeroFifth chained c3 else c3))"

subsection \<open>Properties\<close>

definition method_text :: "HTTP_METHOD_T \<Rightarrow> bytes" where
  "method_text m = (case m of HTTP_METHOD_UNKNOWN \<Rightarrow> [] | HTTP_METHOD_GET \<Rightarrow> ascii ''GET '' | HTTP_METHOD_POST \<Rightarrow> ascii ''POST ''
     | HTTP_METHOD_PUT \<Rightarrow> ascii ''PUT '' | HTTP_METHOD_DELETE \<Rightarrow> ascii ''DELETE '' | HTTP_METHOD_PATCH \<Rightarrow> ascii ''PATCH '')"

lemma parse_method: "m \<noteq> HTTP_METHOD_UNKNOWN \<Longrightarrow> mHttpParseMethod (method_text m @ r) old = (length (method_text m), m)"
  by (cases m) (simp_all add: mHttpParseMethod_def method_text_def ascii_def)

lemma strnstr_blank: "32 \<notin> set u \<Longrightarrow> 0 \<notin> set u \<Longrightarrow> strnstr [32] (u @ 32 # r) = Some (length u)"
  by (induction u) auto

lemma c_string_text: "0 \<notin> set u \<Longrightarrow> c_string u = u"
  by (induction u) (auto simp: c_string_def)

lemma parse_url:
  assumes "32 \<notin> set u" "0 \<notin> set u" "u \<noteq> []" "length u < URI_SIZE" "lwip_strnstr (u @ 32 # r) (CRLF @ CRLF) (length (u @ 32 # r)) \<noteq> None"
  shows "mHttpParseUrl (u @ 32 # r) (length (u @ 32 # r)) c = (EXIT_SUCCESS, c\<lparr>hc := (hc c)\<lparr>h_uri := u\<rparr>\<rparr>)"
proof -
  have "lwip_strnstr (u @ 32 # r) [32] (length (u @ 32 # r)) = Some (length u)" using strnstr_blank [OF assms(1,2)] by (simp add: lwip_strnstr_def)
  then show ?thesis using assms c_string_text [OF assms(2)] by (simp add: mHttpParseUrl_def Let_def)
qed


definition http_conn_example :: HttpConn where
  "http_conn_example = \<lparr>hc = conn_example 0, h_method = HTTP_METHOD_UNKNOWN, isV09 = False, sendingFile = False, h_sent = []\<rparr>"


end
