(* ===== verification/HttpServe.thy ===== *)
theory HttpServe
  imports HttpRequest
begin

text \<open>
  Responses of the web server: \<^verbatim>\<open>httpSend.c\<close>, \<^verbatim>\<open>httpConns.c\<close>, \<^verbatim>\<open>httpFs.c\<close>, \<^verbatim>\<open>httpResponseFile.c\<close> and the callbacks of
  \<^verbatim>\<open>httpMain.c\<close> that send (in \<^verbatim>\<open>src/supports/lwip/lwip/src/exts/http\<close>), in the configuration of the board: no keep-alive, no server side includes, files in
  ROM, and HTTP 0.9 switched on.

  TCP is the record \<open>'p tcp\<close> of what the server calls on a connection whose state is \<open>'p\<close>; the files are a list (the code has a generated
  table). A connection that was freed stays in the model with the mark \<open>m_freed\<close>; \<open>m_after\<close> is a ghost, the code used it
  nevertheless. The lemmas show that a page is sent in order and completely, whatever TCP accepts at a time.
\<close>

record 'p tcp =
  tcp_sndbuf :: "'p \<Rightarrow> nat"
  tcp_mss :: "'p \<Rightarrow> nat"
  tcp_queue_full :: "'p \<Rightarrow> bool"
  tcp_write :: "'p \<Rightarrow> bytes \<Rightarrow> int \<times> 'p"
  tcp_close :: "'p \<Rightarrow> int \<times> 'p"
  tcp_abort :: "'p \<Rightarrow> 'p"

abbreviation (input) ERR_MEM :: int where "ERR_MEM \<equiv> -1"

subsection \<open>Files\<close>

record mfs_file =
  mfs_data :: bytes
  mfs_len :: nat
  mfs_index :: nat
  mfs_flags :: u8

type_synonym mfs_root = "(bytes \<times> bytes \<times> u8) list"

definition mfsOpen :: "mfs_root \<Rightarrow> bytes \<Rightarrow> mfs_file option" where
  "mfsOpen root name =
     (case find (\<lambda>(n, d, f). n = name) root of
        None \<Rightarrow> None
      | Some (n, d, f) \<Rightarrow> Some \<lparr>mfs_data = d, mfs_len = length d, mfs_index = length d, mfs_flags = f\<rparr>)"

definition mfsBytesLeft :: "mfs_file \<Rightarrow> int" where
  "mfsBytesLeft file = int (mfs_len file) - int (mfs_index file)"

subsection \<open>Connections\<close>

text \<open>\<open>m_file\<close> is what the pointer \<open>file\<close> points to, empty for a null pointer; \<open>m_conns\<close> is the number of connections in the shared configuration, a character, which is unsigned on the board.\<close>

record 'p mhttp =
  rq :: HttpConn
  m_handle :: "mfs_file option"
  m_file :: bytes
  m_left :: nat
  retries :: u8
  m_pcb :: 'p
  m_conns :: u8
  m_freed :: bool
  m_after :: bool

abbreviation (input) conn :: "'p mhttp \<Rightarrow> MuxHttpConn" where "conn c \<equiv> hc (rq c)"

definition upd_conn :: "(MuxHttpConn \<Rightarrow> MuxHttpConn) \<Rightarrow> 'p mhttp \<Rightarrow> 'p mhttp" where
  "upd_conn f c = c\<lparr>rq := (rq c)\<lparr>hc := f (hc (rq c))\<rparr>\<rparr>"

text \<open>An access to the structure of the connection.\<close>

definition touch :: "'p mhttp \<Rightarrow> 'p mhttp" where
  "touch c = c\<lparr>m_after := (m_after c \<or> m_freed c)\<rparr>"

definition mhttpStateEof :: "'p mhttp \<Rightarrow> 'p mhttp" where
  "mhttpStateEof c = upd_conn (\<lambda>x. x\<lparr>h_req := []\<rparr>) (c\<lparr>m_handle := None\<rparr>)"

definition mhttpConnFree :: "'p mhttp \<Rightarrow> 'p mhttp" where
  "mhttpConnFree c = (mhttpStateEof c)\<lparr>m_freed := True\<rparr>"

definition mhttpConnCloseOrAbort :: "board_env \<Rightarrow> 'p tcp \<Rightarrow> bool \<Rightarrow> 'p mhttp \<Rightarrow> int \<times> 'p mhttp" where
  "mhttpConnCloseOrAbort e t abort_conn c =
     (let c1 = (if postDataLeft (conn c) \<noteq> 0 then upd_conn (extHttpPostDataFinished e) c else c);
          c2 = (if reqType (conn c1) = REQ_WEBSOCKET then c1\<lparr>m_pcb := snd (tcp_write t (m_pcb c1) extHttpWebSocketSendClose)\<rparr> else c1);
          c3 = mhttpConnFree c2
      in if abort_conn then (ERR_OK, c3\<lparr>m_pcb := tcp_abort t (m_pcb c3)\<rparr>)
         else let (err, p) = tcp_close t (m_pcb c3) in (err, c3\<lparr>m_conns := m_conns c3 - 1, m_pcb := p\<rparr>))"

definition mhttpConnClose :: "board_env \<Rightarrow> 'p tcp \<Rightarrow> 'p mhttp \<Rightarrow> int \<times> 'p mhttp" where
  "mhttpConnClose e t c = mhttpConnCloseOrAbort e t False c"

definition mhttpConnEof :: "board_env \<Rightarrow> 'p tcp \<Rightarrow> 'p mhttp \<Rightarrow> 'p mhttp" where
  "mhttpConnEof e t c = snd (mhttpConnClose e t c)"

subsection \<open>Writing\<close>

text \<open>The loop of \<open>extHttpWrite\<close>: as long as TCP has no memory, half the length is tried.\<close>

function write_loop :: "'p tcp \<Rightarrow> bytes \<Rightarrow> nat \<Rightarrow> 'p \<Rightarrow> int \<times> nat \<times> 'p" where
  "write_loop t data len p =
     (let (err, p1) = tcp_write t p (take len data)
      in if err \<noteq> ERR_MEM then (err, len, p1)
         else let len1 = (if tcp_sndbuf t p1 = 0 \<or> tcp_queue_full t p1 then 1 else len div 2)
              in if 1 < len1 then write_loop t data len1 p1 else (err, len1, p1))"
  by pat_completeness auto

termination by (relation "measure (\<lambda>(t, data, len, p). len)") (auto split: if_splits)

declare write_loop.simps [simp del]

text \<open>The result is the error, the number of bytes that were sent and the connection. A length beyond the data is a fault.\<close>

definition extHttpWrite :: "'p tcp \<Rightarrow> bytes \<Rightarrow> nat \<Rightarrow> 'p mhttp \<Rightarrow> int \<times> nat \<times> 'p mhttp" where
  "extHttpWrite t data len0 c =
     (if len0 = 0 then (ERR_OK, 0, c)
      else
        let len1 = min len0 (tcp_sndbuf t (m_pcb c));
            len2 = min len1 ((2 * tcp_mss t (m_pcb c)) mod 65536);
            (err, len, p) = write_loop t data len2 (m_pcb c);
            c1 = (if length data < len2 then upd_conn (\<lambda>x. x\<lparr>h_fault := True\<rparr>) c else c)
        in (err, if err = ERR_OK then len else 0, c1\<lparr>m_pcb := p\<rparr>))"

subsection \<open>Sending a file\<close>

text \<open>Files are in ROM, so that at the end of the data there is no more to read: the assertion at the end of the function stops the code.\<close>

definition mhttpSendCheckEof :: "board_env \<Rightarrow> 'p tcp \<Rightarrow> 'p mhttp \<Rightarrow> bool \<times> 'p mhttp" where
  "mhttpSendCheckEof e t c =
     (case m_handle c of
        None \<Rightarrow> (False, mhttpConnEof e t c)
      | Some f \<Rightarrow> if mfsBytesLeft f \<le> 0 then (False, mhttpConnEof e t c)
                  else (True, upd_conn (\<lambda>x. x\<lparr>h_fault := True\<rparr>) c))"

text \<open>The result tells whether there is data to send; it is 0 or 1 (\<open>MHTTP_DATA_TO_SEND_CONTINUE\<close>).\<close>

definition mHttpSendFile :: "board_env \<Rightarrow> 'p tcp \<Rightarrow> 'p mhttp \<Rightarrow> nat \<times> 'p mhttp" where
  "mHttpSendFile e t c0 =
     (let (go, c1) = (if m_left c0 = 0 then mhttpSendCheckEof e t c0 else (True, c0))
      in if \<not> go then (0, c1)
         else
           let (err, len, c2) = extHttpWrite t (m_file c1) (min (m_left c1) 0xffff) c1;
               c3 = (if err = ERR_OK then c2\<lparr>m_file := drop len (m_file c2), m_left := m_left c2 - len\<rparr> else c2);
               ret = (if err = ERR_OK then 1 else 0)
           in if m_left c3 = 0
              then (case m_handle c3 of
                      None \<Rightarrow> (ret, upd_conn (\<lambda>x. x\<lparr>h_fault := True\<rparr>) c3)
                    | Some f \<Rightarrow> if mfsBytesLeft f \<le> 0 then (0, mhttpConnEof e t c3) else (ret, c3))
              else (ret, c3))"

subsection \<open>Sending other responses\<close>

definition httpCommonHeader :: bytes where
  "httpCommonHeader = ascii ''Server: MuxLab/500767'' @ CRLF @ ascii ''Content-Type: application/json'' @ CRLF"

definition httpHdrs :: "(nat \<times> string) list" where
  "httpHdrs =
     [(200, ''200 OK''), (101, ''101 Switching Protocols''), (307, ''307 Temporary Redirect''), (400, ''400 Bad Request''), (404, ''404 Not Found''),
      (405, ''405 Method Not Allowed''), (423, ''423 Locked''), (500, ''500 Internal Server Error''), (501, ''501 Not Implemented'')]"

definition extHttpFindStatusHeader :: "nat \<Rightarrow> bytes" where
  "extHttpFindStatusHeader code =
     (case find (\<lambda>(n, s). n = code) httpHdrs of
        None \<Rightarrow> ascii ''HTTP/1.1 404 Not Found'' @ CRLF
      | Some (n, s) \<Rightarrow> ascii ''HTTP/1.1 '' @ ascii s @ CRLF @
          (if n = 101 then ascii ''Upgrade: websocket'' @ CRLF @ ascii ''Connection: Upgrade'' @ CRLF else []))"

definition mhttpSendOneHeader :: "'p tcp \<Rightarrow> bytes \<Rightarrow> nat \<Rightarrow> 'p mhttp \<Rightarrow> nat \<times> 'p mhttp" where
  "mhttpSendOneHeader t hdr sndBufSize c =
     (if length hdr > sndBufSize then (0, c)
      else let (err, len, c1) = extHttpWrite t hdr (length hdr) c in (len, c1))"

text \<open>The headers of a response, each as far as the send buffer had room at the start.\<close>

definition sendHeaders :: "'p tcp \<Rightarrow> 'p mhttp \<Rightarrow> 'p mhttp" where
  "sendHeaders t c =
     (let b0 = tcp_sndbuf t (m_pcb c);
          (n1, c1) = mhttpSendOneHeader t (extHttpFindStatusHeader (httpStatusCode (conn c))) b0 c;
          (n2, c2) = mhttpSendOneHeader t httpCommonHeader (b0 - n1) c1;
          (n3, c3) = mhttpSendOneHeader t (ascii ''Content-Length: '' @ decimal (contentLength (conn c)) @ CRLF @ CRLF) (b0 - n1 - n2) c2
      in c3)"

definition diff16 :: "nat \<Rightarrow> nat \<Rightarrow> nat" where
  "diff16 a b = nat ((int a - int b) mod 65536)"

definition add_sent :: "nat \<Rightarrow> MuxHttpConn \<Rightarrow> MuxHttpConn" where
  "add_sent n x = x\<lparr>dataSendIndex := (dataSendIndex x + n) mod 65536\<rparr>"

definition mHttpSendRest :: "board_env \<Rightarrow> 'p tcp \<Rightarrow> 'p mhttp \<Rightarrow> bool \<times> 'p mhttp" where
  "mHttpSendRest e t c =
     (let x = conn c
      in if contentLength x = dataSendIndex x \<or> contentLength x = 0 then (True, c)
         else
           let c1 = (if dataSendIndex x = 0 then sendHeaders t c else c);
               (err, len, c2) = extHttpWrite t (drop (dataSendIndex x) (h_data x)) (diff16 (contentLength x) (dataSendIndex x)) c1
           in if err \<noteq> ERR_OK then (False, c2)
              else
                let c3 = upd_conn (add_sent len) c2
                in (True, if contentLength (conn c3) = dataSendIndex (conn c3) then mhttpConnEof e t c3 else c3))"

text \<open>A page always starts with the first byte of \<open>data\<close>, even when a part of it was sent before.\<close>

definition mHttpSendCgi :: "board_env \<Rightarrow> 'p tcp \<Rightarrow> 'p mhttp \<Rightarrow> nat \<times> 'p mhttp" where
  "mHttpSendCgi e t c =
     (let x = conn c;
          (err, len, c1) = extHttpWrite t (h_data x) (diff16 (contentLength x) (dataSendIndex x)) c;
          (ret, c2) = (if int len < int (contentLength x) - int (dataSendIndex x) then (1, c1) else (0, mhttpConnEof e t c1))
      in (ret, upd_conn (add_sent len) (touch c2)))"

definition mHttpSendUpload :: "board_env \<Rightarrow> 'p tcp \<Rightarrow> 'p mhttp \<Rightarrow> nat \<times> 'p mhttp" where
  "mHttpSendUpload e t c =
     (let x = conn c;
          n = diff16 (updateLength x) (updateIndex x);
          c1 = (if n = 0 then c
                else let (err, len, c1) = extHttpWrite t (updateProgress x) n c
                     in if int len < int (updateLength x) - int (updateIndex x) then c1 else mhttpConnEof e t c1)
      in (1, upd_conn (\<lambda>x. x\<lparr>updateLength := 0\<rparr>) (touch c1)))"

definition extHttpSend :: "board_env \<Rightarrow> 'p tcp \<Rightarrow> 'p mhttp \<Rightarrow> nat \<times> 'p mhttp" where
  "extHttpSend e t c =
     (let x = conn c
      in if reqType x = REQ_REST \<and> httpStatusCode x \<ge> 200
         then (let (ok, c1) = mHttpSendRest e t c in (if ok then 1 else 0, c1))
         else if reqType x = REQ_FILE then mHttpSendFile e t c
         else if reqType x = REQ_WEBSOCKET
         then (if httpStatusCode x = 200 then (let (err, len, c1) = extHttpWrite t (h_data x) (dataSendIndex x) c in (1, c1)) else (0, c))
         else if reqType x = REQ_CGI then mHttpSendCgi e t c
         else if reqType x = REQ_UPLOAD \<and> uploadStatus x \<noteq> UPLOAD_INIT then mHttpSendUpload e t c
         else (0, c))"

subsection \<open>Callbacks of TCP\<close>

definition mhttpErr :: "'p mhttp \<Rightarrow> 'p mhttp" where
  "mhttpErr c = mhttpConnFree c"

definition mhttpSent :: "board_env \<Rightarrow> 'p tcp \<Rightarrow> 'p mhttp \<Rightarrow> 'p mhttp" where
  "mhttpSent e t c = snd (extHttpSend e t (c\<lparr>retries := 0\<rparr>))"

definition mhttpPoll :: "board_env \<Rightarrow> 'p tcp \<Rightarrow> 'p mhttp \<Rightarrow> 'p mhttp" where
  "mhttpPoll e t c =
     (let c1 = c\<lparr>retries := retries c + 1\<rparr>
      in if retries c1 = 4 then snd (mhttpConnClose e t c1) else snd (extHttpSend e t c1))"

subsection \<open>Which file answers a request\<close>

definition mhttpFileGet404 :: "mfs_root \<Rightarrow> 'p mhttp \<Rightarrow> mfs_file option \<times> 'p mhttp" where
  "mhttpFileGet404 root c =
     (case find (\<lambda>name. mfsOpen root name \<noteq> None) [ascii ''/404.html'', ascii ''/404.htm'', ascii ''/404.shtml''] of
        None \<Rightarrow> (None, c)
      | Some name \<Rightarrow> (mfsOpen root name, upd_conn (\<lambda>x. x\<lparr>h_uri := name\<rparr>) c))"

definition mhttpFileInit :: "mfs_file option \<Rightarrow> 'p mhttp \<Rightarrow> 'p mhttp" where
  "mhttpFileInit file c =
     (case file of
        None \<Rightarrow> c\<lparr>m_handle := None, m_file := [], m_left := 0, retries := 0, rq := (rq c)\<lparr>sendingFile := False\<rparr>\<rparr>
      | Some f \<Rightarrow>
          let c1 = c\<lparr>m_handle := Some f, m_file := mfs_data f, m_left := mfs_len f, retries := 0, rq := (rq c)\<lparr>sendingFile := True\<rparr>\<rparr>;
              c2 = (if mfs_flags f AND 1 = 0 then upd_conn (\<lambda>x. x\<lparr>h_fault := True\<rparr>) c1 else c1)
          in if isV09 (rq c2) \<and> mfs_flags f AND 1 \<noteq> 0
             then (case lwip_strnstr (m_file c2) (CRLF @ CRLF) (m_left c2) of
                     None \<Rightarrow> c2
                   | Some k \<Rightarrow> c2\<lparr>m_file := drop (k + 4) (m_file c2), m_left := m_left c2 - (k + 4)\<rparr>)
             else c2)"

definition extHttpFileFind :: "(MuxHttpConn \<Rightarrow> MuxHttpConn) \<Rightarrow> mfs_root \<Rightarrow> 'p mhttp \<Rightarrow> 'p mhttp" where
  "extHttpFileFind extHttpWebPageRootHander root c =
     (let u = h_uri (conn c);
          c1 = (if u \<noteq> [] \<and> last u = 47 then upd_conn extHttpWebPageRootHander c else c);
          name = takeWhile (\<lambda>b. b \<noteq> 63) (h_uri (conn c1));
          c2 = upd_conn (\<lambda>x. x\<lparr>h_uri := name\<rparr>) c1
      in case mfsOpen root name of
           Some f \<Rightarrow> mhttpFileInit (Some f) c2
         | None \<Rightarrow> (let (f, c3) = mhttpFileGet404 root c2 in mhttpFileInit f c3))"

text \<open>The pages that are created on request are a table of their functions.\<close>

definition extHttpWebService :: "(bytes \<times> (MuxHttpConn \<Rightarrow> MuxHttpConn)) list \<Rightarrow> 'p mhttp \<Rightarrow> bool \<times> 'p mhttp" where
  "extHttpWebService webpages c =
     (let c1 = upd_conn (\<lambda>x. x\<lparr>reqType := REQ_CGI\<rparr>) c
      in case find (\<lambda>(uri, h). is_string_equal uri (h_uri (conn c1))) webpages of
           None \<Rightarrow> (False, c1)
         | Some (uri, h) \<Rightarrow> (True, upd_conn h c1))"

definition extHttpHandleRequest ::
  "(bytes \<times> (MuxHttpConn \<Rightarrow> MuxHttpConn)) list \<Rightarrow> (MuxHttpConn \<Rightarrow> MuxHttpConn) \<Rightarrow> mfs_root \<Rightarrow> 'p mhttp \<Rightarrow> 'p mhttp" where
  "extHttpHandleRequest webpages extHttpWebPageRootHander root c =
     (if httpStatusCode (conn c) \<ge> 400 then c
      else let (ok, c1) = extHttpWebService webpages c
           in if ok then c1
              else upd_conn (\<lambda>x. x\<lparr>reqType := REQ_FILE\<rparr>) (extHttpFileFind extHttpWebPageRootHander root c1))"

subsection \<open>A page arrives in order\<close>

text \<open>TCP appends what it accepts to the stream to the client, and nothing else.\<close>

definition tcp_ok :: "'p tcp \<Rightarrow> ('p \<Rightarrow> bytes) \<Rightarrow> bool" where
  "tcp_ok t stream \<longleftrightarrow>
     (\<forall>p d. stream (snd (tcp_write t p d)) = (if fst (tcp_write t p d) = ERR_OK then stream p @ d else stream p)) \<and>
     (\<forall>p. stream (snd (tcp_close t p)) = stream p)"

lemma tcp_okD:
  assumes "tcp_ok t stream"
  shows "tcp_write t p d = (err, q) \<Longrightarrow> stream q = (if err = ERR_OK then stream p @ d else stream p)" "tcp_close t p = (err, q) \<Longrightarrow> stream q = stream p"
  using assms unfolding tcp_ok_def by (metis fst_conv snd_conv)+

lemma write_loop_stream:
  "tcp_ok t stream \<Longrightarrow> write_loop t data len p = (err, n, q) \<Longrightarrow>
     stream q = (if err = ERR_OK then stream p @ take n data else stream p) \<and> (err = ERR_OK \<longrightarrow> n \<le> len)"
proof (induction t data len p arbitrary: err n q rule: write_loop.induct)
  case (1 t data len p)
  obtain e1 p1 where w: "tcp_write t p (take len data) = (e1, p1)" by fastforce
  note st = tcp_okD(1) [OF "1.prems"(1) w]
  show ?case
  proof (cases "e1 = ERR_MEM")
    case False
    with "1.prems"(2) w st show ?thesis by (auto simp: write_loop.simps [of t data len p])
  next
    case True
    let ?l = "if tcp_sndbuf t p1 = 0 \<or> tcp_queue_full t p1 then 1 else len div 2"
    show ?thesis
    proof (cases "1 < ?l")
      case l: True
      have r: "write_loop t data ?l p1 = (err, n, q)" using "1.prems"(2) w True l by (simp add: write_loop.simps [of t data len p])
      have "?l \<le> len" using l by (auto split: if_splits)
      moreover have "stream q = (if err = ERR_OK then stream p1 @ take n data else stream p1) \<and> (err = ERR_OK \<longrightarrow> n \<le> ?l)"
        by (rule "1.IH" [OF w [symmetric] refl _ refl l "1.prems"(1) r]) (simp add: True)
      ultimately show ?thesis using st True by (cases "err = ERR_OK") auto
    next
      case False
      with "1.prems"(2) w True st show ?thesis by (auto simp: write_loop.simps [of t data len p] Let_def)
    qed
  qed
qed

lemma write_stream:
  assumes "tcp_ok t stream" "extHttpWrite t data len c = (err, n, d)" "len \<le> length data"
  shows "\<exists>q. d = c\<lparr>m_pcb := q\<rparr> \<and> stream q = stream (m_pcb c) @ take n data \<and> n \<le> len \<and> (err \<noteq> ERR_OK \<longrightarrow> n = 0)"
proof (cases "len = 0")
  case True
  with assms(2) show ?thesis by (intro exI [of _ "m_pcb c"]) (simp add: extHttpWrite_def)
next
  case False
  let ?l = "min (min len (tcp_sndbuf t (m_pcb c))) ((2 * tcp_mss t (m_pcb c)) mod 65536)"
  obtain n1 q where w: "write_loop t data ?l (m_pcb c) = (err, n1, q)" and d: "d = c\<lparr>m_pcb := q\<rparr>" and n: "n = (if err = ERR_OK then n1 else 0)"
    using assms(2,3) False by (auto simp: extHttpWrite_def Let_def split: prod.splits)
  from write_loop_stream [OF assms(1) w] show ?thesis by (intro exI [of _ q]) (auto simp: d n)
qed

text \<open>A connection that sends the file \<open>page\<close>, of which \<open>k\<close> bytes are sent, and one that has ended.\<close>

definition sending :: "('p \<Rightarrow> bytes) \<Rightarrow> bytes \<Rightarrow> bytes \<Rightarrow> nat \<Rightarrow> 'p mhttp \<Rightarrow> bool" where
  "sending stream base page k c \<longleftrightarrow>
     \<not> m_freed c \<and> \<not> m_after c \<and> reqType (conn c) = REQ_FILE \<and> postDataLeft (conn c) = 0 \<and>
     (\<exists>f. m_handle c = Some f \<and> mfsBytesLeft f \<le> 0) \<and>
     k \<le> length page \<and> m_file c = drop k page \<and> m_left c = length page - k \<and> stream (m_pcb c) = base @ take k page"

definition ended :: "('p \<Rightarrow> bytes) \<Rightarrow> bytes \<Rightarrow> bytes \<Rightarrow> 'p mhttp \<Rightarrow> bool" where
  "ended stream base page c \<longleftrightarrow>
     m_freed c \<and> \<not> m_after c \<and> (\<exists>k \<le> length page. stream (m_pcb c) = base @ take k page \<and> (k = length page \<or> retries c = 4))"

definition complete :: "('p \<Rightarrow> bytes) \<Rightarrow> bytes \<Rightarrow> bytes \<Rightarrow> 'p mhttp \<Rightarrow> bool" where
  "complete stream base page c \<longleftrightarrow> m_freed c \<and> \<not> m_after c \<and> stream (m_pcb c) = base @ page"

lemma complete_ended: "complete stream base page c \<Longrightarrow> ended stream base page c"
  by (auto simp: complete_def ended_def)

lemma close_sending:
  assumes "tcp_ok t stream" "sending stream base page k c"
  shows "m_freed (snd (mhttpConnClose e t c))" "\<not> m_after (snd (mhttpConnClose e t c))" "stream (m_pcb (snd (mhttpConnClose e t c))) = base @ take k page"
    "retries (snd (mhttpConnClose e t c)) = retries c"
  using assms tcp_okD(2) [OF assms(1)]
  by (auto simp: sending_def mhttpConnClose_def mhttpConnCloseOrAbort_def mhttpConnFree_def mhttpStateEof_def upd_conn_def Let_def split: prod.splits)

text \<open>A connection that has room: a piece that fits the send buffer is accepted.\<close>

definition has_room :: "'p tcp \<Rightarrow> 'p \<Rightarrow> bool" where
  "has_room t p \<longleftrightarrow> 0 < tcp_sndbuf t p \<and> 0 < tcp_mss t p \<and> tcp_mss t p < 32768 \<and> (\<forall>d. length d \<le> tcp_sndbuf t p \<longrightarrow> fst (tcp_write t p d) = ERR_OK)"

lemma write_progress:
  assumes "has_room t (m_pcb c)" "extHttpWrite t data len c = (err, n, d)" "0 < len"
  shows "0 < n"
proof -
  let ?l = "min (min len (tcp_sndbuf t (m_pcb c))) ((2 * tcp_mss t (m_pcb c)) mod 65536)"
  have l: "0 < ?l" using assms(1,3) by (simp add: has_room_def)
  have "fst (tcp_write t (m_pcb c) (take ?l data)) = ERR_OK" using assms(1) by (simp add: has_room_def)
  then obtain q where "tcp_write t (m_pcb c) (take ?l data) = (ERR_OK, q)" by (cases "tcp_write t (m_pcb c) (take ?l data)") simp
  then have "write_loop t data ?l (m_pcb c) = (ERR_OK, ?l, q)" by (simp add: write_loop.simps [of t data ?l])
  with assms(2,3) l show ?thesis by (auto simp: extHttpWrite_def Let_def)
qed

lemma send_file:
  assumes "tcp_ok t stream" "sending stream base page k c"
  shows "(\<exists>k' \<ge> k. (has_room t (m_pcb c) \<longrightarrow> k < k') \<and> sending stream base page k' (snd (mHttpSendFile e t c)) \<and> retries (snd (mHttpSendFile e t c)) = retries c) \<or>
    complete stream base page (snd (mHttpSendFile e t c))"
proof (cases "k = length page")
  case True
  with assms(2) obtain f where "m_left c = 0" "m_handle c = Some f" "mfsBytesLeft f \<le> 0" by (auto simp: sending_def)
  then have "snd (mHttpSendFile e t c) = snd (mhttpConnClose e t c)" by (simp add: mHttpSendFile_def mhttpSendCheckEof_def mhttpConnEof_def)
  with close_sending [OF assms, of e] True show ?thesis by (auto simp: complete_def)
next
  case False
  with assms(2) have l: "m_left c \<noteq> 0" by (auto simp: sending_def)
  obtain err n d where w: "extHttpWrite t (m_file c) (min (m_left c) 0xffff) c = (err, n, d)" by (cases "extHttpWrite t (m_file c) (min (m_left c) 0xffff) c")
  have b: "min (m_left c) 0xffff \<le> length (m_file c)" using assms(2) by (simp add: sending_def)
  from write_stream [OF assms(1) w b] obtain q
    where d: "d = c\<lparr>m_pcb := q\<rparr>" and st: "stream q = stream (m_pcb c) @ take n (m_file c)" and n: "n \<le> m_left c" "err \<noteq> ERR_OK \<longrightarrow> n = 0" by auto
  let ?c = "c\<lparr>m_pcb := q, m_file := drop n (m_file c), m_left := m_left c - n\<rparr>"
  have c: "(if err = ERR_OK then d\<lparr>m_file := drop n (m_file d), m_left := m_left d - n\<rparr> else d) = ?c" using n(2) by (simp add: d)
  have sc: "sending stream base page (k + n) ?c" using assms(2) st n(1) by (auto simp: sending_def add.commute take_add)
  obtain f where f: "m_handle c = Some f" "mfsBytesLeft f \<le> 0" using assms(2) by (auto simp: sending_def)
  have r: "snd (mHttpSendFile e t c) = (if m_left ?c = 0 then snd (mhttpConnClose e t ?c) else ?c)"
    using l f by (simp add: mHttpSendFile_def w c Let_def mhttpConnEof_def)
  show ?thesis
  proof (cases "m_left ?c = 0")
    case True
    then have "k + n = length page" using sc by (auto simp: sending_def)
    with close_sending [OF assms(1) sc, of e] r True show ?thesis by (auto simp: complete_def)
  next
    case False
    moreover have "has_room t (m_pcb c) \<Longrightarrow> 0 < n" by (rule write_progress [OF _ w]) (use l in simp_all)
    ultimately show ?thesis using r sc by (intro disjI1 exI [of _ "k + n"]) auto
  qed
qed

lemma sending_retries: "sending stream base page k (c\<lparr>retries := r\<rparr>) = sending stream base page k c"
  by (simp add: sending_def)

lemma send_response: "sending stream base page k c \<Longrightarrow> extHttpSend e t c = mHttpSendFile e t c"
  by (simp add: extHttpSend_def sending_def Let_def)

lemma sent_page:
  assumes "tcp_ok t stream" "sending stream base page k c"
  shows "(\<exists>k' \<ge> k. (has_room t (m_pcb c) \<longrightarrow> k < k') \<and> sending stream base page k' (mhttpSent e t c)) \<or> complete stream base page (mhttpSent e t c)"
proof -
  have "sending stream base page k (c\<lparr>retries := 0\<rparr>)" using assms(2) by (simp add: sending_retries)
  from send_file [OF assms(1) this, of e] send_response [OF this, of e t] show ?thesis unfolding mhttpSent_def by auto
qed

lemma polled_page:
  assumes "tcp_ok t stream" "sending stream base page k c"
  shows "(\<exists>k' \<ge> k. sending stream base page k' (mhttpPoll e t c)) \<or> ended stream base page (mhttpPoll e t c)"
proof -
  let ?c = "c\<lparr>retries := retries c + 1\<rparr>"
  have s: "sending stream base page k ?c" using assms(2) by (simp add: sending_retries)
  have k: "k \<le> length page" using assms(2) by (simp add: sending_def)
  show ?thesis
  proof (cases "retries ?c = 4")
    case True
    with close_sending [OF assms(1) s, of e] k show ?thesis by (auto simp: mhttpPoll_def ended_def)
  next
    case False
    with send_file [OF assms(1) s, of e] send_response [OF s, of e t] show ?thesis by (auto simp: mhttpPoll_def Let_def dest: complete_ended)
  qed
qed

text \<open>Callbacks of a connection in any order, with any answers of TCP, which may work on its own in between.\<close>

inductive page_step :: "('p \<Rightarrow> bytes) \<Rightarrow> 'p mhttp \<Rightarrow> 'p mhttp \<Rightarrow> bool" for stream where
  sent: "tcp_ok t stream \<Longrightarrow> \<not> m_freed c \<Longrightarrow> page_step stream c (mhttpSent e t c)"
| poll: "tcp_ok t stream \<Longrightarrow> \<not> m_freed c \<Longrightarrow> page_step stream c (mhttpPoll e t c)"
| acked: "stream p = stream (m_pcb c) \<Longrightarrow> page_step stream c (c\<lparr>m_pcb := p\<rparr>)"

definition page_inv :: "('p \<Rightarrow> bytes) \<Rightarrow> bytes \<Rightarrow> bytes \<Rightarrow> 'p mhttp \<Rightarrow> bool" where
  "page_inv stream base page c \<longleftrightarrow> (\<exists>k. sending stream base page k c) \<or> ended stream base page c"

interpretation page: step_system "sending stream base page 0" "page_step stream" "page_inv stream base page" for stream base page
proof
  fix c d :: "'a mhttp" assume i: "page_inv stream base page c" and "page_step stream c d"
  from this(2) show "page_inv stream base page d"
  proof cases
    case (sent t e)
    then obtain k where "sending stream base page k c" using i by (auto simp: page_inv_def ended_def)
    from sent_page [OF sent(2) this, of e] sent(1) show ?thesis by (auto simp: page_inv_def dest: complete_ended)
  next
    case (poll t e)
    then obtain k where "sending stream base page k c" using i by (auto simp: page_inv_def ended_def)
    from polled_page [OF poll(2) this, of e] poll(1) show ?thesis by (auto simp: page_inv_def)
  next
    case (acked p)
    with i show ?thesis by (auto simp: page_inv_def sending_def ended_def)
  qed
qed (auto simp: page_inv_def)

text \<open>A request for the file \<open>name\<close>, which is none of the other pages, starts the transmission of its contents.\<close>

definition asks_for :: "(bytes \<times> (MuxHttpConn \<Rightarrow> MuxHttpConn)) list \<Rightarrow> mfs_root \<Rightarrow> bytes \<Rightarrow> bytes \<Rightarrow> 'p mhttp \<Rightarrow> bool" where
  "asks_for webpages root name page c \<longleftrightarrow>
     h_uri (conn c) = name \<and> name \<noteq> [] \<and> last name \<noteq> 47 \<and> 63 \<notin> set name \<and> find (\<lambda>(n, d, f). n = name) root = Some (name, page, 1) \<and>
     list_all (\<lambda>(uri, h). \<not> is_string_equal uri name) webpages \<and> httpStatusCode (conn c) < 400 \<and> postDataLeft (conn c) = 0 \<and>
     \<not> isV09 (rq c) \<and> \<not> m_freed c \<and> \<not> m_after c"

lemma request_sends:
  assumes "asks_for webpages root name page c"
  shows "sending stream (stream (m_pcb c)) page 0 (extHttpHandleRequest webpages handler root c)"
    "m_pcb (extHttpHandleRequest webpages handler root c) = m_pcb c"
proof -
  have n: "h_uri (conn c) = name" "last name \<noteq> 47" "find (\<lambda>(n, d, f). n = name) root = Some (name, page, 1)" "httpStatusCode (conn c) < 400"
    using assms by (simp_all add: asks_for_def)
  have p: "find (\<lambda>(uri, h). is_string_equal uri name) webpages = None"
    using assms by (auto simp: asks_for_def find_None_iff list_all_iff)
  have w: "takeWhile (\<lambda>b. b \<noteq> 63) name = name" using assms by (auto simp: asks_for_def takeWhile_eq_all_conv)
  have u: "h_uri (conn (upd_conn (\<lambda>x. x\<lparr>reqType := REQ_CGI\<rparr>) c)) = name" using n(1) by (simp add: upd_conn_def)
  have e: "extHttpHandleRequest webpages handler root c =
     upd_conn (\<lambda>x. x\<lparr>reqType := REQ_FILE\<rparr>) (mhttpFileInit (Some \<lparr>mfs_data = page, mfs_len = length page, mfs_index = length page, mfs_flags = 1\<rparr>)
       (upd_conn (\<lambda>x. x\<lparr>h_uri := name\<rparr>) (upd_conn (\<lambda>x. x\<lparr>reqType := REQ_CGI\<rparr>) c)))"
    using n by (simp add: extHttpHandleRequest_def extHttpWebService_def extHttpFileFind_def mfsOpen_def Let_def u w p)
  show "sending stream (stream (m_pcb c)) page 0 (extHttpHandleRequest webpages handler root c)"
    "m_pcb (extHttpHandleRequest webpages handler root c) = m_pcb c"
    using assms unfolding e by (simp_all add: asks_for_def mhttpFileInit_def upd_conn_def Let_def sending_def mfsBytesLeft_def)
qed


text \<open>TCP acknowledges data on its own, \<open>ack\<close>, and reports it; the callbacks of a connection that was freed are removed.\<close>

definition acknowledged :: "board_env \<Rightarrow> 'p tcp \<Rightarrow> ('p \<Rightarrow> 'p) \<Rightarrow> 'p mhttp \<Rightarrow> 'p mhttp" where
  "acknowledged e t ack c = (if m_freed c then c else mhttpSent e t (c\<lparr>m_pcb := ack (m_pcb c)\<rparr>))"

definition makes_room :: "'p tcp \<Rightarrow> ('p \<Rightarrow> bytes) \<Rightarrow> ('p \<Rightarrow> 'p) \<Rightarrow> bool" where
  "makes_room t stream ack \<longleftrightarrow> tcp_ok t stream \<and> (\<forall>p. stream (ack p) = stream p \<and> has_room t (ack p))"

lemma acknowledged_page:
  assumes "makes_room t stream ack" "sending stream base page k c"
  shows "(\<exists>k' > k. sending stream base page k' (acknowledged e t ack c)) \<or> complete stream base page (acknowledged e t ack c)"
proof -
  let ?c = "c\<lparr>m_pcb := ack (m_pcb c)\<rparr>"
  have a: "tcp_ok t stream" "stream (ack p) = stream p" "has_room t (ack p)" for p using assms(1) by (simp_all add: makes_room_def)
  have "sending stream base page k ?c" "\<not> m_freed c" using assms(2) a(2) by (simp_all add: sending_def)
  with sent_page [OF a(1), of base page k ?c e] a(3) show ?thesis by (auto simp: acknowledged_def)
qed

lemma complete_stays: "complete stream base page c \<Longrightarrow> complete stream base page ((acknowledged e t ack ^^ n) c)"
  by (induction n) (simp_all add: acknowledged_def complete_def)

lemma page_completes:
  assumes "makes_room t stream ack"
  shows "sending stream base page k c \<Longrightarrow> length page - k \<le> n \<Longrightarrow> complete stream base page ((acknowledged e t ack ^^ Suc n) c)"
proof (induction n arbitrary: k c)
  case 0
  have "\<not> sending stream base page k' d" if "k < k'" for k' d using that 0 by (auto simp: sending_def)
  with acknowledged_page [OF assms 0(1), of e] show ?case by auto
next
  case (Suc n)
  have f: "(acknowledged e t ack ^^ Suc (Suc n)) c = (acknowledged e t ack ^^ Suc n) (acknowledged e t ack c)" by (simp only: funpow_Suc_right o_apply)
  from acknowledged_page [OF assms Suc.prems(1), of e] show ?case
  proof
    assume "\<exists>k' > k. sending stream base page k' (acknowledged e t ack c)"
    with Suc.IH Suc.prems(2) show ?thesis unfolding f by force
  qed (simp only: f complete_stays)
qed

text \<open>
  C40: A page arrives. When every acknowledgement makes room for some data, the whole file is with TCP after at most as many acknowledgements as the file has bytes and one more,
  the connection is closed and freed, and it was not used afterwards.
\<close>

theorem page_completed:
  assumes "asks_for webpages root name page c" "makes_room t stream ack"
  shows "let d = (acknowledged e t ack ^^ Suc (length page)) (extHttpHandleRequest webpages handler root c)
         in m_freed d \<and> stream (m_pcb d) = stream (m_pcb c) @ page \<and> \<not> m_after d"
  using page_completes [OF assms(2) request_sends(1) [OF assms(1), of stream], of "length page" e handler] by (simp add: complete_def Let_def)

subsection \<open>Other responses\<close>

text \<open>When a page that was created on request is complete, its connection is freed and its structure is used once more.\<close>

lemma cgi_used_after_free:
  assumes "reqType (conn c) = REQ_CGI" "m_freed (snd (extHttpSend e t c))" "\<not> m_freed c"
  shows "m_after (snd (extHttpSend e t c))"
proof -
  have "m_freed (snd (snd (extHttpWrite t data n c))) = m_freed c" for data n
    by (simp add: extHttpWrite_def upd_conn_def Let_def split: prod.split)
  then show ?thesis
    using assms by (auto simp: extHttpSend_def mHttpSendCgi_def touch_def upd_conn_def Let_def split: prod.splits if_splits)
qed

text \<open>
  However much of such a page was sent before, the next piece starts with its first byte again: a page that TCP does not take in one piece
  arrives as a repetition of its beginning.
\<close>

lemma cgi_page_restarts:
  assumes "tcp_ok t stream" "reqType (conn c) = REQ_CGI" "postDataLeft (conn c) = 0"
    "dataSendIndex (conn c) < contentLength (conn c)" "contentLength (conn c) \<le> length (h_data (conn c))" "contentLength (conn c) < 65536"
  shows "\<exists>n \<le> contentLength (conn c) - dataSendIndex (conn c).
    stream (m_pcb (snd (extHttpSend e t c))) = stream (m_pcb c) @ take n (h_data (conn c)) \<and>
    dataSendIndex (conn (snd (extHttpSend e t c))) = dataSendIndex (conn c) + n"
proof -
  let ?l = "contentLength (conn c) - dataSendIndex (conn c)"
  have l: "diff16 (contentLength (conn c)) (dataSendIndex (conn c)) = ?l" using assms(4,6) by (simp add: diff16_def flip: of_nat_diff)
  obtain err n d where w: "extHttpWrite t (h_data (conn c)) ?l c = (err, n, d)" by (cases "extHttpWrite t (h_data (conn c)) ?l c")
  obtain q where q: "d = c\<lparr>m_pcb := q\<rparr>" "stream q = stream (m_pcb c) @ take n (h_data (conn c))" "n \<le> ?l"
    using write_stream [OF assms(1) w le_trans [OF diff_le_self assms(5)]] by blast
  have m: "stream (m_pcb (mhttpConnEof e t d)) = stream q" "dataSendIndex (conn (mhttpConnEof e t d)) = dataSendIndex (conn c)"
    using assms(2,3) tcp_okD(2) [OF assms(1)]
    by (auto simp: q(1) mhttpConnEof_def mhttpConnClose_def mhttpConnCloseOrAbort_def mhttpConnFree_def mhttpStateEof_def upd_conn_def Let_def split: prod.split)
  have "dataSendIndex (conn c) + n < 65536" using assms(4,6) q(3) by simp
  then show ?thesis
    using assms(2) w q m by (intro exI [of _ n]) (auto simp: extHttpSend_def mHttpSendCgi_def l touch_def upd_conn_def add_sent_def Let_def)
qed

subsubsection \<open>Examples\<close>

text \<open>A connection with the stream that was accepted and the room that is left.\<close>

definition tcp_example :: "(bytes \<times> nat) tcp" where
  "tcp_example =
     \<lparr>tcp_sndbuf = snd, tcp_mss = (\<lambda>_. 2), tcp_queue_full = (\<lambda>_. False),
      tcp_write = (\<lambda>(s, n) d. if length d \<le> n then (ERR_OK, (s @ d, n - length d)) else (ERR_MEM, (s, n))),
      tcp_close = (\<lambda>p. (ERR_OK, p)), tcp_abort = (\<lambda>p. p)\<rparr>"

definition mhttp_example :: "bytes \<Rightarrow> (bytes \<times> nat) mhttp" where
  "mhttp_example uri =
     \<lparr>rq = http_conn_example\<lparr>hc := (conn_example 0)\<lparr>h_uri := uri\<rparr>\<rparr>, m_handle = None, m_file = [], m_left = 0, retries = 0, m_pcb = ([], 4), m_conns = 1,
      m_freed = False, m_after = False\<rparr>"

lemma tcp_example_ok: "tcp_ok tcp_example fst" "makes_room tcp_example fst (\<lambda>(s, n). (s, 3))"
  by (auto simp: tcp_ok_def makes_room_def has_room_def tcp_example_def)

lemma mhttp_example_pcb: "m_pcb (mhttp_example uri) = ([], 4)"
  by (simp add: mhttp_example_def)

definition page_example :: bytes where
  "page_example = [1, 2, 3, 4, 5]"

definition request_example :: "(bytes \<times> nat) mhttp" where
  "request_example = extHttpHandleRequest [] (\<lambda>x. x) [(ascii ''/a'', page_example, 1)] (mhttp_example (ascii ''/a''))"

lemma asks_example: "asks_for [] [(ascii ''/a'', page_example, 1)] (ascii ''/a'') page_example (mhttp_example (ascii ''/a''))"
  by (simp add: asks_for_def mhttp_example_def http_conn_example_def conn_example_def ascii_def)


theorem page_completed_witness:
  "fst (m_pcb ((acknowledged nor_example tcp_example (\<lambda>(s, n). (s, 3)) ^^ Suc (length page_example)) request_example)) = [1, 2, 3, 4, 5]"
  using page_completed [OF asks_example tcp_example_ok(2), of nor_example "\<lambda>x. x"]
  by (simp add: Let_def mhttp_example_pcb request_example_def [symmetric] page_example_def [symmetric] del: funpow.simps)

end
