(* ===== verification/Console.thy ===== *)
theory Console
  imports Prelude
begin

text \<open>
  The command line of the boot loader and of the RTOS: the line editor of
  \<^verbatim>\<open>src/an767/boot/src/bootMain.c\<close> and the interpreter of \<^verbatim>\<open>src/supports/lwip/lwip/src/exts/cmn/cmnCmdLine.c\<close>. The table
  of commands and their callbacks are parameters. The lemmas relate the editor to an abstract line and the
  pointer loops of the parser to a splitting into words.
\<close>

subsection \<open>Line editor\<close>

record console =
  cmd_buffer :: bytes
  inputIndex :: nat
  cmd_complete :: bool

abbreviation (input) CMD_BUFFER_SIZE :: nat where "CMD_BUFFER_SIZE \<equiv> 1024"

definition consoleHandler :: "u8 \<Rightarrow> console \<Rightarrow> console" where
  "consoleHandler key s =
     (if cmd_complete s then s
      else if key = 13 \<or> key = 10
      then (if inputIndex s > 0 then s\<lparr>cmd_buffer := (cmd_buffer s)[inputIndex s := 0], cmd_complete := True\<rparr> else s)
      else if key = 127 \<or> key = 8
      then (if inputIndex s > 0
            then s\<lparr>inputIndex := inputIndex s - 1, cmd_buffer := (cmd_buffer s)[inputIndex s - 1 := 0]\<rparr> else s)
      else if inputIndex s < CMD_BUFFER_SIZE - 1
      then s\<lparr>cmd_buffer := (cmd_buffer s)[inputIndex s := key], inputIndex := inputIndex s + 1\<rparr>
      else s)"

text \<open>\<open>_consoleMonitor\<close>: the flag is cleared before each key; the main loop resets the index after a command.\<close>

definition consoleMonitor :: "u8 \<Rightarrow> console \<Rightarrow> bool \<times> console" where
  "consoleMonitor key s = (let s' = consoleHandler key (s\<lparr>cmd_complete := False\<rparr>) in (cmd_complete s', s'))"

subsection \<open>Arguments\<close>

abbreviation (input) CMD_MAX_ARGUMENTS :: nat where "CMD_MAX_ARGUMENTS \<equiv> 10"
abbreviation (input) CMD_MAX_LENGTH :: nat where "CMD_MAX_LENGTH \<equiv> 32"

definition extGetOneArgument :: "bytes \<Rightarrow> bytes list \<Rightarrow> bytes list" where
  "extGetOneArgument w args =
     (if length args < CMD_MAX_ARGUMENTS \<and> length w \<le> CMD_MAX_LENGTH - 1 then args @ [w] else args)"

definition blank :: "u8 \<Rightarrow> bool" where
  "blank c \<longleftrightarrow> c = 32 \<or> c = 9"

text \<open>The loop, with the characters between \<open>start\<close> and \<open>cmdStr\<close> as \<open>cur\<close> and those from \<open>cmdStr\<close> on as the rest.\<close>

function parse_loop :: "bytes \<Rightarrow> bytes \<Rightarrow> bytes list \<Rightarrow> bytes list" where
  "parse_loop cur rest args =
     (case rest of
        [] \<Rightarrow> (if cur \<noteq> [] then extGetOneArgument cur args else args)
      | c # cs \<Rightarrow>
          if c = 0 then (if cur \<noteq> [] then extGetOneArgument cur args else args)
          else if blank c then parse_loop [] (dropWhile blank rest) (extGetOneArgument cur args)
          else parse_loop (cur @ [c]) cs args)"
  by pat_completeness auto
termination
  by (relation "measure (\<lambda>(cur, rest, args). length rest)") (auto simp: le_imp_less_Suc length_dropWhile_le)

declare parse_loop.simps [simp del]

definition cmdParseParameters :: "bytes \<Rightarrow> bytes list" where
  "cmdParseParameters cmdStr = parse_loop [] cmdStr []"

subsection \<open>Interpreter\<close>

text \<open>
  \<open>strncmp(argv[0], name, strlen(argv[0])) == 0\<close>. \<open>argv[0]\<close> is the empty string when there is no argument.
\<close>

definition arg0 :: "bytes list \<Rightarrow> bytes" where
  "arg0 args = (case args of [] \<Rightarrow> [] | a # _ \<Rightarrow> a)"

definition name_matches :: "bytes \<Rightarrow> bytes \<Rightarrow> bool" where
  "name_matches a name \<longleftrightarrow> take (length a) name = a"

fun findCmd :: "bytes \<Rightarrow> bytes list \<Rightarrow> nat \<Rightarrow> nat option" where
  "findCmd a [] i = None"
| "findCmd a (name # names) i = (if name_matches a name then Some i else findCmd a names (i + 1))"

text \<open>
  \<open>currentCmd\<close> is the static variable: the command that asked to be called again. The callback of a command
  is given the arguments and the state of the commands (their own statics) and returns whether it wants to be called
  again, the contents it puts into the output buffer, and its state. \<open>not_found\<close> is the text of the message for an
  unknown command.
\<close>

type_synonym 's command = "bytes list \<Rightarrow> 's \<Rightarrow> bool \<times> bytes \<times> 's"

definition cmnCmdLineProcess ::
  "(bytes \<times> 's command) list \<Rightarrow> (bytes \<Rightarrow> bytes) \<Rightarrow> bytes \<Rightarrow> nat option \<Rightarrow> 's \<Rightarrow> bool \<times> bytes \<times> nat option \<times> 's" where
  "cmnCmdLineProcess cmds not_found cmdInput currentCmd st =
     (let args = cmdParseParameters cmdInput;
          cmd = (case currentCmd of None \<Rightarrow> findCmd (arg0 args) (map fst cmds) 0 | Some i \<Rightarrow> Some i)
      in case cmd of
           Some i \<Rightarrow> (let (ret, out, st') = snd (cmds ! i) args st in (ret, out, if ret then Some i else None, st'))
         | None \<Rightarrow> (False, not_found cmdInput, None, st))"

text \<open>\<open>cmnCmdHelp\<close>: one help text a call; the static \<open>cmd\<close> is the state of the command.\<close>

definition cmnCmdHelp :: "nat \<Rightarrow> bytes list \<Rightarrow> (nat option) command" where
  "cmnCmdHelp bufferLen helpStrings args cmd =
     (let i = (case cmd of None \<Rightarrow> 0 | Some i \<Rightarrow> i); out = take bufferLen (helpStrings ! i)
      in if i + 1 = length helpStrings then (False, out, None) else (True, out, Some (i + 1)))"

text \<open>
  The loop of \<open>main\<close>: the line is processed as long as the command asks for it, and each output is printed.
  A command may ask for ever; \<open>None\<close> is a loop that has not ended after \<open>fuel\<close> calls.
\<close>

fun commandLoop ::
  "nat \<Rightarrow> (bytes \<times> 's command) list \<Rightarrow> (bytes \<Rightarrow> bytes) \<Rightarrow> bytes \<Rightarrow> nat option \<Rightarrow> 's \<Rightarrow> (bytes list \<times> nat option \<times> 's) option" where
  "commandLoop 0 cmds not_found cmdInput cur st = None"
| "commandLoop (Suc fuel) cmds not_found cmdInput cur st =
     (let (continues, out, cur', st') = cmnCmdLineProcess cmds not_found cmdInput cur st
      in if continues
         then (case commandLoop fuel cmds not_found cmdInput cur' st' of
                 None \<Rightarrow> None
               | Some (outs, r) \<Rightarrow> Some (out # outs, r))
         else Some ([out], cur', st'))"

subsection \<open>The line\<close>

text \<open>The line a user means: characters are appended up to the capacity, a deletion takes the last one away.\<close>

fun edit_line :: "u8 list \<Rightarrow> bytes \<Rightarrow> bytes" where
  "edit_line [] l = l"
| "edit_line (k # ks) l =
     edit_line ks (if k = 127 \<or> k = 8 then butlast l else if length l < CMD_BUFFER_SIZE - 1 then l @ [k] else l)"

definition console_inv :: "bytes \<Rightarrow> console \<Rightarrow> bool" where
  "console_inv l s \<longleftrightarrow> length (cmd_buffer s) = CMD_BUFFER_SIZE \<and> inputIndex s = length l \<and> length l < CMD_BUFFER_SIZE \<and>
     take (length l) (cmd_buffer s) = l \<and> \<not> cmd_complete s"

lemma take_snoc_update: "n < length xs \<Longrightarrow> take (Suc n) (xs[n := x]) = take n xs @ [x]"
  by (simp add: take_Suc_conv_app_nth)

lemma console_key:
  assumes "console_inv l s" "k \<noteq> 13" "k \<noteq> 10"
  shows "console_inv (if k = 127 \<or> k = 8 then butlast l else if length l < CMD_BUFFER_SIZE - 1 then l @ [k] else l) (consoleHandler k s)"
proof -
  have a: "length (cmd_buffer s) = 1024" "inputIndex s = length l" "length l < 1024" "take (length l) (cmd_buffer s) = l" "\<not> cmd_complete s"
    using assms(1) by (auto simp: console_inv_def)
  have "take (length l - 1) (cmd_buffer s) = butlast l" using a(1,3,4) by (metis butlast_take less_imp_le take_all_iff butlast_conv_take length_take min.absorb2)
  then show ?thesis using a assms(2,3) take_snoc_update [of "length l" "cmd_buffer s" k]
    by (auto simp: console_inv_def consoleHandler_def)
qed

lemma console_keys:
  "console_inv l s \<Longrightarrow> 13 \<notin> set ks \<Longrightarrow> 10 \<notin> set ks \<Longrightarrow> console_inv (edit_line ks l) (fold consoleHandler ks s)"
proof (induction ks arbitrary: l s)
  case (Cons k ks)
  then show ?case using console_key [of l s k] by (auto split: if_splits)
qed simp

text \<open>
  The line editor of the boot loader gives the interpreter the line the user meant and never writes
  outside its buffer: after any keys other than the line ends, the buffer holds the edited line, of
  at most 1023 characters; a line end then terminates it with a zero and completes the command, unless
  the line is empty.
\<close>
theorem console_line_edited:
  fixes ks :: "u8 list"
  assumes "length (cmd_buffer s) = CMD_BUFFER_SIZE" "inputIndex s = 0" "\<not> cmd_complete s" "13 \<notin> set ks" "10 \<notin> set ks"
  defines "l \<equiv> edit_line ks []" and "s1 \<equiv> fold consoleHandler ks s"
  shows "inputIndex s1 = length l \<and> length l < CMD_BUFFER_SIZE \<and> take (length l) (cmd_buffer s1) = l \<and>
    length (cmd_buffer s1) = CMD_BUFFER_SIZE \<and> cmd_complete (consoleHandler 13 s1) = (l \<noteq> []) \<and>
    (l \<noteq> [] \<longrightarrow> take (length l + 1) (cmd_buffer (consoleHandler 13 s1)) = l @ [0])"
proof -
  have "console_inv [] s" using assms(1-3) by (simp add: console_inv_def)
  then have i: "console_inv l s1" unfolding l_def s1_def using console_keys assms(4,5) by blast
  then show ?thesis using take_snoc_update [of "length l" "cmd_buffer s1" 0] by (auto simp: console_inv_def consoleHandler_def)
qed

theorem console_line_edited_witness:
  "cmd_complete (consoleHandler 13 (fold consoleHandler [104, 105, 8, 111] \<lparr>cmd_buffer = replicate 1024 0, inputIndex = 0, cmd_complete = False\<rparr>))"
  using console_line_edited [of "\<lparr>cmd_buffer = replicate 1024 0, inputIndex = 0, cmd_complete = False\<rparr>" "[104, 105, 8, 111]"] by simp

subsection \<open>Words\<close>

function words :: "bytes \<Rightarrow> bytes list" where
  "words s = (case dropWhile blank s of [] \<Rightarrow> [] | t \<Rightarrow> takeWhile (\<lambda>c. \<not> blank c) t # words (dropWhile (\<lambda>c. \<not> blank c) t))"
  by pat_completeness auto
termination
proof (relation "measure length")
  fix s t :: bytes and c cs
  assume d: "dropWhile blank s = c # cs"
  then have c: "\<not> blank c" using hd_dropWhile [of blank s] by auto
  have "length cs < length s" using length_dropWhile_le [of blank s] d by simp
  then have "length (dropWhile (\<lambda>c. \<not> blank c) (c # cs)) < length s"
    using length_dropWhile_le [of "\<lambda>c. \<not> blank c" cs] c by simp
  then show "(dropWhile (\<lambda>c. \<not> blank c) (c # cs), s) \<in> measure length" by simp
qed simp

declare words.simps [simp del]

lemma words_Nil: "words [] = []"
  by (simp add: words.simps)

lemma words_Cons: "\<not> blank c \<Longrightarrow> words (c # cs) = takeWhile (\<lambda>c. \<not> blank c) (c # cs) # words (dropWhile (\<lambda>c. \<not> blank c) (c # cs))"
  by (simp add: words.simps [of "c # cs"])

lemma words_blank: "words (dropWhile blank s) = words s"
  by (simp add: words.simps [of s] words.simps [of "dropWhile blank s"])

definition pieces :: "bytes \<Rightarrow> bytes \<Rightarrow> bytes list" where
  "pieces cur r = (case dropWhile (\<lambda>c. \<not> blank c) r of
     [] \<Rightarrow> if cur @ r = [] then [] else [cur @ r]
   | t \<Rightarrow> (cur @ takeWhile (\<lambda>c. \<not> blank c) r) # words t)"

lemma pieces_words: "r = [] \<or> \<not> blank (hd r) \<Longrightarrow> pieces [] r = words r"
proof (cases r)
  case (Cons c cs)
  moreover assume "r = [] \<or> \<not> blank (hd r)"
  ultimately have c: "\<not> blank c" by simp
  show ?thesis
  proof (cases "dropWhile (\<lambda>c. \<not> blank c) r")
    case Nil
    then have "takeWhile (\<lambda>c. \<not> blank c) r = r" by (metis append_Nil2 takeWhile_dropWhile_id)
    then show ?thesis using Nil Cons words_Cons [OF c, of cs] words_Nil by (simp add: pieces_def)
  next
    case (Cons x xs)
    then show ?thesis using \<open>r = c # cs\<close> words_Cons [OF c, of cs] by (simp add: pieces_def)
  qed
qed (simp add: pieces_def words_Nil)

lemma zero_not_blank: "\<not> blank 0"
  by (simp add: blank_def)

lemma text_of_blanks: "takeWhile (\<lambda>c. c \<noteq> 0) (dropWhile blank s) = dropWhile blank (takeWhile (\<lambda>c. c \<noteq> 0) s)"
  using zero_not_blank by (induction s) auto

lemma pieces_shift: "\<not> blank c \<Longrightarrow> pieces (cur @ [c]) r = pieces cur (c # r)"
  by (cases "dropWhile (\<lambda>c. \<not> blank c) r") (simp_all add: pieces_def del: dropWhile_eq_Nil_conv)

lemma parse_loop_pieces:
  "parse_loop cur rest args = fold extGetOneArgument (pieces cur (takeWhile (\<lambda>c. c \<noteq> 0) rest)) args"
proof (induction cur rest args rule: parse_loop.induct)
  case (1 cur rest args)
  show ?case
  proof (cases rest)
    case Nil
    then show ?thesis by (simp add: parse_loop.simps pieces_def)
  next
    case (Cons c cs)
    let ?r = "takeWhile (\<lambda>c. c \<noteq> 0) rest"
    consider "c = 0" | "c \<noteq> 0" "blank c" | "c \<noteq> 0" "\<not> blank c" by blast
    then show ?thesis
    proof cases
      case 1
      then show ?thesis using Cons by (simp add: parse_loop.simps pieces_def)
    next
      case 2
      let ?d = "dropWhile blank ?r"
      have "?d = [] \<or> \<not> blank (hd ?d)" using hd_dropWhile [of blank ?r] by blast
      then have "pieces [] ?d = words ?r" using pieces_words words_blank by metis
      moreover have "pieces cur ?r = cur # words ?r" using 2 Cons by (simp add: pieces_def)
      moreover have "parse_loop cur rest args = parse_loop [] (dropWhile blank rest) (extGetOneArgument cur args)"
        using 2 Cons by (simp add: parse_loop.simps [of cur])
      ultimately show ?thesis using "1.IH"(1) [OF Cons] 2 text_of_blanks [of rest] by simp
    next
      case 3
      have "parse_loop cur rest args = parse_loop (cur @ [c]) cs args" using 3 Cons by (simp add: parse_loop.simps [of cur])
      moreover have "pieces (cur @ [c]) (takeWhile (\<lambda>c. c \<noteq> 0) cs) = pieces cur ?r"
        using 3 Cons pieces_shift [of c cur] by simp
      ultimately show ?thesis using "1.IH"(2) [OF Cons] 3 by simp
    qed
  qed
qed

lemma fold_arguments:
  "length args \<le> 10 \<Longrightarrow> fold extGetOneArgument ws args = take 10 (args @ filter (\<lambda>w. length w \<le> 31) ws)"
proof (induction ws arbitrary: args)
  case (Cons w ws)
  show ?case
  proof (cases "length args < 10 \<and> length w \<le> 31")
    case True
    then have "fold extGetOneArgument ws (args @ [w]) = take 10 ((args @ [w]) @ filter (\<lambda>w. length w \<le> 31) ws)"
      using Cons.IH [of "args @ [w]"] by simp
    moreover have "extGetOneArgument w args = args @ [w]" using True by (simp add: extGetOneArgument_def)
    ultimately show ?thesis using True by simp
  next
    case False
    then show ?thesis using Cons by (auto simp: extGetOneArgument_def)
  qed
qed simp

text \<open>The arguments of a line: its words, and an empty one first when the line starts with a blank.\<close>

definition line_words :: "bytes \<Rightarrow> bytes list" where
  "line_words r = (if r \<noteq> [] \<and> blank (hd r) then [[]] else []) @ words r"

lemma pieces_line_words: "pieces [] r = line_words r"
proof (cases "r \<noteq> [] \<and> blank (hd r)")
  case True
  then obtain c cs where "r = c # cs" "blank c" by (cases r) auto
  then show ?thesis by (simp add: pieces_def line_words_def)
next
  case False
  then show ?thesis using pieces_words [of r] by (auto simp: line_words_def)
qed

lemma cmdParseParameters_words:
  "cmdParseParameters s = take 10 (filter (\<lambda>w. length w \<le> 31) (line_words (takeWhile (\<lambda>c. c \<noteq> 0) s)))"
  unfolding cmdParseParameters_def parse_loop_pieces pieces_line_words using fold_arguments [of "[]"] by simp

subsection \<open>Lookup\<close>

lemma findCmd_Some:
  "findCmd a names i = Some j \<Longrightarrow>
     i \<le> j \<and> j - i < length names \<and> name_matches a (names ! (j - i)) \<and> list_all (\<lambda>n. \<not> name_matches a n) (take (j - i) names)"
proof (induction names arbitrary: i)
  case (Cons n ns)
  show ?case
  proof (cases "name_matches a n")
    case False
    then have f: "findCmd a ns (i + 1) = Some j" using Cons.prems by simp
    have h: "i + 1 \<le> j" "j - (i + 1) < length ns" "name_matches a (ns ! (j - (i + 1)))"
      "list_all (\<lambda>n. \<not> name_matches a n) (take (j - (i + 1)) ns)"
      using Cons.IH [OF f] by auto
    obtain d where "j = i + 1 + d" using h(1) le_Suc_ex by blast
    then show ?thesis using h False by simp
  qed (use Cons.prems in simp)
qed simp

lemma findCmd_None: "findCmd a names i = None \<longleftrightarrow> list_all (\<lambda>n. \<not> name_matches a n) names"
  by (induction names arbitrary: i) auto

text \<open>
  The interpreter runs the command a line names. The arguments are the words of the line, those
  longer than 31 characters left out and at most ten of them, preceded by an empty one when the line starts with a
  blank. The command called is the first of the table whose name starts with the first argument, with exactly these
  arguments; when there is none, nothing is called and the message is given.
\<close>
theorem command_dispatched:
  fixes line :: bytes
  defines "args \<equiv> take 10 (filter (\<lambda>w. length w \<le> 31) (line_words (takeWhile (\<lambda>c. c \<noteq> 0) line)))"
  shows "(\<exists>i. i < length cmds \<and> name_matches (arg0 args) (fst (cmds ! i)) \<and>
            list_all (\<lambda>c. \<not> name_matches (arg0 args) (fst c)) (take i cmds) \<and>
            (\<exists>ret out st'. snd (cmds ! i) args st = (ret, out, st') \<and>
               cmnCmdLineProcess cmds nf line None st = (ret, out, if ret then Some i else None, st'))) \<or>
         list_all (\<lambda>c. \<not> name_matches (arg0 args) (fst c)) cmds \<and>
         cmnCmdLineProcess cmds nf line None st = (False, nf line, None, st)"
proof (cases "findCmd (arg0 args) (map fst cmds) 0")
  case None
  then have "list_all (\<lambda>c. \<not> name_matches (arg0 args) (fst c)) cmds" using findCmd_None [of "arg0 args" "map fst cmds" 0]
    by (simp add: list.pred_map comp_def)
  then show ?thesis using None by (simp add: cmnCmdLineProcess_def cmdParseParameters_words args_def)
next
  case (Some i)
  obtain ret out st' where c: "snd (cmds ! i) args st = (ret, out, st')" by (cases "snd (cmds ! i) args st") auto
  have "cmnCmdLineProcess cmds nf line None st = (ret, out, if ret then Some i else None, st')"
    using Some c by (simp add: cmnCmdLineProcess_def cmdParseParameters_words args_def)
  moreover have "i < length cmds" "name_matches (arg0 args) (fst (cmds ! i))"
    "list_all (\<lambda>c. \<not> name_matches (arg0 args) (fst c)) (take i cmds)"
    using findCmd_Some [OF Some] by (auto simp: take_map list.pred_map comp_def)
  ultimately show ?thesis using c by blast
qed

lemma cmnCmdLineProcess_again:
  "snd (cmds ! i) (cmdParseParameters line) st = (ret, out, st') \<Longrightarrow>
     cmnCmdLineProcess cmds nf line (Some i) st = (ret, out, if ret then Some i else None, st')"
  by (simp add: cmnCmdLineProcess_def)

lemma help_from:
  assumes "k < length helps" "snd (cmds ! h) = cmnCmdHelp n helps" "length helps - k \<le> fuel"
  shows "commandLoop fuel cmds nf line (Some h) (Some k) = Some (map (take n) (drop k helps), None, None)"
  using assms
proof (induction fuel arbitrary: k)
  case (Suc fuel)
  show ?case
  proof (cases "k + 1 = length helps")
    case True
    then have "drop k helps = [helps ! k]" by (simp add: Cons_nth_drop_Suc [symmetric])
    then show ?thesis using True Suc.prems(2) by (simp add: cmnCmdLineProcess_def cmnCmdHelp_def)
  next
    case False
    then have "commandLoop fuel cmds nf line (Some h) (Some (k + 1)) = Some (map (take n) (drop (k + 1) helps), None, None)"
      using Suc by auto
    moreover have "drop k helps = helps ! k # drop (k + 1) helps" using Suc.prems(1) by (simp add: Cons_nth_drop_Suc)
    ultimately show ?thesis using False Suc.prems(2) by (simp add: cmnCmdLineProcess_def cmnCmdHelp_def)
  qed
qed simp

lemma help_first:
  assumes "helps \<noteq> []" "snd (cmds ! h) = cmnCmdHelp n helps" "findCmd (arg0 (cmdParseParameters line)) (map fst cmds) 0 = Some h"
  shows "cmnCmdLineProcess cmds nf line None None = cmnCmdLineProcess cmds nf line (Some h) (Some 0)"
  using assms by (simp add: cmnCmdLineProcess_def cmnCmdHelp_def)

text \<open>
  The help command ends and shows every command: when a line names it, the loop that repeats a
  command while it asks for more prints the help texts of the whole table, each once and in order, cut to the output buffer, and
  leaves no command pending, neither in the interpreter nor in the help command. As many calls as the table has entries are enough.
\<close>
theorem help_lists_all:
  assumes "helps \<noteq> []" "snd (cmds ! h) = cmnCmdHelp bufferLen helps"
    "findCmd (arg0 (cmdParseParameters line)) (map fst cmds) 0 = Some h" "length helps \<le> fuel"
  shows "commandLoop fuel cmds nf line None None = Some (map (take bufferLen) helps, None, None)"
proof -
  obtain f where f: "fuel = Suc f" using assms(1,4) by (cases fuel) auto
  have "commandLoop fuel cmds nf line None None = commandLoop fuel cmds nf line (Some h) (Some 0)"
    using help_first [OF assms(1-3)] by (simp add: f)
  then show ?thesis using help_from [of 0 helps cmds h bufferLen fuel] assms by simp
qed

theorem help_lists_all_witness:
  "commandLoop 2 [([114, 101], \<lambda>args st. (False, [], st)), ([104, 101, 108, 112], cmnCmdHelp 2 [[1, 2, 3], [4]])] (\<lambda>l. l) [104, 101, 32, 120, 0] None None
     = Some ([[1, 2], [4]], None, None)"
  using help_lists_all [of "[[1, 2, 3], [4]]" "[([114, 101], \<lambda>args st. (False, [], st)), ([104, 101, 108, 112], cmnCmdHelp 2 [[1, 2, 3], [4]])]"
      1 2 "[104, 101, 32, 120, 0]" 2 "\<lambda>l. l"]
  by (simp add: cmdParseParameters_def parse_loop.simps extGetOneArgument_def blank_def arg0_def name_matches_def)

text \<open>
  An empty line, and a line that starts with a blank, run the first command of the table: the first argument is
  empty, and the comparison of no characters always succeeds.
\<close>
theorem blank_line_runs_first:
  fixes line :: bytes
  assumes "line = [] \<or> hd line = 0 \<or> blank (hd line)" "cmds \<noteq> []"
  shows "findCmd (arg0 (cmdParseParameters line)) (map fst cmds) 0 = Some 0"
proof -
  have "arg0 (cmdParseParameters line) = []"
  proof (cases line)
    case (Cons c cs)
    then have "c = 0 \<or> blank c" using assms(1) by simp
    then show ?thesis using Cons zero_not_blank words_Nil
      by (auto simp: cmdParseParameters_words line_words_def arg0_def)
  qed (simp add: cmdParseParameters_def parse_loop.simps arg0_def)
  then show ?thesis using assms(2) by (cases cmds) (simp_all add: name_matches_def)
qed

end
