(* ===== verification/Crc16.thy ===== *)
theory Crc16
  imports Prelude
begin

text \<open>
  The checksum of the serial transfer protocols: \<^verbatim>\<open>src/an767/bsp/src/modem/crc16.c\<close>, a table driven CRC
  with the polynomial \<open>x^16 + x^12 + x^5 + 1\<close>.

  The reference is the division by the polynomial, bit by bit, as a shift register. The lemmas show that
  the 256 constants of the table are those of the polynomial, that the routine computes the division, and
  that one step of it is injective in the register and in the byte, so that two texts of the same length
  that differ in one byte never have the same checksum.
\<close>

subsection \<open>The routine\<close>

definition crc16_tab :: "16 word list" where
  "crc16_tab =
    [0x0000, 0x1021, 0x2042, 0x3063, 0x4084, 0x50a5, 0x60c6, 0x70e7,
     0x8108, 0x9129, 0xa14a, 0xb16b, 0xc18c, 0xd1ad, 0xe1ce, 0xf1ef,
     0x1231, 0x0210, 0x3273, 0x2252, 0x52b5, 0x4294, 0x72f7, 0x62d6,
     0x9339, 0x8318, 0xb37b, 0xa35a, 0xd3bd, 0xc39c, 0xf3ff, 0xe3de,
     0x2462, 0x3443, 0x0420, 0x1401, 0x64e6, 0x74c7, 0x44a4, 0x5485,
     0xa56a, 0xb54b, 0x8528, 0x9509, 0xe5ee, 0xf5cf, 0xc5ac, 0xd58d,
     0x3653, 0x2672, 0x1611, 0x0630, 0x76d7, 0x66f6, 0x5695, 0x46b4,
     0xb75b, 0xa77a, 0x9719, 0x8738, 0xf7df, 0xe7fe, 0xd79d, 0xc7bc,
     0x48c4, 0x58e5, 0x6886, 0x78a7, 0x0840, 0x1861, 0x2802, 0x3823,
     0xc9cc, 0xd9ed, 0xe98e, 0xf9af, 0x8948, 0x9969, 0xa90a, 0xb92b,
     0x5af5, 0x4ad4, 0x7ab7, 0x6a96, 0x1a71, 0x0a50, 0x3a33, 0x2a12,
     0xdbfd, 0xcbdc, 0xfbbf, 0xeb9e, 0x9b79, 0x8b58, 0xbb3b, 0xab1a,
     0x6ca6, 0x7c87, 0x4ce4, 0x5cc5, 0x2c22, 0x3c03, 0x0c60, 0x1c41,
     0xedae, 0xfd8f, 0xcdec, 0xddcd, 0xad2a, 0xbd0b, 0x8d68, 0x9d49,
     0x7e97, 0x6eb6, 0x5ed5, 0x4ef4, 0x3e13, 0x2e32, 0x1e51, 0x0e70,
     0xff9f, 0xefbe, 0xdfdd, 0xcffc, 0xbf1b, 0xaf3a, 0x9f59, 0x8f78,
     0x9188, 0x81a9, 0xb1ca, 0xa1eb, 0xd10c, 0xc12d, 0xf14e, 0xe16f,
     0x1080, 0x00a1, 0x30c2, 0x20e3, 0x5004, 0x4025, 0x7046, 0x6067,
     0x83b9, 0x9398, 0xa3fb, 0xb3da, 0xc33d, 0xd31c, 0xe37f, 0xf35e,
     0x02b1, 0x1290, 0x22f3, 0x32d2, 0x4235, 0x5214, 0x6277, 0x7256,
     0xb5ea, 0xa5cb, 0x95a8, 0x8589, 0xf56e, 0xe54f, 0xd52c, 0xc50d,
     0x34e2, 0x24c3, 0x14a0, 0x0481, 0x7466, 0x6447, 0x5424, 0x4405,
     0xa7db, 0xb7fa, 0x8799, 0x97b8, 0xe75f, 0xf77e, 0xc71d, 0xd73c,
     0x26d3, 0x36f2, 0x0691, 0x16b0, 0x6657, 0x7676, 0x4615, 0x5634,
     0xd94c, 0xc96d, 0xf90e, 0xe92f, 0x99c8, 0x89e9, 0xb98a, 0xa9ab,
     0x5844, 0x4865, 0x7806, 0x6827, 0x18c0, 0x08e1, 0x3882, 0x28a3,
     0xcb7d, 0xdb5c, 0xeb3f, 0xfb1e, 0x8bf9, 0x9bd8, 0xabbb, 0xbb9a,
     0x4a75, 0x5a54, 0x6a37, 0x7a16, 0x0af1, 0x1ad0, 0x2ab3, 0x3a92,
     0xfd2e, 0xed0f, 0xdd6c, 0xcd4d, 0xbdaa, 0xad8b, 0x9de8, 0x8dc9,
     0x7c26, 0x6c07, 0x5c64, 0x4c45, 0x3ca2, 0x2c83, 0x1ce0, 0x0cc1,
     0xef1f, 0xff3e, 0xcf5d, 0xdf7c, 0xaf9b, 0xbfba, 0x8fd9, 0x9ff8,
     0x6e17, 0x7e36, 0x4e55, 0x5e74, 0x2e93, 0x3eb2, 0x0ed1, 0x1ef0]"

fun crc16_ccitt :: "16 word \<Rightarrow> bytes \<Rightarrow> 16 word" where
  "crc16_ccitt cksum [] = cksum"
| "crc16_ccitt cksum (b # buf) =
     crc16_ccitt (crc16_tab ! unat ((drop_bit 8 cksum XOR ucast b) AND 0xff) XOR push_bit 8 cksum) buf"

subsection \<open>The polynomial\<close>

definition crc_shift :: "16 word \<Rightarrow> 16 word" where
  "crc_shift r = (if bit r 15 then push_bit 1 r XOR 0x1021 else push_bit 1 r)"

definition crc_byte :: "16 word \<Rightarrow> u8 \<Rightarrow> 16 word" where
  "crc_byte r b = (crc_shift ^^ 8) (r XOR push_bit 8 (ucast b))"

definition crc_poly :: "16 word \<Rightarrow> bytes \<Rightarrow> 16 word" where
  "crc_poly r bs = foldl crc_byte r bs"

lemma crc_shift_xor: "crc_shift (a XOR b) = crc_shift a XOR crc_shift b"
  by (auto simp: crc_shift_def bit_xor_iff push_bit_xor ac_simps intro!: bit_word_eqI)

lemma crc_shift_funpow_xor: "(crc_shift ^^ n) (a XOR b) = (crc_shift ^^ n) a XOR (crc_shift ^^ n) b"
  by (induction n) (simp_all add: crc_shift_xor)

lemma and_255: "(r :: 16 word) AND 0xff = take_bit 8 r"
  by (simp add: take_bit_eq_mask mask_eq_exp_minus_1)

lemma crc_shift_low: "n \<le> 8 \<Longrightarrow> (crc_shift ^^ n) (take_bit 8 r) = push_bit n (take_bit 8 r)"
proof (induction n)
  case (Suc n)
  then have "\<not> bit (push_bit n (take_bit 8 r)) 15" by (auto simp: bit_simps)
  with Suc show ?case by (simp add: crc_shift_def push_bit_push_bit)
qed simp

text \<open>
  The table. Its entry \<open>2 * i\<close> is entry \<open>i\<close> shifted once, and the next one differs by the polynomial: this is
  checked on the constants, and gives every entry from the first.
\<close>

fun tab_ok :: "16 word list \<Rightarrow> 16 word list \<Rightarrow> bool" where
  "tab_ok (x # xs) (a # b # ys) \<longleftrightarrow> a = crc_shift x \<and> b = a XOR 0x1021 \<and> tab_ok xs ys"
| "tab_ok xs ys \<longleftrightarrow> ys = []"

lemma crc16_tab_ok: "tab_ok crc16_tab crc16_tab"
  by code_simp

lemma crc16_tab_first: "length crc16_tab = 256" "crc16_tab ! 0 = 0"
  by (simp_all add: crc16_tab_def)

lemma tab_ok_nth:
  "tab_ok xs ys \<Longrightarrow> 2 * i + 1 < length ys \<Longrightarrow>
   ys ! (2 * i) = crc_shift (xs ! i) \<and> ys ! (2 * i + 1) = crc_shift (xs ! i) XOR 0x1021"
proof (induction xs ys arbitrary: i rule: tab_ok.induct)
  case (1 x xs a b ys)
  then show ?case by (cases i) auto
qed auto

lemma crc_shift_8_double:
  fixes j :: nat
  assumes "j < 128"
  shows "(crc_shift ^^ 8) (push_bit 8 (word_of_nat (2 * j))) = crc_shift ((crc_shift ^^ 8) (push_bit 8 (word_of_nat j)))"
proof -
  have "\<not> bit j 7" using assms by (simp add: bit_iff_odd)
  then have "\<not> bit (push_bit 8 (word_of_nat j :: 16 word)) 15" by (simp add: bit_simps)
  moreover have "push_bit 8 (word_of_nat (2 * j) :: 16 word) = push_bit 1 (push_bit 8 (word_of_nat j))"
    by (simp add: push_bit_eq_mult)
  ultimately have "push_bit 8 (word_of_nat (2 * j)) = crc_shift (push_bit 8 (word_of_nat j))"
    by (simp add: crc_shift_def)
  then show ?thesis by (simp only: funpow_swap1)
qed

lemma crc_shift_8_odd:
  "(crc_shift ^^ 8) (push_bit 8 (word_of_nat (2 * j + 1))) = (crc_shift ^^ 8) (push_bit 8 (word_of_nat (2 * j))) XOR 0x1021"
proof -
  have "(word_of_nat (2 * j + 1) :: 16 word) = word_of_nat (2 * j) XOR 1"
    by (simp add: xor_one_eq)
  moreover have "(crc_shift ^^ 8) (push_bit 8 1) = 0x1021" by code_simp
  ultimately show ?thesis by (simp only: push_bit_xor crc_shift_funpow_xor)
qed

lemma crc16_tab_nth: "i < 256 \<Longrightarrow> crc16_tab ! i = (crc_shift ^^ 8) (push_bit 8 (word_of_nat i))"
proof (induction i rule: less_induct)
  case (less i)
  define j where "j = i div 2"
  show ?case
  proof (cases "i = 0")
    case True
    have "(crc_shift ^^ 8) 0 = 0" by code_simp
    with True show ?thesis by (simp add: crc16_tab_first)
  next
    case False
    then have "j < i" "j < 128" using less.prems by (auto simp: j_def)
    then have j: "crc16_tab ! j = (crc_shift ^^ 8) (push_bit 8 (word_of_nat j))" using less.IH by simp
    have "i = 2 * j \<or> i = 2 * j + 1" by (auto simp: j_def)
    moreover note tab_ok_nth [OF crc16_tab_ok, of j] crc16_tab_first(1) crc_shift_8_double [OF \<open>j < 128\<close>] crc_shift_8_odd [of j] j
    ultimately show ?thesis using \<open>j < 128\<close> by auto
  qed
qed

lemma crc_step:
  fixes r :: "16 word"
  shows "crc16_tab ! unat ((drop_bit 8 r XOR ucast b) AND 0xff) XOR push_bit 8 r = crc_byte r b"
proof -
  let ?i = "take_bit 8 (drop_bit 8 r XOR ucast b) :: 16 word"
  have "unat ?i < 2 ^ 8" by (simp only: unsigned_take_bit_eq take_bit_nat_less_exp)
  then have tab: "crc16_tab ! unat ?i = (crc_shift ^^ 8) (push_bit 8 ?i)" by (simp add: crc16_tab_nth)
  have "r XOR push_bit 8 (ucast b) = push_bit 8 ?i XOR take_bit 8 r"
    by (rule bit_word_eqI) (auto simp: bit_simps)
  moreover have "push_bit 8 (take_bit 8 r) = push_bit 8 r"
    by (rule bit_word_eqI) (auto simp: bit_simps)
  ultimately show ?thesis
    by (simp only: and_255 crc_byte_def crc_shift_funpow_xor crc_shift_low [OF order_refl] tab)
qed

lemma crc16_ccitt_poly: "crc16_ccitt r bs = crc_poly r bs"
  by (induction bs arbitrary: r) (simp_all add: crc_poly_def crc_step)

lemma crc16_append: "crc16_ccitt r (xs @ ys) = crc16_ccitt (crc16_ccitt r xs) ys"
  by (simp add: crc16_ccitt_poly crc_poly_def)

subsection \<open>Errors it detects\<close>

lemma crc_shift_eq_0: "crc_shift x = 0 \<Longrightarrow> x = 0"
proof (cases "bit x 15")
  case True
  then have "bit (crc_shift x) 0" by (simp add: crc_shift_def bit_0 even_xor_iff)
  then show "crc_shift x = 0 \<Longrightarrow> x = 0" by simp
next
  case False
  assume "crc_shift x = 0"
  with False have z: "push_bit 1 x = 0" by (simp add: crc_shift_def)
  show "x = 0"
  proof (rule bit_word_eqI)
    fix n assume "n < LENGTH(16)"
    moreover from z have "\<not> bit (push_bit 1 x) (Suc n)" by (simp only: bit_0_eq bot_fun_def bot_bool_def not_False_eq_True)
    ultimately show "bit x n = bit 0 n" using False unfolding bit_push_bit_iff by (cases "n = 15") auto
  qed
qed

lemma crc_shift_funpow_inj: "(crc_shift ^^ n) a = (crc_shift ^^ n) b \<longleftrightarrow> a = b"
proof
  assume "(crc_shift ^^ n) a = (crc_shift ^^ n) b"
  then have "(crc_shift ^^ n) (a XOR b) = 0" by (simp add: crc_shift_funpow_xor)
  then have "a XOR b = 0" by (induction n) (auto dest: crc_shift_eq_0)
  then show "a = b" by (simp only: xor_eq_0)
qed simp

lemma crc_byte_inj: "crc_byte r b = crc_byte r' b \<longleftrightarrow> r = r'"
  by (simp only: crc_byte_def crc_shift_funpow_inj xor.commute [of _ "push_bit 8 (ucast b)"] xor_cancel)

lemma crc_poly_inj: "crc_poly r bs = crc_poly r' bs \<longleftrightarrow> r = r'"
  by (induction bs arbitrary: r r') (simp_all add: crc_poly_def crc_byte_inj)

lemma crc_two_bytes: "crc_byte (crc_byte r a) b = (crc_shift ^^ 16) (r XOR (push_bit 8 (ucast a) XOR ucast b))"
proof -
  have "take_bit 8 (ucast b :: 16 word) = ucast b" by (rule bit_word_eqI) (auto simp: bit_simps dest: bit_imp_le_length)
  with crc_shift_low [of 8 "ucast b"] have "push_bit 8 (ucast b) = (crc_shift ^^ 8) (ucast b)" by simp
  then have "crc_byte (crc_byte r a) b = (crc_shift ^^ 8) ((crc_shift ^^ 8) (r XOR push_bit 8 (ucast a) XOR ucast b))"
    by (simp only: crc_byte_def crc_shift_funpow_xor xor.assoc)
  also have "\<dots> = (crc_shift ^^ (8 + 8)) (r XOR push_bit 8 (ucast a) XOR ucast b)" by (simp only: funpow_add o_apply)
  finally show ?thesis by (simp add: xor.assoc)
qed

lemma word_of_bytes_inj:
  "(push_bit 8 (ucast (a::u8)) XOR ucast (b::u8) :: 16 word) = push_bit 8 (ucast c) XOR ucast d \<Longrightarrow> a = c \<and> b = d"
proof
  assume eq: "(push_bit 8 (ucast a) XOR ucast b :: 16 word) = push_bit 8 (ucast c) XOR ucast d"
  show "a = c"
  proof (rule bit_word_eqI)
    fix n assume "n < LENGTH(8)"
    with arg_cong [OF eq, of "\<lambda>w. bit w (n + 8)"] show "bit a n = bit c n"
      by (auto simp: bit_simps dest: bit_imp_le_length)
  qed
  show "b = d"
  proof (rule bit_word_eqI)
    fix n assume "n < LENGTH(8)"
    with arg_cong [OF eq, of "\<lambda>w. bit w n"] show "bit b n = bit d n" by (auto simp: bit_simps)
  qed
qed

lemma crc16_two_bytes_detected:
  "crc16_ccitt r (xs @ [a, b] @ ys) = crc16_ccitt r (xs @ [c, d] @ ys) \<longleftrightarrow> a = c \<and> b = d"
proof
  assume "crc16_ccitt r (xs @ [a, b] @ ys) = crc16_ccitt r (xs @ [c, d] @ ys)"
  then have "crc_byte (crc_byte (crc_poly r xs) a) b = crc_byte (crc_byte (crc_poly r xs) c) d"
    using crc_poly_inj [of _ ys] by (simp add: crc16_ccitt_poly crc_poly_def)
  then have "crc_poly r xs XOR (push_bit 8 (ucast a) XOR ucast b) = crc_poly r xs XOR (push_bit 8 (ucast c) XOR ucast d)"
    by (simp only: crc_two_bytes crc_shift_funpow_inj)
  then have "(push_bit 8 (ucast a) XOR ucast b :: 16 word) = push_bit 8 (ucast c) XOR ucast d"
    by (simp only: xor_cancel)
  then show "a = c \<and> b = d" by (rule word_of_bytes_inj)
qed simp

subsection \<open>Properties\<close>

text \<open>
  C28: The table driven CRC is the remainder of the division by the polynomial: for every start value and
  every text, \<open>crc16_ccitt\<close> returns what the shift register with the polynomial \<open>x^16 + x^12 + x^5 + 1\<close> holds
  after the text was shifted in bit by bit.
\<close>

theorem crc16_is_division: "crc16_ccitt cksum buf = foldl (\<lambda>r b. (crc_shift ^^ 8) (r XOR push_bit 8 (ucast b))) cksum buf"
  by (induction buf arbitrary: cksum) (simp_all add: crc_step crc_byte_def)

end
