(* ===== verification/XyModem.thy ===== *)
theory XyModem
  imports Crc16 FirmUpload
begin

text \<open>
  Transfer of an image over the serial console: \<^verbatim>\<open>src/an767/bsp/src/modem/xyModem.c\<close> (the receiver of the
  XMODEM and YMODEM protocols) and its caller \<open>_loadFpgaFromSerialYmodem\<close> of
  \<^verbatim>\<open>src/an767/bsp/src/bspSpiFlash.c\<close>, which stores what arrives in the SPI flash.

  The serial line is a list: \<open>Some c\<close> is a character that arrives before the timeout of two seconds, \<open>None\<close>
  a timeout; after the end of the list the line stays idle. What the receiver sends is recorded in \<open>tx\<close>.
  An access outside \<open>pkt\<close> and a \<open>memcpy\<close> with a negative length have the result \<open>None\<close>.
  The lemmas show that the receiver always comes back, that a block with damaged content is never taken,
  that a file sent by a correct sender is delivered unchanged, and where the receiver leaves its memory.
\<close>

subsection \<open>State\<close>

abbreviation (input) SOH :: u8 where "SOH \<equiv> 1"
abbreviation (input) STX :: u8 where "STX \<equiv> 2"
abbreviation (input) EOT :: u8 where "EOT \<equiv> 4"
abbreviation (input) ACK :: u8 where "ACK \<equiv> 6"
abbreviation (input) BSP :: u8 where "BSP \<equiv> 8"
abbreviation (input) NAK :: u8 where "NAK \<equiv> 0x15"
abbreviation (input) CAN :: u8 where "CAN \<equiv> 0x18"
abbreviation (input) XMODEM_EOF :: u8 where "XMODEM_EOF \<equiv> 0x1A"
abbreviation (input) xyzModem_xmodem :: int where "xyzModem_xmodem \<equiv> 1"
abbreviation (input) xyzModem_ymodem :: int where "xyzModem_ymodem \<equiv> 2"
abbreviation (input) xyzModem_timeout :: int where "xyzModem_timeout \<equiv> -3"
abbreviation (input) xyzModem_eof :: int where "xyzModem_eof \<equiv> -4"
abbreviation (input) xyzModem_cancel :: int where "xyzModem_cancel \<equiv> -5"
abbreviation (input) xyzModem_frame :: int where "xyzModem_frame \<equiv> -6"
abbreviation (input) xyzModem_cksum :: int where "xyzModem_cksum \<equiv> -7"
abbreviation (input) xyzModem_sequence :: int where "xyzModem_sequence \<equiv> -8"
abbreviation (input) xyzModem_MAX_RETRIES :: nat where "xyzModem_MAX_RETRIES \<equiv> 20"
abbreviation (input) xyzModem_MAX_RETRIES_WITH_CRC :: int where "xyzModem_MAX_RETRIES_WITH_CRC \<equiv> 10"
abbreviation (input) xyzModem_CAN_COUNT :: nat where "xyzModem_CAN_COUNT \<equiv> 3"

text \<open>\<open>bufp\<close> is the index into \<open>pkt\<close> that the pointer stands for.\<close>

record xyz =
  pkt :: bytes
  bufp :: nat
  blk :: u8
  cblk :: u8
  crc1 :: u8
  crc2 :: u8
  next_blk :: u8
  len :: int
  mode :: int
  total_retries :: int
  total_SOH :: int
  total_STX :: int
  total_CAN :: int
  crc_mode :: bool
  at_eof :: bool
  tx_ack :: bool
  file_length :: u32w
  read_length :: u32w
  rx :: "u8 option list"
  tx :: bytes

definition GETC_TIMEOUT :: "xyz \<Rightarrow> u8 option \<times> xyz" where
  "GETC_TIMEOUT s = (case rx s of [] \<Rightarrow> (None, s) | x # xs \<Rightarrow> (x, s\<lparr>rx := xs\<rparr>))"

definition PUTC :: "u8 \<Rightarrow> xyz \<Rightarrow> xyz" where
  "PUTC y s = s\<lparr>tx := tx s @ [y]\<rparr>"

fun line_idle :: "u8 option list \<Rightarrow> u8 option list" where
  "line_idle [] = []"
| "line_idle (None # xs) = xs"
| "line_idle (Some c # xs) = line_idle xs"

definition xyzModem_flush :: "xyz \<Rightarrow> xyz" where
  "xyzModem_flush s = s\<lparr>rx := line_idle (rx s)\<rparr>"

subsection \<open>Numbers\<close>

definition is_hex :: "u8 \<Rightarrow> bool" where
  "is_hex c \<longleftrightarrow> 48 \<le> c \<and> c \<le> 57 \<or> 65 \<le> c \<and> c \<le> 70 \<or> 97 \<le> c \<and> c \<le> 102"

definition from_hex :: "u8 \<Rightarrow> nat" where
  "from_hex c =
     (if 48 \<le> c \<and> c \<le> 57 then unat c - 48
      else if 97 \<le> c \<and> c \<le> 102 then unat c - 97 + 10
      else if 65 \<le> c \<and> c \<le> 70 then unat c - 65 + 10 else 0)"

definition xm_tolower :: "u8 \<Rightarrow> u8" where
  "xm_tolower c = (if 65 \<le> c \<and> c \<le> 90 then (c - 65) + 97 else c)"

text \<open>
  The number at the start of a text; the only delimiter used is the blank. The outer option is \<open>None\<close> when
  the scan leaves the text, the inner one when the number is malformed.
\<close>

fun parse_digits :: "nat \<Rightarrow> u32w \<Rightarrow> bytes \<Rightarrow> u32w option option" where
  "parse_digits radix result [] = None"
| "parse_digits radix result (c # s) =
     (if c = 0 then Some (Some result)
      else if is_hex c \<and> from_hex c < radix
      then parse_digits radix (result * of_nat radix + of_nat (from_hex c)) s
      else if c = 32 then Some (Some result) else Some None)"

definition parse_num :: "bytes \<Rightarrow> u32w option option" where
  "parse_num s0 =
     (case dropWhile (\<lambda>c. c = 32) s0 of
        [] \<Rightarrow> None
      | c # s \<Rightarrow>
          if c = 48
          then (case s of
                  [] \<Rightarrow> None
                | x # s1 \<Rightarrow>
                    if xm_tolower x = 120
                    then (case s1 of [] \<Rightarrow> None | d # s2 \<Rightarrow> if d = 0 then Some None else parse_digits 16 0 s1)
                    else parse_digits 10 0 (c # s))
          else parse_digits 10 0 (c # s))"

subsection \<open>One block\<close>

text \<open>The search for the start of a header: the reason why there is none, or the character found.\<close>

fun find_hdr :: "u8 option list \<Rightarrow> nat \<Rightarrow> nat \<Rightarrow> xyz \<Rightarrow> (int + u8) \<times> xyz" where
  "find_hdr [] can_total hdr_chars s = (Inl xyzModem_timeout, xyzModem_flush (s\<lparr>rx := []\<rparr>))"
| "find_hdr (None # xs) can_total hdr_chars s = (Inl xyzModem_timeout, xyzModem_flush (s\<lparr>rx := xs\<rparr>))"
| "find_hdr (Some c # xs) can_total hdr_chars s =
     (if c = SOH then (Inr c, s\<lparr>rx := xs, total_SOH := total_SOH s + 1\<rparr>)
      else if c = STX then (Inr c, s\<lparr>rx := xs, total_STX := total_STX s + 1\<rparr>)
      else if c = CAN
      then (let s1 = s\<lparr>total_CAN := total_CAN s + 1\<rparr>
            in if can_total + 1 = xyzModem_CAN_COUNT then (Inl xyzModem_cancel, s1\<lparr>rx := xs\<rparr>)
               else find_hdr xs (can_total + 1) (hdr_chars + 1) s1)
      else if c = EOT \<and> hdr_chars + 1 = 1 then (Inl xyzModem_eof, PUTC ACK (s\<lparr>rx := xs\<rparr>))
      else find_hdr xs can_total (hdr_chars + 1) s)"

definition need :: "xyz \<Rightarrow> (u8 \<Rightarrow> xyz \<Rightarrow> int \<times> xyz) \<Rightarrow> int \<times> xyz" where
  "need s k = (case GETC_TIMEOUT s of (None, s1) \<Rightarrow> (xyzModem_timeout, s1) | (Some c, s1) \<Rightarrow> k c s1)"

fun read_pkt :: "nat \<Rightarrow> nat \<Rightarrow> xyz \<Rightarrow> bool \<times> xyz" where
  "read_pkt i 0 s = (True, s)"
| "read_pkt i (Suc n) s =
     (case GETC_TIMEOUT s of
        (None, s1) \<Rightarrow> (False, s1)
      | (Some c, s1) \<Rightarrow> read_pkt (i + 1) n (s1\<lparr>pkt := (pkt s1)[i := c]\<rparr>))"

definition validate :: "xyz \<Rightarrow> int \<times> xyz" where
  "validate s =
     (if blk s XOR cblk s \<noteq> 0xFF then (xyzModem_frame, xyzModem_flush s)
      else if crc_mode s
      then (if crc16_ccitt 0 (take (nat (len s)) (pkt s)) \<noteq> (push_bit 8 (ucast (crc1 s)) OR ucast (crc2 s))
            then (xyzModem_cksum, s) else (0, s))
      else (if (ucast (crc1 s) :: u16) \<noteq> foldl (\<lambda>k b. k + ucast b) 0 (take (nat (len s)) (pkt s)) AND 0xFF
            then (xyzModem_cksum, s) else (0, s)))"

definition get_block :: "u8 \<Rightarrow> xyz \<Rightarrow> int \<times> xyz" where
  "get_block c s =
     need s (\<lambda>b s1. need (s1\<lparr>blk := b\<rparr>) (\<lambda>cb s2.
       let n = (if c = SOH then 128 else 1024);
           (ok, s3) = read_pkt 0 n (s2\<lparr>cblk := cb, len := int n, bufp := 0\<rparr>)
       in if \<not> ok then (xyzModem_timeout, s3)
          else need s3 (\<lambda>k1 s4.
            let s5 = s4\<lparr>crc1 := k1\<rparr>
            in if crc_mode s5 then need s5 (\<lambda>k2 s6. validate (s6\<lparr>crc2 := k2\<rparr>)) else validate s5)))"

definition send_ack :: "xyz \<Rightarrow> xyz" where
  "send_ack s = (if tx_ack s then (PUTC ACK s)\<lparr>tx_ack := False\<rparr> else s)"

definition xyzModem_get_hdr :: "xyz \<Rightarrow> int \<times> xyz" where
  "xyzModem_get_hdr s =
     (let (h, s1) = find_hdr (rx (send_ack s)) 0 0 (send_ack s)
      in case h of Inl stat \<Rightarrow> (stat, s1) | Inr c \<Rightarrow> get_block c s1)"

subsection \<open>The stream\<close>

definition request :: "xyz \<Rightarrow> xyz" where
  "request s = PUTC (if crc_mode s then 67 else NAK) s"

text \<open>The file information of YMODEM: the name, a zero, and the length as text.\<close>

definition file_info :: "xyz \<Rightarrow> xyz option" where
  "file_info s =
     (case dropWhile (\<lambda>c. c \<noteq> 0) (pkt s) of
        [] \<Rightarrow> None
      | z # rest \<Rightarrow>
          (case parse_num rest of
             None \<Rightarrow> None
           | Some v \<Rightarrow> Some (s\<lparr>bufp := length (pkt s) - length rest, tx_ack := True,
               file_length := (case v of None \<Rightarrow> file_length s | Some n \<Rightarrow> n)\<rparr>)))"

fun open_loop :: "nat \<Rightarrow> int \<Rightarrow> int \<Rightarrow> xyz \<Rightarrow> (int \<times> int \<times> xyz) option" where
  "open_loop 0 stat crc_retries s = Some (-1, stat, s)"
| "open_loop (Suc retries) stat crc_retries s =
     (let (stat, s1) = xyzModem_get_hdr s
      in if stat = 0
         then (case (if blk s1 = 0 then file_info s1 else Some s1) of
                 None \<Rightarrow> None
               | Some s2 \<Rightarrow> Some (0, 0, s2\<lparr>next_blk := 1, len := 0\<rparr>))
         else if stat = xyzModem_timeout
         then (let s2 = (if crc_retries - 1 \<le> 0 then s1\<lparr>crc_mode := False\<rparr> else s1)
               in open_loop retries stat (crc_retries - 1) ((request s2)\<lparr>total_retries := total_retries s2 + 1\<rparr>))
         else if stat = xyzModem_cancel then Some (-1, stat, s1)
         else open_loop retries stat crc_retries s1)"

definition xyzModem_stream_open :: "int \<Rightarrow> xyz \<Rightarrow> (int \<times> int \<times> xyz) option" where
  "xyzModem_stream_open info_mode s =
     (let s1 = request (s\<lparr>len := 0, crc_mode := True, at_eof := False, tx_ack := False, mode := info_mode,
            total_retries := 0, total_SOH := 0, total_STX := 0, total_CAN := 0, read_length := 0, file_length := 0\<rparr>)
      in if mode s1 = xyzModem_xmodem then Some (0, 0, s1\<lparr>next_blk := 1\<rparr>)
         else open_loop xyzModem_MAX_RETRIES 0 xyzModem_MAX_RETRIES_WITH_CRC s1)"

fun trim_eof :: "bytes \<Rightarrow> nat \<Rightarrow> nat" where
  "trim_eof b 0 = 0"
| "trim_eof b (Suc n) = (if b ! n = XMODEM_EOF then trim_eof b n else Suc n)"

definition strip_padding :: "xyz \<Rightarrow> xyz" where
  "strip_padding s =
     (let n = nat (len s); b = drop (bufp s) (pkt s)
      in if b ! (n - 1) = XMODEM_EOF \<and> b ! (n - 2) = XMODEM_EOF \<and> b ! (n - 3) = XMODEM_EOF
         then s\<lparr>len := int (trim_eof b n)\<rparr> else s)"

definition cut_to_length :: "xyz \<Rightarrow> xyz" where
  "cut_to_length s =
     (let r = read_length s + word_of_int (len s)
      in if r > file_length s
         then s\<lparr>read_length := r, len := sint (word_of_int (len s) - (r - file_length s))\<rparr>
         else s\<lparr>read_length := r\<rparr>)"

definition take_block :: "xyz \<Rightarrow> xyz" where
  "take_block s =
     (let s1 = s\<lparr>tx_ack := True, next_blk := next_blk s + 1\<rparr>;
          s2 = (if mode s1 = xyzModem_xmodem \<or> file_length s1 = 0 then strip_padding s1 else s1)
      in if mode s2 \<noteq> xyzModem_xmodem \<and> file_length s2 \<noteq> 0 then cut_to_length s2 else s2)"

text \<open>The final header of YMODEM is read and acknowledged whatever it is.\<close>

definition end_of_file :: "xyz \<Rightarrow> int \<times> xyz" where
  "end_of_file s =
     (let s1 = PUTC ACK s;
          (stat, s2) = (if mode s1 = xyzModem_ymodem
            then (let s' = request s1; (st, s'') = xyzModem_get_hdr (s'\<lparr>total_retries := total_retries s' + 1\<rparr>)
                  in (st, PUTC ACK s''))
            else (xyzModem_eof, s1))
      in (stat, s2\<lparr>at_eof := True\<rparr>))"

fun next_block :: "nat \<Rightarrow> int \<Rightarrow> xyz \<Rightarrow> int \<times> xyz" where
  "next_block 0 stat s = (stat, s)"
| "next_block (Suc retries) stat s =
     (let (st, s1) = xyzModem_get_hdr s
      in if st = 0 \<and> blk s1 = next_blk s1 then (0, take_block s1)
         else if st = 0 \<and> blk s1 = next_blk s1 - 1 then next_block retries 0 (PUTC ACK s1)
         else let st1 = (if st = 0 then xyzModem_sequence else st)
              in if st1 = xyzModem_cancel then (st1, s1)
                 else if st1 = xyzModem_eof then end_of_file s1
                 else next_block retries st1 ((request s1)\<lparr>total_retries := total_retries s1 + 1\<rparr>))"

lemma line_idle_le: "length (line_idle xs) \<le> length xs"
  by (induction xs rule: line_idle.induct) auto

lemma find_hdr_rx:
  "length (rx (snd (find_hdr xs c n s))) \<le> length xs"
  "\<not> isl (fst (find_hdr xs c n s)) \<Longrightarrow> length (rx (snd (find_hdr xs c n s))) < length xs"
proof (induction xs c n s rule: find_hdr.induct)
  case (2 xs c n s)
  { case 1 show ?case using line_idle_le [of xs] by (simp add: xyzModem_flush_def) }
  { case 2 then show ?case by simp }
qed (auto simp: xyzModem_flush_def PUTC_def Let_def less_Suc_eq_le intro: le_SucI less_SucI)

lemma find_hdr_stat: "find_hdr xs c n s = (Inl st, s1) \<Longrightarrow> st < 0"
  by (induction xs c n s rule: find_hdr.induct) (auto simp: Let_def split: if_splits)

lemma GETC_TIMEOUT_rx: "length (rx (snd (GETC_TIMEOUT s))) \<le> length (rx s)"
  by (simp add: GETC_TIMEOUT_def split: list.split)

lemma need_rx:
  assumes "length (rx s) \<le> n" "\<And>c s1. length (rx s1) \<le> n \<Longrightarrow> length (rx (snd (k c s1))) \<le> n"
  shows "length (rx (snd (need s k))) \<le> n"
  using assms GETC_TIMEOUT_rx [of s] by (auto simp: need_def split: prod.split option.split)

lemma read_pkt_rx: "length (rx (snd (read_pkt i n s))) \<le> length (rx s)"
proof (induction n arbitrary: i s)
  case (Suc n)
  obtain r s1 where g: "GETC_TIMEOUT s = (r, s1)" by (cases "GETC_TIMEOUT s")
  with GETC_TIMEOUT_rx [of s] have "length (rx s1) \<le> length (rx s)" by simp
  with Suc [of "i + 1" "s1\<lparr>pkt := (pkt s1)[i := the r]\<rparr>"] g show ?case by (cases r) auto
qed simp

lemma validate_rx: "length (rx (snd (validate s))) \<le> length (rx s)"
  using line_idle_le [of "rx s"] by (auto simp: validate_def xyzModem_flush_def)

lemma get_block_rx: "length (rx (snd (get_block c s))) \<le> length (rx s)"
  unfolding get_block_def Let_def split_beta
proof (intro need_rx)
  fix b s1 cb s2
  assume "length (rx (s2 :: xyz)) \<le> length (rx s)"
  let ?p = "read_pkt 0 (if c = SOH then 128 else 1024) (s2\<lparr>cblk := cb, len := int (if c = SOH then 128 else 1024), bufp := 0\<rparr>)"
  have p: "length (rx (snd ?p)) \<le> length (rx s)"
    by (rule order_trans [OF read_pkt_rx]) (simp add: \<open>length (rx s2) \<le> length (rx s)\<close>)
  have "length (rx (snd (if crc_mode (s4\<lparr>crc1 := k1\<rparr>) then need (s4\<lparr>crc1 := k1\<rparr>) (\<lambda>k2 s6. validate (s6\<lparr>crc2 := k2\<rparr>))
      else validate (s4\<lparr>crc1 := k1\<rparr>)))) \<le> length (rx s)" if "length (rx s4) \<le> length (rx s)" for k1 and s4 :: xyz
    using that validate_rx [of "s4\<lparr>crc1 := k1\<rparr>"]
    by (auto intro!: need_rx intro: order_trans [OF validate_rx])
  then show "length (rx (snd (if \<not> fst ?p then (xyzModem_timeout, snd ?p)
      else need (snd ?p) (\<lambda>k1 s4. if crc_mode (s4\<lparr>crc1 := k1\<rparr>) then need (s4\<lparr>crc1 := k1\<rparr>) (\<lambda>k2 s6. validate (s6\<lparr>crc2 := k2\<rparr>))
        else validate (s4\<lparr>crc1 := k1\<rparr>))))) \<le> length (rx s)"
    using p by (auto intro!: need_rx)
qed auto

lemma need_stat: "(\<And>c s. fst (k c s) \<le> 0) \<Longrightarrow> fst (need s k) \<le> 0"
  by (auto simp: need_def split: prod.split option.split)

lemma get_block_stat: "fst (get_block c s) \<le> 0"
  unfolding get_block_def Let_def split_beta
  by (intro need_stat) (auto simp: validate_def intro!: need_stat)

lemma send_ack_rx [simp]: "rx (send_ack s) = rx s"
  by (simp add: send_ack_def PUTC_def)

lemma get_hdr_cases:
  obtains (bad) st s1 where "find_hdr (rx s) 0 0 (send_ack s) = (Inl st, s1)" "st < 0" "xyzModem_get_hdr s = (st, s1)"
  | (good) c s1 where "find_hdr (rx s) 0 0 (send_ack s) = (Inr c, s1)" "xyzModem_get_hdr s = get_block c s1"
proof -
  obtain h s1 where f: "find_hdr (rx s) 0 0 (send_ack s) = (h, s1)" by fastforce
  show thesis
  proof (cases h)
    case (Inl st)
    with f find_hdr_stat have "st < 0" by simp
    with Inl f show thesis by (intro bad) (simp_all add: xyzModem_get_hdr_def)
  next
    case (Inr c)
    with f show thesis by (intro good) (simp_all add: xyzModem_get_hdr_def)
  qed
qed

lemma get_hdr_stat: "fst (xyzModem_get_hdr s) \<le> 0"
  by (cases rule: get_hdr_cases [of s]) (auto simp: get_block_stat)

lemma get_hdr_rx: "length (rx (snd (xyzModem_get_hdr s))) \<le> length (rx s)"
  using find_hdr_rx(1) [of "rx s" 0 0 "send_ack s"]
  by (cases rule: get_hdr_cases [of s]) (auto intro: order_trans [OF get_block_rx])

lemma get_hdr_progress: "fst (xyzModem_get_hdr s) = 0 \<Longrightarrow> length (rx (snd (xyzModem_get_hdr s))) < length (rx s)"
  using find_hdr_rx(2) [of "rx s" 0 0 "send_ack s"]
  by (cases rule: get_hdr_cases [of s]) (auto intro: le_less_trans [OF get_block_rx])

lemma take_block_rx: "rx (take_block s) = rx s"
  by (simp add: take_block_def strip_padding_def cut_to_length_def Let_def)

lemma end_of_file_rx: "length (rx (snd (end_of_file s))) \<le> length (rx s)" "at_eof (snd (end_of_file s))"
  using get_hdr_rx [of "(request (PUTC ACK s))\<lparr>total_retries := total_retries (request (PUTC ACK s)) + 1\<rparr>"]
  by (auto simp: end_of_file_def Let_def split_beta PUTC_def request_def)

lemma next_block_rx: "length (rx (snd (next_block n st s))) \<le> length (rx s)"
proof (induction n arbitrary: st s)
  case (Suc n)
  obtain st1 s1 where g: "xyzModem_get_hdr s = (st1, s1)" by fastforce
  let ?r = "(request s1)\<lparr>total_retries := total_retries s1 + 1\<rparr>"
  have r: "rx ?r = rx s1" "rx (PUTC ACK s1) = rx s1" by (simp_all add: PUTC_def request_def)
  have "length (rx s1) \<le> length (rx s)" using get_hdr_rx [of s] g by simp
  moreover have "length (rx (snd (next_block n 0 (PUTC ACK s1)))) \<le> length (rx s1)"
      "\<And>st. length (rx (snd (next_block n st ?r))) \<le> length (rx s1)"
    using Suc.IH [of _ "PUTC ACK s1"] Suc.IH [of _ ?r] by (simp_all only: r)
  ultimately show ?case using end_of_file_rx(1) [of s1]
    by (auto simp: g take_block_rx Let_def intro: order_trans)
qed simp

lemma next_block_stat: "st \<le> 0 \<Longrightarrow> fst (next_block n st s) \<le> 0"
proof (induction n arbitrary: st s)
  case (Suc n)
  have "fst (end_of_file s1) \<le> 0" for s1
    using get_hdr_stat by (simp add: end_of_file_def Let_def split_beta)
  with Suc get_hdr_stat [of s] show ?case by (auto simp: Let_def split_beta)
qed simp

lemma next_block_progress:
  "fst (next_block n st s) = 0 \<Longrightarrow> \<not> at_eof (snd (next_block n st s)) \<Longrightarrow> 0 < n \<or> st < 0 \<Longrightarrow>
     length (rx (snd (next_block n st s))) < length (rx s)"
proof (induction n arbitrary: st s)
  case (Suc n)
  obtain st1 s1 where g: "xyzModem_get_hdr s = (st1, s1)" by fastforce
  then have le: "length (rx s1) \<le> length (rx s)" "st1 = 0 \<Longrightarrow> length (rx s1) < length (rx s)"
    using get_hdr_rx [of s] get_hdr_progress [of s] by simp_all
  have neg: "st1 \<noteq> 0 \<Longrightarrow> st1 < 0" using get_hdr_stat [of s] by (auto simp: g)
  let ?r = "(request s1)\<lparr>total_retries := total_retries s1 + 1\<rparr>"
  have r: "rx ?r = rx s1" "rx (PUTC ACK s1) = rx s1" by (simp_all add: PUTC_def request_def)
  show ?case
  proof (cases "st1 = 0 \<and> (blk s1 = next_blk s1 \<or> blk s1 = next_blk s1 - 1)")
    case True
    with le next_block_rx [of n 0 "PUTC ACK s1"] show ?thesis by (auto simp: g take_block_rx r)
  next
    case False
    define st2 where "st2 = (if st1 = 0 then xyzModem_sequence else st1)"
    have "st2 < 0" using neg by (auto simp: st2_def)
    have e: "next_block (Suc n) st s = (if st2 = xyzModem_cancel then (st2, s1) else if st2 = xyzModem_eof then end_of_file s1 else next_block n st2 ?r)"
      using False by (auto simp: g Let_def st2_def)
    show ?thesis
    proof (cases "st2 = xyzModem_cancel \<or> st2 = xyzModem_eof")
      case True
      with Suc.prems(1,2) end_of_file_rx(2) [of s1] show ?thesis by (auto simp: e simp del: next_block.simps)
    next
      case False
      then have "length (rx (snd (next_block n st2 ?r))) < length (rx ?r)"
        using Suc.prems(1,2) \<open>st2 < 0\<close> by (intro Suc.IH) (auto simp: e simp del: next_block.simps)
      with False le(1) show ?thesis by (simp add: e r del: next_block.simps)
    qed
  qed
qed auto

text \<open>
  \<open>memcpy\<close> of a negative length is \<open>None\<close>. The loop ends because every block that is fetched shortens the
  input, and every block that is not empty shortens what is asked for.
\<close>

function read_loop :: "nat \<Rightarrow> bytes \<Rightarrow> int \<Rightarrow> xyz \<Rightarrow> (bytes \<times> int \<times> xyz) option" where
  "read_loop n out err s =
     (if at_eof s \<or> n = 0 then Some (out, err, s)
      else let (stat, s1) = (if len s = 0 then next_block xyzModem_MAX_RETRIES xyzModem_cancel s else (0, s))
           in if stat < 0 then Some (out, stat, s1\<lparr>len := -1\<rparr>)
              else if at_eof s1 then Some (out, err, s1)
              else if len s1 < 0 then None
              else let k = min n (nat (len s1))
                   in if length (pkt s1) < bufp s1 + k then None
                      else read_loop (n - k) (out @ get_bytes (bufp s1) k (pkt s1)) err
                        (s1\<lparr>len := len s1 - int k, bufp := bufp s1 + k\<rparr>))"
  by pat_completeness auto
termination
proof (relation "measure (\<lambda>(n, out, err, s). length (rx s) + n)", goal_cases)
  case 1
  show ?case by simp
next
  case (2 n out err s x stat s1 k)
  show ?case
  proof (cases "len s = 0")
    case True
    with 2 have e: "next_block xyzModem_MAX_RETRIES xyzModem_cancel s = (stat, s1)" by simp
    then have "stat = 0 \<Longrightarrow> length (rx s1) < length (rx s)"
      using next_block_progress [of 20 "-5" s] 2 by simp
    moreover have "stat \<le> 0" using next_block_stat [of "-5" 20 s] e by simp
    ultimately show ?thesis using 2 by auto
  next
    case False
    with 2 show ?thesis by auto
  qed
qed

declare read_loop.simps [simp del]

definition xyzModem_stream_read :: "nat \<Rightarrow> int \<Rightarrow> xyz \<Rightarrow> (bytes \<times> int \<times> xyz) option" where
  "xyzModem_stream_read n err s = read_loop n [] err s"

text \<open>\<open>ready\<close> is the number of characters that have already arrived when the stream is terminated.\<close>

definition xyzModem_stream_terminate :: "bool \<Rightarrow> nat \<Rightarrow> xyz \<Rightarrow> xyz" where
  "xyzModem_stream_terminate abort ready s =
     (if abort
      then (if mode s = xyzModem_xmodem \<or> mode s = xyzModem_ymodem
            then (xyzModem_flush (fold PUTC [CAN, CAN, CAN, CAN, BSP, BSP, BSP, BSP] s))\<lparr>at_eof := True\<rparr> else s)
      else s\<lparr>rx := drop (min ready (length (takeWhile (\<lambda>c. c \<noteq> None) (rx s)))) (rx s)\<rparr>)"

subsection \<open>Storing the file in the flash\<close>

text \<open>
  \<open>arg\<close> is the sector given on the command line, the default is the first image. \<open>fuel\<close> bounds the rounds of
  the loop; \<open>None\<close> is an access outside the memory of the receiver, or that the fuel was not enough.
\<close>

fun load_loop :: "nat \<Rightarrow> board_env \<Rightarrow> nat \<Rightarrow> int \<Rightarrow> xyz \<Rightarrow> board \<Rightarrow> (nat \<times> xyz \<times> board) option" where
  "load_loop 0 e got err s b = None"
| "load_loop (Suc fuel) e got err s b =
     (case xyzModem_stream_read RW_BUFFER_SIZE err s of
        None \<Rightarrow> None
      | Some (d, err1, s1) \<Rightarrow>
          (let b1 = b\<lparr>bufRead := put_bytes 0 d (bufRead b)\<rparr>
           in if d = [] then Some (got, s1, b1)
              else let (r, b2) = bspSpiFlashWrite e (Data (get_bytes 0 (length d) (bufRead b1))) (length d) b1
                   in if r < 0 then Some (got, s1, b2) else load_loop fuel e (got + length d) err1 s1 b2))"

definition loadFpgaFromSerialYmodem :: "nat \<Rightarrow> board_env \<Rightarrow> int option \<Rightarrow> int \<Rightarrow> nat \<Rightarrow> xyz \<Rightarrow> board \<Rightarrow> (nat \<times> xyz \<times> board) option" where
  "loadFpgaFromSerialYmodem fuel e arg info_mode ready s b =
     (let sector = (case arg of None \<Rightarrow> 0 | Some n \<Rightarrow> n)
      in if sector < 0 then Some (0, s, b)
         else let b1 = bspSpiFlashInit e (nat sector) 0 True b
              in case xyzModem_stream_open info_mode s of
                   None \<Rightarrow> None
                 | Some (res, err, s1) \<Rightarrow>
                     (case (if res = 0 then load_loop fuel e 0 err s1 b1 else Some (0, s1, b1)) of
                        None \<Rightarrow> None
                      | Some (got, s2, b2) \<Rightarrow>
                          Some (got, xyzModem_stream_terminate False ready s2, snd (bspSpiFlashFlush e b2))))"

subsection \<open>Frames\<close>

text \<open>A block as a sender forms it: start, number and its complement, the content and its CRC.\<close>

definition block_size :: "u8 \<Rightarrow> nat" where
  "block_size c = (if c = SOH then 128 else 1024)"

definition block_frame :: "u8 \<Rightarrow> u8 \<Rightarrow> bytes \<Rightarrow> 16 word \<Rightarrow> u8 option list" where
  "block_frame c n d crc = map Some ([c, n, NOT n] @ d @ [ucast (drop_bit 8 crc), ucast crc])"

lemma crc_bytes_join: "(push_bit 8 (ucast (ucast (drop_bit 8 crc) :: u8)) OR ucast (ucast crc :: u8)) = (crc :: 16 word)"
  by (rule bit_word_eqI) (auto simp: bit_simps dest: bit_imp_le_length)

lemma GETC_TIMEOUT_Some: "rx s = Some c # xs \<Longrightarrow> GETC_TIMEOUT s = (Some c, s\<lparr>rx := xs\<rparr>)"
  by (simp add: GETC_TIMEOUT_def)

lemma need_Some: "rx s = Some c # xs \<Longrightarrow> need s k = k c (s\<lparr>rx := xs\<rparr>)"
  by (simp add: need_def GETC_TIMEOUT_Some)

lemma read_pkt_some:
  "rx s = map Some d @ rest \<Longrightarrow> i + length d \<le> length (pkt s) \<Longrightarrow>
   read_pkt i (length d) s = (True, s\<lparr>rx := rest, pkt := put_bytes i d (pkt s)\<rparr>)"
  by (induction d arbitrary: i s) (simp_all add: GETC_TIMEOUT_def put_bytes.simps)

lemma take_put_bytes: "length d \<le> length b \<Longrightarrow> take (length d) (put_bytes 0 d b) = d"
  by (rule nth_equalityI) (simp_all add: nth_put_bytes)

text \<open>The state after the frame was read, before it is validated.\<close>

definition after_frame :: "u8 \<Rightarrow> u8 \<Rightarrow> bytes \<Rightarrow> 16 word \<Rightarrow> u8 option list \<Rightarrow> xyz \<Rightarrow> xyz" where
  "after_frame c n d crc rest s =
     s\<lparr>rx := rest, pkt := put_bytes 0 d (pkt s), bufp := 0, blk := n, cblk := NOT n, len := int (length d),
       crc1 := ucast (drop_bit 8 crc), crc2 := ucast crc,
       total_SOH := (if c = SOH then total_SOH s + 1 else total_SOH s),
       total_STX := (if c = SOH then total_STX s else total_STX s + 1)\<rparr>"

lemma after_frame_simps [simp]:
  "rx (after_frame c n d crc rest s) = rest" "blk (after_frame c n d crc rest s) = n"
  "len (after_frame c n d crc rest s) = int (length d)" "bufp (after_frame c n d crc rest s) = 0"
  "pkt (after_frame c n d crc rest s) = put_bytes 0 d (pkt s)"
  by (simp_all add: after_frame_def)

lemma xor_complement: "n XOR NOT n = (0xFF :: u8)"
  by (rule bit_word_eqI) (auto simp: bit_simps bit_numeral_rec nat_less_iff less_Suc_eq numeral_eq_Suc)

lemma get_hdr_frame:
  assumes "rx s = block_frame c n d crc @ rest" "c = SOH \<or> c = STX" "length d = block_size c" "crc_mode s" "length (pkt s) = 1024"
  shows "xyzModem_get_hdr s =
    (if crc16_ccitt 0 d = crc then 0 else xyzModem_cksum, after_frame c n d crc rest (send_ack s))"
proof -
  define s0 where "s0 = send_ack s"
  have s0: "rx s0 = rx s" "pkt s0 = pkt s" "crc_mode s0 = crc_mode s"
    by (simp_all add: s0_def send_ack_def PUTC_def)
  define s1 where "s1 = s0\<lparr>rx := map Some ([n, NOT n] @ d @ [ucast (drop_bit 8 crc), ucast crc]) @ rest,
     total_SOH := (if c = SOH then total_SOH s0 + 1 else total_SOH s0), total_STX := (if c = SOH then total_STX s0 else total_STX s0 + 1)\<rparr>"
  have "rx s = Some c # rx s1" by (simp add: assms(1) block_frame_def s1_def)
  moreover have "find_hdr (Some c # rx s1) 0 0 s0 = (Inr c, s1)"
    using assms(2) by (elim disjE) (simp_all add: s1_def)
  ultimately have "find_hdr (rx s) 0 0 s0 = (Inr c, s1)" by simp
  then have e: "xyzModem_get_hdr s = get_block c s1" by (simp add: xyzModem_get_hdr_def s0_def)
  define s2 where "s2 = s1\<lparr>blk := n, rx := map Some (d @ [ucast (drop_bit 8 crc), ucast crc]) @ rest, cblk := NOT n, len := int (length d), bufp := 0\<rparr>"
  define s3 where "s3 = s2\<lparr>rx := map Some [ucast (drop_bit 8 crc), ucast crc] @ rest, pkt := put_bytes 0 d (pkt s2)\<rparr>"
  have r: "read_pkt 0 (length d) s2 = (True, s3)"
    using assms(3,5) unfolding s3_def
    by (intro read_pkt_some) (auto simp: s2_def s1_def s0 block_size_def)
  let ?x = "map Some (d @ [ucast (drop_bit 8 crc), ucast crc]) @ rest"
  have r1: "rx s1 = Some n # Some (NOT n) # ?x" by (simp add: s1_def)
  have r2: "rx (s1\<lparr>rx := Some (NOT n) # ?x, blk := n\<rparr>) = Some (NOT n) # ?x" by simp
  have "get_block c s1 = (let (ok, s3) = read_pkt 0 (length d) s2 in if \<not> ok then (xyzModem_timeout, s3)
      else need s3 (\<lambda>k1 s4. let s5 = s4\<lparr>crc1 := k1\<rparr>
        in if crc_mode s5 then need s5 (\<lambda>k2 s6. validate (s6\<lparr>crc2 := k2\<rparr>)) else validate s5))"
    unfolding get_block_def assms(3) block_size_def need_Some [OF r1] need_Some [OF r2]
    by (simp add: s2_def assms(3) block_size_def)
  also have "\<dots> = validate (s3\<lparr>crc1 := ucast (drop_bit 8 crc), rx := rest, crc2 := ucast crc\<rparr>)"
    unfolding r using assms(4) by (simp add: need_Some s3_def s2_def s1_def s0)
  also have "s3\<lparr>crc1 := ucast (drop_bit 8 crc), rx := rest, crc2 := ucast crc\<rparr> = after_frame c n d crc rest s0"
    by (simp add: s3_def s2_def s1_def after_frame_def)
  also have "validate (after_frame c n d crc rest s0) = (if crc16_ccitt 0 d = crc then 0 else xyzModem_cksum, after_frame c n d crc rest s0)"
    using assms(3,4,5) take_put_bytes [of d "pkt s0"]
    by (auto simp: validate_def after_frame_def xor_complement crc_bytes_join s0 block_size_def split: if_splits)
  finally show ?thesis by (simp add: e s0_def)
qed

subsection \<open>A sender\<close>

text \<open>
  What may go wrong with a block: two neighbouring bytes of its content change, or the line falls silent,
  perhaps with characters that arrive too late.
\<close>

inductive noise :: "u8 option list \<Rightarrow> bool" where
  noise_content: "c = SOH \<or> c = STX \<Longrightarrow> length (xs @ [a, b] @ ys) = block_size c \<Longrightarrow> (a, b) \<noteq> (a', b') \<Longrightarrow>
    noise (block_frame c n (xs @ [a, b] @ ys) (crc16_ccitt 0 (xs @ [a', b'] @ ys)))"
| noise_silence: "noise (None # map Some junk @ [None])"

text \<open>
  \<open>sending r n fl xs\<close>: the line \<open>xs\<close> carries the rest \<open>fl\<close> of the file in blocks from number \<open>n\<close> on, the first good
  one after less than \<open>r\<close> lost or repeated ones, and every later one after less than 20. The sender
  chooses the size of each block and the padding of the last one.
\<close>

inductive sending :: "nat \<Rightarrow> u8 \<Rightarrow> bytes \<Rightarrow> u8 option list \<Rightarrow> bool" where
  send_eot: "sending (Suc r) n [] (Some EOT # xs)"
| send_block: "sending 20 (n + 1) (drop (block_size c) fl) xs \<Longrightarrow> fl \<noteq> [] \<Longrightarrow> c = SOH \<or> c = STX \<Longrightarrow> length d = block_size c \<Longrightarrow>
    take (length fl) d = take (block_size c) fl \<Longrightarrow> sending (Suc r) n fl (block_frame c n d (crc16_ccitt 0 d) @ xs)"
| send_lost: "sending r n fl xs \<Longrightarrow> noise ys \<Longrightarrow> sending (Suc r) n fl (ys @ xs)"
| send_again: "sending r n fl xs \<Longrightarrow> c = SOH \<or> c = STX \<Longrightarrow> length d = block_size c \<Longrightarrow>
    sending (Suc r) n fl (block_frame c (n - 1) d (crc16_ccitt 0 d) @ xs)"

definition steady :: "xyz \<Rightarrow> xyz \<Rightarrow> bool" where
  "steady s s' \<longleftrightarrow> mode s' = mode s \<and> crc_mode s' = crc_mode s \<and> next_blk s' = next_blk s \<and> at_eof s' = at_eof s \<and>
     file_length s' = file_length s \<and> read_length s' = read_length s \<and> length (pkt s') = length (pkt s)"

lemma steady_ack [simp]: "steady s (send_ack s)" "steady s (after_frame c n d crc rest (send_ack s))"
  by (simp_all add: steady_def send_ack_def PUTC_def after_frame_def)

lemma line_idle_some: "line_idle (map Some junk @ None # rest) = rest"
  by (induction junk) simp_all

lemma noise_rejected:
  assumes "noise ys" "rx s = ys @ rest" "crc_mode s" "length (pkt s) = 1024"
  shows "\<exists>st s1. xyzModem_get_hdr s = (st, s1) \<and> (st = xyzModem_timeout \<or> st = xyzModem_cksum) \<and> rx s1 = rest \<and> steady s s1"
  using assms(1)
proof cases
  case (noise_content c xs a b zs a' b' n)
  let ?d = "xs @ [a, b] @ zs" and ?crc = "crc16_ccitt 0 (xs @ [a', b'] @ zs)"
  have "crc16_ccitt 0 ?d \<noteq> ?crc" using noise_content(4) crc16_two_bytes_detected by blast
  then have "xyzModem_get_hdr s = (xyzModem_cksum, after_frame c n ?d ?crc rest (send_ack s))"
    using get_hdr_frame [of s c n ?d ?crc rest] assms(2-) noise_content by simp
  then show ?thesis by simp
next
  case (noise_silence junk)
  then have "find_hdr (rx s) 0 0 (send_ack s) = (Inl xyzModem_timeout, (send_ack s)\<lparr>rx := rest\<rparr>)"
    using assms(2) by (simp add: xyzModem_flush_def line_idle_some)
  then have "xyzModem_get_hdr s = (xyzModem_timeout, (send_ack s)\<lparr>rx := rest\<rparr>)" by (simp add: xyzModem_get_hdr_def)
  moreover have "steady s ((send_ack s)\<lparr>rx := rest\<rparr>)" using steady_ack(1) [of s] by (simp add: steady_def)
  ultimately show ?thesis by auto
qed

text \<open>The receiver between two blocks of a YMODEM transfer, with \<open>fl\<close> still to come.\<close>

definition expecting :: "u8 \<Rightarrow> bytes \<Rightarrow> xyz \<Rightarrow> bool" where
  "expecting n fl s \<longleftrightarrow> mode s = xyzModem_ymodem \<and> crc_mode s \<and> next_blk s = n \<and> \<not> at_eof s \<and> length (pkt s) = 1024 \<and>
     (fl = [] \<or> unat (read_length s) + length fl = unat (file_length s)) \<and> 0 < unat (file_length s) \<and> unat (file_length s) < 2147483648"

lemma expecting_steady: "steady s s' \<Longrightarrow> expecting n fl s \<Longrightarrow> expecting n fl s'"
  by (simp add: steady_def expecting_def)

lemma expecting_frame:
  "expecting n fl s \<Longrightarrow> expecting n fl (PUTC c s)" "expecting n fl s \<Longrightarrow> expecting n fl ((request s)\<lparr>total_retries := k\<rparr>)"
  by (simp_all add: expecting_def PUTC_def request_def)

definition delivered :: "u8 \<Rightarrow> bytes \<Rightarrow> xyz \<Rightarrow> bool" where
  "delivered n fl s \<longleftrightarrow> (\<exists>d fl'. fl = d @ fl' \<and> d \<noteq> [] \<and> expecting (n + 1) fl' s \<and> bufp s = 0 \<and> len s = int (length d) \<and>
     length d \<le> 1024 \<and> take (length d) (pkt s) = d \<and> sending 20 (n + 1) fl' (rx s))"

lemma take_block_ymodem:
  assumes "expecting n fl s" "fl \<noteq> []" "len s = int (block_size c)"
  defines "s' \<equiv> take_block s"
  shows "expecting (n + 1) (drop (block_size c) fl) s' \<and> len s' = int (min (block_size c) (length fl)) \<and>
    rx s' = rx s \<and> pkt s' = pkt s \<and> bufp s' = bufp s"
proof -
  let ?bs = "block_size c" and ?r = "read_length s + word_of_nat (block_size c)"
  have bs: "?bs \<le> 1024" by (simp add: block_size_def)
  have f: "unat (read_length s) + length fl = unat (file_length s)" "unat (file_length s) < 2147483648" "0 < unat (file_length s)"
    using assms(1,2) by (auto simp: expecting_def)
  have "file_length s \<noteq> 0" using f(3) by auto
  have r: "unat ?r = unat (read_length s) + ?bs"
    using f bs by (subst unat_add_lem [THEN iffD1]) (simp_all add: unat_of_nat)
  have gt: "?r > file_length s \<longleftrightarrow> ?bs > length fl" using f r unfolding word_less_nat_alt by linarith
  have fl: "file_length s = read_length s + word_of_nat (length fl)"
    using arg_cong [OF f(1), of "word_of_nat :: nat \<Rightarrow> u32w"] by simp
  then have "word_of_nat ?bs - (?r - file_length s) = word_of_nat (length fl)" by simp
  moreover have "sint (word_of_nat (length fl) :: u32w) = int (length fl)" if "length fl < 1024"
    using that by (simp add: signed_of_nat signed_take_bit_int_eq_self)
  ultimately have l: "sint (word_of_nat ?bs - (?r - file_length s)) = int (length fl)" if "?bs > length fl"
    using that bs by simp
  have e: "s' = cut_to_length (s\<lparr>tx_ack := True, next_blk := next_blk s + 1\<rparr>)"
    using assms(1) \<open>file_length s \<noteq> 0\<close> by (simp add: s'_def take_block_def expecting_def Let_def)
  have "len s' = int (min ?bs (length fl))" "read_length s' = ?r" "rx s' = rx s" "pkt s' = pkt s" "bufp s' = bufp s"
    using gt l by (auto simp: e cut_to_length_def assms(3) Let_def)
  moreover have "expecting (n + 1) (drop ?bs fl) s'"
    using assms(1) f r \<open>read_length s' = ?r\<close> \<open>pkt s' = pkt s\<close>
    by (auto simp: expecting_def e cut_to_length_def Let_def)
  ultimately show ?thesis by simp
qed

lemma next_block_sending:
  assumes "sending r n fl xs" "expecting n fl s" "rx s = xs"
  shows "(fl \<noteq> [] \<longrightarrow> (\<exists>s'. next_block r st s = (0, s') \<and> delivered n fl s')) \<and>
    (fl = [] \<longrightarrow> at_eof (snd (next_block r st s)))"
  using assms
proof (induction arbitrary: st s)
  case (send_eot r n xs)
  then have "find_hdr (rx s) 0 0 (send_ack s) = (Inl xyzModem_eof, PUTC ACK ((send_ack s)\<lparr>rx := xs\<rparr>))" by simp
  then show ?case using end_of_file_rx(2) by (simp add: xyzModem_get_hdr_def)
next
  case (send_block n c fl xs d r)
  let ?s1 = "after_frame c n d (crc16_ccitt 0 d) xs (send_ack s)"
  have p: "crc_mode s" "length (pkt s) = 1024" "next_blk s = n" using send_block.prems(1) by (simp_all add: expecting_def)
  then have g: "xyzModem_get_hdr s = (0, ?s1)"
    using get_hdr_frame [OF send_block.prems(2) send_block.hyps(3,4)] by simp
  have x: "expecting n fl ?s1" using expecting_steady [OF steady_ack(2) send_block.prems(1)] .
  have "next_blk ?s1 = n" using x by (simp add: expecting_def)
  then have nb: "next_block (Suc r) st s = (0, take_block ?s1)" by (simp add: g)
  have len: "len ?s1 = int (block_size c)" using send_block.hyps(4) by simp
  note t = take_block_ymodem [OF x send_block.hyps(2) len]
  have "min (block_size c) (length fl) \<le> 1024" by (rule min.coboundedI1) (simp add: block_size_def)
  moreover have "take (min (block_size c) (length fl)) (put_bytes 0 d (pkt (send_ack s))) = take (block_size c) fl"
  proof -
    have "take (block_size c) (put_bytes 0 d (pkt (send_ack s))) = d"
      using take_put_bytes [of d "pkt (send_ack s)"] send_block.hyps(4) p(2) by (simp add: send_ack_def PUTC_def block_size_def)
    then have "take (min (block_size c) (length fl)) (put_bytes 0 d (pkt (send_ack s))) = take (length fl) d"
      by (metis min.commute take_take)
    then show ?thesis using send_block.hyps(5) by simp
  qed
  ultimately have "delivered n fl (take_block ?s1)"
    unfolding delivered_def using t send_block.hyps(1,2)
    by (intro exI [of _ "take (block_size c) fl"] exI [of _ "drop (block_size c) fl"])
       (auto simp: min.commute block_size_def split: if_splits)
  with nb send_block.hyps(2) show ?case by simp
next
  case (send_lost r n fl xs ys)
  have p: "crc_mode s" "length (pkt s) = 1024" using send_lost.prems(1) by (simp_all add: expecting_def)
  obtain st1 s1 where g: "xyzModem_get_hdr s = (st1, s1)" "st1 = xyzModem_timeout \<or> st1 = xyzModem_cksum" "rx s1 = xs" "steady s s1"
    using noise_rejected [OF send_lost.hyps(2) send_lost.prems(2) p] by auto
  have "next_block (Suc r) st s = next_block r st1 ((request s1)\<lparr>total_retries := total_retries s1 + 1\<rparr>)"
    using g(1,2) by auto
  then show ?case
    using send_lost.IH [of "(request s1)\<lparr>total_retries := total_retries s1 + 1\<rparr>" st1] g(3)
      expecting_frame(2) [OF expecting_steady [OF g(4) send_lost.prems(1)]]
    by (simp add: request_def PUTC_def del: next_block.simps)
next
  case (send_again r n fl xs c d)
  let ?s1 = "after_frame c (n - 1) d (crc16_ccitt 0 d) xs (send_ack s)"
  have p: "crc_mode s" "length (pkt s) = 1024" "next_blk s = n" using send_again.prems(1) by (simp_all add: expecting_def)
  then have g: "xyzModem_get_hdr s = (0, ?s1)"
    using get_hdr_frame [OF send_again.prems(2) send_again.hyps(2,3)] by simp
  have x: "expecting n fl ?s1" using expecting_steady [OF steady_ack(2) send_again.prems(1)] .
  then have "next_blk ?s1 = n" by (simp add: expecting_def)
  then have "next_block (Suc r) st s = next_block r 0 (PUTC ACK ?s1)" by (simp add: g)
  then show ?case
    using send_again.IH [OF expecting_frame(1) [OF x], of ACK 0] by (simp add: PUTC_def del: next_block.simps)
qed

subsection \<open>The stream as a source of bytes\<close>

text \<open>
  The interface of a source: what it still offers is delivered in the pieces asked for, a short piece is
  the last one, and after it nothing comes. \<open>pump\<close> is the loop that moves a source into a sink.
\<close>

fun pump :: "(nat \<Rightarrow> 's \<Rightarrow> (bytes \<times> 's) option) \<Rightarrow> (bytes \<Rightarrow> 't \<Rightarrow> int \<times> 't) \<Rightarrow> nat \<Rightarrow> nat \<Rightarrow> 's \<Rightarrow> 't \<Rightarrow> ('s \<times> 't) option" where
  "pump get put k 0 s t = None"
| "pump get put k (Suc fuel) s t =
     (case get k s of
        None \<Rightarrow> None
      | Some (d, s1) \<Rightarrow>
          if d = [] then Some (s1, t)
          else let (r, t1) = put d t in if r < 0 then Some (s1, t1) else pump get put k fuel s1 t1)"

locale byte_source =
  fixes offers :: "bytes \<Rightarrow> 's \<Rightarrow> bool" and ended :: "'s \<Rightarrow> bool" and get :: "nat \<Rightarrow> 's \<Rightarrow> (bytes \<times> 's) option"
  assumes get_piece: "offers w s \<Longrightarrow> k \<le> length w \<Longrightarrow> \<exists>s'. get k s = Some (take k w, s') \<and> offers (drop k w) s'"
    and get_rest: "offers w s \<Longrightarrow> length w < k \<Longrightarrow> \<exists>s'. get k s = Some (w, s') \<and> ended s'"
    and get_ended: "ended s \<Longrightarrow> get k s = Some ([], s)"

locale source_to_sink = byte_source offers ended get + byte_sink holds put limit room accepted
  for offers :: "bytes \<Rightarrow> 's \<Rightarrow> bool" and ended :: "'s \<Rightarrow> bool" and get :: "nat \<Rightarrow> 's \<Rightarrow> (bytes \<times> 's) option"
    and holds :: "bytes \<Rightarrow> 't \<Rightarrow> bool" and put :: "bytes \<Rightarrow> 't \<Rightarrow> int \<times> 't" and limit :: nat and room :: nat
    and accepted :: "bytes \<Rightarrow> int" +
  assumes accepted_nonneg: "0 \<le> accepted d"
begin

lemma put_ok: "holds v t \<Longrightarrow> length d < limit \<Longrightarrow> length v + length d < room \<Longrightarrow> \<exists>t'. put d t = (accepted d, t') \<and> holds (v @ d) t'"
  using put_holds [of v t d] by (metis prod.collapse)

lemma pump_all:
  assumes "offers w s" "holds v t" "0 < k" "k < limit" "length v + length w < room" "length w div k + 2 \<le> fuel"
  shows "\<exists>s' t'. pump get put k fuel s t = Some (s', t') \<and> ended s' \<and> holds (v @ w) t'"
  using assms
proof (induction fuel arbitrary: w s v t)
  case (Suc fuel)
  show ?case
  proof (cases "k \<le> length w")
    case True
    then obtain s1 where g: "get k s = Some (take k w, s1)" "offers (drop k w) s1" using get_piece Suc.prems(1) by blast
    obtain t1 where p: "put (take k w) t = (accepted (take k w), t1)" "holds (v @ take k w) t1"
      using put_ok [OF Suc.prems(2), of "take k w"] Suc.prems(4,5) True by (auto simp: min_absorb2)
    have "length w div k = Suc (length (drop k w) div k)" using True Suc.prems(3) by (simp add: le_div_geq)
    with Suc.IH [OF g(2) p(2) Suc.prems(3,4)] Suc.prems(5,6)
    have "\<exists>s' t'. pump get put k fuel s1 t1 = Some (s', t') \<and> ended s' \<and> holds ((v @ take k w) @ drop k w) t'" by simp
    moreover have "take k w \<noteq> []" using True Suc.prems(3) by auto
    ultimately show ?thesis using g(1) p(1) accepted_nonneg [of "take k w"] by (auto simp: not_less [symmetric])
  next
    case False
    then obtain s1 where g: "get k s = Some (w, s1)" "ended s1" using get_rest Suc.prems(1) by (meson not_le)
    obtain t1 where p: "put w t = (accepted w, t1)" "holds (v @ w) t1"
      using put_ok [OF Suc.prems(2), of w] Suc.prems(4,5) False by auto
    obtain m where "fuel = Suc m" using Suc.prems(6) by (cases fuel) auto
    then show ?thesis using g p Suc.prems(2) accepted_nonneg [of w] get_ended [OF g(2), of k] by (auto simp: not_less [symmetric])
  qed
qed simp

end

definition offers_at :: "u8 \<Rightarrow> bytes \<Rightarrow> bytes \<Rightarrow> xyz \<Rightarrow> bool" where
  "offers_at n p fl s \<longleftrightarrow> expecting n fl s \<and> len s = int (length p) \<and> bufp s + length p \<le> 1024 \<and>
     get_bytes (bufp s) (length p) (pkt s) = p \<and> sending 20 n fl (rx s)"

definition stream_get :: "nat \<Rightarrow> int \<times> xyz \<Rightarrow> (bytes \<times> int \<times> xyz) option" where
  "stream_get k = (\<lambda>(err, s). xyzModem_stream_read k err s)"

lemma read_loop_copy:
  assumes "offers_at n p fl s" "p \<noteq> []" "0 < k"
  defines "j \<equiv> min k (length p)"
  shows "\<exists>s'. read_loop k out err s = read_loop (k - j) (out @ take j p) err s' \<and> offers_at n (drop j p) fl s'"
proof -
  let ?s = "s\<lparr>len := len s - int j, bufp := bufp s + j\<rparr>"
  have p: "len s = int (length p)" "\<not> at_eof s" "length (pkt s) = 1024" "bufp s + length p \<le> 1024" "get_bytes (bufp s) (length p) (pkt s) = p"
    using assms(1) by (auto simp: offers_at_def expecting_def)
  have j: "j \<le> length p" by (simp add: j_def)
  have ne: "0 < len s" "k \<noteq> 0" "\<not> length (pkt s) < bufp s + j" using assms(2,3) p j by auto
  have k': "min k (nat (len s)) = j" by (simp add: p(1) j_def)
  have g: "get_bytes (bufp s) j (pkt s) = take j p" "get_bytes (bufp s + j) (length p - j) (pkt s) = drop j p"
  proof -
    let ?x = "drop (bufp s) (pkt s)"
    have t: "take (length p) ?x = p" using p(5) by (simp only: get_bytes_def)
    then have "take j ?x = take j p" using j by (metis min_absorb1 take_take)
    then show "get_bytes (bufp s) j (pkt s) = take j p" by (simp only: get_bytes_def)
    have "take (length p - j) (drop j ?x) = drop j p" using t by (metis drop_take)
    then show "get_bytes (bufp s + j) (length p - j) (pkt s) = drop j p" by (simp add: get_bytes_def add.commute)
  qed
  have "read_loop k out err s = read_loop (k - j) (out @ take j p) err ?s"
    using ne unfolding g(1) [symmetric] by (subst read_loop.simps) (simp add: Let_def p(2) k')
  moreover have "offers_at n (drop j p) fl ?s"
    using assms(1) p j g(2) by (simp add: offers_at_def expecting_def)
  ultimately show ?thesis by blast
qed

lemma read_loop_fetch:
  assumes "offers_at n [] fl s" "fl \<noteq> []" "0 < k"
  shows "\<exists>p fl' s'. fl = p @ fl' \<and> p \<noteq> [] \<and> read_loop k out err s = read_loop k out err s' \<and> offers_at (n + 1) p fl' s'"
proof -
  have x: "expecting n fl s" "len s = 0" "sending 20 n fl (rx s)" using assms(1) by (simp_all add: offers_at_def)
  obtain s' where nb: "next_block 20 xyzModem_cancel s = (0, s')" and d: "delivered n fl s'"
    using next_block_sending [OF x(3,1) refl] assms(2) by blast
  then obtain p fl' where q: "fl = p @ fl'" "p \<noteq> []" "expecting (n + 1) fl' s'" "bufp s' = 0" "len s' = int (length p)"
      "length p \<le> 1024" "take (length p) (pkt s') = p" "sending 20 (n + 1) fl' (rx s')"
    unfolding delivered_def by blast
  have "\<not> at_eof s" "\<not> at_eof s'" using x(1) q(3) by (simp_all add: expecting_def)
  then have "read_loop k out err s = read_loop k out err s'"
    using x(2) nb assms(3) q(2,5) by (subst (1 2) read_loop.simps) (simp del: next_block.simps)
  moreover have "offers_at (n + 1) p fl' s'" using q by (simp add: offers_at_def get_bytes_def)
  ultimately show ?thesis using q(1,2) by blast
qed

lemma read_loop_end:
  assumes "offers_at n [] [] s" "0 < k"
  shows "\<exists>err' s'. read_loop k out err s = Some (out, err', s') \<and> at_eof s'"
proof -
  have x: "expecting n [] s" "len s = 0" "sending 20 n [] (rx s)" using assms(1) by (simp_all add: offers_at_def)
  obtain st s' where nb: "next_block 20 xyzModem_cancel s = (st, s')" by fastforce
  then have "at_eof s'" using next_block_sending [OF x(3,1) refl, of xyzModem_cancel] by simp
  then show ?thesis using x nb assms(2) by (subst read_loop.simps) (auto simp: expecting_def simp del: next_block.simps)
qed

lemma read_loop_offers:
  assumes "offers_at n p fl s"
  shows "(k \<le> length (p @ fl) \<longrightarrow> (\<exists>n' p' fl' s'. read_loop k out err s = Some (out @ take k (p @ fl), err, s') \<and>
      drop k (p @ fl) = p' @ fl' \<and> offers_at n' p' fl' s')) \<and>
    (length (p @ fl) < k \<longrightarrow> (\<exists>err' s'. read_loop k out err s = Some (out @ p @ fl, err', s') \<and> at_eof s'))"
  using assms
proof (induction k arbitrary: n p fl s out rule: less_induct)
  case (less k)
  have step: "(k \<le> length (q @ fl1) \<longrightarrow> (\<exists>n' p' fl' s'. read_loop k out err s1 = Some (out @ take k (q @ fl1), err, s') \<and>
      drop k (q @ fl1) = p' @ fl' \<and> offers_at n' p' fl' s')) \<and>
    (length (q @ fl1) < k \<longrightarrow> (\<exists>err' s'. read_loop k out err s1 = Some (out @ q @ fl1, err', s') \<and> at_eof s'))"
    if o: "offers_at m q fl1 s1" and q: "q \<noteq> []" and k: "0 < k" for m q fl1 s1
  proof -
    let ?j = "min k (length q)"
    obtain s2 where e: "read_loop k out err s1 = read_loop (k - ?j) (out @ take ?j q) err s2" "offers_at m (drop ?j q) fl1 s2"
      using read_loop_copy [OF o q k] by blast
    have "k - ?j < k" using q k by (cases q) auto
    from less.IH [OF this e(2), of "out @ take ?j q"] show ?thesis
      by (cases "k \<le> length q") (auto simp: e(1))
  qed
  show ?case
  proof (cases "k = 0")
    case True
    then show ?thesis using less.prems by (subst (1 2) read_loop.simps) auto
  next
    case False
    show ?thesis
    proof (cases "p = []")
      case True
      show ?thesis
      proof (cases "fl = []")
        case True
        then show ?thesis using read_loop_end [of n s k] less.prems \<open>p = []\<close> False by auto
      next
        case False
        then obtain q fl' s' where "fl = q @ fl'" "q \<noteq> []" "read_loop k out err s = read_loop k out err s'" "offers_at (n + 1) q fl' s'"
          using read_loop_fetch [of n fl s k out err] less.prems \<open>p = []\<close> \<open>k \<noteq> 0\<close> by auto
        then show ?thesis using step [of "n + 1" q fl' s'] \<open>p = []\<close> \<open>k \<noteq> 0\<close> by simp
      qed
    next
      case False
      then show ?thesis using step [OF less.prems] \<open>k \<noteq> 0\<close> by simp
    qed
  qed
qed

definition stream_offers :: "bytes \<Rightarrow> int \<times> xyz \<Rightarrow> bool" where
  "stream_offers w = (\<lambda>(err, s). \<exists>n p fl. w = p @ fl \<and> offers_at n p fl s)"

definition stream_ended :: "int \<times> xyz \<Rightarrow> bool" where
  "stream_ended = (\<lambda>(err, s). at_eof s)"

lemma stream_get_laws:
  "stream_offers w es \<Longrightarrow> k \<le> length w \<Longrightarrow> \<exists>es'. stream_get k es = Some (take k w, es') \<and> stream_offers (drop k w) es'"
  "stream_offers w es \<Longrightarrow> length w < k \<Longrightarrow> \<exists>es'. stream_get k es = Some (w, es') \<and> stream_ended es'"
  "stream_ended es \<Longrightarrow> stream_get k es = Some ([], es)"
proof -
  obtain err s where es: "es = (err, s)" by fastforce
  { assume "stream_offers w es"
    then obtain n p fl where o: "w = p @ fl" "offers_at n p fl s" by (auto simp: stream_offers_def es)
    note r = read_loop_offers [OF o(2), of k "[]" err, folded o(1)]
    { assume "k \<le> length w"
      then show "\<exists>es'. stream_get k es = Some (take k w, es') \<and> stream_offers (drop k w) es'"
        using r by (fastforce simp: stream_get_def es xyzModem_stream_read_def stream_offers_def) }
    { assume "length w < k"
      then show "\<exists>es'. stream_get k es = Some (w, es') \<and> stream_ended es'"
        using r o(1) by (fastforce simp: stream_get_def es xyzModem_stream_read_def stream_ended_def) } }
  show "stream_ended es \<Longrightarrow> stream_get k es = Some ([], es)"
    by (simp add: stream_get_def es stream_ended_def xyzModem_stream_read_def read_loop.simps)
qed

interpretation modem: byte_source stream_offers stream_ended stream_get
  by unfold_locales (fact stream_get_laws)+

definition load_put :: "board_env \<Rightarrow> bytes \<Rightarrow> nat \<times> board \<Rightarrow> int \<times> nat \<times> board" where
  "load_put e d = (\<lambda>(got, b).
     let b1 = b\<lparr>bufRead := put_bytes 0 d (bufRead b)\<rparr>;
         (r, b2) = bspSpiFlashWrite e (Data (get_bytes 0 (length d) (bufRead b1))) (length d) b1
     in (r, if r < 0 then got else got + length d, b2))"

definition load_holds :: "board_env \<Rightarrow> nat \<Rightarrow> (nat \<Rightarrow> u8) \<Rightarrow> bytes \<Rightarrow> nat \<times> board \<Rightarrow> bool" where
  "load_holds e base m0 w = (\<lambda>(got, b). nor_ok e \<and> bus_ok e \<and> got = length w \<and> flash_stream base w m0 b \<and> length (bufRead b) = RW_BUFFER_SIZE)"

lemma flash_stream_bufRead: "flash_stream base w m0 (b\<lparr>bufRead := r\<rparr>) = flash_stream base w m0 b"
  using flash_stream_packets [where n = "packets b" and b = b and r = r] by simp

lemma load_put_law:
  assumes "load_holds e base m0 w t" "length d < 1025" "length w + length d < 16777216 - base"
  shows "fst (load_put e d t) = int (length d) \<and> load_holds e base m0 (w @ d) (snd (load_put e d t))"
proof -
  obtain got b where t: "t = (got, b)" by fastforce
  let ?b = "b\<lparr>bufRead := put_bytes 0 d (bufRead b)\<rparr>"
  have a: "nor_ok e" "bus_ok e" "flash_stream base w m0 ?b" "got = length w" "length (bufRead b) = 1024"
    using assms(1) by (simp_all add: load_holds_def t flash_stream_bufRead)
  have d: "get_bytes 0 (length d) (put_bytes 0 d (bufRead b)) = d"
    by (rule get_put_same) (use assms(2) a(5) in simp)
  have "base + length w + length d < 16777216" using assms(3) by linarith
  then obtain b' where "bspSpiFlashWrite e (Data d) (length d) ?b = (int (length d), b')" "flash_stream base (w @ d) m0 b'" "bufRead b' = bufRead ?b"
    using flashWrite_ok [OF a(1-3), of d] assms(2) by auto
  then show ?thesis using a by (simp add: load_put_def t d load_holds_def)
qed

interpretation load: source_to_sink stream_offers stream_ended stream_get "load_holds e base m0" "load_put e" 1025 "16777216 - base"
    "\<lambda>d. int (length d)" for e base m0
  by unfold_locales (use load_put_law in auto)

lemma load_loop_pump:
  "load_loop fuel e got err s b =
     map_option (\<lambda>((err', s'), got', b'). (got', s', b')) (pump stream_get (load_put e) RW_BUFFER_SIZE fuel (err, s) (got, b))"
proof (induction fuel arbitrary: got err s b)
  case (Suc fuel)
  show ?case
  proof (cases "xyzModem_stream_read RW_BUFFER_SIZE err s")
    case (Some x)
    obtain d err1 s1 where x: "x = (d, err1, s1)" by (cases x)
    have nil: "b\<lparr>bufRead := put_bytes 0 [] (bufRead b)\<rparr> = b" by (simp add: put_bytes.simps)
    show ?thesis using Some x Suc.IH nil
      by (auto simp: stream_get_def load_put_def Let_def split_beta)
  qed (simp add: stream_get_def)
qed simp

subsection \<open>The file information\<close>

lemma block_size_le: "block_size c \<le> 1024"
  by (simp add: block_size_def)

lemma put_bytes_0: "length d \<le> length b \<Longrightarrow> put_bytes 0 d b = d @ drop (length d) b"
  by (rule nth_equalityI) (auto simp: nth_put_bytes nth_append)

lemma digit_char:
  fixes c :: u8
  assumes "\<exists>k<10. c = of_nat (48 + k)"
  shows "is_hex c" "from_hex c = unat c - 48" "from_hex c < 10" "c \<noteq> 0" "c \<noteq> 32" "xm_tolower c \<noteq> 120"
proof -
  obtain k where k: "unat c = 48 + k" "k < 10" using assms unat_digit by blast
  then have le: "48 \<le> c" "c \<le> 57" by (simp_all add: word_le_nat_alt)
  then show "is_hex c" "from_hex c = unat c - 48" "from_hex c < 10" using k by (simp_all add: is_hex_def from_hex_def)
  show "c \<noteq> 0" "c \<noteq> 32" using le by auto
  show "xm_tolower c \<noteq> 120" using k by (auto simp: xm_tolower_def word_le_nat_alt)
qed

lemma parse_digits_text:
  "\<forall>c\<in>set ds. \<exists>k<10. c = of_nat (48 + k) \<Longrightarrow>
   parse_digits 10 v (ds @ 0 # rest) = Some (Some (foldl (\<lambda>v c. v * 10 + of_nat (unat c - 48)) v ds))"
proof (induction ds arbitrary: v)
  case (Cons c ds)
  then have "\<exists>k<10. c = of_nat (48 + k)" by simp
  with Cons digit_char [OF this] show ?case by simp
qed simp

lemma foldl_word_nat: "foldl (\<lambda>v c. v * 10 + of_nat (unat c - 48)) (of_nat v) ds = (of_nat (foldl (\<lambda>v c. v * 10 + (unat c - 48)) v ds) :: u32w)"
proof (induction ds arbitrary: v)
  case (Cons c ds)
  from Cons [of "v * 10 + (unat c - 48)"] show ?case by simp
qed simp

lemma parse_num_decimal: "parse_num (decimal n @ 0 # rest) = Some (Some (of_nat n))"
proof -
  have d: "\<forall>c\<in>set (decimal n). \<exists>k<10. c = of_nat (48 + k)" using decimal_digit by blast
  obtain c ds where c: "decimal n = c # ds" by (cases "decimal n") auto
  then have "c \<noteq> 32" using d digit_char(5) [of c] by auto
  have p: "parse_digits 10 0 (decimal n @ 0 # rest) = Some (Some (of_nat n))"
    using parse_digits_text [OF d, of 0 rest] foldl_word_nat [of 0 "decimal n"] digits_value_decimal [of n]
    by (simp add: digits_value_def)
  have dw: "dropWhile (\<lambda>c. c = 32) (decimal n @ 0 # rest) = c # ds @ 0 # rest"
    using \<open>c \<noteq> 32\<close> c by simp
  have "\<exists>x r. ds @ 0 # rest = x # r \<and> xm_tolower x \<noteq> 120"
  proof (cases ds)
    case (Cons x ds')
    then show ?thesis using d c digit_char(6) [of x] by auto
  qed (simp add: xm_tolower_def)
  then obtain x r where x: "ds @ 0 # rest = x # r" "xm_tolower x \<noteq> 120" by blast
  then have "parse_digits 10 0 (c # x # r) = Some (Some (of_nat n))" using p c by (simp del: parse_digits.simps)
  then show ?thesis using x unfolding parse_num_def dw by (auto simp del: parse_digits.simps)
qed

lemma file_info_name:
  assumes "pkt s = name @ 0 # decimal n @ 0 # rest" "0 \<notin> set name"
  shows "\<exists>s'. file_info s = Some s' \<and> steady s (s'\<lparr>file_length := file_length s\<rparr>) \<and> rx s' = rx s \<and> file_length s' = of_nat n \<and>
    bufp s' \<le> length (pkt s)"
proof -
  have "dropWhile (\<lambda>c. c \<noteq> 0) (pkt s) = 0 # decimal n @ 0 # rest"
    unfolding assms(1) by (subst dropWhile_append2) (use assms(2) in auto)
  then show ?thesis by (simp add: file_info_def parse_num_decimal steady_def)
qed

lemma ymodem_open:
  assumes "rx s = block_frame c 0 info (crc16_ccitt 0 info) @ xs" "c = SOH \<or> c = STX" "length info = block_size c"
    and "info = name @ 0 # decimal (length fl) @ 0 # pad" "0 \<notin> set name"
    and "length (pkt s) = 1024" "0 < length fl" "length fl < 2147483648" "sending 20 1 fl xs"
  shows "\<exists>s'. xyzModem_stream_open xyzModem_ymodem s = Some (0, 0, s') \<and> offers_at 1 [] fl s'"
proof -
  define s1 where "s1 = request (s\<lparr>len := 0, crc_mode := True, at_eof := False, tx_ack := False, mode := xyzModem_ymodem,
     total_retries := 0, total_SOH := 0, total_STX := 0, total_CAN := 0, read_length := 0, file_length := 0\<rparr>)"
  have s1: "rx s1 = rx s" "mode s1 = xyzModem_ymodem" "crc_mode s1" "\<not> at_eof s1" "read_length s1 = 0" "pkt s1 = pkt s"
    by (simp_all add: s1_def request_def PUTC_def)
  let ?s2 = "after_frame c 0 info (crc16_ccitt 0 info) xs (send_ack s1)"
  have g: "xyzModem_get_hdr s1 = (0, ?s2)"
    using get_hdr_frame [of s1 c 0 info "crc16_ccitt 0 info" xs] assms(1-3,6) s1 by simp
  have st: "steady s1 ?s2" by simp
  have "pkt (send_ack s1) = pkt s" by (simp add: send_ack_def PUTC_def s1)
  then have "pkt ?s2 = name @ 0 # decimal (length fl) @ 0 # (pad @ drop (block_size c) (pkt s))"
    using put_bytes_0 [of info "pkt s"] block_size_le [of c] unfolding assms(3,6) by (simp add: assms(4))
  from file_info_name [OF this assms(5)] obtain s3 where
    s3: "file_info ?s2 = Some s3" "steady ?s2 (s3\<lparr>file_length := file_length ?s2\<rparr>)" "rx s3 = xs" "file_length s3 = of_nat (length fl)"
      "bufp s3 \<le> length (pkt ?s2)" by auto
  let ?s4 = "s3\<lparr>next_blk := 1, len := 0\<rparr>"
  have "xyzModem_stream_open xyzModem_ymodem s = open_loop (Suc 19) 0 xyzModem_MAX_RETRIES_WITH_CRC s1"
    unfolding xyzModem_stream_open_def s1_def [symmetric] Let_def using s1(2) by (simp del: open_loop.simps)
  also have "\<dots> = Some (0, 0, ?s4)" by (subst open_loop.simps) (simp add: g s3(1))
  finally have "xyzModem_stream_open xyzModem_ymodem s = Some (0, 0, ?s4)" .
  moreover have "unat (of_nat (length fl) :: u32w) = length fl" using assms(8) by (simp add: unat_of_nat)
  then have "offers_at 1 [] fl ?s4"
    using s1 st s3 assms(6-9) by (simp add: offers_at_def expecting_def steady_def get_bytes_def)
  ultimately show ?thesis by blast
qed

subsection \<open>Properties\<close>

text \<open>
  A block whose content was damaged on the line is never taken. Whatever two neighbouring bytes of
  the content changed, the receiver reports a checksum error, and when the content is intact it reports
  success with the content in its buffer.
\<close>

theorem damaged_block_rejected:
  assumes "rx s = block_frame c n (xs @ [a, b] @ ys) (crc16_ccitt 0 (xs @ [a', b'] @ ys)) @ rest"
    and "c = SOH \<or> c = STX" "length xs + 2 + length ys = block_size c" "crc_mode s" "length (pkt s) = 1024"
  shows "fst (xyzModem_get_hdr s) = (if a = a' \<and> b = b' then 0 else xyzModem_cksum) \<and>
    take (block_size c) (pkt (snd (xyzModem_get_hdr s))) = xs @ [a, b] @ ys \<and> rx (snd (xyzModem_get_hdr s)) = rest"
proof -
  have l: "length (xs @ [a, b] @ ys) = block_size c" using assms(3) by simp
  have p: "pkt (send_ack s) = pkt s" by (simp add: send_ack_def PUTC_def)
  have "take (length (xs @ [a, b] @ ys)) (put_bytes 0 (xs @ [a, b] @ ys) (pkt s)) = xs @ [a, b] @ ys"
    using block_size_le [of c] by (intro take_put_bytes) (simp only: l assms(5))
  then show ?thesis
    using get_hdr_frame [OF assms(1,2) l assms(4,5)] crc16_two_bytes_detected [of 0 xs a b ys a' b'] l p by auto
qed

definition xyz_zero :: xyz where
  "xyz_zero = \<lparr>pkt = replicate 1024 0, bufp = 0, blk = 0, cblk = 0, crc1 = 0, crc2 = 0, next_blk = 0, len = 0, mode = 0, total_retries = 0,
     total_SOH = 0, total_STX = 0, total_CAN = 0, crc_mode = True, at_eof = False, tx_ack = False, file_length = 0, read_length = 0, rx = [], tx = []\<rparr>"

theorem damaged_block_rejected_witness:
  "fst (xyzModem_get_hdr (xyz_zero\<lparr>rx := block_frame SOH 1 ([] @ [7, 7] @ replicate 126 0) (crc16_ccitt 0 ([] @ [7, 8] @ replicate 126 0)) @ []\<rparr>)) = -7"
proof -
  have "rx (xyz_zero\<lparr>rx := block_frame SOH 1 ([] @ [7, 7] @ replicate 126 0) (crc16_ccitt 0 ([] @ [7, 8] @ replicate 126 0)) @ []\<rparr>) =
      block_frame SOH 1 ([] @ [7, 7] @ replicate 126 0) (crc16_ccitt 0 ([] @ [7, 8] @ replicate 126 0)) @ []" by simp
  from damaged_block_rejected [OF this] show ?thesis by (simp add: block_size_def xyz_zero_def)
qed

text \<open>
  C17: A file sent by YMODEM is stored in the flash as it was sent. The sender announces the length, splits
  the file into blocks of either size and pads the last one; before every block up to 19 blocks may be lost,
  damaged or repeated. The loader of the FPGA image then ends, reports the length of the file, and the
  flash holds the file from the chosen sector on.
\<close>

theorem ymodem_file_stored:
  assumes "nor_ok e" "bus_ok e" "length (bufWrite b) = RW_BUFFER_SIZE" "length (bufRead b) = RW_BUFFER_SIZE" "\<not> memFault b"
    and "sector * SECTOR_SIZE + length fl + PAGE_SIZE < 16777216" "fl \<noteq> []" "length fl div RW_BUFFER_SIZE + 2 \<le> fuel"
    and "rx s = block_frame c 0 info (crc16_ccitt 0 info) @ xs" "c = SOH \<or> c = STX" "length info = block_size c"
    and "info = name @ 0 # decimal (length fl) @ 0 # pad" "0 \<notin> set name" "length (pkt s) = 1024" "sending 20 1 fl xs"
  shows "\<exists>s' b'. loadFpgaFromSerialYmodem fuel e (Some (int sector)) xyzModem_ymodem ready s b = Some (length fl, s', b') \<and>
    (\<forall>k<length fl. mem b' (sector * SECTOR_SIZE + k) = fl ! k) \<and> \<not> memFault b'"
proof -
  let ?b1 = "bspSpiFlashInit e sector 0 True b" and ?base = "sector * 65536"
  have "sector < 256" "length fl < 2147483648" "0 < length fl" using assms(6,7) by auto
  then obtain s1 where o: "xyzModem_stream_open xyzModem_ymodem s = Some (0, 0, s1)" "offers_at 1 [] fl s1"
    using ymodem_open [OF assms(9-14)] assms(15) by blast
  have h: "load_holds e ?base (mem b) [] (0, ?b1)"
    using flashInit_ok(1) [OF assms(1,2) \<open>sector < 256\<close> assms(3,5)] assms(1,2,4)
    by (simp add: load_holds_def bspSpiFlashInit_def bspSpiFlashInit_on_def)
  have "stream_offers fl (0, s1)" using o(2) unfolding stream_offers_def by (auto intro: exI [of _ 1] exI [of _ "[]"] exI [of _ fl])
  moreover have "length ([] :: bytes) + length fl < 16777216 - ?base" using assms(6) by simp
  ultimately have "\<exists>es t. pump stream_get (load_put e) RW_BUFFER_SIZE fuel (0, s1) (0, ?b1) = Some (es, t) \<and> stream_ended es \<and>
      load_holds e ?base (mem b) ([] @ fl) t"
    using assms(8) by (intro load.pump_all [OF _ h]) simp_all
  then
  obtain es t where p: "pump stream_get (load_put e) RW_BUFFER_SIZE fuel (0, s1) (0, ?b1) = Some (es, t)" "load_holds e ?base (mem b) fl t"
    by auto
  obtain err s2 b2 where es: "es = (err, s2)" "t = (length fl, b2)" using p(2) by (cases es, cases t) (auto simp: load_holds_def)
  have st: "flash_stream ?base fl (mem b) b2" using p(2) es(2) by (simp add: load_holds_def)
  have "load_loop fuel e 0 0 s1 ?b1 = Some (length fl, s2, b2)" by (simp add: load_loop_pump p(1) es)
  then have "loadFpgaFromSerialYmodem fuel e (Some (int sector)) xyzModem_ymodem ready s b =
      Some (length fl, xyzModem_stream_terminate False ready s2, snd (bspSpiFlashFlush e b2))"
    by (simp add: loadFpgaFromSerialYmodem_def o(1) Let_def)
  moreover have "\<not> memFault b2" using st by (simp add: flash_stream_def pending_stream_def)
  ultimately show ?thesis
    using flashFlush_ok [OF assms(1,2) st] assms(6) by (auto simp: image_at_def)
qed

definition ymodem_example :: "u8 option list" where
  "ymodem_example =
     (let info = ascii ''fpga'' @ 0 # decimal 3 @ 0 # replicate 121 0; d = [1, 2, 3] @ replicate 125 XMODEM_EOF
      in block_frame SOH 0 info (crc16_ccitt 0 info) @ (None # map Some [9] @ [None]) @ block_frame SOH 1 d (crc16_ccitt 0 d) @ [Some EOT])"

lemma ymodem_example_sending:
  "sending 20 1 [1, 2, 3] ((None # map Some [9] @ [None]) @ block_frame SOH 1 ([1, 2, 3] @ replicate 125 XMODEM_EOF)
     (crc16_ccitt 0 ([1, 2, 3] @ replicate 125 XMODEM_EOF)) @ [Some EOT])"
proof -
  have "sending (Suc 19) (1 + 1) [] [Some EOT]" by (rule send_eot)
  then have "sending 20 (1 + 1) (drop (block_size SOH) [1, 2, 3]) [Some EOT]" by (simp add: block_size_def)
  from send_block [OF this, of "[1, 2, 3] @ replicate 125 XMODEM_EOF" 18]
  have "sending (Suc 18) 1 [1, 2, 3] (block_frame SOH 1 ([1, 2, 3] @ replicate 125 XMODEM_EOF)
     (crc16_ccitt 0 ([1, 2, 3] @ replicate 125 XMODEM_EOF)) @ [Some EOT])" by (simp add: block_size_def)
  from send_lost [OF this noise_silence [of "[9]"]] show ?thesis by simp
qed

theorem ymodem_file_stored_witness:
  "\<exists>s' b'. loadFpgaFromSerialYmodem 2 nor_example (Some (int 144)) 2 0 (xyz_zero\<lparr>rx := ymodem_example\<rparr>) board_zero = Some (3, s', b') \<and>
     mem b' 9437186 = 3"
proof -
  have d: "decimal 3 = [51]" by (simp add: decimal.simps)
  have i: "length (ascii ''fpga'' @ 0 # decimal 3 @ 0 # replicate 121 0) = block_size SOH" by (simp add: ascii_def d block_size_def)
  have i2: "ascii ''fpga'' @ 0 # decimal 3 @ 0 # replicate 121 0 = ascii ''fpga'' @ 0 # decimal (length [1, 2, 3 :: u8]) @ 0 # replicate 121 0"
    by (simp add: numeral_3_eq_3)
  have n: "0 \<notin> set (ascii ''fpga'')" by (simp add: ascii_def)
  have r: "rx (xyz_zero\<lparr>rx := ymodem_example\<rparr>) =
      block_frame SOH 0 (ascii ''fpga'' @ 0 # decimal 3 @ 0 # replicate 121 0) (crc16_ccitt 0 (ascii ''fpga'' @ 0 # decimal 3 @ 0 # replicate 121 0)) @
      (None # map Some [9] @ [None]) @ block_frame SOH 1 ([1, 2, 3] @ replicate 125 XMODEM_EOF) (crc16_ccitt 0 ([1, 2, 3] @ replicate 125 XMODEM_EOF)) @ [Some EOT]"
    by (simp add: ymodem_example_def Let_def del: crc16_ccitt.simps)
  obtain s' b' where "loadFpgaFromSerialYmodem 2 nor_example (Some (int 144)) 2 0 (xyz_zero\<lparr>rx := ymodem_example\<rparr>) board_zero =
      Some (length [1, 2, 3 :: u8], s', b')" "\<forall>k<length [1, 2, 3 :: u8]. mem b' (144 * 65536 + k) = [1, 2, 3] ! k"
    using ymodem_file_stored [OF nor_example_ok board_zero_simps _ _ _ r _ i i2 n _ ymodem_example_sending, of 144 2 0]
    by (auto simp: xyz_zero_def)
  then show ?thesis by (auto dest: spec [of _ 2])
qed

lemma get_hdr_silent: "rx s = [] \<Longrightarrow> xyzModem_get_hdr s = (xyzModem_timeout, send_ack s)"
proof -
  assume "rx s = []"
  then have "(send_ack s)\<lparr>rx := []\<rparr> = send_ack s" using send_ack_rx [of s] by (metis xyz.surjective xyz.update_convs(19) xyz.select_convs(19))
  with \<open>rx s = []\<close> show ?thesis by (simp add: xyzModem_get_hdr_def xyzModem_flush_def)
qed

lemma next_block_silent: "rx s = [] \<Longrightarrow> \<not> at_eof s \<Longrightarrow> \<exists>s'. next_block n xyzModem_timeout s = (xyzModem_timeout, s') \<and> \<not> at_eof s'"
proof (induction n arbitrary: s)
  case (Suc n)
  then show ?case
    using Suc.IH [of "(request (send_ack s))\<lparr>total_retries := total_retries (send_ack s) + 1\<rparr>"]
    by (simp add: get_hdr_silent request_def PUTC_def send_ack_def)
qed simp

lemma read_silent:
  assumes "rx s = []" "\<not> at_eof s" "len s = 0" "0 < k"
  shows "\<exists>s'. read_loop k out err s = Some (out, xyzModem_timeout, s'\<lparr>len := -1\<rparr>) \<and> \<not> at_eof s'"
proof -
  let ?s = "(request (send_ack s))\<lparr>total_retries := total_retries (send_ack s) + 1\<rparr>"
  have "rx ?s = []" "\<not> at_eof ?s" using assms(1,2) by (simp_all add: request_def PUTC_def send_ack_def)
  then obtain s' where "next_block 19 xyzModem_timeout ?s = (xyzModem_timeout, s')" "\<not> at_eof s'" using next_block_silent by blast
  moreover have "next_block (Suc 19) xyzModem_cancel s = next_block 19 xyzModem_timeout ?s"
    by (subst next_block.simps) (simp add: get_hdr_silent [OF assms(1)])
  ultimately have "read_loop k out err s = Some (out, xyzModem_timeout, s'\<lparr>len := -1\<rparr>)"
    using assms(2-) by (subst read_loop.simps) (simp del: next_block.simps)
  with \<open>\<not> at_eof s'\<close> show ?thesis by blast
qed

text \<open>
  The receiver leaves its memory when a transfer breaks off. When the line falls silent after part of a
  buffer was filled, the read returns that part and the error; the caller takes it as data and reads on,
  and this next read copies -1 bytes, which is no access within any memory.
\<close>

theorem broken_transfer_faults:
  assumes "rx s = []" "\<not> at_eof s" "len s = int (length p)" "p \<noteq> []" "length p < k" "length (pkt s) = 1024"
    and "bufp s + length p \<le> 1024" "get_bytes (bufp s) (length p) (pkt s) = p"
  shows "\<exists>s'. xyzModem_stream_read k err s = Some (p, xyzModem_timeout, s') \<and> len s' = -1 \<and>
    (\<forall>k' err'. 0 < k' \<longrightarrow> xyzModem_stream_read k' err' s' = None)"
proof -
  let ?s = "s\<lparr>len := 0, bufp := bufp s + length p\<rparr>"
  have "read_loop k [] err s = read_loop (k - length p) p err ?s"
    using assms(2-) by (subst read_loop.simps) (simp add: Let_def min_absorb2)
  moreover obtain s' where "read_loop (k - length p) p err ?s = Some (p, xyzModem_timeout, s'\<lparr>len := -1\<rparr>)" "\<not> at_eof s'"
    using read_silent [of ?s "k - length p" p err] assms(1,2,5) by auto
  moreover have "read_loop k' [] err' (s'\<lparr>len := -1\<rparr>) = None" if "0 < k'" for k' err'
    using that \<open>\<not> at_eof s'\<close> by (subst read_loop.simps) simp
  ultimately show ?thesis by (auto simp: xyzModem_stream_read_def)
qed

theorem broken_transfer_faults_witness:
  "\<exists>s'. xyzModem_stream_read 1024 0 (xyz_zero\<lparr>len := 128, pkt := replicate 1024 7\<rparr>) = Some (replicate 128 7, -3, s') \<and>
     xyzModem_stream_read 1024 (-3) s' = None"
proof -
  have "get_bytes 0 (length (replicate 128 7)) (replicate 1024 7) = (replicate 128 7 :: bytes)" by (simp add: get_bytes_def)
  then have "\<exists>s'. xyzModem_stream_read 1024 0 (xyz_zero\<lparr>len := 128, pkt := replicate 1024 7\<rparr>) = Some (replicate 128 7, -3, s') \<and> len s' = -1 \<and>
      (\<forall>k' err'. 0 < k' \<longrightarrow> xyzModem_stream_read k' err' s' = None)"
    by (intro broken_transfer_faults) (simp_all add: xyz_zero_def)
  then show ?thesis by auto
qed

end
