(* ===== verification/SysConfig.thy ===== *)
theory SysConfig
  imports Prelude FirmUpload
begin

text \<open>
  The configuration of the device: \<^verbatim>\<open>include/extSysParams.h\<close>, \<^verbatim>\<open>exts/cmn/cmnSysConfig.c\<close> (factory settings,
  texts of hexadecimal bytes and MAC addresses), \<^verbatim>\<open>exts/cmn/cmnUtils.c\<close> (checksum of the control protocol, names
  of enumeration values), the UUID texts of \<^verbatim>\<open>exts/cmn/cmnJsonUtils.c\<close> and the multicast addresses of
  \<^verbatim>\<open>exts/cmn/cmnLwipUtils.c\<close>, all under \<^verbatim>\<open>src/supports/lwip/lwip/src\<close>.

  IP addresses are words in network order on a little endian machine: the first octet is the low byte.
  The lemmas show that what is written as text is read back, that the checksum is the CRC-32 (and when it
  is not), that it detects damage within four neighbouring bytes, and that the factory settings are
  consistent.
\<close>

subsection \<open>Hexadecimal texts\<close>

definition hex_key :: "u8 \<Rightarrow> u8 option" where
  "hex_key key =
     (if 48 \<le> key \<and> key \<le> 57 then Some (key - 48)
      else if 65 \<le> key \<and> key \<le> 70 then Some (key - 65 + 10)
      else if 97 \<le> key \<and> key \<le> 102 then Some (key - 97 + 10)
      else None)"

text \<open>A text is a list of bytes in a buffer of zeros; \<open>ch s i\<close> is the byte at \<open>i\<close>.\<close>

definition ch :: "bytes \<Rightarrow> nat \<Rightarrow> u8" where
  "ch s i = (if i < length s then s ! i else 0)"

definition extSysAtoInt8 :: "bytes \<Rightarrow> bool \<times> u8" where
  "extSysAtoInt8 str =
     (case hex_key (ch str 0) of
        None \<Rightarrow> (False, 0)
      | Some a \<Rightarrow>
          (case hex_key (ch str 1) of
             None \<Rightarrow> (False, a)
           | Some b \<Rightarrow> (True, a * 16 + b)))"

text \<open>The rest of the text after the next colon.\<close>

definition after_colon :: "bytes \<Rightarrow> bytes option" where
  "after_colon s = (case dropWhile (\<lambda>c. c \<noteq> 58) (c_string s) of [] \<Rightarrow> None | c # r \<Rightarrow> Some r)"

fun macParse :: "nat \<Rightarrow> nat \<Rightarrow> bytes \<Rightarrow> bytes \<Rightarrow> bool \<times> bytes" where
  "macParse i 0 str mac = (True, mac)"
| "macParse i (Suc n) str mac =
     (case (if i \<noteq> 0 then after_colon str else Some str) of
        None \<Rightarrow> (False, mac)
      | Some s \<Rightarrow>
          (let (ok, v) = extSysAtoInt8 s; mac1 = mac[i := v]
           in if ok then macParse (i + 1) n s mac1 else (False, mac1)))"

definition extMacAddressParse :: "bytes \<Rightarrow> bytes \<Rightarrow> bool \<times> bytes" where
  "extMacAddressParse macStr mac = macParse 0 6 macStr mac"

subsection \<open>UUID\<close>

text \<open>Groups of bytes, each preceded by what is skipped: nothing, or a dash that is checked.\<close>

fun uuidBytes :: "nat \<Rightarrow> nat \<Rightarrow> bytes \<Rightarrow> bytes" where
  "uuidBytes pos 0 s = []"
| "uuidBytes pos (Suc n) s = snd (extSysAtoInt8 (drop pos s)) # uuidBytes (pos + 2) n s"

definition extUuidParse :: "bytes \<Rightarrow> bool \<times> bytes" where
  "extUuidParse s =
     (if ch s 8 \<noteq> 45 \<or> ch s 13 \<noteq> 45 \<or> ch s 18 \<noteq> 45 \<or> ch s 23 \<noteq> 45 then (False, replicate 16 0)
      else (True, uuidBytes 0 4 s @ uuidBytes 9 2 s @ uuidBytes 14 2 s @ uuidBytes 19 2 s @ uuidBytes 24 6 s))"

definition hex_digit :: "nat \<Rightarrow> u8" where
  "hex_digit n = (if n < 10 then of_nat (48 + n) else of_nat (87 + n))"

text \<open>\<open>%02x\<close> of a byte.\<close>

definition hex2 :: "u8 \<Rightarrow> bytes" where
  "hex2 b = [hex_digit (unat b div 16), hex_digit (unat b mod 16)]"

definition extUuidToString :: "bytes \<Rightarrow> bytes" where
  "extUuidToString u =
     concat (map hex2 (get_bytes 0 4 u)) @ [45] @ concat (map hex2 (get_bytes 4 2 u)) @ [45] @
     concat (map hex2 (get_bytes 6 2 u)) @ [45] @ concat (map hex2 (get_bytes 8 2 u)) @ [45] @ concat (map hex2 (get_bytes 10 6 u))"

definition mac_text :: "bytes \<Rightarrow> bytes" where
  "mac_text m = hex2 (m ! 0) @ concat (map (\<lambda>b. 58 # hex2 b) (tl m))"

lemma hex_digit_range: "n < 16 \<Longrightarrow> hex_key (hex_digit n) = Some (of_nat n)"
proof -
  have "\<forall>n\<in>set [0..<16]. hex_key (hex_digit n) = Some (of_nat n)" by code_simp
  then show "n < 16 \<Longrightarrow> hex_key (hex_digit n) = Some (of_nat n)" by simp
qed

lemma hex_digit_neq: "n < 16 \<Longrightarrow> hex_digit n \<noteq> 0 \<and> hex_digit n \<noteq> 58"
proof -
  have "\<forall>n\<in>set [0..<16]. hex_digit n \<noteq> 0 \<and> hex_digit n \<noteq> 58" by code_simp
  then show "n < 16 \<Longrightarrow> hex_digit n \<noteq> 0 \<and> hex_digit n \<noteq> 58" by simp
qed

lemma byte_join: "of_nat (unat b div 16) * 16 + of_nat (unat b mod 16) = (b :: u8)"
proof -
  have "(of_nat (unat b div 16) * of_nat 16 + of_nat (unat b mod 16) :: u8) = of_nat (unat b div 16 * 16 + unat b mod 16)"
    by (simp only: of_nat_add of_nat_mult)
  also have "\<dots> = of_nat (unat b)" by (simp only: div_mult_mod_eq)
  finally show ?thesis by (simp only: of_nat_numeral of_nat_unat ucast_id)
qed

lemma AtoInt8_hex2: "extSysAtoInt8 (hex2 b @ r) = (True, b)"
proof -
  have "unat b div 16 < 16" using unsigned_less [of b, where ?'a = nat] by simp
  then show ?thesis
    using byte_join [of b] by (simp add: extSysAtoInt8_def hex2_def ch_def hex_digit_range)
qed

lemma hex2_no_zero: "0 \<notin> set (hex2 b)" "58 \<notin> set (hex2 b)"
proof -
  have "unat b div 16 < 16" using unsigned_less [of b, where ?'a = nat] by simp
  then show "0 \<notin> set (hex2 b)" "58 \<notin> set (hex2 b)"
    using hex_digit_neq [of "unat b div 16"] hex_digit_neq [of "unat b mod 16"] by (auto simp: hex2_def)
qed

lemma mac_texts_no_zero: "0 \<notin> set (concat (map (\<lambda>b. 58 # hex2 b) bs))"
  using hex2_no_zero(1) by (induction bs) auto

lemma c_string_no_zero: "0 \<notin> set s \<Longrightarrow> c_string s = s"
  unfolding c_string_def by (rule takeWhile_eq_all_conv [THEN iffD2]) auto

lemma after_colon_hex2: "0 \<notin> set s \<Longrightarrow> after_colon (hex2 b @ 58 # s) = Some s"
proof -
  assume "0 \<notin> set s"
  then have "c_string (hex2 b @ 58 # s) = hex2 b @ 58 # s" using hex2_no_zero [of b] by (intro c_string_no_zero) simp
  moreover have "dropWhile (\<lambda>c. c \<noteq> 58) (hex2 b @ 58 # s) = 58 # s"
    using hex2_no_zero(2) [of b] by (subst dropWhile_append2) auto
  ultimately show ?thesis by (simp add: after_colon_def)
qed

lemma macParse_text:
  "i + length bs = length mac \<Longrightarrow> 0 < i \<Longrightarrow>
   macParse i (length bs) (hex2 b @ concat (map (\<lambda>b. 58 # hex2 b) bs)) mac = (True, take i mac @ bs)"
proof (induction bs arbitrary: i b mac)
  case (Cons x bs)
  have "0 \<notin> set (hex2 x @ concat (map (\<lambda>b. 58 # hex2 b) bs))"
    using hex2_no_zero(1) [of x] mac_texts_no_zero [of bs] by simp
  from after_colon_hex2 [OF this] have a: "after_colon (hex2 b @ concat (map (\<lambda>b. 58 # hex2 b) (x # bs))) =
      Some (hex2 x @ concat (map (\<lambda>b. 58 # hex2 b) bs))" by simp
  have "take (Suc i) (mac[i := x]) @ bs = take i mac @ x # bs"
    using Cons.prems by (simp add: take_Suc_conv_app_nth)
  moreover have "macParse i (Suc (length bs)) (hex2 b @ concat (map (\<lambda>b. 58 # hex2 b) (x # bs))) mac =
      macParse (i + 1) (length bs) (hex2 x @ concat (map (\<lambda>b. 58 # hex2 b) bs)) (mac[i := x])"
    using Cons.prems(2) a AtoInt8_hex2 [of x "concat (map (\<lambda>b. 58 # hex2 b) bs)"] by (simp add: Let_def)
  ultimately show ?case using Cons.IH [of "i + 1" "mac[i := x]" x] Cons.prems by simp
qed simp

lemma uuidBytes_text:
  "drop pos s = concat (map hex2 bs) @ r \<Longrightarrow> uuidBytes pos (length bs) s = bs"
proof (induction bs arbitrary: pos)
  case (Cons b bs)
  have "drop (pos + 2) s = drop 2 (drop pos s)" by (simp only: drop_drop add.commute)
  also have "\<dots> = concat (map hex2 bs) @ r" unfolding Cons.prems by (simp add: hex2_def [of b])
  finally have "drop (pos + 2) s = concat (map hex2 bs) @ r" .
  with Cons AtoInt8_hex2 [of b "concat (map hex2 bs) @ r"] show ?case by simp
qed simp

subsection \<open>The checksum of the control protocol\<close>

text \<open>
  Each byte is a \<open>char\<close> that is converted to \<open>unsigned int\<close>: \<open>char_is_signed\<close> says what the compiler takes
  \<open>char\<close> for (the ARM compiler: unsigned, the simulator on x86: signed).
\<close>

definition crc32_shift :: "u32w \<Rightarrow> u32w" where
  "crc32_shift crc = drop_bit 1 crc XOR (0xEDB88320 AND - (crc AND 1))"

fun crc32_loop :: "bool \<Rightarrow> u32w \<Rightarrow> bytes \<Rightarrow> u32w" where
  "crc32_loop char_is_signed crc [] = crc"
| "crc32_loop char_is_signed crc (b # bs) =
     (let byte = (if char_is_signed then scast b else ucast b)
      in crc32_loop char_is_signed ((crc32_shift ^^ 8) (crc XOR byte)) bs)"

definition cmnMuxCRC32b :: "bool \<Rightarrow> bytes \<Rightarrow> u32w" where
  "cmnMuxCRC32b char_is_signed message = NOT (crc32_loop char_is_signed 0xFFFFFFFF message)"

text \<open>
  The reference: the CRC-32 of IEEE 802.3 as the division by its polynomial \<open>0x04C11DB7\<close>, most significant
  bit first; the bits of every byte and of the result are reflected.
\<close>

definition reflect32 :: "u32w \<Rightarrow> u32w" where
  "reflect32 w = horner_sum of_bool 2 (map (\<lambda>i. bit w (31 - i)) [0..<32])"

definition ieee_shift :: "u32w \<Rightarrow> u32w" where
  "ieee_shift r = (if bit r 31 then push_bit 1 r XOR 0x04C11DB7 else push_bit 1 r)"

definition ieee_byte :: "u32w \<Rightarrow> u8 \<Rightarrow> u32w" where
  "ieee_byte r b = (ieee_shift ^^ 8) (r XOR reflect32 (ucast b))"

definition ieee_crc32 :: "bytes \<Rightarrow> u32w" where
  "ieee_crc32 bs = reflect32 (NOT (foldl ieee_byte 0xFFFFFFFF bs))"

lemma bit_reflect32: "bit (reflect32 w) n \<longleftrightarrow> n < 32 \<and> bit w (31 - n)"
  by (auto simp: reflect32_def bit_horner_sum_bit_iff bit_imp_le_length)

lemma reflect32_twice: "reflect32 (reflect32 w) = w"
  by (rule bit_word_eqI) (auto simp: bit_reflect32)

lemma reflect32_xor: "reflect32 (a XOR b) = reflect32 a XOR reflect32 b"
  by (rule bit_word_eqI) (auto simp: bit_reflect32 bit_xor_iff)

lemma reflect32_not: "reflect32 (NOT a) = NOT (reflect32 a)"
  by (rule bit_word_eqI) (auto simp: bit_reflect32 bit_simps)

lemma low_bit_mask: "- (w AND 1) = (if bit w 0 then - 1 else 0 :: u32w)"
  by (simp add: and_one_eq bit_0 mod2_eq_if)

lemma crc32_shift_if: "crc32_shift r = (if bit r 0 then drop_bit 1 r XOR 0xEDB88320 else drop_bit 1 r)"
  by (simp add: crc32_shift_def low_bit_mask)

lemma crc32_shift_reflect: "crc32_shift (reflect32 r) = reflect32 (ieee_shift r)"
proof -
  have poly: "reflect32 0x04C11DB7 = 0xEDB88320" by code_simp
  have "drop_bit 1 (reflect32 r) = reflect32 (push_bit 1 r)"
  proof (rule bit_word_eqI)
    fix n assume "n < LENGTH(32)"
    then show "bit (drop_bit 1 (reflect32 r)) n = bit (reflect32 (push_bit 1 r)) n"
      unfolding bit_reflect32 bit_drop_bit_eq o_apply bit_push_bit_iff by auto
  qed
  then show ?thesis
    by (simp add: crc32_shift_def ieee_shift_def low_bit_mask bit_reflect32 reflect32_xor poly)
qed

lemma crc32_shift_reflect_funpow: "(crc32_shift ^^ n) (reflect32 r) = reflect32 ((ieee_shift ^^ n) r)"
  by (induction n) (simp_all add: crc32_shift_reflect)

lemma crc32_loop_ieee: "crc32_loop False (reflect32 r) bs = reflect32 (foldl ieee_byte r bs)"
proof (induction bs arbitrary: r)
  case (Cons b bs)
  have "(crc32_shift ^^ 8) (reflect32 r XOR ucast b) = reflect32 (ieee_byte r b)"
    by (simp only: ieee_byte_def crc32_shift_reflect_funpow [symmetric] reflect32_xor reflect32_twice)
  then show ?case using Cons by (simp add: Let_def)
qed simp

lemma crc32_unsigned: "cmnMuxCRC32b False bs = ieee_crc32 bs"
proof -
  have "reflect32 0xFFFFFFFF = 0xFFFFFFFF" by code_simp
  with crc32_loop_ieee [of "0xFFFFFFFF" bs] show ?thesis by (simp add: cmnMuxCRC32b_def ieee_crc32_def reflect32_not)
qed

lemma crc32_ascii: "\<forall>b\<in>set bs. b < 128 \<Longrightarrow> crc32_loop True r bs = crc32_loop False r bs"
proof (induction bs arbitrary: r)
  case (Cons b bs)
  have "unat b div 128 = 0" using Cons.prems by (simp add: word_less_nat_alt)
  then have "\<not> bit (unat b) 7" by (simp add: bit_iff_odd)
  then have "\<not> bit b 7" by (simp add: bit_unsigned_iff)
  moreover have "n = 7" if "7 \<le> n" "bit b n" for n using that bit_imp_le_length [of b n] by simp
  ultimately have "(scast b :: u32w) = ucast b"
    by (intro bit_word_eqI) (auto simp: bit_signed_iff bit_unsigned_iff bit_imp_le_length min_def)
  with Cons show ?case by (simp add: Let_def)
qed simp

lemma crc32_shift_xor: "crc32_shift (a XOR b) = crc32_shift a XOR crc32_shift b"
  by (auto simp: crc32_shift_if bit_xor_iff drop_bit_xor intro!: bit_word_eqI)

lemma crc32_shift_funpow_xor: "(crc32_shift ^^ n) (a XOR b) = (crc32_shift ^^ n) a XOR (crc32_shift ^^ n) b"
  by (induction n) (simp_all add: crc32_shift_xor)

lemma crc32_shift_eq_0: "crc32_shift x = 0 \<Longrightarrow> x = 0"
proof (cases "bit x 0")
  case True
  have "\<not> bit (drop_bit 1 x) 31" by (auto simp: bit_drop_bit_eq dest: bit_imp_le_length)
  moreover have "bit (0xEDB88320 :: u32w) 31" by simp
  ultimately have "bit (crc32_shift x) 31" using True unfolding crc32_shift_if by (simp add: bit_xor_iff)
  then show "crc32_shift x = 0 \<Longrightarrow> x = 0" by simp
next
  case False
  assume "crc32_shift x = 0"
  with False have z: "drop_bit 1 x = 0" by (simp add: crc32_shift_if)
  show "x = 0"
  proof (rule bit_word_eqI)
    fix n assume "n < LENGTH(32)"
    show "bit x n = bit 0 n"
    proof (cases n)
      case (Suc m)
      have "\<not> bit (drop_bit 1 x) m" by (simp only: z bit_0_eq bot_fun_def bot_bool_def not_False_eq_True)
      with Suc show ?thesis by (simp add: bit_drop_bit_eq)
    qed (use False in simp)
  qed
qed

lemma crc32_shift_funpow_inj: "(crc32_shift ^^ n) a = (crc32_shift ^^ n) b \<longleftrightarrow> a = b"
proof
  assume "(crc32_shift ^^ n) a = (crc32_shift ^^ n) b"
  then have "(crc32_shift ^^ n) (a XOR b) = 0" by (simp add: crc32_shift_funpow_xor)
  then have "a XOR b = 0" by (induction n) (auto dest: crc32_shift_eq_0)
  then show "a = b" by (simp only: xor_eq_0)
qed simp

text \<open>Two texts that differ only within four neighbouring bytes have different checksums.\<close>

fun le_word :: "bytes \<Rightarrow> u32w" where
  "le_word [] = 0"
| "le_word (b # bs) = ucast b XOR push_bit 8 (le_word bs)"

lemma bit_le_word: "bit (le_word bs) n \<Longrightarrow> n < 8 * length bs"
proof (induction bs arbitrary: n)
  case (Cons b bs)
  show ?case
  proof (cases "n < 8")
    case False
    then have "\<not> bit b n" using bit_imp_le_length [of b n] by auto
    with Cons.prems have "bit (le_word bs) (n - 8)" by (simp add: bit_xor_iff bit_push_bit_iff bit_unsigned_iff)
    from Cons.IH [OF this] False show ?thesis by simp
  qed simp
qed simp

lemma crc32_shift_low:
  assumes "\<And>n. bit w n \<Longrightarrow> n < 24"
  shows "k \<le> 8 \<Longrightarrow> (crc32_shift ^^ k) (push_bit 8 w) = push_bit (8 - k) w"
proof (induction k)
  case (Suc k)
  then have e: "(crc32_shift ^^ k) (push_bit 8 w) = push_bit (8 - k) w" by simp
  have z: "\<not> bit (push_bit (8 - k) w) 0" using Suc.prems by (simp add: bit_push_bit_iff)
  have "drop_bit 1 (push_bit (8 - k) w) = push_bit (8 - Suc k) w"
  proof (rule bit_word_eqI)
    fix n assume "n < LENGTH(32)"
    then show "bit (drop_bit 1 (push_bit (8 - k) w)) n = bit (push_bit (8 - Suc k) w) n"
      using Suc.prems assms [of "n - (8 - Suc k)"] unfolding bit_drop_bit_eq o_apply bit_push_bit_iff
      by (auto simp: Suc_diff_le)
  qed
  then have "crc32_shift (push_bit (8 - k) w) = push_bit (8 - Suc k) w" using z by (simp only: crc32_shift_if if_False)
  then show ?case by (simp only: funpow.simps o_apply e)
qed simp

lemma crc32_loop_word: "length bs \<le> 4 \<Longrightarrow> crc32_loop False r bs = (crc32_shift ^^ (8 * length bs)) (r XOR le_word bs)"
proof (induction bs arbitrary: r)
  case (Cons b bs)
  have L: "(crc32_shift ^^ 8) (push_bit 8 (le_word bs)) = le_word bs"
    using crc32_shift_low [of "le_word bs" 8] bit_le_word [of bs] Cons.prems by fastforce
  have "(crc32_shift ^^ 8) (r XOR ucast b) XOR le_word bs = (crc32_shift ^^ 8) (r XOR le_word (b # bs))"
    by (simp only: le_word.simps crc32_shift_funpow_xor L xor.assoc)
  moreover have "(crc32_shift ^^ (8 * length (b # bs))) x = (crc32_shift ^^ (8 * length bs)) ((crc32_shift ^^ 8) x)" for x
  proof -
    have "8 * length (b # bs) = 8 * length bs + 8" by simp
    then show ?thesis by (simp only: funpow_add o_apply)
  qed
  ultimately show ?case using Cons.IH [of "(crc32_shift ^^ 8) (r XOR ucast b)"] Cons.prems
    by (simp only: crc32_loop.simps Let_def if_False) simp
qed simp

lemma le_word_inj: "length xs = length ys \<Longrightarrow> length xs \<le> 4 \<Longrightarrow> le_word xs = le_word ys \<Longrightarrow> xs = ys"
proof (induction xs ys rule: list_induct2)
  case (Cons x xs y ys)
  have b: "bit (ucast x XOR push_bit 8 (le_word xs)) n = bit (ucast y XOR push_bit 8 (le_word ys)) n" for n
    using Cons.prems(2) by simp
  have "x = y"
  proof (rule bit_word_eqI)
    fix n assume "n < LENGTH(8)"
    with b [of n] show "bit x n = bit y n" by (simp add: bit_xor_iff bit_push_bit_iff bit_unsigned_iff)
  qed
  moreover have "le_word xs = le_word ys"
  proof (rule bit_word_eqI)
    fix n assume "n < LENGTH(32)"
    show "bit (le_word xs) n = bit (le_word ys) n"
    proof (cases "n < 24")
      case True
      with b [of "n + 8"] show ?thesis
        by (auto simp: bit_xor_iff bit_push_bit_iff bit_unsigned_iff dest: bit_imp_le_length)
    next
      case False
      with Cons.hyps Cons.prems(1) bit_le_word [of xs n] bit_le_word [of ys n] show ?thesis by auto
    qed
  qed
  ultimately show ?case using Cons.IH Cons.prems(1) by simp
qed simp

lemma crc32_loop_append: "crc32_loop g r (xs @ ys) = crc32_loop g (crc32_loop g r xs) ys"
  by (induction xs arbitrary: r) (simp_all add: Let_def)

lemma crc32_loop_inj: "crc32_loop False r bs = crc32_loop False r' bs \<longleftrightarrow> r = r'"
proof (induction bs arbitrary: r r')
  case (Cons b bs)
  then show ?case
    by (simp only: crc32_loop.simps Let_def if_False crc32_shift_funpow_inj xor.commute [of _ "ucast b"] xor_cancel)
qed simp

lemma crc32_burst_detected:
  assumes "length xs = length ys" "length xs \<le> 4"
  shows "cmnMuxCRC32b False (p @ xs @ s) = cmnMuxCRC32b False (p @ ys @ s) \<longleftrightarrow> xs = ys"
proof
  assume "cmnMuxCRC32b False (p @ xs @ s) = cmnMuxCRC32b False (p @ ys @ s)"
  then have "crc32_loop False (crc32_loop False 0xFFFFFFFF p) xs = crc32_loop False (crc32_loop False 0xFFFFFFFF p) ys"
    by (simp add: cmnMuxCRC32b_def crc32_loop_append crc32_loop_inj)
  then have "le_word xs = le_word ys"
    using assms by (simp add: crc32_loop_word crc32_shift_funpow_inj xor_cancel)
  then show "xs = ys" using assms le_word_inj by blast
qed simp

subsection \<open>Names of enumeration values\<close>

datatype CMN_STR_TYPE = CMN_STR_T_RS_PARITY | CMN_STR_T_V_COLORSPACE | CMN_STR_T_OTHER

definition ipcmdStringRsParities :: "(nat \<times> bytes) list" where
  "ipcmdStringRsParities = [(0, ascii ''none''), (1, ascii ''odd''), (2, ascii ''even'')]"

definition videoColorSpaces :: "(nat \<times> bytes) list" where
  "videoColorSpaces =
     [(0, ascii ''YCbCr-422''), (1, ascii ''YCbCr-444''), (2, ascii ''RGB''), (3, ascii ''YCbCr-420''), (4, ascii ''XYZ''), (5, ascii ''KEY''),
      (8, ascii ''CLYCbCr-422''), (9, ascii ''CLYCbCr-444''), (11, ascii ''CLYCbCr-420'')]"

fun const_strings :: "CMN_STR_TYPE \<Rightarrow> (nat \<times> bytes) list option" where
  "const_strings CMN_STR_T_RS_PARITY = Some ipcmdStringRsParities"
| "const_strings CMN_STR_T_V_COLORSPACE = Some videoColorSpaces"
| "const_strings CMN_STR_T_OTHER = None"

definition extCmnStringFind :: "CMN_STR_TYPE \<Rightarrow> nat \<Rightarrow> bytes" where
  "extCmnStringFind strType t =
     (case const_strings strType of
        None \<Rightarrow> ascii ''Unknown String Type''
      | Some tab \<Rightarrow> (case find (\<lambda>(k, n). k = t) tab of None \<Rightarrow> ascii ''Unknown String'' | Some (k, n) \<Rightarrow> n))"

definition extCmnTypeFind :: "CMN_STR_TYPE \<Rightarrow> bytes \<Rightarrow> int" where
  "extCmnTypeFind strType str =
     (case const_strings strType of
        None \<Rightarrow> -1
      | Some tab \<Rightarrow> (case find (\<lambda>(k, n). is_string_equal n str) tab of None \<Rightarrow> -1 | Some (k, n) \<Rightarrow> int k))"

subsection \<open>UUID comparison\<close>

text \<open>
  The bytes are compared as C strings without regard to case; a UUID without a zero byte is followed by
  other memory, given by \<open>m1\<close> and \<open>m2\<close>.
\<close>

definition UUID_IS_NULL :: "bytes \<Rightarrow> bool" where
  "UUID_IS_NULL u \<longleftrightarrow> u ! 0 = 0 \<and> u ! 1 = 0 \<and> u ! 2 = 0 \<and> u ! 4 = 0 \<and> u ! 15 = 0"

definition extUuidEqual :: "bytes \<Rightarrow> bytes \<Rightarrow> bytes \<Rightarrow> bytes \<Rightarrow> bool" where
  "extUuidEqual dest m1 src m2 = (if UUID_IS_NULL dest \<or> UUID_IS_NULL src then False else is_string_equal (dest @ m1) (src @ m2))"

subsection \<open>Configuration\<close>

record EXT_VIDEO_CONFIG =
  mac :: bytes
  ip :: u32w
  vport :: u16
  aport :: u16
  dport :: u16
  sport :: u16

record MuxRs232Cfg =
  baudRate :: u32w
  charLength :: u8
  parityType :: u8
  stopbits :: u8

record MuxRunTimeParam =
  vWidth :: u16
  vHeight :: u16
  vFrameRate :: u8
  vColorSpace :: u8
  vDepth :: u8
  vIsInterlaced :: u8
  vIsSegmented :: u8
  aSampleRate :: u16
  aChannels :: u8
  aDepth :: u8
  v_version :: u8
  v_revision :: u8
  v_year :: u8
  v_month :: u8
  v_day :: u8
  v_hour :: u8
  v_minute :: u8
  paramsState :: u8
  sdiState :: u8
  isConnect :: u8

text \<open>The run-time configuration; the firmware update part of it is in the theory of the updates.\<close>

record DEV_CFG =
  magic :: bytes
  isTx :: u8
  rs232Cfg :: MuxRs232Cfg
  user :: bytes
  password :: bytes
  superUser :: bytes
  superPassword :: bytes
  isMCast :: u8
  isUpdate :: u8
  isDipOn :: u8
  netMode :: u8
  local_cfg :: EXT_VIDEO_CONFIG
  ipMask :: u32w
  ipGateway :: u32w
  ipMulticast :: u32w
  isMacConfiged :: u8
  dest_cfg :: EXT_VIDEO_CONFIG
  dev_name :: bytes
  model :: bytes
  httpPort :: u16
  isConfigFpga :: u8
  ipSvr811 :: u32w
  portSvr811 :: u16
  endMagic :: bytes
  netif_addr :: u32w
  runtime :: MuxRunTimeParam

abbreviation (input) EXT_TRUE :: u8 where "EXT_TRUE \<equiv> 1"
abbreviation (input) EXT_FALSE :: u8 where "EXT_FALSE \<equiv> 0"

definition EXT_IS_TX :: "DEV_CFG \<Rightarrow> bool" where
  "EXT_IS_TX cfg \<longleftrightarrow> isTx cfg \<noteq> 0"

text \<open>The octets of an address, the first one first.\<close>

definition ip4_addr :: "nat \<Rightarrow> u32w \<Rightarrow> u8" where
  "ip4_addr n a = ucast (drop_bit (8 * (n - 1)) a)"

definition CFG_MAKEU32 :: "nat \<Rightarrow> nat \<Rightarrow> nat \<Rightarrow> nat \<Rightarrow> u32w" where
  "CFG_MAKEU32 a b c d =
     push_bit 24 (of_nat a AND 0xff) OR push_bit 16 (of_nat b AND 0xff) OR push_bit 8 (of_nat c AND 0xff) OR (of_nat d AND 0xff)"

definition ip_is_multicast :: "u32w \<Rightarrow> bool" where
  "ip_is_multicast a \<longleftrightarrow> a AND 0xf0 = 0xe0"

definition extNetMulticastIP4Mac :: "u32w \<Rightarrow> bytes \<Rightarrow> bool \<times> bytes" where
  "extNetMulticastIP4Mac a m =
     (if ip_is_multicast a then (True, [0x01, 0x00, 0x5e, ip4_addr 2 a AND 0x7f, ip4_addr 3 a, ip4_addr 4 a]) else (False, m))"

definition extTxMulticastIP2Mac :: "DEV_CFG \<Rightarrow> bool \<times> DEV_CFG" where
  "extTxMulticastIP2Mac cfg =
     (let a = ip (dest_cfg cfg)
      in if ip_is_multicast a
         then (True, cfg\<lparr>dest_cfg := (dest_cfg cfg)\<lparr>mac := [0x01, 0x00, 0x5e, ip4_addr 2 a AND 0x7f, ip4_addr 3 a, ip4_addr 4 a]\<rparr>\<rparr>)
         else (False, cfg))"

definition extVideoConfigCopy :: "EXT_VIDEO_CONFIG \<Rightarrow> EXT_VIDEO_CONFIG \<Rightarrow> EXT_VIDEO_CONFIG" where
  "extVideoConfigCopy dest src =
     (let d1 = dest\<lparr>mac := mac src\<rparr>;
          d2 = (if ip src \<noteq> 0xFFFFFFFF then d1\<lparr>ip := ip src\<rparr> else d1);
          d3 = (if ip_is_multicast (ip d2) then d2\<lparr>mac := snd (extNetMulticastIP4Mac (ip d2) (mac d2))\<rparr> else d2);
          d4 = (if vport src \<noteq> 0 then d3\<lparr>vport := vport src\<rparr> else d3)
      in if aport src \<noteq> 0 then d4\<lparr>aport := aport src\<rparr> else d4)"

text \<open>What the build chooses: the fifth byte of the MAC address and the octets of the addresses.\<close>

record board_conf =
  ETHADDR5 :: u8
  IPADDR2_TX :: nat
  IPADDR3_TX :: nat
  IPADDR2_RX :: nat
  IPADDR3_RX :: nat
  GATEWAY_ADDR2_TX :: nat
  GATEWAY_ADDR2_RX :: nat
  SVR811_IPADDR2 :: nat
  SVR811_IPADDR3 :: nat

text \<open>\<open>extCfgFromFactory\<close>; the identifiers of the NMOS node are generated elsewhere and are not part of the record.\<close>

definition factory_common :: "board_conf \<Rightarrow> DEV_CFG \<Rightarrow> DEV_CFG" where
  "factory_common bc cfg =
     cfg\<lparr>magic := [0xA5, 0x5A], dev_name := ascii ''SdiOverIP-767'', model := ascii ''500767'',
       user := ascii ''admin'', password := ascii ''admin'', superUser := ascii ''muxlab'', superPassword := ascii ''muxlab'',
       isMCast := EXT_TRUE, ipMulticast := CFG_MAKEU32 1 1 100 239, isUpdate := EXT_FALSE, isDipOn := EXT_TRUE, isMacConfiged := EXT_FALSE,
       local_cfg := (local_cfg cfg)\<lparr>mac := [0x00, 0x04, 0x25, 0x1C, mac (local_cfg cfg) ! 4, ETHADDR5 bc]\<rparr>,
       dest_cfg := (dest_cfg cfg)\<lparr>mac := [0x00, 0x04, 0x25, 0x1C, mac (dest_cfg cfg) ! 4, ETHADDR5 bc]\<rparr>\<rparr>"

definition factory_tx :: "board_conf \<Rightarrow> DEV_CFG \<Rightarrow> DEV_CFG" where
  "factory_tx bc cfg =
     (let c1 = cfg\<lparr>
            local_cfg := (local_cfg cfg)\<lparr>mac := (mac (local_cfg cfg))[4 := 0x10], ip := CFG_MAKEU32 (IPADDR3_TX bc) (IPADDR2_TX bc) 168 192,
              vport := 40000, aport := 40010, dport := 40020, sport := 40030\<rparr>,
            dest_cfg := (dest_cfg cfg)\<lparr>mac := (mac (dest_cfg cfg))[4 := 0xA0],
              ip := (if isMCast cfg = EXT_FALSE then CFG_MAKEU32 (IPADDR3_RX bc) (IPADDR2_TX bc) 168 192 else CFG_MAKEU32 1 1 100 239)\<rparr>,
            ipGateway := CFG_MAKEU32 1 (GATEWAY_ADDR2_TX bc) 168 192\<rparr>;
          c2 = (if ip_is_multicast (ip (dest_cfg c1)) then snd (extTxMulticastIP2Mac c1) else c1)
      in c2\<lparr>dest_cfg := (dest_cfg c2)\<lparr>vport := 48000, aport := 48010, dport := 48020, sport := 48030\<rparr>\<rparr>)"

definition factory_rx :: "board_conf \<Rightarrow> DEV_CFG \<Rightarrow> DEV_CFG" where
  "factory_rx bc cfg =
     (let c1 = cfg\<lparr>
            local_cfg := (local_cfg cfg)\<lparr>mac := (mac (local_cfg cfg))[4 := 0xA0], ip := CFG_MAKEU32 (IPADDR3_RX bc) (IPADDR2_RX bc) 168 192,
              vport := 48000, aport := 48010, dport := 48020, sport := 48030\<rparr>,
            dest_cfg := (dest_cfg cfg)\<lparr>mac := (mac (dest_cfg cfg))[4 := 0xA0],
              ip := (if isMCast cfg = EXT_FALSE then CFG_MAKEU32 (IPADDR3_RX bc) (IPADDR2_RX bc) 168 192 else CFG_MAKEU32 1 1 100 239)\<rparr>,
            ipGateway := CFG_MAKEU32 1 (GATEWAY_ADDR2_RX bc) 168 192\<rparr>;
          c2 = (if ip_is_multicast (ip (dest_cfg c1)) then snd (extTxMulticastIP2Mac c1) else c1)
      in c2\<lparr>dest_cfg := (dest_cfg c2)\<lparr>vport := 48000, aport := 48010, dport := 48020, sport := 48030\<rparr>\<rparr>)"

definition extCfgFromFactory :: "board_conf \<Rightarrow> DEV_CFG \<Rightarrow> DEV_CFG" where
  "extCfgFromFactory bc cfg =
     (let c1 = factory_common bc cfg;
          c2 = (if EXT_IS_TX c1 then factory_tx bc c1 else factory_rx bc c1)
      in c2\<lparr>ipSvr811 := CFG_MAKEU32 (SVR811_IPADDR3 bc) (SVR811_IPADDR2 bc) 168 192, portSvr811 := 3840,
           ipMask := CFG_MAKEU32 0 255 255 255,
           rs232Cfg := \<lparr>baudRate = 57600, charLength = 8, parityType = 0, stopbits = 1\<rparr>,
           netMode := 1, httpPort := 80, isConfigFpga := EXT_TRUE, endMagic := [0x5A, 0xA5]\<rparr>)"

text \<open>\<open>bspCfgRead\<close> after the page was read: the check of the markers at both ends of the record.\<close>

definition cfg_intact :: "DEV_CFG \<Rightarrow> bool" where
  "cfg_intact cfg \<longleftrightarrow> \<not> (magic cfg ! 0 \<noteq> 0xA5 \<or> magic cfg ! 1 \<noteq> 0x5A \<or> endMagic cfg ! 0 \<noteq> 0x5A \<or> endMagic cfg ! 1 \<noteq> 0xA5)"

subsection \<open>Properties\<close>

lemma hex2_length [simp]: "length (hex2 b) = 2"
  by (simp add: hex2_def)

lemma list16:
  "length u = 16 \<Longrightarrow> u = [u!0, u!1, u!2, u!3] @ [u!4, u!5] @ [u!6, u!7] @ [u!8, u!9] @ [u!10, u!11, u!12, u!13, u!14, u!15]"
  by (rule nth_equalityI) (auto simp: nth_Cons' numeral_eq_Suc less_Suc_eq)

lemma uuid_parse_groups:
  assumes L: "length a = 4" "length b = 2" "length c = 2" "length d = 2" "length e = 6"
  defines "hx \<equiv> \<lambda>l. concat (map hex2 l)"
  shows "extUuidParse (hx a @ [45] @ hx b @ [45] @ hx c @ [45] @ hx d @ [45] @ hx e) = (True, a @ b @ c @ d @ e)"
proof -
  define s where "s = hx a @ [45] @ hx b @ [45] @ hx c @ [45] @ hx d @ [45] @ hx e"
  have n: "length (hx l) = 2 * length l" for l unfolding hx_def by (induction l) simp_all
  have dash: "ch s 8 = 45" "ch s 13 = 45" "ch s 18 = 45" "ch s 23 = 45"
    by (simp_all add: s_def ch_def nth_append n L)
  have "uuidBytes 0 (length a) s = a" by (rule uuidBytes_text) (simp add: s_def hx_def)
  moreover have "uuidBytes 9 (length b) s = b" by (rule uuidBytes_text) (simp add: s_def n L, simp add: hx_def)
  moreover have "uuidBytes 14 (length c) s = c" by (rule uuidBytes_text) (simp add: s_def n L, simp add: hx_def)
  moreover have "uuidBytes 19 (length d) s = d" by (rule uuidBytes_text) (simp add: s_def n L, simp add: hx_def)
  moreover have "uuidBytes 24 (length e) s = e" by (rule uuidBytes_text [where r = "[]"]) (simp add: s_def n L, simp add: hx_def)
  ultimately have "extUuidParse s = (True, a @ b @ c @ d @ e)" unfolding extUuidParse_def by (simp only: L dash) simp
  then show ?thesis by (simp only: s_def)
qed

lemma extUuidParse_text:
  assumes "length u = 16"
  shows "extUuidParse (extUuidToString u) = (True, u)"
proof -
  define a b c d e where g: "a = [u!0, u!1, u!2, u!3]" "b = [u!4, u!5]" "c = [u!6, u!7]" "d = [u!8, u!9]"
    "e = [u!10, u!11, u!12, u!13, u!14, u!15]"
  have u: "u = a @ b @ c @ d @ e" using list16 [OF assms] by (simp only: g)
  have L: "length a = 4" "length b = 2" "length c = 2" "length d = 2" "length e = 6" by (simp_all add: g)
  have "get_bytes 0 4 u = a" "get_bytes 4 2 u = b" "get_bytes 6 2 u = c" "get_bytes 8 2 u = d" "get_bytes 10 6 u = e"
    by (simp_all add: u get_bytes_def L)
  then show ?thesis using uuid_parse_groups [OF L] u by (simp only: extUuidToString_def)
qed

text \<open>
  C32: Addresses and identifiers survive the way through text. A MAC address printed with colons is parsed
  back to the same six bytes whatever was in the destination, and a UUID printed in groups of 8, 4, 4, 4 and 12 digits is
  parsed back to the same sixteen bytes.
\<close>

theorem mac_uuid_roundtrip:
  assumes "length m = 6" "length m0 = 6" "length u = 16"
  shows "extMacAddressParse (mac_text m) m0 = (True, m) \<and> extUuidParse (extUuidToString u) = (True, u)"
proof
  obtain b bs where m: "m = b # bs" "length bs = 5" using assms(1) by (cases m) auto
  have p: "macParse 1 5 (hex2 b @ concat (map (\<lambda>b. 58 # hex2 b) bs)) (m0[0 := b]) = (True, b # bs)"
    using macParse_text [of 1 bs "m0[0 := b]" b] assms(2) m(2) by (cases m0) auto
  have "macParse 0 (Suc 5) (hex2 b @ concat (map (\<lambda>b. 58 # hex2 b) bs)) m0 = (True, b # bs)"
    by (subst macParse.simps) (use p in \<open>simp add: AtoInt8_hex2 Let_def\<close>)
  then show "extMacAddressParse (mac_text m) m0 = (True, m)"
    by (simp add: extMacAddressParse_def mac_text_def m(1))
  show "extUuidParse (extUuidToString u) = (True, u)" using assms(3) by (rule extUuidParse_text)
qed

theorem mac_uuid_roundtrip_witness:
  "extMacAddressParse (mac_text [0, 4, 0x25, 0x1c, 0xa0, 2]) (replicate 6 0) = (True, [0, 4, 0x25, 0x1c, 0xa0, 2]) \<and>
   extUuidParse (extUuidToString (replicate 16 0x9f)) = (True, replicate 16 0x9f)"
  using mac_uuid_roundtrip [of "[0, 4, 0x25, 0x1c, 0xa0, 2]" "replicate 6 0" "replicate 16 0x9f"] by simp

text \<open>
  C33: The checksum of the control protocol is the CRC-32 of IEEE 802.3 when \<open>char\<close> is unsigned, and for any text of ASCII
  characters however \<open>char\<close> is. So the device and a peer with the other convention agree on ASCII
  messages, and disagree already on the single byte 0x80. Two messages that differ only within four
  neighbouring bytes never have the same checksum.
\<close>

theorem checksum_is_crc32:
  "cmnMuxCRC32b False bs = ieee_crc32 bs \<and>
   (list_all (\<lambda>b. b < 128) bs \<longrightarrow> cmnMuxCRC32b True bs = ieee_crc32 bs) \<and>
   cmnMuxCRC32b True [0x80] \<noteq> ieee_crc32 [0x80] \<and>
   (length xs = length ys \<and> length xs \<le> 4 \<longrightarrow> (cmnMuxCRC32b False (p @ xs @ s) = cmnMuxCRC32b False (p @ ys @ s) \<longleftrightarrow> xs = ys))"
proof (intro conjI impI)
  show "cmnMuxCRC32b False bs = ieee_crc32 bs" by (rule crc32_unsigned)
  show "cmnMuxCRC32b True bs = ieee_crc32 bs" if "list_all (\<lambda>b. b < 128) bs"
    using that crc32_ascii [of bs "0xFFFFFFFF"] crc32_unsigned [of bs] by (simp add: cmnMuxCRC32b_def list_all_iff)
  have "cmnMuxCRC32b True [0x80] \<noteq> cmnMuxCRC32b False [0x80]" by code_simp
  then show "cmnMuxCRC32b True [0x80] \<noteq> ieee_crc32 [0x80]" unfolding crc32_unsigned .
  show "cmnMuxCRC32b False (p @ xs @ s) = cmnMuxCRC32b False (p @ ys @ s) \<longleftrightarrow> xs = ys"
    if "length xs = length ys \<and> length xs \<le> 4" using that crc32_burst_detected by blast
qed

theorem checksum_is_crc32_witness:
  "cmnMuxCRC32b True (ascii ''get'') = ieee_crc32 (ascii ''get'') \<and>
   cmnMuxCRC32b False ([1] @ [2, 3] @ [4]) \<noteq> cmnMuxCRC32b False ([1] @ [3, 2] @ [4])"
proof -
  have "list_all (\<lambda>b. b < 128) (ascii ''get'')" by code_simp
  moreover have "length [2, 3 :: u8] = length [3, 2 :: u8] \<and> length [2, 3 :: u8] \<le> 4" "[2, 3 :: u8] \<noteq> [3, 2]" by simp_all
  ultimately show ?thesis
    using checksum_is_crc32 [of "ascii ''get''" "[2, 3]" "[3, 2]" "[1]" "[4]"] by blast
qed


text \<open>Names and values of the enumerations correspond.\<close>

lemma names_roundtrip:
  "list_all (\<lambda>t. list_all (\<lambda>(k, n). extCmnStringFind t k = n \<and> extCmnTypeFind t n = int k) (the (const_strings t)))
     [CMN_STR_T_RS_PARITY, CMN_STR_T_V_COLORSPACE]"
  by code_simp

text \<open>The comparison of identifiers stops at the first zero byte and does not see the case of letters.\<close>

lemma uuid_equal_too_coarse:
  "extUuidEqual (7 # 7 # 7 # 7 # 7 # 0 # replicate 9 1 @ [2]) m1 (7 # 7 # 7 # 7 # 7 # 0 # replicate 9 2 @ [3]) m2"
  "extUuidEqual (replicate 16 0x41) [0] (replicate 16 0x61) [0]"
  by code_simp+

lemma CFG_MAKEU32_mask: "CFG_MAKEU32 a b c d AND CFG_MAKEU32 0 255 255 255 = CFG_MAKEU32 0 b c d"
proof -
  have m: "CFG_MAKEU32 0 255 255 255 = 0x00FFFFFF" "(0x00FFFFFF :: u32w) = mask 24" "(0xff :: u32w) = mask 8" by code_simp+
  show ?thesis unfolding m(1,2) unfolding CFG_MAKEU32_def m(3)
    by (rule bit_word_eqI) (auto simp: bit_and_iff bit_or_iff bit_push_bit_iff bit_mask_iff)
qed

lemma CFG_MAKEU32_octet: "drop_bit 16 (CFG_MAKEU32 0 b c d) AND 0xff = of_nat b AND 0xff"
proof -
  have m: "(0xff :: u32w) = mask 8" by code_simp
  show ?thesis unfolding CFG_MAKEU32_def m
    by (rule bit_word_eqI) (auto simp: bit_and_iff bit_or_iff bit_push_bit_iff bit_mask_iff bit_drop_bit_eq)
qed

lemma octet_eq: "of_nat b AND 0xff = (of_nat g AND 0xff :: u32w) \<longleftrightarrow> b mod 256 = g mod 256"
proof -
  have m: "(0xff :: u32w) = mask 8" by code_simp
  have "unat (of_nat b AND 0xff :: u32w) = b mod 256" for b
    unfolding m take_bit_eq_mask [symmetric]
    unfolding unsigned_take_bit_eq unat_of_nat by (simp add: take_bit_eq_mod mod_mod_cancel)
  then show ?thesis by (metis word_unat_eq_iff)
qed

lemma same_subnet:
  "CFG_MAKEU32 a b c d AND CFG_MAKEU32 0 255 255 255 = CFG_MAKEU32 e g c d AND CFG_MAKEU32 0 255 255 255 \<longleftrightarrow> b mod 256 = g mod 256"
  unfolding CFG_MAKEU32_mask
proof
  show "b mod 256 = g mod 256" if "CFG_MAKEU32 0 b c d = CFG_MAKEU32 0 g c d"
    using that CFG_MAKEU32_octet octet_eq by metis
  show "CFG_MAKEU32 0 b c d = CFG_MAKEU32 0 g c d" if "b mod 256 = g mod 256"
    using octet_eq [THEN iffD2, OF that] by (simp only: CFG_MAKEU32_def)
qed

lemma factory_multicast: "ip_is_multicast (CFG_MAKEU32 1 1 100 239)"
  by code_simp

lemmas factory_defs = extCfgFromFactory_def EXT_IS_TX_def factory_common_def factory_tx_def factory_rx_def
  extTxMulticastIP2Mac_def factory_multicast factory_multicast [simplified] Let_def

lemma factory_tx_fields:
  fixes bc t
  assumes "EXT_IS_TX t"
  defines "T \<equiv> extCfgFromFactory bc t"
  shows "cfg_intact T" "EXT_IS_TX T" "ip (dest_cfg T) = CFG_MAKEU32 1 1 100 239" "extNetMulticastIP4Mac (ip (dest_cfg T)) m = (True, mac (dest_cfg T))"
    "vport (dest_cfg T) = 48000" "aport (dest_cfg T) = 48010" "dport (dest_cfg T) = 48020" "sport (dest_cfg T) = 48030"
    "ip (local_cfg T) = CFG_MAKEU32 (IPADDR3_TX bc) (IPADDR2_TX bc) 168 192" "ipGateway T = CFG_MAKEU32 1 (GATEWAY_ADDR2_TX bc) 168 192"
    "ipMask T = CFG_MAKEU32 0 255 255 255"
  using assms(1) unfolding T_def by (simp_all add: factory_defs cfg_intact_def extNetMulticastIP4Mac_def)

lemma factory_rx_fields:
  fixes bc r
  assumes "\<not> EXT_IS_TX r"
  defines "R \<equiv> extCfgFromFactory bc r"
  shows "cfg_intact R" "\<not> EXT_IS_TX R" "ip (dest_cfg R) = CFG_MAKEU32 1 1 100 239" "extNetMulticastIP4Mac (ip (dest_cfg R)) m = (True, mac (dest_cfg R))"
    "vport (local_cfg R) = 48000" "aport (local_cfg R) = 48010" "dport (local_cfg R) = 48020" "sport (local_cfg R) = 48030"
    "ip (local_cfg R) = CFG_MAKEU32 (IPADDR3_RX bc) (IPADDR2_RX bc) 168 192" "ipGateway R = CFG_MAKEU32 1 (GATEWAY_ADDR2_RX bc) 168 192"
    "ipMask R = CFG_MAKEU32 0 255 255 255"
  using assms(1) unfolding R_def by (simp_all add: factory_defs cfg_intact_def extNetMulticastIP4Mac_def)

lemma factory_idempotent: "extCfgFromFactory bc (extCfgFromFactory bc c) = extCfgFromFactory bc c"
  by (cases "EXT_IS_TX c") (simp_all add: factory_defs)

text \<open>
  A transmitter and a receiver that are reset to their factory settings work together: both records
  are intact and their role is kept, the transmitter sends to a multicast address with the Ethernet address derived from it,
  the receiver listens to the same address, the destination ports of the transmitter are the local ports of the receiver,
  each device reaches its gateway exactly if the third octets agree, and resetting again changes nothing.
\<close>

theorem factory_devices_match:
  assumes "EXT_IS_TX t" "\<not> EXT_IS_TX r"
  shows "let T = extCfgFromFactory bc t; R = extCfgFromFactory bc r in
    cfg_intact T \<and> cfg_intact R \<and> EXT_IS_TX T \<and> \<not> EXT_IS_TX R \<and>
    ip_is_multicast (ip (dest_cfg T)) \<and> ip (dest_cfg R) = ip (dest_cfg T) \<and>
    extNetMulticastIP4Mac (ip (dest_cfg T)) m = (True, mac (dest_cfg T)) \<and> mac (dest_cfg R) = mac (dest_cfg T) \<and>
    vport (dest_cfg T) = vport (local_cfg R) \<and> aport (dest_cfg T) = aport (local_cfg R) \<and>
    dport (dest_cfg T) = dport (local_cfg R) \<and> sport (dest_cfg T) = sport (local_cfg R) \<and>
    (ip (local_cfg T) AND ipMask T = ipGateway T AND ipMask T \<longleftrightarrow> IPADDR2_TX bc mod 256 = GATEWAY_ADDR2_TX bc mod 256) \<and>
    (ip (local_cfg R) AND ipMask R = ipGateway R AND ipMask R \<longleftrightarrow> IPADDR2_RX bc mod 256 = GATEWAY_ADDR2_RX bc mod 256) \<and>
    extCfgFromFactory bc T = T \<and> extCfgFromFactory bc R = R"
proof -
  note T = factory_tx_fields [OF assms(1), of bc] and R = factory_rx_fields [OF assms(2), of bc]
  have "mac (dest_cfg (extCfgFromFactory bc r)) = mac (dest_cfg (extCfgFromFactory bc t))"
    using T(4) [of m] R(4) [of m] T(3) R(3) by simp
  with T(1-4) R(1-3) show ?thesis unfolding Let_def
    by (simp only: T(5-) R(5-) same_subnet factory_multicast factory_idempotent) simp
qed

definition sample_conf :: board_conf where
  "sample_conf = \<lparr>ETHADDR5 = 2, IPADDR2_TX = 167, IPADDR3_TX = 2, IPADDR2_RX = 167, IPADDR3_RX = 3,
     GATEWAY_ADDR2_TX = 167, GATEWAY_ADDR2_RX = 168, SVR811_IPADDR2 = 168, SVR811_IPADDR3 = 50\<rparr>"

definition blank_video :: EXT_VIDEO_CONFIG where
  "blank_video = \<lparr>mac = replicate 6 0, ip = 0, vport = 0, aport = 0, dport = 0, sport = 0\<rparr>"

definition blank_runtime :: MuxRunTimeParam where
  "blank_runtime = \<lparr>vWidth = 0, vHeight = 0, vFrameRate = 0, vColorSpace = 0, vDepth = 0, vIsInterlaced = 0, vIsSegmented = 0,
     aSampleRate = 0, aChannels = 0, aDepth = 0, v_version = 0, v_revision = 0, v_year = 0, v_month = 0, v_day = 0,
     v_hour = 0, v_minute = 0, paramsState = 0, sdiState = 0, isConnect = 0\<rparr>"

definition blank_cfg :: "u8 \<Rightarrow> DEV_CFG" where
  "blank_cfg tx = \<lparr>magic = [0, 0], isTx = tx, rs232Cfg = \<lparr>baudRate = 0, charLength = 0, parityType = 0, stopbits = 0\<rparr>,
     user = [], password = [], superUser = [], superPassword = [], isMCast = 0, isUpdate = 0, isDipOn = 0, netMode = 0,
     local_cfg = blank_video, ipMask = 0, ipGateway = 0, ipMulticast = 0, isMacConfiged = 0, dest_cfg = blank_video,
     dev_name = [], model = [], httpPort = 0, isConfigFpga = 0, ipSvr811 = 0, portSvr811 = 0, endMagic = [0, 0], netif_addr = 0,
     runtime = blank_runtime\<rparr>"

theorem factory_devices_match_witness:
  "mac (dest_cfg (extCfgFromFactory sample_conf (blank_cfg 0))) = mac (dest_cfg (extCfgFromFactory sample_conf (blank_cfg 1))) \<and>
   vport (dest_cfg (extCfgFromFactory sample_conf (blank_cfg 1))) = vport (local_cfg (extCfgFromFactory sample_conf (blank_cfg 0)))"
proof -
  have "EXT_IS_TX (blank_cfg 1)" "\<not> EXT_IS_TX (blank_cfg 0)" by code_simp+
  from factory_devices_match [OF this, of sample_conf] show ?thesis by (simp only: Let_def)
qed

end
