(* ===== verification/Fpga.thy ===== *)
theory Fpga
  imports PtpMsg SysConfig
begin

text \<open>
  The FPGA driver: \<^verbatim>\<open>src/an767/os/src/hw/eosHwFpgaDrv.c\<close> with the register numbers of
  \<^verbatim>\<open>src/an767/bsp/include/hardware.h\<close>, and the membership in a multicast group of
  \<^verbatim>\<open>exts/extLwipStart.c\<close>.

  The FPGA behind the I2C bus is a parameter \<open>'d i2c\<close>: what a read of a register gives (\<open>None\<close> when the bus
  reports an error, then the variable of the caller keeps its value) and what a write does to the device. \<open>fpga_ok\<close> says
  what the driver relies on: a configuration register holds the byte written to it last. The lemmas show which
  values the FPGA holds after it was configured, and which settings do not reach it.
\<close>

record 'd i2c =
  i2c_read :: "'d \<Rightarrow> u8 \<Rightarrow> u8 option \<times> 'd"
  i2c_write :: "'d \<Rightarrow> u8 \<Rightarrow> u8 \<Rightarrow> 'd"

subsection \<open>Registers\<close>

abbreviation (input) EXT_FPGA_REG_ETHERNET_RESET :: u8 where "EXT_FPGA_REG_ETHERNET_RESET \<equiv> 0"
abbreviation (input) EXT_FPGA_REG_ENABLE :: u8 where "EXT_FPGA_REG_ENABLE \<equiv> 3"
abbreviation (input) EXT_FPGA_FLAGS_MCU_ENABLE :: u8 where "EXT_FPGA_FLAGS_MCU_ENABLE \<equiv> 0x43"
abbreviation (input) EXT_FPGA_REG_POWER_LED :: u8 where "EXT_FPGA_REG_POWER_LED \<equiv> 5"
abbreviation (input) EXT_FPGA_REG_WIDTH :: u8 where "EXT_FPGA_REG_WIDTH \<equiv> 6"
abbreviation (input) EXT_FPGA_REG_HEIGHT :: u8 where "EXT_FPGA_REG_HEIGHT \<equiv> 8"
abbreviation (input) EXT_FPGA_REG_FRAMERATE :: u8 where "EXT_FPGA_REG_FRAMERATE \<equiv> 10"
abbreviation (input) EXT_FPGA_REG_SAMPLING :: u8 where "EXT_FPGA_REG_SAMPLING \<equiv> 11"
abbreviation (input) EXT_FPGA_REG_DEPTH :: u8 where "EXT_FPGA_REG_DEPTH \<equiv> 12"
abbreviation (input) EXT_FPGA_REG_INTLC_SEGM :: u8 where "EXT_FPGA_REG_INTLC_SEGM \<equiv> 13"
abbreviation (input) EXT_FPGA_REG_PARAM_STATUS :: u8 where "EXT_FPGA_REG_PARAM_STATUS \<equiv> 14"
abbreviation (input) EXT_FPGA_REG_SDI_STATUS :: u8 where "EXT_FPGA_REG_SDI_STATUS \<equiv> 19"
abbreviation (input) EXT_FPGA_REG_VERSION :: u8 where "EXT_FPGA_REG_VERSION \<equiv> 29"
abbreviation (input) EXT_FPGA_REG_REVISION :: u8 where "EXT_FPGA_REG_REVISION \<equiv> 30"
abbreviation (input) EXT_FPGA_REG_YEAR :: u8 where "EXT_FPGA_REG_YEAR \<equiv> 32"
abbreviation (input) EXT_FPGA_REG_MONTH :: u8 where "EXT_FPGA_REG_MONTH \<equiv> 33"
abbreviation (input) EXT_FPGA_REG_DAY :: u8 where "EXT_FPGA_REG_DAY \<equiv> 34"
abbreviation (input) EXT_FPGA_REG_HOUR :: u8 where "EXT_FPGA_REG_HOUR \<equiv> 35"
abbreviation (input) EXT_FPGA_REG_MINUTE :: u8 where "EXT_FPGA_REG_MINUTE \<equiv> 36"
abbreviation (input) EXT_FPGA_REG_IP :: u8 where "EXT_FPGA_REG_IP \<equiv> 52"
abbreviation (input) EXT_FPGA_REG_MAC :: u8 where "EXT_FPGA_REG_MAC \<equiv> 56"
abbreviation (input) EXT_FPGA_REG_PORT_VIDEO :: u8 where "EXT_FPGA_REG_PORT_VIDEO \<equiv> 62"
abbreviation (input) EXT_FPGA_REG_PORT_AUDIO :: u8 where "EXT_FPGA_REG_PORT_AUDIO \<equiv> 76"
abbreviation (input) EXT_FPGA_REG_PORT_ANC_DT :: u8 where "EXT_FPGA_REG_PORT_ANC_DT \<equiv> 80"
abbreviation (input) EXT_FPGA_REG_PORT_ANC_ST :: u8 where "EXT_FPGA_REG_PORT_ANC_ST \<equiv> 84"
abbreviation (input) EXT_FPGA_REG_DEST_IP :: u8 where "EXT_FPGA_REG_DEST_IP \<equiv> 64"
abbreviation (input) EXT_FPGA_REG_DEST_MAC :: u8 where "EXT_FPGA_REG_DEST_MAC \<equiv> 68"
abbreviation (input) EXT_FPGA_REG_DEST_PORT_VIDEO :: u8 where "EXT_FPGA_REG_DEST_PORT_VIDEO \<equiv> 74"
abbreviation (input) EXT_FPGA_REG_DEST_PORT_AUDIO :: u8 where "EXT_FPGA_REG_DEST_PORT_AUDIO \<equiv> 78"
abbreviation (input) EXT_FPGA_REG_DEST_PORT_ANC_DT :: u8 where "EXT_FPGA_REG_DEST_PORT_ANC_DT \<equiv> 82"
abbreviation (input) EXT_FPGA_REG_DEST_PORT_ANC_ST :: u8 where "EXT_FPGA_REG_DEST_PORT_ANC_ST \<equiv> 86"

text \<open>A read goes to a variable that holds \<open>old\<close>.\<close>

definition extFpgaReadByte :: "'d i2c \<Rightarrow> u8 \<Rightarrow> u8 \<Rightarrow> 'd \<Rightarrow> u8 \<times> 'd" where
  "extFpgaReadByte dev address old d =
     (case i2c_read dev d address of (Some v, d1) \<Rightarrow> (v, d1) | (None, d1) \<Rightarrow> (old, d1))"

definition extFpgaWriteByte :: "'d i2c \<Rightarrow> u8 \<Rightarrow> u8 \<Rightarrow> 'd \<Rightarrow> 'd" where
  "extFpgaWriteByte dev address v d = i2c_write dev d address v"

fun extFpgaRegisterRead :: "'d i2c \<Rightarrow> u8 \<Rightarrow> bytes \<Rightarrow> 'd \<Rightarrow> bytes \<times> 'd" where
  "extFpgaRegisterRead dev address [] d = ([], d)"
| "extFpgaRegisterRead dev address (old # olds) d =
     (let (v, d1) = extFpgaReadByte dev address old d;
          (vs, d2) = extFpgaRegisterRead dev (address + 1) olds d1
      in (v # vs, d2))"

fun extFpgaRegisterWrite :: "'d i2c \<Rightarrow> u8 \<Rightarrow> bytes \<Rightarrow> 'd \<Rightarrow> 'd" where
  "extFpgaRegisterWrite dev baseAddr [] d = d"
| "extFpgaRegisterWrite dev baseAddr (v # vs) d = extFpgaRegisterWrite dev (baseAddr + 1) vs (extFpgaWriteByte dev baseAddr v d)"

definition extFpgaReadShort :: "'d i2c \<Rightarrow> u8 \<Rightarrow> u16 \<Rightarrow> 'd \<Rightarrow> u16 \<times> 'd" where
  "extFpgaReadShort dev address old d = (let (bs, d1) = extFpgaRegisterRead dev address (le16 old) d in (un16 bs, d1))"

definition extFpgaReadInteger :: "'d i2c \<Rightarrow> u8 \<Rightarrow> u32w \<Rightarrow> 'd \<Rightarrow> u32w \<times> 'd" where
  "extFpgaReadInteger dev address old d =
     (let (bs, d1) = extFpgaRegisterRead dev address (le32 old) d in (flip32 (un32 bs), d1))"

definition extFpgaWriteShort :: "'d i2c \<Rightarrow> u8 \<Rightarrow> u16 \<Rightarrow> 'd \<Rightarrow> 'd" where
  "extFpgaWriteShort dev address v d = extFpgaRegisterWrite dev address (le16 v) d"

definition extFpgaWriteInteger :: "'d i2c \<Rightarrow> u8 \<Rightarrow> u32w \<Rightarrow> 'd \<Rightarrow> 'd" where
  "extFpgaWriteInteger dev address v d = extFpgaRegisterWrite dev address (le32 (flip32 v)) d"

definition changeByteOrderOfMac :: "bytes \<Rightarrow> bytes" where
  "changeByteOrderOfMac m = map (\<lambda>i. m ! (6 - i - 1)) [0..<6]"

subsection \<open>Waiting for the FPGA\<close>

text \<open>\<open>pin n\<close> is the level of the pin at the poll number \<open>n\<close>; the result also tells the number of polls made.\<close>

fun extBspFpgaWaitDone :: "nat \<Rightarrow> (nat \<Rightarrow> bool) \<Rightarrow> nat \<Rightarrow> bool \<times> nat" where
  "extBspFpgaWaitDone 0 pin n = (pin n, n + 1)"
| "extBspFpgaWaitDone (Suc timeout) pin n =
     (if pin n then (True, n + 1) else extBspFpgaWaitDone timeout pin (n + 1))"

subsection \<open>Addresses\<close>

text \<open>
  \<open>extLwipGroupMgr\<close>: whether the interface has the IGMP flag, what lwIP answers, and the calls made to it.
  \<open>ERR_VAL\<close> is \<open>- 6\<close>.
\<close>

definition extLwipGroupMgr :: "bool \<Rightarrow> (bool \<Rightarrow> u32w \<Rightarrow> int) \<Rightarrow> u32w \<Rightarrow> bool \<Rightarrow> int \<times> (bool \<times> u32w) list" where
  "extLwipGroupMgr igmp_flag igmp gAddress isAdd =
     (if \<not> igmp_flag then (- 6, [])
      else if igmp isAdd gAddress = 0 then (0, [(isAdd, gAddress)])
      else (1, [(isAdd, gAddress)]))"

definition fpga_config_tx :: "'d i2c \<Rightarrow> DEV_CFG \<Rightarrow> 'd \<Rightarrow> 'd" where
  "fpga_config_tx dev cfg d =
     (let addr = (if netif_addr cfg = 0 then ip (local_cfg cfg) else netif_addr cfg);
          d = extFpgaRegisterWrite dev EXT_FPGA_REG_MAC (changeByteOrderOfMac (mac (local_cfg cfg))) d;
          d = extFpgaWriteInteger dev EXT_FPGA_REG_IP addr d;
          d = extFpgaWriteShort dev EXT_FPGA_REG_PORT_VIDEO (vport (local_cfg cfg)) d;
          d = extFpgaWriteShort dev EXT_FPGA_REG_PORT_AUDIO (aport (local_cfg cfg)) d;
          d = extFpgaWriteShort dev EXT_FPGA_REG_PORT_ANC_DT (dport (local_cfg cfg)) d;
          d = extFpgaWriteShort dev EXT_FPGA_REG_PORT_ANC_ST (sport (local_cfg cfg)) d;
          (ok, destMac) = extNetMulticastIP4Mac (ip (dest_cfg cfg)) (replicate 6 0);
          m = (if ok then destMac else mac (dest_cfg cfg));
          d = extFpgaRegisterWrite dev EXT_FPGA_REG_DEST_MAC (changeByteOrderOfMac m) d;
          d = extFpgaWriteInteger dev EXT_FPGA_REG_DEST_IP (ip (dest_cfg cfg)) d;
          d = extFpgaWriteShort dev EXT_FPGA_REG_DEST_PORT_VIDEO (vport (dest_cfg cfg)) d;
          d = extFpgaWriteShort dev EXT_FPGA_REG_DEST_PORT_AUDIO (aport (dest_cfg cfg)) d;
          d = extFpgaWriteShort dev EXT_FPGA_REG_DEST_PORT_ANC_DT (dport (dest_cfg cfg)) d
      in extFpgaWriteShort dev EXT_FPGA_REG_DEST_PORT_ANC_ST (sport (dest_cfg cfg)) d)"

text \<open>\<open>junk\<close> is what uninitialised variables hold, \<open>join\<close> what joining a group answers.\<close>

definition fpga_config_rx :: "'d i2c \<Rightarrow> u32w \<Rightarrow> DEV_CFG \<Rightarrow> 'd \<Rightarrow> 'd" where
  "fpga_config_rx dev junk cfg d =
     (let v = dest_cfg cfg;
          (intValue, d) = extFpgaReadInteger dev EXT_FPGA_REG_IP junk d;
          d = (if intValue \<noteq> ip v then
                 (let d = extFpgaRegisterWrite dev EXT_FPGA_REG_MAC (changeByteOrderOfMac (mac v)) d;
                      d = extFpgaWriteInteger dev EXT_FPGA_REG_IP (ip v) d;
                      d = extFpgaWriteShort dev EXT_FPGA_REG_PORT_VIDEO (vport v) d;
                      d = extFpgaWriteShort dev EXT_FPGA_REG_PORT_AUDIO (aport v) d;
                      d = extFpgaWriteShort dev EXT_FPGA_REG_PORT_ANC_DT (dport v) d
                  in extFpgaWriteShort dev EXT_FPGA_REG_PORT_ANC_ST (sport v) d)
               else d);
          (val, d) = extFpgaReadByte dev EXT_FPGA_REG_ETHERNET_RESET (ucast junk) d;
          d = extFpgaWriteByte dev EXT_FPGA_REG_ETHERNET_RESET (val OR 2) d;
          (val, d) = extFpgaReadByte dev EXT_FPGA_REG_ETHERNET_RESET (val OR 2) d
      in extFpgaWriteByte dev EXT_FPGA_REG_ETHERNET_RESET (val AND 0xFD) d)"

definition extFpgaConfig :: "'d i2c \<Rightarrow> u32w \<Rightarrow> bool \<Rightarrow> (bool \<Rightarrow> u32w \<Rightarrow> int) \<Rightarrow> DEV_CFG \<Rightarrow> 'd \<Rightarrow> (bool \<times> u32w) list \<times> 'd" where
  "extFpgaConfig dev junk igmp_flag igmp cfg d =
     (if EXT_IS_TX cfg then ([], fpga_config_tx dev cfg d)
      else (if ip_is_multicast (ip (dest_cfg cfg)) \<and> netif_addr cfg \<noteq> 0
            then snd (extLwipGroupMgr igmp_flag igmp (ip (dest_cfg cfg)) True) else [],
            fpga_config_rx dev junk cfg d))"

text \<open>What \<open>extFgpaRegisterDebug\<close> reads and prints of the addresses.\<close>

record address_regs =
  r_ip :: u32w
  r_mac :: bytes
  r_video :: u16
  r_audio :: u16
  r_dt :: u16
  r_st :: u16

definition read_local_regs :: "'d i2c \<Rightarrow> 'd \<Rightarrow> address_regs \<times> 'd" where
  "read_local_regs dev d =
     (let (i, d) = extFpgaReadInteger dev EXT_FPGA_REG_IP 0 d;
          (m, d) = extFpgaRegisterRead dev EXT_FPGA_REG_MAC (replicate 6 0) d;
          (v, d) = extFpgaReadShort dev EXT_FPGA_REG_PORT_VIDEO 0 d;
          (a, d) = extFpgaReadShort dev EXT_FPGA_REG_PORT_AUDIO v d;
          (t, d) = extFpgaReadShort dev EXT_FPGA_REG_PORT_ANC_DT a d;
          (s, d) = extFpgaReadShort dev EXT_FPGA_REG_PORT_ANC_ST t d
      in (\<lparr>r_ip = i, r_mac = changeByteOrderOfMac m, r_video = v, r_audio = a, r_dt = t, r_st = s\<rparr>, d))"

definition read_dest_regs :: "'d i2c \<Rightarrow> 'd \<Rightarrow> address_regs \<times> 'd" where
  "read_dest_regs dev d =
     (let (i, d) = extFpgaReadInteger dev EXT_FPGA_REG_DEST_IP 0 d;
          (m, d) = extFpgaRegisterRead dev EXT_FPGA_REG_DEST_MAC (replicate 6 0) d;
          (v, d) = extFpgaReadShort dev EXT_FPGA_REG_DEST_PORT_VIDEO 0 d;
          (a, d) = extFpgaReadShort dev EXT_FPGA_REG_DEST_PORT_AUDIO v d;
          (t, d) = extFpgaReadShort dev EXT_FPGA_REG_DEST_PORT_ANC_DT a d;
          (s, d) = extFpgaReadShort dev EXT_FPGA_REG_DEST_PORT_ANC_ST t d
      in (\<lparr>r_ip = i, r_mac = changeByteOrderOfMac m, r_video = v, r_audio = a, r_dt = t, r_st = s\<rparr>, d))"

subsection \<open>Media parameters\<close>

definition frameRateTable :: "(u8 \<times> u8) list" where
  "frameRateTable = [(2, 23), (3, 24), (5, 25), (6, 29), (7, 30), (9, 50), (0x0a, 59), (0x0b, 60)]"

definition vDepthTable :: "(u8 \<times> u8) list" where
  "vDepthTable = [(0, 8), (1, 10), (2, 12), (3, 16)]"

definition translateFrameRate :: "u8 \<Rightarrow> bool \<Rightarrow> u8" where
  "translateFrameRate rate isFromFpga =
     (if isFromFpga then (case find (\<lambda>(key, val). key = rate) frameRateTable of Some (key, val) \<Rightarrow> val | None \<Rightarrow> 8)
      else (case find (\<lambda>(key, val). val = rate) frameRateTable of Some (key, val) \<Rightarrow> key | None \<Rightarrow> 0))"

definition translateDepth :: "u8 \<Rightarrow> bool \<Rightarrow> u8" where
  "translateDepth depth isFromFpga =
     (if isFromFpga then (case find (\<lambda>(key, val). key = depth) vDepthTable of Some (key, val) \<Rightarrow> val | None \<Rightarrow> 23)
      else (case find (\<lambda>(key, val). val = depth) vDepthTable of Some (key, val) \<Rightarrow> key | None \<Rightarrow> 2))"

definition extFpgaReadParams :: "'d i2c \<Rightarrow> MuxRunTimeParam \<Rightarrow> 'd \<Rightarrow> MuxRunTimeParam \<times> 'd" where
  "extFpgaReadParams dev p d =
     (let (w, d) = extFpgaReadShort dev EXT_FPGA_REG_WIDTH (vWidth p) d;
          (h, d) = extFpgaReadShort dev EXT_FPGA_REG_HEIGHT (vHeight p) d;
          (f, d) = extFpgaReadByte dev EXT_FPGA_REG_FRAMERATE (vFrameRate p) d;
          (c, d) = extFpgaReadByte dev EXT_FPGA_REG_SAMPLING (vColorSpace p) d;
          (b, d) = extFpgaReadByte dev EXT_FPGA_REG_DEPTH (vDepth p) d;
          (s, d) = extFpgaReadByte dev EXT_FPGA_REG_INTLC_SEGM (vIsSegmented p) d
      in (p\<lparr>vWidth := w, vHeight := h, vFrameRate := translateFrameRate f True, vColorSpace := c,
            vDepth := translateDepth b True, vIsSegmented := s\<rparr>, d))"

definition extFpgaReadVer :: "'d i2c \<Rightarrow> MuxRunTimeParam \<Rightarrow> 'd \<Rightarrow> MuxRunTimeParam \<times> 'd" where
  "extFpgaReadVer dev p d =
     (let (v, d) = extFpgaReadByte dev EXT_FPGA_REG_VERSION (v_version p) d;
          (r, d) = extFpgaReadByte dev EXT_FPGA_REG_REVISION (v_revision p) d;
          (m, d) = extFpgaReadByte dev EXT_FPGA_REG_MONTH (v_month p) d;
          (t, d) = extFpgaReadByte dev EXT_FPGA_REG_DAY (v_day p) d;
          (y, d) = extFpgaReadByte dev EXT_FPGA_REG_YEAR (v_year p) d;
          (h, d) = extFpgaReadByte dev EXT_FPGA_REG_HOUR (v_hour p) d;
          (i, d) = extFpgaReadByte dev EXT_FPGA_REG_MINUTE (v_minute p) d
      in (p\<lparr>v_version := v, v_revision := r, v_month := m, v_day := t, v_year := y, v_hour := h, v_minute := i\<rparr>, d))"

definition extFpgaTimerJob :: "'d i2c \<Rightarrow> u8 \<Rightarrow> MuxRunTimeParam \<Rightarrow> 'd \<Rightarrow> MuxRunTimeParam \<times> 'd" where
  "extFpgaTimerJob dev junk p d =
     (let (val, d) = extFpgaReadByte dev EXT_FPGA_REG_SDI_STATUS junk d;
          p = p\<lparr>isConnect := (if val = 1 then EXT_TRUE else EXT_FALSE)\<rparr>;
          (val, d) = extFpgaReadByte dev EXT_FPGA_REG_PARAM_STATUS val d
      in if val \<noteq> 1 then (p, d)
         else let (p, d) = extFpgaReadParams dev p d
              in (p, extFpgaWriteByte dev EXT_FPGA_REG_PARAM_STATUS val d))"

definition extFpgaConfigParams :: "'d i2c \<Rightarrow> MuxRunTimeParam \<Rightarrow> 'd \<Rightarrow> 'd" where
  "extFpgaConfigParams dev p d =
     (let d = extFpgaWriteShort dev EXT_FPGA_REG_WIDTH (vWidth p) d;
          d = extFpgaWriteShort dev EXT_FPGA_REG_HEIGHT (vHeight p) d;
          d = extFpgaWriteByte dev EXT_FPGA_REG_FRAMERATE (translateFrameRate (vFrameRate p) False) d;
          d = extFpgaWriteByte dev EXT_FPGA_REG_SAMPLING (vColorSpace p) d;
          (val, d) = extFpgaReadByte dev EXT_FPGA_REG_DEPTH (translateDepth (vDepth p) False) d;
          d = extFpgaWriteByte dev EXT_FPGA_REG_INTLC_SEGM (vIsSegmented p) d
      in extFpgaWriteByte dev EXT_FPGA_REG_ENABLE EXT_FPGA_FLAGS_MCU_ENABLE d)"

definition extFpgaEnable :: "'d i2c \<Rightarrow> bool \<Rightarrow> 'd \<Rightarrow> 'd" where
  "extFpgaEnable dev isEnable d = extFpgaRegisterWrite dev EXT_FPGA_REG_ENABLE [if isEnable then 0xFF else 0] d"

definition extFpgaBlinkPowerLED :: "'d i2c \<Rightarrow> bool \<Rightarrow> 'd \<Rightarrow> 'd" where
  "extFpgaBlinkPowerLED dev isEnable d = extFpgaWriteByte dev EXT_FPGA_REG_POWER_LED (if isEnable then 1 else 0) d"

subsection \<open>What the registers hold\<close>

text \<open>
  The registers that configure the FPGA keep what is written. Nothing is assumed of the others (status and
  version).
\<close>

definition config_reg :: "u8 \<Rightarrow> bool" where
  "config_reg a \<longleftrightarrow> a \<le> 13 \<or> 52 \<le> a \<and> a \<le> 87"

definition fpga_ok :: "'d i2c \<Rightarrow> ('d \<Rightarrow> u8 \<Rightarrow> u8) \<Rightarrow> bool" where
  "fpga_ok dev regs \<longleftrightarrow>
     (\<forall>d a. config_reg a \<longrightarrow> i2c_read dev d a = (Some (regs d a), d)) \<and>
     (\<forall>d a v x. config_reg a \<longrightarrow> config_reg x \<longrightarrow> regs (i2c_write dev d a v) x = (if x = a then v else regs d x))"

definition regs_at :: "(u8 \<Rightarrow> u8) \<Rightarrow> nat \<Rightarrow> nat \<Rightarrow> bytes" where
  "regs_at r a n = map (\<lambda>k. r (of_nat k)) [a..<a + n]"

definition config_range :: "nat \<Rightarrow> nat \<Rightarrow> bool" where
  "config_range a n \<longleftrightarrow> a + n \<le> 14 \<or> 52 \<le> a \<and> a + n \<le> 88"

lemma config_range_reg:
  assumes "config_range a n" "a \<le> k" "k < a + n"
  shows "config_reg (of_nat k)"
proof -
  have "unat (of_nat k :: u8) = k" using assms by (auto simp: config_range_def unat_of_nat)
  then show ?thesis using assms by (auto simp: config_range_def config_reg_def word_le_nat_alt)
qed

lemma config_range_Suc: "config_range a (Suc n) \<Longrightarrow> config_reg (of_nat a) \<and> (n = 0 \<or> config_range (Suc a) n)"
  using config_range_reg [of a "Suc n" a] by (auto simp: config_range_def)

lemma read_regs:
  assumes "fpga_ok dev regs"
  shows "config_range a (length old) \<Longrightarrow> extFpgaRegisterRead dev (of_nat a) old d = (regs_at (regs d) a (length old), d)"
proof (induction old arbitrary: a)
  case (Cons o os)
  then have c: "config_reg (of_nat a)" "os = [] \<or> config_range (Suc a) (length os)" using config_range_Suc [of a "length os"] by auto
  then have "extFpgaRegisterRead dev (of_nat (Suc a)) os d = (regs_at (regs d) (Suc a) (length os), d)"
    using Cons.IH [of "Suc a"] by (auto simp: regs_at_def)
  moreover have "extFpgaReadByte dev (of_nat a) x d = (regs d (of_nat a), d)" for x
    using assms c(1) by (simp add: fpga_ok_def extFpgaReadByte_def)
  ultimately show ?case by (simp add: regs_at_def upt_conv_Cons add.commute del: upt_Suc)
qed (simp add: regs_at_def)

lemma write_regs:
  assumes "fpga_ok dev regs"
  shows "config_range a (length vs) \<Longrightarrow> config_reg (of_nat x) \<Longrightarrow> x < 256 \<Longrightarrow>
    regs (extFpgaRegisterWrite dev (of_nat a) vs d) (of_nat x) = (if a \<le> x \<and> x < a + length vs then vs ! (x - a) else regs d (of_nat x))"
proof (induction vs arbitrary: a d)
  case (Cons v vs)
  then have c: "config_reg (of_nat a)" "vs = [] \<or> config_range (Suc a) (length vs)" using config_range_Suc [of a "length vs"] by auto
  have e: "(of_nat x = (of_nat a :: u8)) \<longleftrightarrow> x = a"
    using Cons.prems by (auto simp: config_range_def word_unat_eq_iff unat_of_nat)
  have w: "regs (extFpgaWriteByte dev (of_nat a) v d) (of_nat x) = (if x = a then v else regs d (of_nat x))"
    using assms c(1) Cons.prems(2) e by (simp add: fpga_ok_def extFpgaWriteByte_def)
  from c(2) have "regs (extFpgaRegisterWrite dev (of_nat (Suc a)) vs (extFpgaWriteByte dev (of_nat a) v d)) (of_nat x) =
    (if Suc a \<le> x \<and> x < Suc a + length vs then vs ! (x - Suc a) else regs (extFpgaWriteByte dev (of_nat a) v d) (of_nat x))"
    using Cons.IH [of "Suc a"] Cons.prems(2,3) by auto
  then show ?case using w by (auto simp: nth_Cons' add.commute)
qed auto

lemma regs_same:
  assumes "fpga_ok dev regs" "config_range a (length vs)"
  shows "regs_at (regs (extFpgaRegisterWrite dev (of_nat a) vs d)) a (length vs) = vs"
proof (rule nth_equalityI)
  fix i assume "i < length (regs_at (regs (extFpgaRegisterWrite dev (of_nat a) vs d)) a (length vs))"
  then have "i < length vs" "a + i < 256" using assms(2) by (auto simp: regs_at_def config_range_def)
  then show "regs_at (regs (extFpgaRegisterWrite dev (of_nat a) vs d)) a (length vs) ! i = vs ! i"
    using write_regs [OF assms config_range_reg [OF assms(2), of "a + i"]] by (simp add: regs_at_def)
qed (simp add: regs_at_def)

lemma regs_other:
  assumes "fpga_ok dev regs" "config_range a (length vs)" "config_range b n" "b + n \<le> a \<or> a + length vs \<le> b"
  shows "regs_at (regs (extFpgaRegisterWrite dev (of_nat a) vs d)) b n = regs_at (regs d) b n"
  unfolding regs_at_def
proof (rule map_cong [OF refl])
  fix k assume "k \<in> set [b..<b + n]"
  then show "regs (extFpgaRegisterWrite dev (of_nat a) vs d) (of_nat k) = regs d (of_nat k)"
    using write_regs [OF assms(1,2) config_range_reg [OF assms(3), of k], of d] assms(3,4) by (auto simp: config_range_def)
qed

named_theorems fpga_simps \<open>reads after writes at numbered registers\<close>

lemma le_lengths [fpga_simps]: "length (le16 v) = 2" "length (le32 w) = 4" "length (changeByteOrderOfMac m) = 6" "length (replicate 6 x) = 6" "length [x] = 1"
  by (simp_all add: le16_def le32_def changeByteOrderOfMac_def)

lemma mac_twice [fpga_simps]: "length m = 6 \<Longrightarrow> changeByteOrderOfMac (changeByteOrderOfMac m) = m"
  by (rule nth_equalityI) (auto simp: changeByteOrderOfMac_def numeral_eq_Suc less_Suc_eq)

lemma read_bytes_numeral:
  "fpga_ok dev regs \<Longrightarrow> config_range (numeral k) (length old) \<Longrightarrow>
   extFpgaRegisterRead dev (numeral k) old d = (regs_at (regs d) (numeral k) (length old), d)"
  using read_regs [of dev regs "numeral k" old d] by simp

lemma read_short_numeral:
  "fpga_ok dev regs \<Longrightarrow> config_range (numeral k) 2 \<Longrightarrow> extFpgaReadShort dev (numeral k) old d = (un16 (regs_at (regs d) (numeral k) 2), d)"
  by (simp add: extFpgaReadShort_def read_bytes_numeral le_lengths)

lemma read_integer_numeral:
  "fpga_ok dev regs \<Longrightarrow> config_range (numeral k) 4 \<Longrightarrow>
   extFpgaReadInteger dev (numeral k) old d = (flip32 (un32 (regs_at (regs d) (numeral k) 4)), d)"
  by (simp add: extFpgaReadInteger_def read_bytes_numeral le_lengths)

lemma hd_regs_at: "hd (regs_at r a (Suc n)) = r (of_nat a)"
  by (simp add: regs_at_def upt_conv_Cons del: upt_Suc)

lemma read_byte_numeral:
  "fpga_ok dev regs \<Longrightarrow> config_reg (numeral k) \<Longrightarrow> extFpgaReadByte dev (numeral k) old d = (hd (regs_at (regs d) (numeral k) 1), d)"
  using hd_regs_at [of "regs d" "numeral k" 0] by (simp add: extFpgaReadByte_def fpga_ok_def)

lemma write_byte_numeral [fpga_simps]: "extFpgaWriteByte dev (numeral k) v d = extFpgaRegisterWrite dev (numeral k) [v] d"
  by simp

lemma regs_same_numeral:
  "fpga_ok dev regs \<Longrightarrow> length vs = n \<Longrightarrow> config_range (numeral k) n \<Longrightarrow>
   regs_at (regs (extFpgaRegisterWrite dev (numeral k) vs d)) (numeral k) n = vs"
  using regs_same [of dev regs "numeral k" vs d] by auto

lemma regs_other_numeral:
  "fpga_ok dev regs \<Longrightarrow> config_range (numeral k) (length vs) \<Longrightarrow> config_range (numeral b) n \<Longrightarrow>
   numeral b + n \<le> numeral k \<or> numeral k + length vs \<le> (numeral b :: nat) \<Longrightarrow>
   regs_at (regs (extFpgaRegisterWrite dev (numeral k) vs d)) (numeral b) n = regs_at (regs d) (numeral b) n"
  using regs_other [of dev regs "numeral k" vs "numeral b" n d] by simp

lemmas fpga_ops = extFpgaWriteShort_def extFpgaWriteInteger_def config_range_def config_reg_def un16_le16 un32_le32 fpga_simps
lemmas fpga_regs = read_bytes_numeral read_short_numeral read_integer_numeral read_byte_numeral regs_same_numeral regs_other_numeral

text \<open>Reading the addresses back, where the registers hold the bytes of a configuration.\<close>

definition shown :: "EXT_VIDEO_CONFIG \<Rightarrow> u32w \<Rightarrow> bytes \<Rightarrow> address_regs" where
  "shown v i m = \<lparr>r_ip = i, r_mac = m, r_video = vport v, r_audio = aport v, r_dt = dport v, r_st = sport v\<rparr>"

lemma tx_registers:
  fixes dev :: "'d i2c" and d :: 'd
  assumes ok: "fpga_ok dev regs" and m: "length (mac (local_cfg cfg)) = 6" "length (mac (dest_cfg cfg)) = 6"
  defines "d1 \<equiv> fpga_config_tx dev cfg d"
  shows "read_local_regs dev d1 = (shown (local_cfg cfg) (if netif_addr cfg = 0 then ip (local_cfg cfg) else netif_addr cfg) (mac (local_cfg cfg)), d1)"
    and "read_dest_regs dev d1 =
      (shown (dest_cfg cfg) (ip (dest_cfg cfg)) (snd (extNetMulticastIP4Mac (ip (dest_cfg cfg)) (mac (dest_cfg cfg)))), d1)"
proof -
  have six: "length (snd (extNetMulticastIP4Mac i n)) = 6" if "length n = 6" for i n using that by (simp add: extNetMulticastIP4Mac_def)
  have mm: "(if fst (extNetMulticastIP4Mac i n) then snd (extNetMulticastIP4Mac i n) else k) = snd (extNetMulticastIP4Mac i k)" for i n k
    by (simp add: extNetMulticastIP4Mac_def)
  show "read_local_regs dev d1 = (shown (local_cfg cfg) (if netif_addr cfg = 0 then ip (local_cfg cfg) else netif_addr cfg) (mac (local_cfg cfg)), d1)"
    unfolding read_local_regs_def d1_def fpga_config_tx_def Let_def case_prod_beta mm
    by (simp add: fpga_ops fpga_regs [OF ok] m shown_def)
  show "read_dest_regs dev d1 =
      (shown (dest_cfg cfg) (ip (dest_cfg cfg)) (snd (extNetMulticastIP4Mac (ip (dest_cfg cfg)) (mac (dest_cfg cfg)))), d1)"
    unfolding read_dest_regs_def d1_def fpga_config_tx_def Let_def case_prod_beta mm
    by (simp add: fpga_ops fpga_regs [OF ok] six [OF m(2)] shown_def)
qed

lemma regs_other_zero:
  "fpga_ok dev regs \<Longrightarrow> config_range (numeral b) n \<Longrightarrow>
   regs_at (regs (extFpgaWriteByte dev 0 v d)) (numeral b) n = regs_at (regs d) (numeral b) n"
  using regs_other [of dev regs 0 "[v]" "numeral b" n d] by (simp add: config_range_def)

lemma read_byte_zero: "fpga_ok dev regs \<Longrightarrow> extFpgaReadByte dev 0 old d = (regs d 0, d)"
  by (simp add: fpga_ok_def extFpgaReadByte_def config_reg_def)

lemma rx_registers:
  fixes dev :: "'d i2c" and d :: 'd and junk
  assumes ok: "fpga_ok dev regs" and m: "length (mac (dest_cfg cfg)) = 6"
  defines "d1 \<equiv> fpga_config_rx dev junk cfg d"
  shows "read_local_regs dev d1 =
      (if r_ip (fst (read_local_regs dev d)) \<noteq> ip (dest_cfg cfg) then shown (dest_cfg cfg) (ip (dest_cfg cfg)) (mac (dest_cfg cfg))
       else fst (read_local_regs dev d), d1)"
  unfolding read_local_regs_def d1_def fpga_config_rx_def Let_def case_prod_beta
  by (simp add: fpga_ops fpga_regs [OF ok] regs_other_zero [OF ok] read_byte_zero [OF ok] m shown_def)

text \<open>
  C31: Configuring the FPGA. On a transmitter the registers read back as the local and the destination settings of the
  configuration, with the address of the interface when it has one and the Ethernet address of the group when the destination is
  a multicast address. A receiver takes the address, ports and MAC over from the configured source, but only if
  the address differs from the one in the FPGA: a change of the ports or the MAC alone is lost. It joins
  the group exactly if the source is a multicast address, the interface has an address and IGMP is on.
\<close>

theorem fpga_configured:
  fixes dev :: "'d i2c" and d :: 'd and junk flag igmp
  assumes "fpga_ok dev regs" "length (mac (local_cfg cfg)) = 6" "length (mac (dest_cfg cfg)) = 6"
  defines "d1 \<equiv> snd (extFpgaConfig dev junk flag igmp cfg d)"
  shows "if EXT_IS_TX cfg then
      fst (extFpgaConfig dev junk flag igmp cfg d) = [] \<and>
      read_local_regs dev d1 = (shown (local_cfg cfg) (if netif_addr cfg = 0 then ip (local_cfg cfg) else netif_addr cfg) (mac (local_cfg cfg)), d1) \<and>
      read_dest_regs dev d1 = (shown (dest_cfg cfg) (ip (dest_cfg cfg)) (snd (extNetMulticastIP4Mac (ip (dest_cfg cfg)) (mac (dest_cfg cfg)))), d1)
    else
      fst (extFpgaConfig dev junk flag igmp cfg d) =
        (if ip_is_multicast (ip (dest_cfg cfg)) \<and> netif_addr cfg \<noteq> 0 \<and> flag then [(True, ip (dest_cfg cfg))] else []) \<and>
      read_local_regs dev d1 =
        (if r_ip (fst (read_local_regs dev d)) \<noteq> ip (dest_cfg cfg) then shown (dest_cfg cfg) (ip (dest_cfg cfg)) (mac (dest_cfg cfg))
         else fst (read_local_regs dev d), d1)"
proof (cases "EXT_IS_TX cfg")
  case True
  then show ?thesis
    using tx_registers [OF assms(1-3), of d] by (simp add: extFpgaConfig_def d1_def)
next
  case False
  then show ?thesis
    using rx_registers [OF assms(1,3), of junk d] by (simp add: extFpgaConfig_def extLwipGroupMgr_def d1_def)
qed

text \<open>
  Media parameters written to the FPGA are read back, for every frame rate the table knows, except for the
  depth: it is read instead of written, so the FPGA keeps the depth it had whatever is configured.
\<close>

theorem fpga_params_roundtrip:
  fixes dev :: "'d i2c" and d :: 'd
  assumes ok: "fpga_ok dev regs" and f: "vFrameRate p \<in> snd ` set frameRateTable"
  defines "d1 \<equiv> extFpgaConfigParams dev p d"
  shows "extFpgaReadParams dev q d1 =
     (q\<lparr>vWidth := vWidth p, vHeight := vHeight p, vFrameRate := vFrameRate p, vColorSpace := vColorSpace p,
        vDepth := vDepth (fst (extFpgaReadParams dev q d)), vIsSegmented := vIsSegmented p\<rparr>, d1)"
proof -
  have "translateFrameRate (translateFrameRate (vFrameRate p) False) True = vFrameRate p"
  proof -
    have "list_all (\<lambda>r. translateFrameRate (translateFrameRate r False) True = r) (map snd frameRateTable)" by code_simp
    then show ?thesis using f by (auto simp: list_all_iff)
  qed
  then show ?thesis
    unfolding extFpgaReadParams_def d1_def extFpgaConfigParams_def Let_def case_prod_beta
    by (simp add: fpga_ops fpga_regs [OF ok] del: extFpgaRegisterWrite.simps)
qed

text \<open>A device whose registers are plain memory.\<close>

definition memory_dev :: "(u8 \<Rightarrow> u8) i2c" where
  "memory_dev = \<lparr>i2c_read = (\<lambda>d a. (Some (d a), d)), i2c_write = (\<lambda>d a v. d(a := v))\<rparr>"

lemma memory_dev_ok: "fpga_ok memory_dev (\<lambda>d. d)"
  by (simp add: fpga_ok_def memory_dev_def)

theorem fpga_configured_witness:
  "let cfg = extCfgFromFactory sample_conf (blank_cfg 1)
   in read_dest_regs memory_dev (snd (extFpgaConfig memory_dev 0 True (\<lambda>_ _. 0) cfg (\<lambda>_. 0))) =
      (shown (dest_cfg cfg) (ip (dest_cfg cfg)) (mac (dest_cfg cfg)), snd (extFpgaConfig memory_dev 0 True (\<lambda>_ _. 0) cfg (\<lambda>_. 0)))"
proof -
  define cfg where "cfg = extCfgFromFactory sample_conf (blank_cfg 1)"
  have "EXT_IS_TX cfg" "length (mac (local_cfg cfg)) = 6" "length (mac (dest_cfg cfg)) = 6"
    "snd (extNetMulticastIP4Mac (ip (dest_cfg cfg)) (mac (dest_cfg cfg))) = mac (dest_cfg cfg)"
    unfolding cfg_def by code_simp+
  then show ?thesis
    using fpga_configured [OF memory_dev_ok, of cfg 0 True "\<lambda>_ _. 0" "\<lambda>_. 0"] by (simp only: Let_def cfg_def [symmetric] if_True)
qed

theorem fpga_params_roundtrip_witness:
  "vFrameRate (fst (extFpgaReadParams memory_dev blank_runtime (extFpgaConfigParams memory_dev (blank_runtime\<lparr>vFrameRate := 59, vDepth := 12\<rparr>) (\<lambda>_. 0)))) = 59 \<and>
   vDepth (fst (extFpgaReadParams memory_dev blank_runtime (extFpgaConfigParams memory_dev (blank_runtime\<lparr>vFrameRate := 59, vDepth := 12\<rparr>) (\<lambda>_. 0)))) = 8"
proof -
  have "vFrameRate (blank_runtime\<lparr>vFrameRate := 59, vDepth := 12\<rparr>) \<in> snd ` set frameRateTable" by code_simp
  moreover have "vDepth (fst (extFpgaReadParams memory_dev blank_runtime (\<lambda>_. 0))) = 8" by code_simp
  ultimately show ?thesis
    using fpga_params_roundtrip [OF memory_dev_ok, of "blank_runtime\<lparr>vFrameRate := 59, vDepth := 12\<rparr>" blank_runtime "\<lambda>_. 0"]
    by simp
qed

text \<open>Waiting for the FPGA ends after at most one poll more than the seconds given.\<close>

lemma wait_done:
  "extBspFpgaWaitDone t pin n = (r, k) \<Longrightarrow> n < k \<and> k \<le> n + t + 1 \<and> (r \<longleftrightarrow> pin (k - 1)) \<and> (\<forall>j. n \<le> j \<and> j < k - 1 \<longrightarrow> \<not> pin j)"
proof (induction t pin n rule: extBspFpgaWaitDone.induct)
  case (2 timeout pin n)
  show ?case
  proof (cases "pin n")
    case False
    with 2 have "Suc n < k \<and> k \<le> Suc n + timeout + 1 \<and> (r \<longleftrightarrow> pin (k - 1)) \<and> (\<forall>j. Suc n \<le> j \<and> j < k - 1 \<longrightarrow> \<not> pin j)" by simp
    then show ?thesis using False by (metis Suc_leI add_Suc add_Suc_right le_neq_implies_less less_Suc_eq less_trans)
  qed (use 2 in auto)
qed auto

end
