(* ===== verification/MediaFsm.thy ===== *)
theory MediaFsm
  imports PtpTimer Fpga
begin

text \<open>
  The control of the media stream: the generic state machine of \<^verbatim>\<open>exts/extFsm.c\<close> and its use in
  \<^verbatim>\<open>exts/extMediaTask.c\<close> (under \<^verbatim>\<open>src/supports/lwip/lwip/src\<close>). A transmitter polls the FPGA; when a signal
  appears or disappears it posts an event to a mailbox, and the control thread tells the server about the
  change, up to five times until an acknowledgement arrives.

  The state is one record: the state machine, the timer, the mailbox (the types of the events in it), the polled
  parameters, the configuration, the FPGA, and the messages sent to the server (the run-time parameters at the time of
  sending). Posting and timer creation may fail for want of memory; each step has the answers as arguments. The steps of the
  threads (poll, acknowledgement from the network, timer, control thread) interleave freely.
  The lemmas show the invariant of the state, that the state machine follows the FPGA as long as no
  post fails, and how many messages are sent.
\<close>

subsection \<open>State machine\<close>

abbreviation (input) EXT_EVENT_NONE :: u8 where "EXT_EVENT_NONE \<equiv> 0"
abbreviation (input) EXT_MEDIA_EVENT_CONNECT :: u8 where "EXT_MEDIA_EVENT_CONNECT \<equiv> 2"
abbreviation (input) EXT_MEDIA_EVENT_DISCONNECT :: u8 where "EXT_MEDIA_EVENT_DISCONNECT \<equiv> 3"
abbreviation (input) EXT_MEDIA_EVENT_ACK :: u8 where "EXT_MEDIA_EVENT_ACK \<equiv> 4"
abbreviation (input) EXT_MEDIA_EVENT_TIMEOUT :: u8 where "EXT_MEDIA_EVENT_TIMEOUT \<equiv> 6"
abbreviation (input) EXT_STATE_CONTINUE :: u8 where "EXT_STATE_CONTINUE \<equiv> 0"
abbreviation (input) EXT_MEDIA_STATE_DISCONNECT :: u8 where "EXT_MEDIA_STATE_DISCONNECT \<equiv> 1"
abbreviation (input) EXT_MEDIA_STATE_CONNECT :: u8 where "EXT_MEDIA_STATE_CONNECT \<equiv> 2"
abbreviation (input) EXT_MCTRL_MBOX_SIZE :: nat where "EXT_MCTRL_MBOX_SIZE \<equiv> 8"

text \<open>A row of a state machine: the state, and its transitions (event, handler), or no table for the last row.\<close>

type_synonym 'h statemachine = "(u8 \<times> (u8 \<times> 'h) list option) list"

record 'd media =
  currentState :: u8
  currentEvent :: u8
  msgTimer :: sys_timer
  timeoutCount :: u16
  mbox :: "u8 list"
  mediaParams :: MuxRunTimeParam
  m_cfg :: DEV_CFG
  m_fpga :: 'd
  m_sent :: "MuxRunTimeParam list"

definition find_handler :: "u8 \<Rightarrow> (u8 \<times> 'h) list \<Rightarrow> 'h option" where
  "find_handler ev hs = map_option snd (find (\<lambda>(e, h). e = ev) hs)"

text \<open>
  The search through the rows up to the last one; a row of the current state without the event does not end it.
  \<open>call\<close> runs a handler.
\<close>

fun fsm_rows :: "('h \<Rightarrow> 'd media \<Rightarrow> u8 \<times> 'd media) \<Rightarrow> 'h statemachine \<Rightarrow> 'd media \<Rightarrow> 'd media" where
  "fsm_rows call [] m = m"
| "fsm_rows call ((st, None) # rows) m = m"
| "fsm_rows call ((st, Some hs) # rows) m =
     (if st = EXT_STATE_CONTINUE then m
      else if st = currentState m then
        (case find_handler (currentEvent m) hs of
           Some h \<Rightarrow>
             (let (newState, m1) = call h m;
                  m2 = m1\<lparr>currentEvent := EXT_EVENT_NONE\<rparr>
              in if newState \<noteq> EXT_STATE_CONTINUE \<and> newState \<noteq> currentState m2 then m2\<lparr>currentState := newState\<rparr> else m2)
         | None \<Rightarrow> fsm_rows call rows m)
      else fsm_rows call rows m)"

definition extFsmHandle :: "('h \<Rightarrow> 'd media \<Rightarrow> u8 \<times> 'd media) \<Rightarrow> 'h statemachine \<Rightarrow> 'd media \<Rightarrow> 'd media" where
  "extFsmHandle call states m = (if currentEvent m = EXT_EVENT_NONE then m else fsm_rows call states m)"

subsection \<open>Handlers\<close>

text \<open>\<open>ok\<close>: whether the timer can be created.\<close>

definition sendMsgStartTimer :: "bool \<Rightarrow> 'd media \<Rightarrow> 'd media" where
  "sendMsgStartTimer ok m =
     m\<lparr>msgTimer := sys_timer_start ok (msgTimer m) 3000, m_sent := m_sent m @ [runtime (m_cfg m)]\<rparr>"

definition fsmConnectEvent :: "bool \<Rightarrow> 'd media \<Rightarrow> u8 \<times> 'd media" where
  "fsmConnectEvent ok m =
     (let m1 = m\<lparr>msgTimer := sys_timer_stop (msgTimer m), timeoutCount := 0\<rparr>
      in (EXT_MEDIA_STATE_CONNECT, if currentState m1 = EXT_MEDIA_STATE_DISCONNECT then sendMsgStartTimer ok m1 else m1))"

definition fsmDisconnEvent :: "bool \<Rightarrow> 'd media \<Rightarrow> u8 \<times> 'd media" where
  "fsmDisconnEvent ok m =
     (let m1 = m\<lparr>msgTimer := sys_timer_stop (msgTimer m), timeoutCount := 0\<rparr>
      in (EXT_MEDIA_STATE_DISCONNECT, if currentState m1 = EXT_MEDIA_STATE_CONNECT then sendMsgStartTimer ok m1 else m1))"

definition fsmAckEvent :: "bool \<Rightarrow> 'd media \<Rightarrow> u8 \<times> 'd media" where
  "fsmAckEvent ok m = (EXT_STATE_CONTINUE, m\<lparr>msgTimer := sys_timer_stop (msgTimer m), timeoutCount := 0\<rparr>)"

definition fsmTimeoutEvent :: "bool \<Rightarrow> 'd media \<Rightarrow> u8 \<times> 'd media" where
  "fsmTimeoutEvent ok m =
     (let m1 = m\<lparr>msgTimer := sys_timer_stop (msgTimer m), timeoutCount := timeoutCount m + 1\<rparr>
      in (EXT_STATE_CONTINUE, if timeoutCount m1 < 5 then sendMsgStartTimer ok m1 else m1))"

datatype media_handler = H_connect | H_disconn | H_ack | H_timeout

fun call_handler :: "bool \<Rightarrow> media_handler \<Rightarrow> 'd media \<Rightarrow> u8 \<times> 'd media" where
  "call_handler ok H_connect m = fsmConnectEvent ok m"
| "call_handler ok H_disconn m = fsmDisconnEvent ok m"
| "call_handler ok H_ack m = fsmAckEvent ok m"
| "call_handler ok H_timeout m = fsmTimeoutEvent ok m"

definition disconnState :: "(u8 \<times> media_handler) list" where
  "disconnState = [(EXT_MEDIA_EVENT_CONNECT, H_connect), (EXT_MEDIA_EVENT_ACK, H_ack), (EXT_MEDIA_EVENT_TIMEOUT, H_timeout)]"

definition connectState :: "(u8 \<times> media_handler) list" where
  "connectState = [(EXT_MEDIA_EVENT_DISCONNECT, H_disconn), (EXT_MEDIA_EVENT_ACK, H_ack), (EXT_MEDIA_EVENT_TIMEOUT, H_timeout)]"

definition mediaStateMachine :: "media_handler statemachine" where
  "mediaStateMachine =
     [(EXT_MEDIA_STATE_DISCONNECT, Some disconnState), (EXT_MEDIA_STATE_CONNECT, Some connectState), (EXT_STATE_CONTINUE, None)]"

subsection \<open>Threads\<close>

text \<open>One round of the control thread; it waits while the mailbox is empty.\<close>

definition extMediaControlThread :: "bool \<Rightarrow> 'd media \<Rightarrow> 'd media" where
  "extMediaControlThread ok m =
     (case mbox m of
        [] \<Rightarrow> m
      | ev # rest \<Rightarrow> extFsmHandle (call_handler ok) mediaStateMachine (m\<lparr>mbox := rest, currentEvent := ev\<rparr>))"

text \<open>\<open>alloc\<close>: whether memory for the event is available. The result is \<open>EXIT_SUCCESS\<close>, zero, or \<open>EXIT_FAILURE\<close>.\<close>

definition extMediaPostEvent :: "bool \<Rightarrow> u8 \<Rightarrow> 'd media \<Rightarrow> int \<times> 'd media" where
  "extMediaPostEvent alloc eventType m =
     (if \<not> alloc then (1, m)
      else if length (mbox m) < EXT_MCTRL_MBOX_SIZE then (0, m\<lparr>mbox := mbox m @ [eventType]\<rparr>)
      else (1, m))"

text \<open>The one-shot timer runs out: its callback posts the event.\<close>

definition msgTimerCallback :: "bool \<Rightarrow> 'd media \<Rightarrow> 'd media" where
  "msgTimerCallback alloc m = snd (extMediaPostEvent alloc EXT_MEDIA_EVENT_TIMEOUT m)"

definition msg_timer_fire :: "bool \<Rightarrow> 'd media \<Rightarrow> 'd media" where
  "msg_timer_fire alloc m =
     (if pending (msgTimer m) = None then m
      else let m1 = msgTimerCallback alloc m in m1\<lparr>msgTimer := (msgTimer m1)\<lparr>pending := None\<rparr>\<rparr>)"

definition extMediaInit :: "DEV_CFG \<Rightarrow> 'd \<Rightarrow> 'd media" where
  "extMediaInit cfg d =
     \<lparr>currentState = EXT_MEDIA_STATE_DISCONNECT, currentEvent = EXT_EVENT_NONE,
      msgTimer = \<lparr>timeId = False, pending = None, expired = False\<rparr>, timeoutCount = 0, mbox = [],
      mediaParams = blank_runtime, m_cfg = cfg, m_fpga = d, m_sent = []\<rparr>"

definition extMediaCompareParams :: "MuxRunTimeParam \<Rightarrow> MuxRunTimeParam \<Rightarrow> bool \<times> MuxRunTimeParam" where
  "extMediaCompareParams dest newParam =
     (let isDiff1 = (isConnect dest = EXT_FALSE \<and> isConnect newParam = EXT_TRUE);
          isDiff2 = (vWidth dest \<noteq> vWidth newParam \<or> vHeight dest \<noteq> vHeight newParam \<or> vFrameRate dest \<noteq> vFrameRate newParam \<or>
                     vColorSpace dest \<noteq> vColorSpace newParam \<or> vDepth dest \<noteq> vDepth newParam \<or> vIsSegmented dest \<noteq> vIsSegmented newParam);
          isDiff = (isDiff1 \<or> isDiff2)
      in (isDiff, if isDiff then newParam else dest))"

definition extMediaPollDevice :: "'d i2c \<Rightarrow> u8 \<Rightarrow> bool \<Rightarrow> 'd media \<Rightarrow> 'd media" where
  "extMediaPollDevice dev junk alloc m =
     (if \<not> EXT_IS_TX (m_cfg m) then m
      else
        let (p, d) = extFpgaTimerJob dev junk (mediaParams m) (m_fpga m);
            m1 = m\<lparr>mediaParams := p, m_fpga := d\<rparr>;
            r = runtime (m_cfg m1)
        in if isConnect p = EXT_FALSE \<and> isConnect r = EXT_TRUE
           then snd (extMediaPostEvent alloc EXT_MEDIA_EVENT_DISCONNECT (m1\<lparr>m_cfg := (m_cfg m1)\<lparr>runtime := r\<lparr>isConnect := EXT_FALSE\<rparr>\<rparr>\<rparr>))
           else if isConnect p = EXT_TRUE \<and> isConnect r = EXT_FALSE
           then (let (isDiff, r1) = extMediaCompareParams r p;
                     m2 = m1\<lparr>m_cfg := (m_cfg m1)\<lparr>runtime := r1\<rparr>\<rparr>
                 in if isDiff
                    then snd (extMediaPostEvent alloc EXT_MEDIA_EVENT_CONNECT (m2\<lparr>m_cfg := (m_cfg m2)\<lparr>runtime := r1\<lparr>isConnect := EXT_TRUE\<rparr>\<rparr>\<rparr>))
                    else m2)
           else m1)"

subsection \<open>Interleaving\<close>

datatype media_act = Poll u8 bool | Ack bool | Fire bool | Control bool

fun media_do :: "'d i2c \<Rightarrow> media_act \<Rightarrow> 'd media \<Rightarrow> 'd media" where
  "media_do dev (Poll junk alloc) m = extMediaPollDevice dev junk alloc m"
| "media_do dev (Ack alloc) m = snd (extMediaPostEvent alloc EXT_MEDIA_EVENT_ACK m)"
| "media_do dev (Fire alloc) m = msg_timer_fire alloc m"
| "media_do dev (Control ok) m = extMediaControlThread ok m"

subsection \<open>Invariant\<close>

definition timeouts :: "'d media \<Rightarrow> nat" where
  "timeouts m = count_list (mbox m) EXT_MEDIA_EVENT_TIMEOUT + (if pending (msgTimer m) = None then 0 else 1)"

definition media_inv :: "'d media \<Rightarrow> bool" where
  "media_inv m \<longleftrightarrow>
     currentState m \<in> {EXT_MEDIA_STATE_DISCONNECT, EXT_MEDIA_STATE_CONNECT} \<and>
     set (mbox m) \<subseteq> {EXT_MEDIA_EVENT_CONNECT, EXT_MEDIA_EVENT_DISCONNECT, EXT_MEDIA_EVENT_ACK, EXT_MEDIA_EVENT_TIMEOUT} \<and>
     length (mbox m) \<le> EXT_MCTRL_MBOX_SIZE \<and>
     (pending (msgTimer m) \<noteq> None \<longrightarrow> timeId (msgTimer m)) \<and>
     isConnect (runtime (m_cfg m)) \<in> {EXT_FALSE, EXT_TRUE} \<and>
     unat (timeoutCount m) + timeouts m \<le> 13"

definition next_state :: "u8 \<Rightarrow> u8 \<Rightarrow> u8" where
  "next_state ev st =
     (if ev = EXT_MEDIA_EVENT_CONNECT \<and> st = EXT_MEDIA_STATE_DISCONNECT then EXT_MEDIA_STATE_CONNECT
      else if ev = EXT_MEDIA_EVENT_DISCONNECT \<and> st = EXT_MEDIA_STATE_CONNECT then EXT_MEDIA_STATE_DISCONNECT
      else st)"

lemmas handler_defs = fsmConnectEvent_def fsmDisconnEvent_def fsmAckEvent_def fsmTimeoutEvent_def sendMsgStartTimer_def Let_def

text \<open>What the control thread does with one event.\<close>

definition handled :: "bool \<Rightarrow> u8 \<Rightarrow> 'd media \<Rightarrow> 'd media" where
  "handled ok ev m =
     (if next_state ev (currentState m) \<noteq> currentState m
      then (sendMsgStartTimer ok (m\<lparr>msgTimer := sys_timer_stop (msgTimer m), timeoutCount := 0\<rparr>))
             \<lparr>currentState := next_state ev (currentState m), currentEvent := EXT_EVENT_NONE\<rparr>
      else if ev = EXT_MEDIA_EVENT_ACK then m\<lparr>msgTimer := sys_timer_stop (msgTimer m), timeoutCount := 0, currentEvent := EXT_EVENT_NONE\<rparr>
      else if ev = EXT_MEDIA_EVENT_TIMEOUT
      then (let m1 = m\<lparr>msgTimer := sys_timer_stop (msgTimer m), timeoutCount := timeoutCount m + 1\<rparr>
            in (if timeoutCount m1 < 5 then sendMsgStartTimer ok m1 else m1)\<lparr>currentEvent := EXT_EVENT_NONE\<rparr>)
      else m)"

lemma control_handles:
  assumes "mbox m = ev # rest" "currentState m \<in> {1, 2}" "ev \<in> {2, 3, 4, 6}"
  shows "extMediaControlThread ok m = handled ok ev (m\<lparr>mbox := rest, currentEvent := ev\<rparr>)"
  using assms
  by (auto simp: extMediaControlThread_def extFsmHandle_def mediaStateMachine_def disconnState_def connectState_def find_handler_def
      handled_def next_state_def handler_defs)

lemma media_inv_mbox_head:
  "media_inv m \<Longrightarrow> mbox m = ev # rest \<Longrightarrow> currentState m \<in> {1, 2} \<and> ev \<in> {2, 3, 4, 6}"
  by (auto simp: media_inv_def)

lemma count_no_wrap:
  assumes "media_inv m"
  shows "unat (timeoutCount m + 1) = unat (timeoutCount m) + 1" "timeoutCount m + 1 < 5 \<longleftrightarrow> unat (timeoutCount m) < 4"
proof -
  show "unat (timeoutCount m + 1) = unat (timeoutCount m) + 1"
    using assms by (simp add: media_inv_def unat_word_ariths)
  then show "timeoutCount m + 1 < 5 \<longleftrightarrow> unat (timeoutCount m) < 4" by (simp add: word_less_nat_alt)
qed

lemma control_inv:
  assumes "media_inv m"
  shows "media_inv (extMediaControlThread ok m)"
proof (cases "mbox m")
  case Nil
  then show ?thesis using assms by (simp add: extMediaControlThread_def)
next
  case (Cons ev rest)
  note h = media_inv_mbox_head [OF assms Cons]
  have I: "set rest \<subseteq> {2, 3, 4, 6}" "length rest \<le> 7" "count_list rest 6 \<le> 7"
    using assms Cons count_le_length [of rest 6] by (auto simp: media_inv_def)
  show ?thesis
    unfolding control_handles [OF Cons h [THEN conjunct1] h [THEN conjunct2]]
    using assms I Cons h count_no_wrap [OF assms]
    by (auto simp: handled_def media_inv_def timeouts_def next_state_def sendMsgStartTimer_def sys_timer_stop_def sys_timer_start_def Let_def split: if_splits)
qed

lemma post_inv:
  "media_inv m \<Longrightarrow> ev \<in> {2, 3, 4} \<Longrightarrow> media_inv (snd (extMediaPostEvent alloc ev m))"
  by (auto simp: extMediaPostEvent_def media_inv_def timeouts_def)

lemma fire_inv: "media_inv m \<Longrightarrow> media_inv (msg_timer_fire alloc m)"
  by (auto simp: msg_timer_fire_def msgTimerCallback_def extMediaPostEvent_def media_inv_def timeouts_def Let_def)

lemma TimerJob_isConnect: "isConnect (fst (extFpgaTimerJob dev junk p d)) \<in> {0, 1}"
  by (auto simp: extFpgaTimerJob_def extFpgaReadParams_def Let_def case_prod_beta)

text \<open>
  What a poll does to the configuration and which event it posts: one if and only if the signal seen
  by the FPGA differs from the one last seen.
\<close>

definition polled :: "DEV_CFG \<Rightarrow> MuxRunTimeParam \<Rightarrow> 'd \<Rightarrow> 'd media \<Rightarrow> 'd media" where
  "polled c p d m = m\<lparr>mediaParams := p, m_fpga := d, m_cfg := c\<rparr>"

definition seen :: "'d i2c \<Rightarrow> u8 \<Rightarrow> 'd media \<Rightarrow> u8" where
  "seen dev junk m =
     (if EXT_IS_TX (m_cfg m) then isConnect (fst (extFpgaTimerJob dev junk (mediaParams m) (m_fpga m))) else isConnect (runtime (m_cfg m)))"

lemma poll_posts:
  assumes r: "isConnect (runtime (m_cfg m)) \<in> {0, 1}"
  obtains c p d where "isTx c = isTx (m_cfg m)" "isConnect (runtime c) = seen dev junk m" "seen dev junk m \<in> {0, 1}"
    "extMediaPollDevice dev junk alloc m =
       (if seen dev junk m = isConnect (runtime (m_cfg m)) then polled c p d m
        else snd (extMediaPostEvent alloc (if seen dev junk m = 1 then 2 else 3) (polled c p d m)))"
proof (cases "EXT_IS_TX (m_cfg m)")
  case False
  then show thesis using that [of "m_cfg m" "mediaParams m" "m_fpga m"] r by (simp add: seen_def polled_def extMediaPollDevice_def)
next
  case True
  obtain p d where pd: "extFpgaTimerJob dev junk (mediaParams m) (m_fpga m) = (p, d)" by fastforce
  then have p: "isConnect p \<in> {0, 1}" using TimerJob_isConnect [of dev junk "mediaParams m" "m_fpga m"] by simp
  define r1 where "r1 = (if isConnect p = 0 \<and> isConnect (runtime (m_cfg m)) = 1 then (runtime (m_cfg m))\<lparr>isConnect := 0\<rparr>
     else if isConnect p = 1 \<and> isConnect (runtime (m_cfg m)) = 0 then p\<lparr>isConnect := 1\<rparr> else runtime (m_cfg m))"
  note defs = extMediaPollDevice_def seen_def polled_def r1_def Let_def extMediaCompareParams_def
  show thesis
  proof (rule that [of "(m_cfg m)\<lparr>runtime := r1\<rparr>" p d])
    consider "isConnect p = 0" "isConnect (runtime (m_cfg m)) = 0" | "isConnect p = 0" "isConnect (runtime (m_cfg m)) = 1"
      | "isConnect p = 1" "isConnect (runtime (m_cfg m)) = 0" | "isConnect p = 1" "isConnect (runtime (m_cfg m)) = 1"
      using p r by blast
    then show "extMediaPollDevice dev junk alloc m =
       (if seen dev junk m = isConnect (runtime (m_cfg m)) then polled ((m_cfg m)\<lparr>runtime := r1\<rparr>) p d m
        else snd (extMediaPostEvent alloc (if seen dev junk m = 1 then 2 else 3) (polled ((m_cfg m)\<lparr>runtime := r1\<rparr>) p d m)))"
      by cases (simp_all add: defs True pd)
    show "isConnect (runtime ((m_cfg m)\<lparr>runtime := r1\<rparr>)) = seen dev junk m" using p r by (auto simp: r1_def seen_def True pd)
  qed (use p in \<open>simp_all add: seen_def True pd\<close>)
qed

lemma polled_inv: "media_inv m \<Longrightarrow> isConnect (runtime c) \<in> {0, 1} \<Longrightarrow> media_inv (polled c p d m)"
  by (simp add: media_inv_def polled_def timeouts_def)

lemma media_do_inv:
  assumes "media_inv m"
  shows "media_inv (media_do dev act m)"
proof (cases act)
  case (Poll junk alloc)
  have r: "isConnect (runtime (m_cfg m)) \<in> {0, 1}" using assms by (simp add: media_inv_def)
  obtain c p d where c: "isConnect (runtime c) = seen dev junk m" "seen dev junk m \<in> {0, 1}"
    and e: "extMediaPollDevice dev junk alloc m =
       (if seen dev junk m = isConnect (runtime (m_cfg m)) then polled c p d m
        else snd (extMediaPostEvent alloc (if seen dev junk m = 1 then 2 else 3) (polled c p d m)))"
    using r by (rule poll_posts)
  have i: "media_inv (polled c p d m)" using polled_inv [OF assms] c by simp
  show ?thesis using Poll i post_inv [OF i] by (simp add: e)
qed (use assms in \<open>simp_all add: control_inv post_inv fire_inv\<close>)

lemma media_init_inv: "isConnect (runtime cfg) = 0 \<Longrightarrow> media_inv (extMediaInit cfg d)"
  by (simp add: media_inv_def extMediaInit_def timeouts_def)

inductive media_step :: "'d i2c \<Rightarrow> 'd media \<Rightarrow> 'd media \<Rightarrow> bool" for dev where
  act: "media_step dev m (media_do dev act m)"

interpretation media: step_system "\<lambda>m. \<exists>cfg d. isConnect (runtime cfg) = 0 \<and> m = extMediaInit cfg d" "media_step dev" media_inv for dev
  by unfold_locales (auto elim!: media_step.cases intro: media_init_inv media_do_inv)

text \<open>
  C29: Every state the threads can reach is well typed, whatever the FPGA answers, whichever allocations fail
  and in whichever order the threads run: the state machine is in one of its two states, the mailbox holds at most eight
  events and only events the machine knows, a pending timer belongs to a handle, and the 16 bit counter of
  timeouts stays far below its wrap-around.
\<close>

theorem media_well_typed:
  assumes "isConnect (runtime cfg) = 0" "(media_step dev)\<^sup>*\<^sup>* (extMediaInit cfg d) m"
  shows "currentState m \<in> {1, 2} \<and> length (mbox m) \<le> 8 \<and> set (mbox m) \<subseteq> {2, 3, 4, 6} \<and>
    (pending (msgTimer m) = None \<or> timeId (msgTimer m)) \<and> unat (timeoutCount m) \<le> 13"
proof -
  have "media_inv m" using media.inv_reachable [OF _ assms(2)] assms(1) by blast
  then show ?thesis unfolding media_inv_def by (elim conjE) (intro conjI, assumption+, blast, linarith)
qed

theorem media_well_typed_witness:
  "currentState (extMediaPollDevice memory_dev 0 True (extMediaInit (blank_cfg 1) ((\<lambda>_. 0)(19 := 1)))) \<in> {1, 2}"
proof -
  have s: "(media_step memory_dev)\<^sup>*\<^sup>* (extMediaInit (blank_cfg 1) ((\<lambda>_. 0)(19 := 1)))
     (extMediaPollDevice memory_dev 0 True (extMediaInit (blank_cfg 1) ((\<lambda>_. 0)(19 := 1))))"
    using media_step.act [of memory_dev _ "Poll 0 True"] by (intro r_into_rtranclp) simp
  have "isConnect (runtime (blank_cfg 1)) = 0" by (simp add: blank_cfg_def blank_runtime_def)
  from media_well_typed [OF this s, THEN conjunct1] show ?thesis .
qed

subsection \<open>Following the signal\<close>

definition follows :: "'d media \<Rightarrow> bool" where
  "follows m \<longleftrightarrow> fold next_state (mbox m) (currentState m) = (if isConnect (runtime (m_cfg m)) = 1 then 2 else 1)"

text \<open>A change of the signal that a poll sees and cannot post.\<close>

definition lost :: "'d i2c \<Rightarrow> media_act \<Rightarrow> 'd media \<Rightarrow> bool" where
  "lost dev act m =
     (case act of
        Poll junk alloc \<Rightarrow> seen dev junk m \<noteq> isConnect (runtime (m_cfg m)) \<and> (\<not> alloc \<or> EXT_MCTRL_MBOX_SIZE \<le> length (mbox m))
      | _ \<Rightarrow> False)"

inductive good_step :: "'d i2c \<Rightarrow> 'd media \<Rightarrow> 'd media \<Rightarrow> bool" for dev where
  good: "\<not> lost dev act m \<Longrightarrow> good_step dev m (media_do dev act m)"

lemma next_state_other: "ev \<in> {4, 6} \<Longrightarrow> next_state ev st = st"
  by (auto simp: next_state_def)

lemma post_follows: "ev \<in> {4, 6} \<Longrightarrow> follows m \<Longrightarrow> follows (snd (extMediaPostEvent alloc ev m))"
  by (auto simp: follows_def extMediaPostEvent_def next_state_other)

lemma fire_follows: "follows m \<Longrightarrow> follows (msg_timer_fire alloc m)"
  using post_follows [of 6 m alloc] by (simp add: msg_timer_fire_def msgTimerCallback_def follows_def Let_def)

lemma handled_state [simp]:
  "currentState (handled ok ev m) = next_state ev (currentState m)" "mbox (handled ok ev m) = mbox m" "m_cfg (handled ok ev m) = m_cfg m"
  by (auto simp: handled_def sendMsgStartTimer_def Let_def next_state_def)

lemma control_mbox:
  assumes "media_inv m" "mbox m = ev # rest"
  shows "mbox (extMediaControlThread ok m) = rest" "currentState (extMediaControlThread ok m) = next_state ev (currentState m)"
    "m_cfg (extMediaControlThread ok m) = m_cfg m"
  using media_inv_mbox_head [OF assms] control_handles [OF assms(2)] by simp_all

lemma control_follows: "media_inv m \<Longrightarrow> follows m \<Longrightarrow> follows (extMediaControlThread ok m)"
  by (cases "mbox m") (simp_all add: follows_def control_mbox, simp add: extMediaControlThread_def)

lemma good_follows:
  assumes "media_inv m" "follows m" "\<not> lost dev act m"
  shows "follows (media_do dev act m)"
proof (cases act)
  case (Poll junk alloc)
  have r: "isConnect (runtime (m_cfg m)) \<in> {0, 1}" using assms by (simp add: media_inv_def)
  obtain c p d where c: "isConnect (runtime c) = seen dev junk m" "seen dev junk m \<in> {0, 1}"
    and e: "extMediaPollDevice dev junk alloc m =
       (if seen dev junk m = isConnect (runtime (m_cfg m)) then polled c p d m
        else snd (extMediaPostEvent alloc (if seen dev junk m = 1 then 2 else 3) (polled c p d m)))"
    using r by (rule poll_posts)
  show ?thesis
  proof (cases "seen dev junk m = isConnect (runtime (m_cfg m))")
    case True
    then show ?thesis using Poll c assms(2) by (simp add: e follows_def polled_def)
  next
    case False
    then have "extMediaPollDevice dev junk alloc m = (polled c p d m)\<lparr>mbox := mbox m @ [if seen dev junk m = 1 then 2 else 3]\<rparr>"
      using assms(3) Poll e by (auto simp: lost_def extMediaPostEvent_def polled_def)
    then show ?thesis using Poll False c r assms(2) by (auto simp: follows_def polled_def next_state_def)
  qed
qed (use assms in \<open>simp_all add: control_follows post_follows fire_follows\<close>)

lemma good_step_inv: "media_inv m \<and> follows m \<Longrightarrow> good_step dev m t \<Longrightarrow> media_inv t \<and> follows t"
  using good_follows media_do_inv by (auto elim!: good_step.cases)

lemma media_init_follows:
  "\<exists>cfg d. isConnect (runtime cfg) = 0 \<and> m = extMediaInit cfg d \<Longrightarrow> media_inv m \<and> follows m"
  by (elim exE conjE) (simp add: media_init_inv, simp add: follows_def extMediaInit_def)

interpretation following: step_system "\<lambda>m. \<exists>cfg d. isConnect (runtime cfg) = 0 \<and> m = extMediaInit cfg d" "good_step dev" "\<lambda>m. media_inv m \<and> follows m" for dev
  by unfold_locales (fact media_init_follows good_step_inv)+

lemma control_drains:
  "media_inv m \<Longrightarrow> follows m \<Longrightarrow> length (mbox m) = n \<Longrightarrow>
   mbox ((extMediaControlThread ok ^^ n) m) = [] \<and> m_cfg ((extMediaControlThread ok ^^ n) m) = m_cfg m \<and> follows ((extMediaControlThread ok ^^ n) m)"
proof (induction n arbitrary: m)
  case (Suc n)
  then obtain ev rest where e: "mbox m = ev # rest" "length rest = n" by (cases "mbox m") auto
  with Suc.IH [OF control_inv [OF Suc.prems(1), of ok] control_follows [OF Suc.prems(1,2), of ok]] control_mbox [OF Suc.prems(1) e(1), of ok]
  show ?case by (simp add: funpow_Suc_right del: funpow.simps)
qed simp

text \<open>
  C18: The state machine follows the signal. As long as every change could be posted, in any order of the threads, the control
  thread needs at most eight rounds from any state, with or without timers, until the mailbox is empty; then the machine
  is connected exactly if the last poll saw a signal.
\<close>

theorem media_follows_signal:
  assumes "isConnect (runtime cfg) = 0" "(good_step dev)\<^sup>*\<^sup>* (extMediaInit cfg d) m"
  shows "\<exists>n \<le> 8. mbox ((extMediaControlThread ok ^^ n) m) = [] \<and>
    (currentState ((extMediaControlThread ok ^^ n) m) = 2 \<longleftrightarrow> isConnect (runtime (m_cfg m)) = 1)"
proof -
  have i: "media_inv m \<and> follows m" using following.inv_reachable [OF _ assms(2)] assms(1) by blast
  then have "length (mbox m) \<le> 8" by (simp add: media_inv_def)
  with control_drains [of m _ ok] i show ?thesis by (intro exI [of _ "length (mbox m)"]) (auto simp: follows_def split: if_splits)
qed

definition signal_on :: "u8 \<Rightarrow> u8" where
  "signal_on = (\<lambda>_. 0)(19 := 1)"

theorem media_follows_signal_witness:
  "\<exists>n \<le> 8. mbox ((extMediaControlThread True ^^ n) (extMediaPollDevice memory_dev 0 True (extMediaInit (blank_cfg 1) signal_on))) = [] \<and>
    currentState ((extMediaControlThread True ^^ n) (extMediaPollDevice memory_dev 0 True (extMediaInit (blank_cfg 1) signal_on))) = 2"
proof -
  have c: "isConnect (runtime (blank_cfg 1)) = 0" by (simp add: blank_cfg_def blank_runtime_def)
  have "(good_step memory_dev)\<^sup>*\<^sup>* (extMediaInit (blank_cfg 1) signal_on) (extMediaPollDevice memory_dev 0 True (extMediaInit (blank_cfg 1) signal_on))"
    using good_step.good [of memory_dev "Poll 0 True" "extMediaInit (blank_cfg 1) signal_on"]
    by (intro r_into_rtranclp) (simp add: lost_def extMediaInit_def)
  moreover have "isConnect (runtime (m_cfg (extMediaPollDevice memory_dev 0 True (extMediaInit (blank_cfg 1) signal_on)))) = 1"
    unfolding signal_on_def by code_simp
  ultimately show ?thesis using media_follows_signal [OF c, of memory_dev signal_on _ True] by metis
qed

text \<open>
  A change whose event cannot be posted, for want of memory or because the mailbox is full, is lost for good: the
  configuration already has the new signal, so that later polls of the same signal post nothing, and no message is ever
  sent about it; the state machine stays in its old state until the signal changes again.
\<close>

theorem media_change_lost:
  assumes "media_inv m" "lost dev (Poll junk alloc) m" "mbox m = []"
  defines "m1 \<equiv> extMediaPollDevice dev junk alloc m"
  shows "isConnect (runtime (m_cfg m1)) \<noteq> isConnect (runtime (m_cfg m)) \<and> mbox m1 = [] \<and> currentState m1 = currentState m \<and> m_sent m1 = m_sent m \<and>
    (seen dev junk2 m1 = isConnect (runtime (m_cfg m1)) \<longrightarrow>
       mbox (extMediaPollDevice dev junk2 alloc2 m1) = [] \<and> currentState (extMediaPollDevice dev junk2 alloc2 m1) = currentState m \<and>
       m_sent (extMediaPollDevice dev junk2 alloc2 m1) = m_sent m)"
proof -
  have r: "isConnect (runtime (m_cfg m)) \<in> {0, 1}" using assms by (simp add: media_inv_def)
  have L: "seen dev junk m \<noteq> isConnect (runtime (m_cfg m))" "\<not> alloc" using assms(2,3) by (auto simp: lost_def)
  obtain c p d where c: "isConnect (runtime c) = seen dev junk m" "seen dev junk m \<in> {0, 1}"
    and e: "extMediaPollDevice dev junk alloc m =
       (if seen dev junk m = isConnect (runtime (m_cfg m)) then polled c p d m
        else snd (extMediaPostEvent alloc (if seen dev junk m = 1 then 2 else 3) (polled c p d m)))"
    using r by (rule poll_posts)
  have m1: "m1 = polled c p d m" using L e by (simp add: m1_def extMediaPostEvent_def)
  have r1: "isConnect (runtime (m_cfg m1)) \<in> {0, 1}" using c by (simp add: m1 polled_def)
  obtain c2 p2 d2 where e2: "extMediaPollDevice dev junk2 alloc2 m1 =
       (if seen dev junk2 m1 = isConnect (runtime (m_cfg m1)) then polled c2 p2 d2 m1
        else snd (extMediaPostEvent alloc2 (if seen dev junk2 m1 = 1 then 2 else 3) (polled c2 p2 d2 m1)))"
    using r1 by (rule poll_posts)
  show ?thesis using e2 L c assms(3) by (simp add: m1 polled_def)
qed

definition signal_lost :: "(u8 \<Rightarrow> u8) media" where
  "signal_lost = extMediaPollDevice memory_dev 0 False (extMediaInit (blank_cfg 1) signal_on)"

theorem media_change_lost_witness:
  "isConnect (runtime (m_cfg signal_lost)) = 1 \<and> currentState signal_lost = 1 \<and> mbox (extMediaPollDevice memory_dev 0 True signal_lost) = []"
proof -
  define m where "m = extMediaInit (blank_cfg 1) signal_on"
  have c: "isConnect (runtime (blank_cfg 1)) = 0" by (simp add: blank_cfg_def blank_runtime_def)
  have e: "isConnect (runtime (m_cfg signal_lost)) = 1" "seen memory_dev 0 signal_lost = 1" "lost memory_dev (Poll 0 False) m"
    unfolding signal_lost_def signal_on_def m_def by code_simp+
  have "mbox m = []" "currentState m = 1" by (simp_all add: m_def extMediaInit_def)
  moreover have "media_inv m" using media_init_inv [OF c] by (simp add: m_def)
  ultimately show ?thesis
    using media_change_lost [of m memory_dev 0 False 0 True] e by (simp add: signal_lost_def m_def)
qed

subsection \<open>Number of messages\<close>

text \<open>
  A run counts the changes of state and the acknowledgements that the control thread handles.
\<close>

inductive media_run :: "'d i2c \<Rightarrow> 'd media \<Rightarrow> nat \<Rightarrow> nat \<Rightarrow> bool" for dev where
  init: "isConnect (runtime cfg) = 0 \<Longrightarrow> media_run dev (extMediaInit cfg d) 0 0"
| poll: "media_run dev m c a \<Longrightarrow> media_run dev (extMediaPollDevice dev junk alloc m) c a"
| ack: "media_run dev m c a \<Longrightarrow> media_run dev (snd (extMediaPostEvent alloc EXT_MEDIA_EVENT_ACK m)) c a"
| fire: "media_run dev m c a \<Longrightarrow> media_run dev (msg_timer_fire alloc m) c a"
| control: "media_run dev m c a \<Longrightarrow> mbox m = ev # rest \<Longrightarrow>
    media_run dev (extMediaControlThread ok m)
      (c + (if next_state ev (currentState m) = currentState m then 0 else 1)) (a + (if ev = EXT_MEDIA_EVENT_ACK then 1 else 0))"

lemma run_inv: "media_run dev m c a \<Longrightarrow> media_inv m"
proof (induction rule: media_run.induct)
  case (poll m c a junk alloc)
  then show ?case using media_do_inv [of m dev "Poll junk alloc"] by simp
qed (simp_all add: media_init_inv post_inv fire_inv control_inv)

text \<open>Messages sent, and those that the counter of timeouts still allows.\<close>

definition budget :: "nat \<Rightarrow> nat \<Rightarrow> 'd media \<Rightarrow> bool" where
  "budget c a m \<longleftrightarrow>
     (if c = 0 then m_sent m = [] \<and> timeouts m = 0
      else length (m_sent m) + (4 - unat (timeoutCount m)) \<le> 5 * c + 4 * a)"

lemma post_budget:
  "budget c a m \<Longrightarrow> ev \<noteq> 6 \<Longrightarrow> budget c a (snd (extMediaPostEvent alloc ev m))"
  by (cases "c = 0") (auto simp: budget_def extMediaPostEvent_def timeouts_def split: if_splits)

lemma polled_budget: "budget c a (polled cf p d m) = budget c a m"
  by (simp add: budget_def polled_def timeouts_def)

lemma poll_budget:
  assumes "media_inv m" "budget c a m"
  shows "budget c a (extMediaPollDevice dev junk alloc m)"
proof -
  have r: "isConnect (runtime (m_cfg m)) \<in> {0, 1}" using assms by (simp add: media_inv_def)
  obtain cf p d where e: "extMediaPollDevice dev junk alloc m =
       (if seen dev junk m = isConnect (runtime (m_cfg m)) then polled cf p d m
        else snd (extMediaPostEvent alloc (if seen dev junk m = 1 then 2 else 3) (polled cf p d m)))"
    using r by (rule poll_posts)
  show ?thesis using assms(2) post_budget [of c a "polled cf p d m"] polled_budget [of c a cf p d m] by (simp add: e)
qed

lemma fire_budget: "budget c a m \<Longrightarrow> budget c a (msg_timer_fire alloc m)"
  by (cases "c = 0") (auto simp: budget_def msg_timer_fire_def msgTimerCallback_def extMediaPostEvent_def timeouts_def Let_def split: if_splits)

lemma control_budget:
  assumes inv: "media_inv m" and b: "budget c a m" and h: "mbox m = ev # rest"
  shows "budget (c + (if next_state ev (currentState m) = currentState m then 0 else 1)) (a + (if ev = 4 then 1 else 0)) (extMediaControlThread ok m)"
proof -
  have k: "currentState m \<in> {1, 2}" "ev \<in> {2, 3, 4, 6}" using media_inv_mbox_head [OF inv h] by simp_all
  have n: "next_state ev (currentState m) \<noteq> currentState m \<Longrightarrow> ev \<noteq> 4" by (auto simp: next_state_def)
  have s: "pending (sys_timer_stop (msgTimer m)) = None \<or> pending (msgTimer m) \<noteq> None" by (auto simp: sys_timer_stop_def)
  note defs = budget_def handled_def sendMsgStartTimer_def timeouts_def Let_def next_state_other
  show ?thesis unfolding control_handles [OF h k]
  proof (cases "c = 0")
    case True
    then have z: "m_sent m = []" "ev \<noteq> 6" "count_list rest 6 = 0" "pending (msgTimer m) = None"
      using b h by (auto simp: budget_def timeouts_def split: if_splits)
    then show "budget (c + (if next_state ev (currentState m) = currentState m then 0 else 1)) (a + (if ev = 4 then 1 else 0))
        (handled ok ev (m\<lparr>mbox := rest, currentEvent := ev\<rparr>))"
      using True n s by (auto simp: defs)
  next
    case False
    then show "budget (c + (if next_state ev (currentState m) = currentState m then 0 else 1)) (a + (if ev = 4 then 1 else 0))
        (handled ok ev (m\<lparr>mbox := rest, currentEvent := ev\<rparr>))"
      using b n count_no_wrap [OF inv] by (auto simp: defs)
  qed
qed

text \<open>
  C30: The server is not flooded. In every run, whatever the order of the threads and whichever allocations
  fail, at most five messages are sent for every change of the signal that the machine handles, and at most four more
  for every acknowledgement; without a change none is sent. (The four are sent when a timeout was already queued as the
  acknowledgement came: it starts the retransmission again.)
\<close>

theorem media_messages_bounded:
  assumes "media_run dev m c a"
  shows "length (m_sent m) \<le> 5 * c + 4 * a \<and> (c = 0 \<longrightarrow> m_sent m = [])"
proof -
  from assms have "budget c a m"
  proof (induction rule: media_run.induct)
    case (init cfg d)
    then show ?case by (simp add: budget_def extMediaInit_def timeouts_def)
  next
    case (poll m c a junk alloc)
    then show ?case using poll_budget run_inv by blast
  next
    case (control m c a ev rest ok)
    then show ?case using control_budget run_inv by blast
  qed (simp_all add: post_budget fire_budget)
  then show ?thesis by (auto simp: budget_def split: if_splits)
qed

definition one_message :: "(u8 \<Rightarrow> u8) media" where
  "one_message = extMediaControlThread True (extMediaPollDevice memory_dev 0 True (extMediaInit (blank_cfg 1) signal_on))"

theorem media_messages_bounded_witness:
  "media_run memory_dev one_message 1 0 \<and> length (m_sent one_message) \<le> 5 \<and> length (m_sent one_message) = 1"
proof -
  define m where "m = extMediaPollDevice memory_dev 0 True (extMediaInit (blank_cfg 1) signal_on)"
  have c: "isConnect (runtime (blank_cfg 1)) = 0" by (simp add: blank_cfg_def blank_runtime_def)
  have m: "mbox m = [2]" "currentState m = 1" "length (m_sent one_message) = 1"
    unfolding m_def one_message_def signal_on_def by code_simp+
  have "media_run memory_dev m 0 0" unfolding m_def by (intro media_run.poll media_run.init c)
  from media_run.control [OF this m(1), of True] have "media_run memory_dev (extMediaControlThread True m) 1 0"
    by (simp add: next_state_def m(2))
  then have r: "media_run memory_dev one_message 1 0" by (simp only: one_message_def m_def)
  with m(3) media_messages_bounded [OF r] show ?thesis by simp
qed

end
