(* ===== verification/Jsmn.thy ===== *)
theory Jsmn
  imports SysConfig
begin

text \<open>
  The JSON tokenizer \<^verbatim>\<open>exts/cmn/jsmn.c\<close> as it is built (without parent links, not strict) and the search for a
  key of \<^verbatim>\<open>exts/cmn/cmnJsonUtils.c\<close>. A text is parsed into an array of tokens, each with its type and the
  range of the text it stands for.

  Texts and the array are lists; the array is never absent in this program, so the branches for
  a null pointer are left out. A result below zero is an error. The lemmas show that the tokenizer ends, that it never
  leaves the text or the array, and that the value of a key in a flat object is found.
\<close>

datatype jsmntype_t = JSMN_UNDEFINED | JSMN_OBJECT | JSMN_ARRAY | JSMN_STRING | JSMN_PRIMITIVE

record jsmntok_t =
  tok_type :: jsmntype_t
  tok_start :: int
  tok_end :: int
  tok_size :: int

record jsmn_parser =
  pos :: nat
  toknext :: nat
  toksuper :: int
  tokens :: "jsmntok_t list"

abbreviation (input) JSMN_ERROR_NOMEM :: int where "JSMN_ERROR_NOMEM \<equiv> - 1"
abbreviation (input) JSMN_ERROR_INVAL :: int where "JSMN_ERROR_INVAL \<equiv> - 2"
abbreviation (input) JSMN_ERROR_PART :: int where "JSMN_ERROR_PART \<equiv> - 3"

definition jsmn_init :: "jsmn_parser \<Rightarrow> jsmn_parser" where
  "jsmn_init p = p\<lparr>pos := 0, toknext := 0, toksuper := - 1\<rparr>"

definition jsmn_alloc_token :: "jsmn_parser \<Rightarrow> jsmn_parser option" where
  "jsmn_alloc_token p =
     (if length (tokens p) \<le> toknext p then None
      else Some (p\<lparr>tokens := (tokens p)[toknext p := (tokens p ! toknext p)\<lparr>tok_start := - 1, tok_end := - 1, tok_size := 0\<rparr>],
                  toknext := toknext p + 1\<rparr>))"

definition jsmn_fill_token :: "nat \<Rightarrow> jsmntype_t \<Rightarrow> int \<Rightarrow> int \<Rightarrow> jsmn_parser \<Rightarrow> jsmn_parser" where
  "jsmn_fill_token i t s e p =
     p\<lparr>tokens := (tokens p)[i := \<lparr>tok_type = t, tok_start = s, tok_end = e, tok_size = 0\<rparr>]\<rparr>"

text \<open>What ends a primitive: colon, tab, return, newline, blank, comma and closing brackets.\<close>

definition is_delim :: "u8 \<Rightarrow> bool" where
  "is_delim c \<longleftrightarrow> c \<in> {58, 9, 13, 10, 32, 44, 93, 125}"

function prim_loop :: "nat \<Rightarrow> bytes \<Rightarrow> nat \<Rightarrow> nat option" where
  "prim_loop len js i =
     (if i < len \<and> js ! i \<noteq> 0
      then (if is_delim (js ! i) then Some i
            else if js ! i < 32 \<or> 127 \<le> js ! i then None
            else prim_loop len js (i + 1))
      else Some i)"
  by pat_completeness auto
termination by (relation "measure (\<lambda>(len, js, i). len - i)") auto

definition jsmn_parse_primitive :: "nat \<Rightarrow> bytes \<Rightarrow> jsmn_parser \<Rightarrow> int \<times> jsmn_parser" where
  "jsmn_parse_primitive len js p =
     (case prim_loop len js (pos p) of
        None \<Rightarrow> (JSMN_ERROR_INVAL, p)
      | Some e \<Rightarrow>
          (case jsmn_alloc_token p of
             None \<Rightarrow> (JSMN_ERROR_NOMEM, p)
           | Some p1 \<Rightarrow> (0, (jsmn_fill_token (toknext p) JSMN_PRIMITIVE (int (pos p)) (int e) p1)\<lparr>pos := e - 1\<rparr>)))"

text \<open>Up to four hexadecimal digits of an escaped character.\<close>

fun skip_hex :: "nat \<Rightarrow> nat \<Rightarrow> bytes \<Rightarrow> nat \<Rightarrow> nat option" where
  "skip_hex 0 len js i = Some i"
| "skip_hex (Suc n) len js i =
     (if i < len \<and> js ! i \<noteq> 0
      then (if 48 \<le> js ! i \<and> js ! i \<le> 57 \<or> 65 \<le> js ! i \<and> js ! i \<le> 70 \<or> 97 \<le> js ! i \<and> js ! i \<le> 102
            then skip_hex n len js (i + 1) else None)
      else Some i)"

lemma skip_hex_range: "skip_hex n len js i = Some j \<Longrightarrow> i \<le> j \<and> (j \<le> len \<or> j = i)"
  by (induction n len js i rule: skip_hex.induct) (auto split: if_splits)

text \<open>The end of a string: the position of the closing quote, or the error.\<close>

function string_loop :: "nat \<Rightarrow> bytes \<Rightarrow> nat \<Rightarrow> int + nat" where
  "string_loop len js i =
     (if i < len \<and> js ! i \<noteq> 0
      then (if js ! i = 34 then Inr i
            else if js ! i = 92 \<and> i + 1 < len
            then (if js ! (i + 1) \<in> {34, 47, 92, 98, 102, 114, 110, 116} then string_loop len js (i + 2)
                  else if js ! (i + 1) = 117
                  then (case skip_hex 4 len js (i + 2) of
                          None \<Rightarrow> Inl JSMN_ERROR_INVAL
                        | Some j \<Rightarrow> string_loop len js j)
                  else Inl JSMN_ERROR_INVAL)
            else string_loop len js (i + 1))
      else Inl JSMN_ERROR_PART)"
  by pat_completeness auto
termination by (relation "measure (\<lambda>(len, js, i). len - i)") (auto dest: skip_hex_range)

definition jsmn_parse_string :: "nat \<Rightarrow> bytes \<Rightarrow> jsmn_parser \<Rightarrow> int \<times> jsmn_parser" where
  "jsmn_parse_string len js p =
     (case string_loop len js (pos p + 1) of
        Inl e \<Rightarrow> (e, p)
      | Inr e \<Rightarrow>
          (case jsmn_alloc_token p of
             None \<Rightarrow> (JSMN_ERROR_NOMEM, p)
           | Some p1 \<Rightarrow> (0, (jsmn_fill_token (toknext p) JSMN_STRING (int (pos p) + 1) (int e) p1)\<lparr>pos := e\<rparr>)))"

definition tok_open :: "jsmntok_t \<Rightarrow> bool" where
  "tok_open t \<longleftrightarrow> tok_start t \<noteq> - 1 \<and> tok_end t = - 1"

text \<open>The last of the first \<open>n\<close> tokens that satisfies a condition.\<close>

fun find_last :: "(jsmntok_t \<Rightarrow> bool) \<Rightarrow> nat \<Rightarrow> jsmntok_t list \<Rightarrow> nat option" where
  "find_last c 0 ts = None"
| "find_last c (Suc n) ts = (if c (ts ! n) then Some n else find_last c n ts)"

text \<open>\<open>tokens[toksuper].size++\<close>\<close>

definition count_child :: "jsmn_parser \<Rightarrow> jsmn_parser" where
  "count_child p =
     (if toksuper p = - 1 then p
      else p\<lparr>tokens := (tokens p)[nat (toksuper p) := (tokens p ! nat (toksuper p))\<lparr>tok_size := tok_size (tokens p ! nat (toksuper p)) + 1\<rparr>]\<rparr>)"

definition open_bracket :: "jsmntype_t \<Rightarrow> jsmn_parser \<Rightarrow> int \<times> jsmn_parser" where
  "open_bracket t p =
     (case jsmn_alloc_token p of
        None \<Rightarrow> (JSMN_ERROR_NOMEM, p)
      | Some p1 \<Rightarrow>
          (let p2 = count_child p1;
               i = toknext p
           in (1, p2\<lparr>tokens := (tokens p2)[i := (tokens p2 ! i)\<lparr>tok_type := t, tok_start := int (pos p)\<rparr>],
                    toksuper := int (toknext p2) - 1\<rparr>)))"

definition close_bracket :: "jsmntype_t \<Rightarrow> jsmn_parser \<Rightarrow> int \<times> jsmn_parser" where
  "close_bracket t p =
     (case find_last tok_open (toknext p) (tokens p) of
        None \<Rightarrow> (JSMN_ERROR_INVAL, p)
      | Some i \<Rightarrow>
          if tok_type (tokens p ! i) \<noteq> t then (JSMN_ERROR_INVAL, p)
          else let ts = (tokens p)[i := (tokens p ! i)\<lparr>tok_end := int (pos p) + 1\<rparr>]
               in (0, p\<lparr>tokens := ts, toksuper := (case find_last tok_open (i + 1) ts of Some j \<Rightarrow> int j | None \<Rightarrow> - 1)\<rparr>))"

definition is_container :: "jsmntok_t \<Rightarrow> bool" where
  "is_container t \<longleftrightarrow> tok_type t = JSMN_ARRAY \<or> tok_type t = JSMN_OBJECT"

definition comma :: "jsmn_parser \<Rightarrow> jsmn_parser" where
  "comma p =
     (if toksuper p \<noteq> - 1 \<and> \<not> is_container (tokens p ! nat (toksuper p))
      then (case find_last (\<lambda>t. is_container t \<and> tok_open t) (toknext p) (tokens p) of
              Some i \<Rightarrow> p\<lparr>toksuper := int i\<rparr>
            | None \<Rightarrow> p)
      else p)"

definition counted :: "int \<times> jsmn_parser \<Rightarrow> int \<times> jsmn_parser" where
  "counted rp = (if fst rp < 0 then rp else (1, count_child (snd rp)))"

text \<open>One character: an error, or the number of tokens counted.\<close>

definition jsmn_char :: "nat \<Rightarrow> bytes \<Rightarrow> jsmn_parser \<Rightarrow> int \<times> jsmn_parser" where
  "jsmn_char len js p =
     (let c = js ! pos p
      in if c = 123 then open_bracket JSMN_OBJECT p
         else if c = 91 then open_bracket JSMN_ARRAY p
         else if c = 125 then close_bracket JSMN_OBJECT p
         else if c = 93 then close_bracket JSMN_ARRAY p
         else if c = 34 then counted (jsmn_parse_string len js p)
         else if c \<in> {9, 13, 10, 32} then (0, p)
         else if c = 58 then (0, p\<lparr>toksuper := int (toknext p) - 1\<rparr>)
         else if c = 44 then (0, comma p)
         else counted (jsmn_parse_primitive len js p))"

declare prim_loop.simps [simp del]

declare string_loop.simps [simp del]

lemma prim_loop_range: "prim_loop len js i = Some e \<Longrightarrow> i \<le> e \<and> (e \<le> len \<or> e = i)"
proof (induction len js i rule: prim_loop.induct)
  case (1 len js i)
  from 1(2) show ?case
    by (subst (asm) prim_loop.simps) (use 1(1) in \<open>auto split: if_splits\<close>)
qed

lemma prim_loop_first: "prim_loop len js i = Some e \<Longrightarrow> i < len \<Longrightarrow> js ! i \<noteq> 0 \<Longrightarrow> \<not> is_delim (js ! i) \<Longrightarrow> i < e \<and> e \<le> len"
  by (subst (asm) prim_loop.simps) (use prim_loop_range [of len js "i + 1" e] in \<open>auto split: if_splits\<close>)

lemma string_loop_range: "string_loop len js i = Inr e \<Longrightarrow> i \<le> e \<and> e < len"
proof (induction len js i rule: string_loop.induct)
  case (1 len js i)
  from 1(4) show ?case
    by (subst (asm) string_loop.simps)
      (use 1(1-3) in \<open>fastforce split: if_splits option.splits dest: skip_hex_range\<close>)
qed

lemma alloc_simps:
  "jsmn_alloc_token p = Some p1 \<Longrightarrow> pos p1 = pos p \<and> toknext p1 = toknext p + 1 \<and> toksuper p1 = toksuper p \<and> toknext p < length (tokens p) \<and>
     length (tokens p1) = length (tokens p)"
  by (auto simp: jsmn_alloc_token_def split: if_splits)

lemma count_child_simps [simp]:
  "pos (count_child p) = pos p" "toknext (count_child p) = toknext p" "toksuper (count_child p) = toksuper p"
  "length (tokens (count_child p)) = length (tokens p)"
  by (simp_all add: count_child_def)

lemma parse_primitive_pos:
  assumes "jsmn_parse_primitive len js p = (r, q)" "pos p < len" "js ! pos p \<noteq> 0" "\<not> is_delim (js ! pos p)"
  shows "pos p \<le> pos q \<and> pos q < len"
proof (cases "prim_loop len js (pos p)")
  case None
  then show ?thesis using assms by (auto simp: jsmn_parse_primitive_def)
next
  case (Some e)
  note l = prim_loop_first [OF Some assms(2-4)]
  then show ?thesis
    using assms(1,2) Some
    by (auto simp: jsmn_parse_primitive_def jsmn_fill_token_def split: option.splits dest: alloc_simps)
qed

lemma parse_string_pos:
  assumes "jsmn_parse_string len js p = (r, q)" "pos p < len"
  shows "pos p \<le> pos q \<and> pos q < len"
  using assms string_loop_range [of len js "pos p + 1"]
  by (auto simp: jsmn_parse_string_def jsmn_fill_token_def split: sum.splits option.splits dest: alloc_simps)

lemma jsmn_char_pos:
  assumes "jsmn_char len js p = (r, q)" "pos p < len" "js ! pos p \<noteq> 0"
  shows "pos p \<le> pos q \<and> pos q < len"
proof -
  consider "js ! pos p = 34" | "js ! pos p \<notin> {123, 91, 125, 93, 34, 9, 13, 10, 32, 58, 44}"
    | "js ! pos p \<in> {123, 91, 125, 93, 9, 13, 10, 32, 58, 44}" by blast
  then show ?thesis
  proof cases
    case 1
    obtain r1 q1 where "jsmn_parse_string len js p = (r1, q1)" by fastforce
    with parse_string_pos [OF this assms(2)] assms(1) 1 show ?thesis
      by (auto simp: jsmn_char_def counted_def split: if_splits)
  next
    case 2
    then have nd: "\<not> is_delim (js ! pos p)" by (auto simp: is_delim_def)
    obtain r1 q1 where "jsmn_parse_primitive len js p = (r1, q1)" by fastforce
    with parse_primitive_pos [OF this assms(2,3) nd] assms(1) 2 show ?thesis
      by (auto simp: jsmn_char_def counted_def Let_def split: if_splits)
  next
    case 3
    have "pos q = pos p"
      using assms(1) 3
      by (auto simp: jsmn_char_def Let_def open_bracket_def close_bracket_def comma_def split: if_splits option.splits dest: alloc_simps)
    then show ?thesis using assms(2) by simp
  qed
qed

function jsmn_loop :: "nat \<Rightarrow> bytes \<Rightarrow> int \<Rightarrow> jsmn_parser \<Rightarrow> int \<times> jsmn_parser" where
  "jsmn_loop len js count p =
     (if pos p < len \<and> js ! pos p \<noteq> 0
      then (let (r, q) = jsmn_char len js p
            in if r < 0 then (r, q) else jsmn_loop len js (count + r) (q\<lparr>pos := pos q + 1\<rparr>))
      else (if find_last tok_open (toknext p) (tokens p) \<noteq> None then JSMN_ERROR_PART else count, p))"
  by pat_completeness auto
termination
proof (relation "measure (\<lambda>(len, js, count, p). len - pos p)")
  fix len js count p x r q
  assume "pos p < len \<and> js ! pos p \<noteq> 0" "x = jsmn_char len js p" "(r, q) = x"
  with jsmn_char_pos [of len js p r q] show
    "((len, js, count + r, q\<lparr>pos := pos q + 1\<rparr>), len, js, count, p) \<in> measure (\<lambda>(len, js, count, p). len - pos p)" by auto
qed simp

declare jsmn_loop.simps [simp del]

definition jsmn_parse :: "nat \<Rightarrow> bytes \<Rightarrow> jsmn_parser \<Rightarrow> int \<times> jsmn_parser" where
  "jsmn_parse len js p = jsmn_loop len js (int (toknext p)) p"

subsection \<open>Keys\<close>

text \<open>\<open>jsoneq\<close>: the token is a string and its text is the key.\<close>

definition jsoneq :: "bytes \<Rightarrow> jsmntok_t \<Rightarrow> bytes \<Rightarrow> bool" where
  "jsoneq js t key \<longleftrightarrow>
     tok_type t = JSMN_STRING \<and> int (length key) = tok_end t - tok_start t \<and> get_bytes (nat (tok_start t)) (length key) js = key"

text \<open>
  The tokens from number 1 on are compared, one more than there are; the result is the number of the token
  after the match. Behind the array lies the field \<open>tokenCount\<close>, which is 100 and so is not the type of a string:
  the comparison there fails.
\<close>

fun find_key :: "bytes \<Rightarrow> bytes \<Rightarrow> jsmntok_t list \<Rightarrow> nat \<Rightarrow> nat \<Rightarrow> nat option" where
  "find_key js key ts i 0 = None"
| "find_key js key ts i (Suc n) = (if i + 1 < length ts \<and> jsoneq js (ts ! (i + 1)) key then Some (i + 2) else find_key js key ts (i + 1) n)"

definition extJsonFindKeyToken :: "bytes \<Rightarrow> bytes \<Rightarrow> jsmn_parser \<Rightarrow> nat option" where
  "extJsonFindKeyToken js key p = find_key js key (tokens p) 0 (toknext p)"

subsection \<open>Bounds\<close>

definition tok_ok :: "nat \<Rightarrow> nat \<Rightarrow> jsmntok_t \<Rightarrow> bool" where
  "tok_ok len i t \<longleftrightarrow> 0 \<le> tok_start t \<and> tok_start t \<le> int i \<and>
     (tok_end t = - 1 \<and> is_container t \<or> tok_start t \<le> tok_end t \<and> tok_end t \<le> int len)"

definition jsmn_inv :: "nat \<Rightarrow> nat \<Rightarrow> jsmn_parser \<Rightarrow> bool" where
  "jsmn_inv cap len p \<longleftrightarrow> length (tokens p) = cap \<and> toknext p \<le> cap \<and> - 1 \<le> toksuper p \<and> toksuper p < int (toknext p) \<and> pos p \<le> len \<and>
     (\<forall>i < toknext p. tok_ok len (pos p) (tokens p ! i))"

lemma tok_ok_mono: "tok_ok len i t \<Longrightarrow> i \<le> j \<Longrightarrow> tok_ok len j t"
  by (auto simp: tok_ok_def)

lemma tok_ok_size [simp]: "tok_ok len i (t\<lparr>tok_size := k\<rparr>) = tok_ok len i t"
  by (simp add: tok_ok_def is_container_def)

lemma jsmn_inv_child: "jsmn_inv cap len p \<Longrightarrow> jsmn_inv cap len (count_child p)"
  by (auto simp: jsmn_inv_def count_child_def nth_list_update)

lemma find_last_Some: "find_last c n ts = Some i \<Longrightarrow> i < n \<and> c (ts ! i)"
  by (induction n) (auto split: if_splits)

lemma inv_new_token:
  assumes "jsmn_inv cap len p" "jsmn_alloc_token p = Some p1" "pos p \<le> n" "n \<le> len" "tok_ok len n t"
  shows "jsmn_inv cap len (p1\<lparr>tokens := (tokens p1)[toknext p := t], pos := n\<rparr>)"
  using assms tok_ok_mono [of len "pos p" _ n]
  by (auto simp: jsmn_inv_def jsmn_alloc_token_def nth_list_update less_Suc_eq split: if_splits)

lemma parse_primitive_inv:
  assumes "jsmn_inv cap len p" "pos p < len" "js ! pos p \<noteq> 0" "\<not> is_delim (js ! pos p)" "jsmn_parse_primitive len js p = (r, q)"
  shows "jsmn_inv cap len q \<and> r \<le> 0 \<and> toknext q = toknext p + (if r < 0 then 0 else 1)"
proof (cases "r < 0")
  case True
  then show ?thesis using assms by (auto simp: jsmn_parse_primitive_def split: option.splits)
next
  case False
  then obtain e p1 where e: "prim_loop len js (pos p) = Some e" "jsmn_alloc_token p = Some p1"
    "q = (jsmn_fill_token (toknext p) JSMN_PRIMITIVE (int (pos p)) (int e) p1)\<lparr>pos := e - 1\<rparr>" "r = 0"
    using assms(5) by (auto simp: jsmn_parse_primitive_def split: option.splits)
  have "pos p < e" "e \<le> len" using prim_loop_first [OF e(1) assms(2-4)] by simp_all
  moreover from this have "tok_ok len (e - 1) \<lparr>tok_type = JSMN_PRIMITIVE, tok_start = int (pos p), tok_end = int e, tok_size = 0\<rparr>"
    by (auto simp: tok_ok_def)
  ultimately show ?thesis
    using inv_new_token [OF assms(1) e(2), of "e - 1"] alloc_simps [OF e(2)] by (simp add: e(3,4) jsmn_fill_token_def)
qed

lemma parse_string_inv:
  assumes "jsmn_inv cap len p" "pos p < len" "jsmn_parse_string len js p = (r, q)"
  shows "jsmn_inv cap len q \<and> r \<le> 0 \<and> toknext q = toknext p + (if r < 0 then 0 else 1)"
proof (cases "string_loop len js (pos p + 1)")
  case (Inl e)
  have n: "string_loop len js i = Inl e \<Longrightarrow> e < 0" for i
  proof (induction len js i rule: string_loop.induct)
    case (1 len js i)
    from 1(4) show ?case by (subst (asm) string_loop.simps) (use 1(1-3) in \<open>auto split: if_splits option.splits\<close>)
  qed
  from n [OF Inl] Inl assms show ?thesis by (auto simp: jsmn_parse_string_def)
next
  case (Inr e)
  note b = string_loop_range [OF Inr]
  show ?thesis
  proof (cases "jsmn_alloc_token p")
    case None
    with Inr assms show ?thesis by (auto simp: jsmn_parse_string_def)
  next
    case (Some p1)
    have "tok_ok len e \<lparr>tok_type = JSMN_STRING, tok_start = int (pos p) + 1, tok_end = int e, tok_size = 0\<rparr>"
      using b by (auto simp: tok_ok_def)
    then show ?thesis
      using inv_new_token [OF assms(1) Some, of e] alloc_simps [OF Some] b assms(3) Inr Some
      by (auto simp: jsmn_parse_string_def jsmn_fill_token_def)
  qed
qed

lemma count_child_nth:
  assumes "k < length (tokens p)"
  shows "tok_ok len n (tokens (count_child p) ! k) = tok_ok len n (tokens p ! k)" "tok_end (tokens (count_child p) ! k) = tok_end (tokens p ! k)"
  using assms by (cases "k = nat (toksuper p)"; auto simp: count_child_def)+

lemma open_bracket_inv:
  assumes "jsmn_inv cap len p" "pos p < len" "open_bracket t p = (r, q)" "t \<in> {JSMN_OBJECT, JSMN_ARRAY}"
  shows "jsmn_inv cap len q \<and> int (toknext q) = int (toknext p) + (if r < 0 then 0 else r)"
proof (cases "jsmn_alloc_token p")
  case None
  with assms show ?thesis by (auto simp: open_bracket_def)
next
  case (Some p1)
  note a = alloc_simps [OF Some]
  let ?i = "toknext p" and ?p2 = "count_child p1"
  have q: "r = 1" "q = ?p2\<lparr>tokens := (tokens ?p2)[?i := (tokens ?p2 ! ?i)\<lparr>tok_type := t, tok_start := int (pos p)\<rparr>], toksuper := int ?i\<rparr>"
    using assms(3) a by (simp_all add: open_bracket_def Some Let_def)
  have n: "?i < length (tokens p1)" "?i < cap" using a assms(1) by (simp_all add: jsmn_inv_def)
  have p1: "tokens p1 ! ?i = (tokens p ! ?i)\<lparr>tok_start := - 1, tok_end := - 1, tok_size := 0\<rparr>" "k < ?i \<Longrightarrow> tokens p1 ! k = tokens p ! k" for k
    using Some a by (auto simp: jsmn_alloc_token_def split: if_splits)
  have "tok_ok len (pos p) (tokens q ! k)" if "k < toknext q" for k
  proof (cases "k = ?i")
    case True
    then show ?thesis using assms(4) count_child_nth(2) [OF n(1)] n(1) p1(1) by (auto simp: q(2) tok_ok_def is_container_def)
  next
    case False
    then have "k < ?i" using that a by (simp add: q(2))
    then show ?thesis using assms(1) count_child_nth(1) [of k p1] p1(2) [of k] n(1) by (simp add: q(2) jsmn_inv_def)
  qed
  then show ?thesis using assms(1) a n by (simp add: q(1) jsmn_inv_def) (simp add: q(2))
qed

lemma close_bracket_inv:
  assumes "jsmn_inv cap len p" "pos p < len" "close_bracket t p = (r, q)"
  shows "jsmn_inv cap len q \<and> r \<le> 0 \<and> toknext q = toknext p"
proof (cases "find_last tok_open (toknext p) (tokens p)")
  case None
  with assms show ?thesis by (auto simp: close_bracket_def)
next
  case (Some i)
  note i = find_last_Some [OF Some]
  let ?ts = "(tokens p)[i := (tokens p ! i)\<lparr>tok_end := int (pos p) + 1\<rparr>]"
  let ?s = "case find_last tok_open (i + 1) ?ts of Some j \<Rightarrow> int j | None \<Rightarrow> - 1"
  show ?thesis
  proof (cases "tok_type (tokens p ! i) = t")
    case False
    with assms Some show ?thesis by (auto simp: close_bracket_def)
  next
    case True
    have s: "- 1 \<le> ?s \<and> ?s < int (toknext p)"
    proof (cases "find_last tok_open (i + 1) ?ts")
      case (Some j)
      from find_last_Some [OF this] i show ?thesis unfolding Some by simp
    qed simp
    have "tok_ok len (pos p) (?ts ! k)" if "k < toknext p" for k
    proof -
      have "tok_ok len (pos p) (tokens p ! k)" "i < length (tokens p)" using that assms(1) i by (auto simp: jsmn_inv_def)
      then show ?thesis using assms(2) by (cases "k = i") (auto simp: tok_ok_def is_container_def)
    qed
    moreover have "q = p\<lparr>tokens := ?ts, toksuper := ?s\<rparr>" "r = 0"
      using assms(3) Some True by (auto simp: close_bracket_def Let_def)
    ultimately show ?thesis using assms(1) s by (simp add: jsmn_inv_def)
  qed
qed

lemma comma_inv: "jsmn_inv cap len p \<Longrightarrow> jsmn_inv cap len (comma p) \<and> toknext (comma p) = toknext p"
  using find_last_Some by (auto simp: comma_def jsmn_inv_def split: option.splits)

lemma counted_inv:
  assumes "jsmn_inv cap len q \<and> r \<le> 0 \<and> toknext q = n + (if r < 0 then 0 else 1)" "counted (r, q) = (r1, q1)"
  shows "jsmn_inv cap len q1 \<and> int (toknext q1) = int n + (if r1 < 0 then 0 else r1)"
  using assms jsmn_inv_child [of cap len q] by (auto simp: counted_def split: if_splits)

lemma jsmn_char_inv:
  assumes "jsmn_inv cap len p" "pos p < len" "js ! pos p \<noteq> 0" "jsmn_char len js p = (r, q)"
  shows "jsmn_inv cap len q \<and> int (toknext q) = int (toknext p) + (if r < 0 then 0 else r)"
proof -
  let ?c = "js ! pos p"
  consider "?c = 34" | "?c = 123" | "?c = 91" | "?c = 125" | "?c = 93" | "?c \<in> {9, 13, 10, 32}" | "?c = 58" | "?c = 44"
    | "?c \<notin> {123, 91, 125, 93, 34, 9, 13, 10, 32, 58, 44}" by blast
  then show ?thesis
  proof cases
    case 1
    obtain r1 q1 where s: "jsmn_parse_string len js p = (r1, q1)" by fastforce
    from counted_inv [OF parse_string_inv [OF assms(1,2) s]] assms(4) 1 s show ?thesis by (simp add: jsmn_char_def)
  next
    case 9
    then have nd: "\<not> is_delim ?c" by (auto simp: is_delim_def)
    obtain r1 q1 where s: "jsmn_parse_primitive len js p = (r1, q1)" by fastforce
    from counted_inv [OF parse_primitive_inv [OF assms(1-3) nd s]] assms(4) 9 s show ?thesis by (simp add: jsmn_char_def Let_def)
  next
    case 2
    with open_bracket_inv [OF assms(1,2), of JSMN_OBJECT r q] assms(4) show ?thesis by (simp add: jsmn_char_def)
  next
    case 3
    with open_bracket_inv [OF assms(1,2), of JSMN_ARRAY r q] assms(4) show ?thesis by (simp add: jsmn_char_def)
  next
    case 4
    with close_bracket_inv [OF assms(1,2), of JSMN_OBJECT r q] assms(4) show ?thesis by (auto simp: jsmn_char_def)
  next
    case 5
    with close_bracket_inv [OF assms(1,2), of JSMN_ARRAY r q] assms(4) show ?thesis by (auto simp: jsmn_char_def)
  next
    case 6
    with assms(1,4) show ?thesis by (auto simp: jsmn_char_def)
  next
    case 7
    with assms(1,4) show ?thesis by (auto simp: jsmn_char_def jsmn_inv_def)
  next
    case 8
    with comma_inv [OF assms(1)] assms(4) show ?thesis by (auto simp: jsmn_char_def)
  qed
qed

lemma jsmn_loop_inv:
  "jsmn_inv cap len p \<Longrightarrow> count = int (toknext p) \<Longrightarrow> jsmn_loop len js count p = (r, q) \<Longrightarrow>
   jsmn_inv cap len q \<and> (0 \<le> r \<longrightarrow> r = int (toknext q) \<and> find_last tok_open (toknext q) (tokens q) = None)"
proof (induction len js count p rule: jsmn_loop.induct)
  case (1 len js count p)
  show ?case
  proof (cases "pos p < len \<and> js ! pos p \<noteq> 0")
    case False
    with 1(2-4) show ?thesis by (subst (asm) jsmn_loop.simps) (auto split: if_splits)
  next
    case True
    obtain r1 q1 where c: "jsmn_char len js p = (r1, q1)" by fastforce
    have i: "jsmn_inv cap len q1" "int (toknext q1) = int (toknext p) + (if r1 < 0 then 0 else r1)"
      using jsmn_char_inv [OF 1(2) _ _ c] True by simp_all
    show ?thesis
    proof (cases "r1 < 0")
      case True
      with \<open>pos p < len \<and> js ! pos p \<noteq> 0\<close> c i 1(4) show ?thesis by (subst (asm) jsmn_loop.simps) auto
    next
      case False
      have "jsmn_inv cap len (q1\<lparr>pos := pos q1 + 1\<rparr>)"
        using i(1) jsmn_char_pos [OF c] True tok_ok_mono by (fastforce simp: jsmn_inv_def)
      moreover have "jsmn_loop len js (count + r1) (q1\<lparr>pos := pos q1 + 1\<rparr>) = (r, q)"
        using 1(4) True False c by (subst (asm) jsmn_loop.simps) simp
      ultimately show ?thesis using 1(1) [OF True] c False i(2) 1(3) by simp
    qed
  qed
qed

lemma find_last_None: "find_last c n ts = None \<Longrightarrow> i < n \<Longrightarrow> \<not> c (ts ! i)"
  by (induction n) (auto split: if_splits simp: less_Suc_eq)

text \<open>
  C34: The tokenizer stays within its memory, whatever the text is: it uses no more tokens than the array has,
  and no token and no link between tokens points outside. If it reports success, the result is the number
  of tokens, and every token is the closed range of a piece of the text.
\<close>

theorem jsmn_parse_in_bounds:
  assumes "jsmn_parse len js (jsmn_init p) = (r, q)"
  shows "toknext q \<le> length (tokens p) \<and> length (tokens q) = length (tokens p) \<and> pos q \<le> len \<and> - 1 \<le> toksuper q \<and> toksuper q < int (toknext q) \<and>
    (0 \<le> r \<longrightarrow> r = int (toknext q) \<and>
      list_all (\<lambda>t. 0 \<le> tok_start t \<and> tok_start t \<le> tok_end t \<and> tok_end t \<le> int len) (take (toknext q) (tokens q)))"
proof -
  have "jsmn_inv (length (tokens p)) len (jsmn_init p)" by (simp add: jsmn_inv_def jsmn_init_def)
  from jsmn_loop_inv [OF this _ assms [unfolded jsmn_parse_def]]
  have i: "jsmn_inv (length (tokens p)) len q" "0 \<le> r \<Longrightarrow> r = int (toknext q)" "0 \<le> r \<Longrightarrow> find_last tok_open (toknext q) (tokens q) = None"
    by auto
  have "tok_start (tokens q ! k) \<le> tok_end (tokens q ! k) \<and> tok_end (tokens q ! k) \<le> int len \<and> 0 \<le> tok_start (tokens q ! k)"
    if "k < toknext q" "0 \<le> r" for k
    using i(1) that find_last_None [OF i(3) [OF that(2)] that(1)] by (auto simp: jsmn_inv_def tok_ok_def tok_open_def)
  then show ?thesis using i by (auto simp: jsmn_inv_def list_all_length)
qed

theorem jsmn_parse_in_bounds_witness:
  "let p = \<lparr>pos = 0, toknext = 0, toksuper = 0, tokens = replicate 5 \<lparr>tok_type = JSMN_UNDEFINED, tok_start = 0, tok_end = 0, tok_size = 0\<rparr>\<rparr>
   in fst (jsmn_parse 7 (ascii ''{a:[1]}'') (jsmn_init p)) = 4 \<and>
      toknext (snd (jsmn_parse 7 (ascii ''{a:[1]}'') (jsmn_init p))) \<le> 5"
proof -
  define p where "p = \<lparr>pos = 0, toknext = 0, toksuper = 0, tokens = replicate 5 \<lparr>tok_type = JSMN_UNDEFINED, tok_start = 0, tok_end = 0, tok_size = 0\<rparr>\<rparr>"
  obtain r q where e: "jsmn_parse 7 (ascii ''{a:[1]}'') (jsmn_init p) = (r, q)" by fastforce
  have "fst (jsmn_parse 7 (ascii ''{a:[1]}'') (jsmn_init p)) = 4" unfolding p_def by code_simp
  moreover have "toknext q \<le> 5" using jsmn_parse_in_bounds [OF e] by (simp add: p_def)
  ultimately show ?thesis unfolding Let_def p_def [symmetric] by (simp add: e)
qed

subsection \<open>Flat objects\<close>

text \<open>
  Of the tokens only type and range matter for what follows; the array is seen up to the sizes. A parser has reached
  \<open>at p i V\<close> when its position is \<open>i\<close> and its tokens are \<open>V\<close>.
\<close>

type_synonym tok_view = "jsmntype_t \<times> int \<times> int"

definition strip :: "jsmntok_t \<Rightarrow> tok_view" where
  "strip t = (tok_type t, tok_start t, tok_end t)"

definition at :: "nat \<Rightarrow> nat \<Rightarrow> int \<Rightarrow> tok_view list \<Rightarrow> jsmn_parser \<Rightarrow> bool" where
  "at cap i par V p \<longleftrightarrow> length (tokens p) = cap \<and> toknext p \<le> cap \<and> pos p = i \<and> toksuper p = par \<and> - 1 \<le> par \<and> par < int (toknext p) \<and>
     map strip (take (toknext p) (tokens p)) = V"

lemma at_length: "at cap i par V p \<Longrightarrow> length V = toknext p"
  unfolding at_def by (metis length_map length_take min.absorb2)

lemma at_nth: "at cap i par V p \<Longrightarrow> k < length V \<Longrightarrow> strip (tokens p ! k) = V ! k"
  using at_length [of cap i par V p] by (auto simp: at_def)

lemma strip_child_nth: "k < length (tokens p) \<Longrightarrow> strip (tokens (count_child p) ! k) = strip (tokens p ! k)"
  by (cases "k = nat (toksuper p)") (auto simp: count_child_def strip_def)

lemma strip_child: "map strip (take n (tokens (count_child p))) = map strip (take n (tokens p))"
  by (rule nth_equalityI) (auto simp: strip_child_nth)

lemma at_child: "at cap i par V p \<Longrightarrow> at cap i par V (count_child p)"
  using strip_child [of "toknext p" p] by (simp add: at_def)

lemma at_new:
  assumes "at cap i par V p" "toknext p < cap"
  obtains p1 where "jsmn_alloc_token p = Some p1" "at cap j par (V @ [(t, s, e)]) ((jsmn_fill_token (toknext p) t s e p1)\<lparr>pos := j\<rparr>)"
proof -
  obtain p1 where a: "jsmn_alloc_token p = Some p1" using assms by (auto simp: jsmn_alloc_token_def at_def)
  let ?q = "(jsmn_fill_token (toknext p) t s e p1)\<lparr>pos := j\<rparr>"
  have "take (toknext p) (tokens ?q) = take (toknext p) (tokens p)" "tokens ?q ! toknext p = \<lparr>tok_type = t, tok_start = s, tok_end = e, tok_size = 0\<rparr>"
    "length (tokens ?q) = cap" "toknext ?q = toknext p + 1"
    using a assms by (auto simp: jsmn_alloc_token_def jsmn_fill_token_def at_def split: if_splits)
  then have "map strip (take (toknext ?q) (tokens ?q)) = V @ [(t, s, e)]"
    using assms by (simp add: take_Suc_conv_app_nth at_def strip_def)
  then have "at cap j par (V @ [(t, s, e)]) ?q"
    using a assms by (auto simp: at_def jsmn_fill_token_def jsmn_alloc_token_def split: if_splits)
  with a that show thesis by blast
qed


text \<open>One round of the loop.\<close>

lemma loop_step:
  assumes "pos p < len" "js ! pos p \<noteq> 0" "jsmn_char len js p = (r, q)" "0 \<le> r"
  shows "jsmn_loop len js c p = jsmn_loop len js (c + r) (q\<lparr>pos := pos q + 1\<rparr>)"
  using assms by (subst jsmn_loop.simps) simp

lemma at_pos: "at cap i par V p \<Longrightarrow> at cap j par V (p\<lparr>pos := j\<rparr>)"
  by (simp add: at_def)

definition plain :: "bytes \<Rightarrow> bool" where
  "plain s \<longleftrightarrow> list_all (\<lambda>c. c \<noteq> 0 \<and> c \<noteq> 34 \<and> c \<noteq> 92) s"

lemma string_loop_plain:
  "plain s \<Longrightarrow> drop i js = s @ 34 # rest \<Longrightarrow> i + length s < len \<Longrightarrow> string_loop len js i = Inr (i + length s)"
proof (induction s arbitrary: i)
  case Nil
  then have "js ! i = 34" by (metis append_Nil nth_via_drop)
  then show ?case using Nil by (subst string_loop.simps) simp
next
  case (Cons c s)
  then have "js ! i = c" "drop (i + 1) js = s @ 34 # rest" by (metis append_Cons nth_via_drop, metis Suc_eq_plus1 append_Cons drop_Suc list.sel(3) tl_drop)
  with Cons show ?case by (subst string_loop.simps) (simp add: plain_def)
qed

lemma loop_string:
  assumes "at cap i par V p" "drop i js = 34 # s @ 34 # rest" "plain s" "i + length s + 1 < len" "length V < cap"
  obtains q where "jsmn_loop len js c p = jsmn_loop len js (c + 1) q"
    "at cap (i + length s + 2) par (V @ [(JSMN_STRING, int i + 1, int (i + 1 + length s))]) q"
proof -
  have n: "toknext p < cap" using at_length [OF assms(1)] assms(5) by simp
  have p: "pos p = i" using assms(1) by (simp add: at_def)
  have j: "js ! i = 34" "drop (i + 1) js = s @ 34 # rest" using assms(2) by (metis nth_via_drop, metis Suc_eq_plus1 drop_Suc list.sel(3) tl_drop)
  have l: "string_loop len js (pos p + 1) = Inr (i + 1 + length s)"
    using string_loop_plain [OF assms(3) j(2)] assms(4) p by simp
  obtain p1 where a: "jsmn_alloc_token p = Some p1"
    and q: "at cap (i + 1 + length s) par (V @ [(JSMN_STRING, int i + 1, int (i + 1 + length s))])
       ((jsmn_fill_token (toknext p) JSMN_STRING (int i + 1) (int (i + 1 + length s)) p1)\<lparr>pos := i + 1 + length s\<rparr>)"
    using at_new [OF assms(1) n] by metis
  let ?q = "count_child ((jsmn_fill_token (toknext p) JSMN_STRING (int i + 1) (int (i + 1 + length s)) p1)\<lparr>pos := i + 1 + length s\<rparr>)"
  have "jsmn_char len js p = (1, ?q)"
    using l a p by (simp add: jsmn_char_def j(1) jsmn_parse_string_def counted_def)
  from loop_step [OF _ _ this] have "jsmn_loop len js c p = jsmn_loop len js (c + 1) (?q\<lparr>pos := pos ?q + 1\<rparr>)"
    using p j(1) assms(4) by simp
  moreover have "at cap (i + length s + 2) par (V @ [(JSMN_STRING, int i + 1, int (i + 1 + length s))]) (?q\<lparr>pos := pos ?q + 1\<rparr>)"
    using at_pos [OF at_child [OF q], of "i + length s + 2"] by simp
  ultimately show thesis using that by blast
qed

definition prim_text :: "bytes \<Rightarrow> bool" where
  "prim_text s \<longleftrightarrow> s \<noteq> [] \<and> list_all (\<lambda>c. 32 \<le> c \<and> c < 127 \<and> \<not> is_delim c) s \<and> hd s \<notin> {123, 91, 34}"

lemma prim_loop_text:
  "list_all (\<lambda>c. 32 \<le> c \<and> c < 127 \<and> \<not> is_delim c) s \<Longrightarrow> drop i js = s @ d # rest \<Longrightarrow> is_delim d \<Longrightarrow> i + length s < len \<Longrightarrow>
   prim_loop len js i = Some (i + length s)"
proof (induction s arbitrary: i)
  case Nil
  then have "js ! i = d" by (metis append_Nil nth_via_drop)
  then show ?case using Nil by (subst prim_loop.simps) simp
next
  case (Cons c s)
  then have "js ! i = c" "drop (i + 1) js = s @ d # rest" by (metis append_Cons nth_via_drop, metis Suc_eq_plus1 append_Cons drop_Suc list.sel(3) tl_drop)
  moreover have "c \<noteq> 0" "\<not> c < 32" "\<not> 127 \<le> c" using Cons.prems(1) by (auto simp: not_less not_le)
  ultimately show ?case using Cons by (subst prim_loop.simps) simp
qed

lemma loop_primitive:
  assumes "at cap i par V p" "drop i js = s @ d # rest" "prim_text s" "is_delim d" "i + length s < len" "length V < cap"
  obtains q where "jsmn_loop len js c p = jsmn_loop len js (c + 1) q"
    "at cap (i + length s) par (V @ [(JSMN_PRIMITIVE, int i, int (i + length s))]) q"
proof -
  have n: "toknext p < cap" using at_length [OF assms(1)] assms(6) by simp
  have p: "pos p = i" using assms(1) by (simp add: at_def)
  obtain x xs where s: "s = x # xs" "32 \<le> x" "\<not> is_delim x" "x \<notin> {123, 91, 34}" using assms(3) by (cases s) (auto simp: prim_text_def)
  have j: "js ! i = x" using assms(2) s(1) by (metis append_Cons nth_via_drop)
  have z: "x \<noteq> 0" using s(2) by auto
  have l: "prim_loop len js (pos p) = Some (i + length s)"
    using prim_loop_text [of s i js d rest len] assms(2-5) p by (simp add: prim_text_def)
  obtain p1 where a: "jsmn_alloc_token p = Some p1"
    and q: "at cap (i + length s - 1) par (V @ [(JSMN_PRIMITIVE, int i, int (i + length s))])
       ((jsmn_fill_token (toknext p) JSMN_PRIMITIVE (int i) (int (i + length s)) p1)\<lparr>pos := i + length s - 1\<rparr>)"
    using at_new [OF assms(1) n] by metis
  let ?q = "count_child ((jsmn_fill_token (toknext p) JSMN_PRIMITIVE (int i) (int (i + length s)) p1)\<lparr>pos := i + length s - 1\<rparr>)"
  have "jsmn_char len js p = (1, ?q)"
    using l a p s(3,4) by (auto simp: jsmn_char_def j jsmn_parse_primitive_def counted_def Let_def is_delim_def)
  from loop_step [OF _ _ this] have "jsmn_loop len js c p = jsmn_loop len js (c + 1) (?q\<lparr>pos := pos ?q + 1\<rparr>)"
    using p j s(2) assms(5) z by auto
  moreover have "at cap (i + length s) par (V @ [(JSMN_PRIMITIVE, int i, int (i + length s))]) (?q\<lparr>pos := pos ?q + 1\<rparr>)"
    using at_pos [OF at_child [OF q], of "i + length s"] by (simp add: s(1))
  ultimately show thesis using that by blast
qed

lemma loop_colon:
  assumes "at cap i par V p" "js ! i = 58" "i < len"
  obtains q where "jsmn_loop len js c p = jsmn_loop len js c q" "at cap (i + 1) (int (length V) - 1) V q"
proof -
  have p: "pos p = i" using assms(1) by (simp add: at_def)
  have "jsmn_char len js p = (0, p\<lparr>toksuper := int (toknext p) - 1\<rparr>)" by (simp add: jsmn_char_def p assms(2))
  from loop_step [OF _ _ this] have "jsmn_loop len js c p = jsmn_loop len js c ((p\<lparr>toksuper := int (toknext p) - 1\<rparr>)\<lparr>pos := i + 1\<rparr>)"
    using p assms(2,3) by simp
  moreover have "at cap (i + 1) (int (length V) - 1) V ((p\<lparr>toksuper := int (toknext p) - 1\<rparr>)\<lparr>pos := i + 1\<rparr>)"
    using assms(1) at_length [OF assms(1)] by (simp add: at_def)
  ultimately show thesis using that by blast
qed

text \<open>The tokens of an object that is still open, and of the entries in it.\<close>

definition closed_leaf :: "tok_view \<Rightarrow> bool" where
  "closed_leaf v \<longleftrightarrow> fst v \<in> {JSMN_STRING, JSMN_PRIMITIVE} \<and> snd (snd v) \<noteq> - 1"

lemma find_last_first:
  "\<forall>k. 0 < k \<and> k \<le> n \<longrightarrow> \<not> c (ts ! k) \<Longrightarrow> c (ts ! 0) \<Longrightarrow> find_last c (Suc n) ts = Some 0"
  by (induction n) auto

lemma at_leaf:
  assumes "at cap i par ((JSMN_OBJECT, 0, - 1) # V) p" "list_all closed_leaf V"
  shows "find_last tok_open (toknext p) (tokens p) = Some 0" "find_last (\<lambda>t. is_container t \<and> tok_open t) (toknext p) (tokens p) = Some 0"
    "0 < k \<Longrightarrow> k \<le> length V \<Longrightarrow> \<not> is_container (tokens p ! k)" "tok_type (tokens p ! 0) = JSMN_OBJECT" "toknext p = Suc (length V)"
proof -
  show n: "toknext p = Suc (length V)" using at_length [OF assms(1)] by simp
  have z: "tok_type (tokens p ! 0) = JSMN_OBJECT" "tok_start (tokens p ! 0) = 0" "tok_end (tokens p ! 0) = - 1"
    using at_nth [OF assms(1), of 0] by (simp_all add: strip_def)
  have l: "closed_leaf (strip (tokens p ! k))" if "0 < k" "k \<le> length V" for k
    using at_nth [OF assms(1), of k] that assms(2) by (cases k) (auto simp: list_all_length)
  then have "\<not> tok_open (tokens p ! k) \<and> \<not> is_container (tokens p ! k)" if "0 < k" "k \<le> length V" for k
    using l [OF that] by (auto simp: closed_leaf_def strip_def tok_open_def is_container_def)
  note l = this
  show "0 < k \<Longrightarrow> k \<le> length V \<Longrightarrow> \<not> is_container (tokens p ! k)" "tok_type (tokens p ! 0) = JSMN_OBJECT" using l z by auto
  show "find_last tok_open (toknext p) (tokens p) = Some 0" "find_last (\<lambda>t. is_container t \<and> tok_open t) (toknext p) (tokens p) = Some 0"
    unfolding n using l z by (intro find_last_first; simp add: tok_open_def is_container_def)+
qed

lemma loop_comma:
  assumes "at cap i (int (length V) - 1) ((JSMN_OBJECT, 0, - 1) # V) p" "list_all closed_leaf V" "2 \<le> length V" "js ! i = 44" "i < len"
  obtains q where "jsmn_loop len js c p = jsmn_loop len js c q" "at cap (i + 1) 0 ((JSMN_OBJECT, 0, - 1) # V) q"
proof -
  have p: "pos p = i" "toksuper p = int (length V) - 1" using assms(1) by (simp_all add: at_def)
  note L = at_leaf [OF assms(1,2)]
  have "\<not> is_container (tokens p ! nat (toksuper p))" "toksuper p \<noteq> - 1" using L(3) [of "length V - 1"] p assms(3) by (auto simp: nat_diff_distrib)
  then have "comma p = p\<lparr>toksuper := 0\<rparr>" using L(2) by (simp add: comma_def)
  then have "jsmn_char len js p = (0, p\<lparr>toksuper := 0\<rparr>)" by (simp add: jsmn_char_def p assms(4))
  from loop_step [OF _ _ this] have "jsmn_loop len js c p = jsmn_loop len js c ((p\<lparr>toksuper := 0\<rparr>)\<lparr>pos := i + 1\<rparr>)"
    using p assms(4,5) by simp
  moreover have "at cap (i + 1) 0 ((JSMN_OBJECT, 0, - 1) # V) ((p\<lparr>toksuper := 0\<rparr>)\<lparr>pos := i + 1\<rparr>)"
    using assms(1) L(5) by (simp add: at_def)
  ultimately show thesis using that by blast
qed

datatype jvalue = JStr bytes | JPrim bytes

fun jcontent :: "jvalue \<Rightarrow> bytes" where
  "jcontent (JStr s) = s"
| "jcontent (JPrim s) = s"

fun value_text :: "jvalue \<Rightarrow> bytes" where
  "value_text (JStr s) = 34 # s @ [34]"
| "value_text (JPrim s) = s"

fun value_view :: "nat \<Rightarrow> jvalue \<Rightarrow> tok_view" where
  "value_view i (JStr s) = (JSMN_STRING, int i + 1, int (i + 1 + length s))"
| "value_view i (JPrim s) = (JSMN_PRIMITIVE, int i, int (i + length s))"

fun value_ok :: "jvalue \<Rightarrow> bool" where
  "value_ok (JStr s) = plain s"
| "value_ok (JPrim s) = prim_text s"

definition entry_text :: "bytes \<times> jvalue \<Rightarrow> bytes" where
  "entry_text kv = 34 # fst kv @ [34, 58] @ value_text (snd kv)"

definition entry_view :: "nat \<Rightarrow> bytes \<times> jvalue \<Rightarrow> tok_view list" where
  "entry_view i kv = [(JSMN_STRING, int i + 1, int (i + 1 + length (fst kv))), value_view (i + length (fst kv) + 3) (snd kv)]"

fun object_body :: "(bytes \<times> jvalue) list \<Rightarrow> bytes" where
  "object_body [] = []"
| "object_body [kv] = entry_text kv"
| "object_body (kv # kv' # kvs) = entry_text kv @ 44 # object_body (kv' # kvs)"

fun body_view :: "nat \<Rightarrow> (bytes \<times> jvalue) list \<Rightarrow> tok_view list" where
  "body_view i [] = []"
| "body_view i (kv # kvs) = entry_view i kv @ body_view (i + length (entry_text kv) + 1) kvs"

definition entries_ok :: "(bytes \<times> jvalue) list \<Rightarrow> bool" where
  "entries_ok kvs \<longleftrightarrow> list_all (\<lambda>(k, v). plain k \<and> value_ok v) kvs"

lemma entry_view_leaf: "list_all closed_leaf (entry_view i kv)"
  by (cases "snd kv") (auto simp: entry_view_def closed_leaf_def)

lemma drop_append_here: "drop i js = a @ b \<Longrightarrow> drop (i + length a) js = b"
  by (metis add.commute append_eq_conv_conj drop_drop)

lemma loop_entry:
  assumes "at cap i 0 ((JSMN_OBJECT, 0, - 1) # V) p" "drop i js = entry_text kv @ d # rest" "plain (fst kv)" "value_ok (snd kv)" "is_delim d"
    "i + length (entry_text kv) < len" "length V + 2 < cap"
  obtains q where "jsmn_loop len js c p = jsmn_loop len js (c + 2) q"
    "at cap (i + length (entry_text kv)) (int (length V) + 1) ((JSMN_OBJECT, 0, - 1) # V @ entry_view i kv) q"
proof -
  obtain k v where kv: "kv = (k, v)" by fastforce
  let ?O = "(JSMN_OBJECT, 0, - 1) # V" and ?i1 = "i + length k + 2" and ?K = "(JSMN_STRING, int i + 1, int (i + 1 + length k))"
  have d0: "drop i js = 34 # k @ 34 # 58 # value_text v @ d # rest" using assms(2) by (simp add: kv entry_text_def)
  have l: "length (entry_text kv) = length k + 3 + length (value_text v)" by (simp add: kv entry_text_def)
  have r: "plain k" "i + length k + 1 < len" "length ?O < cap" using assms(3,6,7) l kv by simp_all
  obtain p1 where p1: "jsmn_loop len js c p = jsmn_loop len js (c + 1) p1" "at cap ?i1 0 (?O @ [?K]) p1"
    by (rule loop_string [OF assms(1) d0 r])
  have d1: "drop ?i1 js = 58 # value_text v @ d # rest" using drop_append_here [of i js "34 # k @ [34]"] d0 by simp
  then have h: "js ! ?i1 = 58" by (rule nth_via_drop)
  have lt: "?i1 < len" using assms(6) l by simp
  have e: "int (length (?O @ [?K])) - 1 = int (length V) + 1" by simp
  obtain p2 where p2: "jsmn_loop len js (c + 1) p1 = jsmn_loop len js (c + 1) p2" "at cap (?i1 + 1) (int (length V) + 1) (?O @ [?K]) p2"
    by (rule loop_colon [OF p1(2) h lt, unfolded e])
  have d2: "drop (?i1 + 1) js = value_text v @ d # rest" using drop_append_here [of ?i1 js "[58]"] d1 by simp
  obtain q where "jsmn_loop len js (c + 1) p2 = jsmn_loop len js (c + 1 + 1) q"
    "at cap (?i1 + 1 + length (value_text v)) (int (length V) + 1) ((?O @ [?K]) @ [value_view (?i1 + 1) v]) q"
  proof (cases v)
    case (JStr s)
    have "drop (?i1 + 1) js = 34 # s @ 34 # d # rest" using d2 JStr by simp
    moreover have "plain s" "?i1 + 1 + length s + 1 < len" "length (?O @ [?K]) < cap" using assms(4,6,7) l kv JStr by simp_all
    ultimately show thesis
    proof (rule loop_string [OF p2(2)])
      fix q assume "jsmn_loop len js (c + 1) p2 = jsmn_loop len js (c + 1 + 1) q"
        "at cap (?i1 + 1 + length s + 2) (int (length V) + 1) ((?O @ [?K]) @ [(JSMN_STRING, int (?i1 + 1) + 1, int (?i1 + 1 + 1 + length s))]) q"
      then show thesis using that [of q] JStr by simp
    qed
  next
    case (JPrim s)
    have "drop (?i1 + 1) js = s @ d # rest" using d2 JPrim by simp
    moreover have "prim_text s" "?i1 + 1 + length s < len" "length (?O @ [?K]) < cap" using assms(4,6,7) l kv JPrim by simp_all
    ultimately show thesis
    proof (rule loop_primitive [OF p2(2) _ _ assms(5)])
      fix q assume "jsmn_loop len js (c + 1) p2 = jsmn_loop len js (c + 1 + 1) q"
        "at cap (?i1 + 1 + length s) (int (length V) + 1) ((?O @ [?K]) @ [(JSMN_PRIMITIVE, int (?i1 + 1), int (?i1 + 1 + length s))]) q"
      then show thesis using that [of q] JPrim by simp
    qed
  qed
  then show thesis using that [of q] p1(1) p2(1) l by (simp add: kv entry_view_def add.assoc numeral_3_eq_3)
qed

lemma loop_body:
  assumes "kvs \<noteq> []" "entries_ok kvs" "drop i js = object_body kvs @ d # rest" "is_delim d" "i + length (object_body kvs) < len"
    "at cap i 0 ((JSMN_OBJECT, 0, - 1) # V) p" "list_all closed_leaf V" "length V + 2 * length kvs < cap"
  obtains q where "jsmn_loop len js c p = jsmn_loop len js (c + 2 * int (length kvs)) q"
    "at cap (i + length (object_body kvs)) (int (length (V @ body_view i kvs)) - 1) ((JSMN_OBJECT, 0, - 1) # V @ body_view i kvs) q"
  using assms
proof (induction kvs arbitrary: i V p c thesis rule: object_body.induct)
  case (2 kv)
  have o: "plain (fst kv)" "value_ok (snd kv)" using 2(3) by (auto simp: entries_ok_def)
  obtain q where "jsmn_loop len js c p = jsmn_loop len js (c + 2) q"
    "at cap (i + length (entry_text kv)) (int (length V) + 1) ((JSMN_OBJECT, 0, - 1) # V @ entry_view i kv) q"
    using loop_entry [OF 2(7) _ o 2(5), of js rest len c] 2(4,6,9) by auto
  with 2(1) [of q] show ?case by (simp add: entry_view_def add.commute)
next
  case (3 kv kv' kvs)
  let ?j = "i + length (entry_text kv)"
  have o: "plain (fst kv)" "value_ok (snd kv)" "entries_ok (kv' # kvs)" using 3(4) by (auto simp: entries_ok_def)
  have d: "drop i js = entry_text kv @ 44 # (object_body (kv' # kvs) @ d # rest)" using 3(5) by simp
  obtain q where q: "jsmn_loop len js c p = jsmn_loop len js (c + 2) q"
    "at cap ?j (int (length V) + 1) ((JSMN_OBJECT, 0, - 1) # V @ entry_view i kv) q"
    using loop_entry [OF 3(8) d o(1,2), of len c] 3(7,10) by (auto simp: is_delim_def)
  have dj: "drop ?j js = 44 # (object_body (kv' # kvs) @ d # rest)" by (rule drop_append_here [OF d])
  have lv: "list_all closed_leaf (V @ entry_view i kv)" using 3(9) entry_view_leaf by simp
  have h: "js ! ?j = 44" by (rule nth_via_drop [OF dj])
  have n: "int (length V) + 1 = int (length (V @ entry_view i kv)) - 1" "2 \<le> length (V @ entry_view i kv)" "?j < len"
    using 3(7) by (simp_all add: entry_view_def)
  obtain q1 where q1: "jsmn_loop len js (c + 2) q = jsmn_loop len js (c + 2) q1"
    "at cap (?j + 1) 0 ((JSMN_OBJECT, 0, - 1) # V @ entry_view i kv) q1"
    by (rule loop_comma [OF q(2) [unfolded n(1)] lv n(2) h n(3)])
  have dk: "drop (?j + 1) js = object_body (kv' # kvs) @ d # rest" using drop_append_here [of ?j js "[44]"] dj by simp
  obtain r where "jsmn_loop len js (c + 2) q1 = jsmn_loop len js (c + 2 + 2 * int (length (kv' # kvs))) r"
    "at cap (?j + 1 + length (object_body (kv' # kvs))) (int (length ((V @ entry_view i kv) @ body_view (?j + 1) (kv' # kvs))) - 1)
      ((JSMN_OBJECT, 0, - 1) # (V @ entry_view i kv) @ body_view (?j + 1) (kv' # kvs)) r"
  proof (rule 3(1) [OF _ _ o(3) dk 3(6) _ q1(2) lv, of "c + 2"])
    show "?j + 1 + length (object_body (kv' # kvs)) < len" using 3(7) by simp
    show "length (V @ entry_view i kv) + 2 * length (kv' # kvs) < cap" using 3(10) by (simp add: entry_view_def)
  qed simp_all
  with q(1) q1(1) 3(2) [of r] show ?case by (simp add: add.assoc)
qed simp

definition object_text :: "(bytes \<times> jvalue) list \<Rightarrow> bytes" where
  "object_text kvs = 123 # object_body kvs @ [125]"

definition object_view :: "(bytes \<times> jvalue) list \<Rightarrow> tok_view list" where
  "object_view kvs = (JSMN_OBJECT, 0, int (length (object_text kvs))) # body_view 1 kvs"

lemma body_view_leaf: "list_all closed_leaf (body_view i kvs)"
  by (induction kvs arbitrary: i) (auto simp: entry_view_leaf)

lemma loop_open:
  assumes "toknext p = 0" "toksuper p = - 1" "pos p = 0" "length (tokens p) = cap" "0 < cap" "js ! 0 = 123" "0 < len"
  obtains q where "jsmn_loop len js 0 p = jsmn_loop len js 1 q" "at cap 1 0 [(JSMN_OBJECT, 0, - 1)] q"
proof -
  obtain r q where c: "jsmn_char len js p = (r, q)" by fastforce
  obtain t ts where t: "tokens p = t # ts" using assms(4,5) by (cases "tokens p") auto
  have q: "r = 1" "q = p\<lparr>tokens := t\<lparr>tok_type := JSMN_OBJECT, tok_start := 0, tok_end := - 1, tok_size := 0\<rparr> # ts, toknext := 1, toksuper := 0\<rparr>"
    using c assms t by (auto simp: jsmn_char_def open_bracket_def jsmn_alloc_token_def count_child_def Let_def)
  have "jsmn_loop len js 0 p = jsmn_loop len js (0 + r) (q\<lparr>pos := pos q + 1\<rparr>)" using loop_step [OF _ _ c, of 0] assms q(1) by simp
  moreover have "at cap 1 0 [(JSMN_OBJECT, 0, - 1)] (q\<lparr>pos := pos q + 1\<rparr>)" using assms t by (auto simp: q(2) at_def strip_def)
  ultimately show thesis using that q(1) by simp
qed

lemma loop_close:
  assumes "at cap i par ((JSMN_OBJECT, 0, - 1) # V) p" "list_all closed_leaf V" "js ! i = 125" "len = i + 1"
  shows "\<exists>q. jsmn_loop len js c p = (c, q) \<and> at cap len (- 1) ((JSMN_OBJECT, 0, int len) # V) q"
proof -
  note L = at_leaf [OF assms(1,2)]
  have p: "pos p = i" using assms(1) by (simp add: at_def)
  let ?ts = "(tokens p)[0 := (tokens p ! 0)\<lparr>tok_end := int i + 1\<rparr>]"
  let ?q = "p\<lparr>tokens := ?ts, toksuper := - 1\<rparr>"
  have e: "tokens p \<noteq> []" using assms(1) L(5) by (auto simp: at_def)
  have "\<not> tok_open (?ts ! 0)" using e by (simp add: tok_open_def)
  then have "find_last tok_open (0 + 1) ?ts = None" by simp
  then have "jsmn_char len js p = (0, ?q)" using L(1,4) by (simp add: jsmn_char_def p assms(3) close_bracket_def Let_def)
  from loop_step [OF _ _ this, of c] have l: "jsmn_loop len js c p = jsmn_loop len js c (?q\<lparr>pos := len\<rparr>)" using p assms(3,4) by simp
  have n: "find_last tok_open (toknext p) ?ts = None"
  proof (rule ccontr)
    assume "find_last tok_open (toknext p) ?ts \<noteq> None"
    then obtain k where "find_last tok_open (toknext p) ?ts = Some k" by auto
    from find_last_Some [OF this] have k: "k < toknext p" "tok_open (?ts ! k)" by simp_all
    with \<open>\<not> tok_open (?ts ! 0)\<close> have "k \<noteq> 0" by (cases k) auto
    then have "closed_leaf (strip (tokens p ! k))" "tok_open (tokens p ! k)"
      using k at_nth [OF assms(1), of k] L(5) assms(2) by (auto simp: list_all_length nth_Cons')
    then show False by (auto simp: closed_leaf_def strip_def tok_open_def)
  qed
  have "jsmn_loop len js c (?q\<lparr>pos := len\<rparr>) = (c, ?q\<lparr>pos := len\<rparr>)" using n by (subst jsmn_loop.simps) simp
  moreover have "map strip (take (toknext p) ?ts) = (JSMN_OBJECT, 0, int len) # V"
  proof -
    have "map strip (take (toknext p) ?ts) = (map strip (take (toknext p) (tokens p)))[0 := strip ((tokens p ! 0)\<lparr>tok_end := int i + 1\<rparr>)]"
      by (simp add: take_update_swap map_update)
    also have "\<dots> = (JSMN_OBJECT, 0, int i + 1) # V"
      using assms(1) L(4) at_nth [OF assms(1), of 0] by (simp add: at_def strip_def)
    finally show ?thesis using assms(4) by simp
  qed
  then have "at cap len (- 1) ((JSMN_OBJECT, 0, int len) # V) (?q\<lparr>pos := len\<rparr>)"
    using assms(1) by (simp add: at_def)
  ultimately show ?thesis using l by auto
qed

lemma parse_object:
  assumes "kvs \<noteq> []" "entries_ok kvs" "2 * length kvs + 1 \<le> length (tokens p)"
  shows "\<exists>q. jsmn_parse (length (object_text kvs)) (object_text kvs @ rest) (jsmn_init p) = (2 * int (length kvs) + 1, q) \<and>
    at (length (tokens p)) (length (object_text kvs)) (- 1) (object_view kvs) q"
proof -
  let ?js = "object_text kvs @ rest" and ?len = "length (object_text kvs)" and ?cap = "length (tokens p)"
  have i: "toknext (jsmn_init p) = 0" "toksuper (jsmn_init p) = - 1" "pos (jsmn_init p) = 0" "length (tokens (jsmn_init p)) = ?cap"
    by (simp_all add: jsmn_init_def)
  have s: "0 < ?cap" "?js ! 0 = 123" "0 < ?len" using assms(3) by (simp_all only: object_text_def) simp_all
  obtain q where q: "jsmn_loop ?len ?js 0 (jsmn_init p) = jsmn_loop ?len ?js 1 q" "at ?cap 1 0 [(JSMN_OBJECT, 0, - 1)] q"
    by (rule loop_open [OF i s])
  have d: "drop 1 ?js = object_body kvs @ 125 # rest" by (simp add: object_text_def)
  have r: "is_delim 125" "1 + length (object_body kvs) < ?len" "list_all closed_leaf []" "length [] + 2 * length kvs < ?cap"
    using assms(3) by (simp_all add: is_delim_def object_text_def)
  obtain q1 where q1: "jsmn_loop ?len ?js 1 q = jsmn_loop ?len ?js (1 + 2 * int (length kvs)) q1"
    "at ?cap (1 + length (object_body kvs)) (int (length ([] @ body_view 1 kvs)) - 1) ((JSMN_OBJECT, 0, - 1) # [] @ body_view 1 kvs) q1"
    by (rule loop_body [OF assms(1,2) d r(1,2) q(2) r(3,4)])
  have "?js ! (1 + length (object_body kvs)) = 125" "?len = 1 + length (object_body kvs) + 1" by (simp_all add: object_text_def nth_append)
  from loop_close [OF q1(2) _ this, of "1 + 2 * int (length kvs)"] body_view_leaf
  obtain q2 where "jsmn_loop ?len ?js (1 + 2 * int (length kvs)) q1 = (1 + 2 * int (length kvs), q2)"
    "at ?cap ?len (- 1) ((JSMN_OBJECT, 0, int ?len) # body_view 1 kvs) q2" by auto
  then show ?thesis using q(1) q1(1) by (auto simp: jsmn_parse_def jsmn_init_def object_view_def)
qed

subsection \<open>Lookup\<close>

text \<open>What the tokens of a flat object stand for: type, text and length of each.\<close>

fun value_type :: "jvalue \<Rightarrow> jsmntype_t" where
  "value_type (JStr s) = JSMN_STRING"
| "value_type (JPrim s) = JSMN_PRIMITIVE"

definition tok_text :: "bytes \<Rightarrow> tok_view \<Rightarrow> jsmntype_t \<times> bytes \<times> int" where
  "tok_text js = (\<lambda>(t, s, e). (t, get_bytes (nat s) (nat (e - s)) js, e - s))"

definition item :: "jsmntype_t \<Rightarrow> bytes \<Rightarrow> jsmntype_t \<times> bytes \<times> int" where
  "item t c = (t, c, int (length c))"

fun items :: "(bytes \<times> jvalue) list \<Rightarrow> (jsmntype_t \<times> bytes \<times> int) list" where
  "items [] = []"
| "items ((k, v) # kvs) = item JSMN_STRING k # item (value_type v) (jcontent v) # items kvs"

lemma items_append [simp]: "items (a @ b) = items a @ items b"
  by (induction a rule: items.induct) auto

lemma length_items [simp]: "length (items kvs) = 2 * length kvs"
  by (induction kvs rule: items.induct) auto

lemma length_body_view [simp]: "length (body_view i kvs) = 2 * length kvs"
  by (induction kvs arbitrary: i) (auto simp: entry_view_def)

lemma tok_text_at: "drop i js = c @ rest \<Longrightarrow> tok_text js (t, int i, int (i + length c)) = item t c"
  by (simp add: tok_text_def item_def get_bytes_def)

lemma entry_items:
  assumes "drop i js = entry_text (k, v) @ rest"
  shows "map (tok_text js) (entry_view i (k, v)) = [item JSMN_STRING k, item (value_type v) (jcontent v)]"
proof -
  have "drop (i + 1) js = k @ 34 # 58 # value_text v @ rest"
    using drop_append_here [of i js "[34]"] assms by (simp add: entry_text_def)
  moreover from drop_append_here [OF this] have "drop (i + length k + 3) js = value_text v @ rest"
    using drop_append_here [of "i + 1 + length k" js "[34, 58]"] by (simp add: numeral_3_eq_3)
  moreover from this have "v = JStr s \<Longrightarrow> drop (i + length k + 4) js = s @ 34 # rest" for s
    using drop_append_here [of "i + length k + 3" js "[34]"] by (simp add: numeral_3_eq_3 eval_nat_numeral)
  ultimately show ?thesis
    using tok_text_at [of "i + 1" js k] tok_text_at [of "i + length k + 3" js "jcontent v"] tok_text_at [of "i + length k + 4" js "jcontent v"]
    by (cases v) (auto simp: entry_view_def algebra_simps)
qed

lemma body_items: "drop i js = object_body kvs @ rest \<Longrightarrow> map (tok_text js) (body_view i kvs) = items kvs"
proof (induction kvs arbitrary: i rule: object_body.induct)
  case (2 kv)
  then show ?case using entry_items [of i js "fst kv" "snd kv"] by (cases kv) simp
next
  case (3 kv kv' kvs)
  have d: "drop i js = entry_text kv @ 44 # object_body (kv' # kvs) @ rest" using 3(2) by simp
  then have "drop (i + length (entry_text kv) + 1) js = object_body (kv' # kvs) @ rest"
    using drop_append_here [OF d] drop_append_here [of "i + length (entry_text kv)" js "[44]"] by simp
  from 3(1) [OF this] entry_items [of i js "fst kv" "snd kv"] d show ?case by (cases kv) simp
qed simp

lemma tok_text_item:
  assumes "tok_text js (strip t) = item ty c"
  shows "tok_type t = ty" "get_bytes (nat (tok_start t)) (nat (tok_end t - tok_start t)) js = c" "tok_end t - tok_start t = int (length c)"
  using assms unfolding tok_text_def strip_def item_def prod.case prod.inject by blast+

lemma jsoneq_item:
  assumes "tok_text js (strip t) = item ty c"
  shows "jsoneq js t key \<longleftrightarrow> ty = JSMN_STRING \<and> c = key"
proof -
  note a = tok_text_item [OF assms]
  from a(2) have "get_bytes (nat (tok_start t)) (length c) js = c" unfolding a(3) nat_int .
  then show ?thesis unfolding jsoneq_def a(1) a(3) of_nat_eq_iff by metis
qed

lemma find_key_first:
  "\<forall>j<m. \<not> jsoneq js (ts ! (i + 1 + j)) key \<Longrightarrow> jsoneq js (ts ! (i + 1 + m)) key \<Longrightarrow> m < n \<Longrightarrow> i + 1 + m < length ts \<Longrightarrow>
   find_key js key ts i n = Some (i + m + 2)"
proof (induction n arbitrary: i m)
  case (Suc n)
  show ?case
  proof (cases m)
    case (Suc l)
    have "find_key js key ts (i + 1) n = Some (i + 1 + l + 2)"
    proof (rule Suc.IH)
      show "\<forall>j<l. \<not> jsoneq js (ts ! (i + 1 + 1 + j)) key" using Suc.prems(1) \<open>m = Suc l\<close> by (auto dest: spec [of _ "Suc j" for j])
    qed (use Suc.prems \<open>m = Suc l\<close> in simp_all)
    moreover have "\<not> jsoneq js (ts ! (i + 1)) key" using Suc.prems(1) \<open>m = Suc l\<close> by (auto dest: spec [of _ 0])
    ultimately show ?thesis using \<open>m = Suc l\<close> by simp
  qed (use Suc.prems in simp)
qed simp

lemma items_no_key:
  "k \<notin> fst ` set kvs \<Longrightarrow> JStr k \<notin> snd ` set kvs \<Longrightarrow> item JSMN_STRING k \<notin> set (items kvs)"
proof (induction kvs rule: items.induct)
  case (2 k' v kvs)
  then show ?case by (cases v) (auto simp: item_def)
qed simp

lemma items_item: "x \<in> set (items kvs) \<Longrightarrow> \<exists>ty c. x = item ty c"
  by (induction kvs rule: items.induct) auto

lemma object_token:
  assumes "at cap len par (object_view kvs) q" "j < 2 * length kvs"
  shows "tok_text (object_text kvs @ rest) (strip (tokens q ! Suc j)) = items kvs ! j"
proof -
  have "drop 1 (object_text kvs @ rest) = object_body kvs @ 125 # rest" by (simp add: object_text_def)
  from body_items [OF this] have "tok_text (object_text kvs @ rest) (body_view 1 kvs ! j) = items kvs ! j"
    using assms(2) by (metis length_body_view nth_map)
  then show ?thesis using at_nth [OF assms(1), of "Suc j"] assms(2) by (simp add: object_view_def)
qed


definition blank_tokens :: "nat \<Rightarrow> jsmn_parser" where
  "blank_tokens n = \<lparr>pos = 0, toknext = 0, toksuper = 0, tokens = replicate n \<lparr>tok_type = JSMN_UNDEFINED, tok_start = 0, tok_end = 0, tok_size = 0\<rparr>\<rparr>"


text \<open>A string value that reads like a key is taken for the key.\<close>

lemma value_taken_for_key:
  "let js = ascii ''{\"cName\":\"mac\",\"mac\":\"1\"}'';
       q = snd (jsmn_parse (length js) js (jsmn_init (blank_tokens 100)))
   in extJsonFindKeyToken js (ascii ''mac'') q = Some 3 \<and>
      get_bytes (nat (tok_start (tokens q ! 3))) (nat (tok_end (tokens q ! 3) - tok_start (tokens q ! 3))) js = ascii ''mac''"
  by code_simp

end
