(* ===== verification/Ip4Addr.thy ===== *)
theory Ip4Addr
  imports PtpMsg SysConfig
begin

text \<open>
  Texts of IPv4 addresses: \<^verbatim>\<open>ip4addr_aton\<close>, \<^verbatim>\<open>ipaddr_addr\<close> and \<^verbatim>\<open>ip4addr_ntoa_r\<close> of
  \<^verbatim>\<open>lwip/src/core/ipv4/ip4_addr.c\<close>, which the control protocol uses for every address it reads or prints.

  A text is a list of bytes; what lies behind its end reads as the terminating zero. An address is the word in network
  byte order on a little endian machine, so its first octet is the lowest byte. The lemmas show that a printed
  address fits its buffer and is read back.
\<close>

definition cur :: "bytes \<Rightarrow> u8" where
  "cur s = (case s of [] \<Rightarrow> 0 | c # r \<Rightarrow> c)"

definition is_digit :: "u8 \<Rightarrow> bool" where
  "is_digit c \<longleftrightarrow> 48 \<le> c \<and> c \<le> 57"

definition is_lower_hex :: "u8 \<Rightarrow> bool" where
  "is_lower_hex c \<longleftrightarrow> 97 \<le> c \<and> c \<le> 102"

definition is_upper_hex :: "u8 \<Rightarrow> bool" where
  "is_upper_hex c \<longleftrightarrow> 65 \<le> c \<and> c \<le> 70"

definition is_space :: "u8 \<Rightarrow> bool" where
  "is_space c \<longleftrightarrow> c \<in> {32, 12, 10, 13, 9, 11}"

text \<open>The digits of one number; the value wraps around at 32 bits.\<close>

fun aton_digits :: "u32w \<Rightarrow> u32w \<Rightarrow> bytes \<Rightarrow> u32w \<times> bytes" where
  "aton_digits base val [] = (val, [])"
| "aton_digits base val (c # s) =
     (if is_digit c then aton_digits base (val * base + ucast (c - 48)) s
      else if base = 16 \<and> (is_lower_hex c \<or> is_upper_hex c)
      then aton_digits base (push_bit 4 val OR ucast (c + 10 - (if is_lower_hex c then 97 else 65))) s
      else (val, c # s))"

definition aton_number :: "bytes \<Rightarrow> (u32w \<times> bytes) option" where
  "aton_number s =
     (if \<not> is_digit (cur s) then None
      else if cur s = 48 then
        (if cur (tl s) = 120 \<or> cur (tl s) = 88 then Some (aton_digits 16 0 (tl (tl s)))
         else Some (aton_digits 8 0 (tl s)))
      else Some (aton_digits 10 0 s))"

text \<open>The numbers up to the last one; at most \<open>n\<close> dots may follow.\<close>

fun aton_parts :: "nat \<Rightarrow> u32w list \<Rightarrow> bytes \<Rightarrow> (u32w list \<times> u32w \<times> bytes) option" where
  "aton_parts 0 parts s =
     (case aton_number s of
        None \<Rightarrow> None
      | Some (val, r) \<Rightarrow> if cur r = 46 then None else Some (parts, val, r))"
| "aton_parts (Suc n) parts s =
     (case aton_number s of
        None \<Rightarrow> None
      | Some (val, r) \<Rightarrow> if cur r = 46 then aton_parts n (parts @ [val]) (tl r) else Some (parts, val, r))"

definition ip4addr_aton :: "bytes \<Rightarrow> u32w option" where
  "ip4addr_aton cp =
     (case aton_parts 3 [] cp of
        None \<Rightarrow> None
      | Some (parts, val, r) \<Rightarrow>
          if cur r \<noteq> 0 \<and> \<not> is_space (cur r) then None
          else if length parts = 0 then Some (flip32 val)
          else if length parts = 1 then
            (if 0xffffff < val \<or> 0xff < parts ! 0 then None
             else Some (flip32 (val OR push_bit 24 (parts ! 0))))
          else if length parts = 2 then
            (if 0xffff < val \<or> 0xff < parts ! 0 \<or> 0xff < parts ! 1 then None
             else Some (flip32 (val OR (push_bit 24 (parts ! 0) OR push_bit 16 (parts ! 1)))))
          else
            (if 0xff < val \<or> 0xff < parts ! 0 \<or> 0xff < parts ! 1 \<or> 0xff < parts ! 2 then None
             else Some (flip32 (val OR (push_bit 24 (parts ! 0) OR push_bit 16 (parts ! 1) OR push_bit 8 (parts ! 2))))))"

abbreviation (input) IPADDR_NONE :: u32w where "IPADDR_NONE \<equiv> 0xFFFFFFFF"

definition ipaddr_addr :: "bytes \<Rightarrow> u32w" where
  "ipaddr_addr cp = (case ip4addr_aton cp of Some a \<Rightarrow> a | None \<Rightarrow> IPADDR_NONE)"

text \<open>Each octet is printed with a dot behind it; the last dot is replaced by the terminating zero.\<close>

definition ntoa_octets :: "u32w \<Rightarrow> bytes" where
  "ntoa_octets a = concat (map (\<lambda>n. decimal (unat (ip4_addr n a)) @ [46]) [1, 2, 3, 4])"

definition ip4addr_ntoa_r :: "u32w \<Rightarrow> nat \<Rightarrow> bytes option" where
  "ip4addr_ntoa_r a buflen = (if buflen < length (ntoa_octets a) then None else Some (butlast (ntoa_octets a)))"

definition ip4addr_ntoa :: "u32w \<Rightarrow> bytes" where
  "ip4addr_ntoa a = (case ip4addr_ntoa_r a 16 of Some t \<Rightarrow> t | None \<Rightarrow> [])"

subsection \<open>Decimal octets\<close>

lemma decimal_small: "n < 10 \<Longrightarrow> decimal n = [of_nat (48 + n)]"
  by (subst decimal.simps) simp

lemma length_decimal_le: "n < 10 ^ k \<Longrightarrow> 0 < k \<Longrightarrow> length (decimal n) \<le> k"
proof (induction k arbitrary: n)
  case (Suc k)
  show ?case
  proof (cases "n < 10")
    case True
    then show ?thesis by (simp add: decimal_small)
  next
    case False
    then have "n div 10 < 10 ^ k" "0 < k" using Suc.prems by (auto intro: gr0I simp: less_mult_imp_div_less)
    from Suc.IH [OF this] False show ?thesis by (subst decimal.simps) simp
  qed
qed simp

lemma decimal_hd: "0 < n \<Longrightarrow> \<exists>k. 0 < k \<and> k < 10 \<and> hd (decimal n) = of_nat (48 + k)"
proof (induction n rule: decimal.induct)
  case (1 n)
  show ?case
  proof (cases "n < 10")
    case True
    with 1(2) show ?thesis by (auto simp: decimal_small)
  next
    case False
    with 1(1) have "\<exists>k. 0 < k \<and> k < 10 \<and> hd (decimal (n div 10)) = of_nat (48 + k)" by simp
    with False show ?thesis by (subst decimal.simps) simp
  qed
qed

lemma is_digit_of_nat: "k < 10 \<Longrightarrow> is_digit (of_nat (48 + k))"
  using unat_digit [of k] by (simp add: is_digit_def word_le_nat_alt)

lemma digit_value: "k < 10 \<Longrightarrow> ucast (of_nat (48 + k) - 48 :: u8) = (of_nat k :: u32w)"
proof -
  assume "k < 10"
  then have "k \<in> set [0..<10]" by simp
  then show ?thesis by (auto simp: upt_rec)
qed

lemma aton_digits_run:
  "\<forall>c\<in>set ds. \<exists>k<10. c = of_nat (48 + k) \<Longrightarrow> \<not> is_digit (cur r) \<Longrightarrow> base \<noteq> 16 \<Longrightarrow>
   aton_digits base val (ds @ r) = (foldl (\<lambda>v c. v * base + ucast (c - 48)) val ds, r)"
proof (induction ds arbitrary: val)
  case Nil
  then show ?case by (cases r) (auto simp: cur_def)
next
  case (Cons c ds)
  then obtain k where "k < 10" "c = of_nat (48 + k)" by auto
  with Cons is_digit_of_nat [of k] show ?case by simp
qed

lemma foldl_digits_word:
  "\<forall>c\<in>set (ds :: bytes). \<exists>k<10. c = of_nat (48 + k) \<Longrightarrow>
   foldl (\<lambda>v c. v * 10 + ucast (c - 48)) (of_nat n) ds = (of_nat (foldl (\<lambda>v c. v * 10 + (unat c - 48)) n ds) :: u32w)"
proof (induction ds arbitrary: n)
  case (Cons c ds)
  then obtain k where k: "k < 10" "c = of_nat (48 + k)" by auto
  have "unat c = 48 + k" "ucast (c - 48) = (of_nat k :: u32w)" using unat_digit [OF k(1)] digit_value [OF k(1)] k(2) by metis+
  then have "of_nat n * 10 + ucast (c - 48) = (of_nat (n * 10 + (unat c - 48)) :: u32w)" by simp
  moreover have "\<forall>c\<in>set ds. \<exists>k<10. c = of_nat (48 + k)" using Cons.prems by simp
  ultimately show ?case using Cons.IH by (simp only: foldl_Cons)
qed simp

lemma aton_decimal:
  assumes "\<not> is_digit (cur r)" "cur r \<noteq> 120" "cur r \<noteq> 88"
  shows "aton_number (decimal n @ r) = Some (of_nat n, r)"
proof (cases "n = 0")
  case True
  have "aton_digits 8 0 r = (0, r)" using aton_digits_run [of "[]" r 8 0] assms(1) by simp
  then show ?thesis using True assms by (simp add: decimal_small aton_number_def is_digit_def cur_def)
next
  case False
  then obtain k where k: "0 < k" "k < 10" "hd (decimal n) = of_nat (48 + k)" using decimal_hd by blast
  have c: "cur (decimal n @ r) = of_nat (48 + k)" using k(3) decimal_nonempty [of n] by (cases "decimal n") (auto simp: cur_def)
  have "unat (of_nat (48 + k) :: u8) \<noteq> 48" using unat_digit [OF k(2)] k(1) by simp
  then have "(of_nat (48 + k) :: u8) \<noteq> 48" by auto
  moreover have "aton_digits 10 0 (decimal n @ r) = (of_nat n, r)"
    using aton_digits_run [of "decimal n" r 10 0] foldl_digits_word [of "decimal n" 0] decimal_digit [of _ n] digits_value_decimal [of n] assms(1)
    by (simp add: digits_value_def)
  ultimately show ?thesis using c is_digit_of_nat [OF k(2)] by (simp only: aton_number_def) simp
qed

subsection \<open>Round trip\<close>

definition octet :: "nat \<Rightarrow> u32w \<Rightarrow> u32w" where
  "octet n a = of_nat (unat (ip4_addr n a))"

lemma octet_ucast: "octet n a = ucast (ip4_addr n a)"
  by (simp add: octet_def)

lemma octet_le: "\<not> 0xff < octet n a"
proof -
  have "unat (ip4_addr n a) < 256" using unsigned_less [of "ip4_addr n a"] by simp
  moreover from this have "take_bit 32 (unat (ip4_addr n a)) = unat (ip4_addr n a)" by (simp add: take_bit_nat_eq_self)
  ultimately show ?thesis by (simp add: octet_ucast word_less_nat_alt unsigned_ucast_eq)
qed

lemma ntoa_text:
  "butlast (ntoa_octets a) = decimal (unat (ip4_addr 1 a)) @ 46 # decimal (unat (ip4_addr 2 a)) @ 46 # decimal (unat (ip4_addr 3 a)) @
     46 # decimal (unat (ip4_addr 4 a))"
  by (simp add: ntoa_octets_def butlast_append)

lemma ntoa_length: "length (ntoa_octets a) \<le> 16"
proof -
  have "length (decimal (unat (ip4_addr n a))) \<le> 3" for n
    using length_decimal_le [of "unat (ip4_addr n a)" 3] unsigned_less [of "ip4_addr n a", where ?'a = nat] by simp
  from this [of 1] this [of 2] this [of 3] this [of 4] show ?thesis by (simp add: ntoa_octets_def)
qed

lemma octets_address: "flip32 (octet 4 a OR (push_bit 24 (octet 1 a) OR push_bit 16 (octet 2 a) OR push_bit 8 (octet 3 a))) = a"
  by (rule bit_word_eqI) (auto simp: octet_ucast ip4_addr_def bit_flip32 bit_simps)

lemma stop_dot: "\<not> is_digit (cur (46 # r))" "cur (46 # r) \<noteq> 120" "cur (46 # r) \<noteq> 88"
  by (simp_all add: cur_def is_digit_def)

lemma stop_end: "\<not> is_digit (cur [])" "cur [] \<noteq> 120" "cur [] \<noteq> 88"
  by (simp_all add: cur_def is_digit_def)

lemma aton_ntoa: "aton_parts 3 [] (butlast (ntoa_octets a)) = Some ([octet 1 a, octet 2 a, octet 3 a], octet 4 a, [])"
  using aton_decimal [OF stop_end, of "unat (ip4_addr 4 a)"]
  by (simp add: ntoa_text numeral_3_eq_3 aton_decimal [OF stop_dot] cur_def octet_def del: of_nat_unat ucast_id)

text \<open>
  C38: A printed address fits the buffer of 16 bytes, and reading it gives the same address, for every
  address. The address 255.255.255.255 is read as well, but \<open>ipaddr_addr\<close> cannot tell it from an error.
\<close>

theorem ip_text_roundtrip:
  "ip4addr_ntoa_r a 16 = Some (ip4addr_ntoa a) \<and> length (ip4addr_ntoa a) \<le> 15 \<and>
   ip4addr_aton (ip4addr_ntoa a) = Some a \<and> ipaddr_addr (ip4addr_ntoa a) = a \<and>
   (ip4addr_aton t = None \<or> ip4addr_aton t = Some IPADDR_NONE \<longleftrightarrow> ipaddr_addr t = IPADDR_NONE)"
proof -
  have n: "ip4addr_ntoa_r a 16 = Some (butlast (ntoa_octets a))" using ntoa_length [of a] by (simp add: ip4addr_ntoa_r_def)
  moreover have "ip4addr_aton (butlast (ntoa_octets a)) = Some a"
    using octet_le octets_address [of a] by (simp add: ip4addr_aton_def aton_ntoa cur_def)
  moreover have "length (butlast (ntoa_octets a)) \<le> 15" using ntoa_length [of a] by simp
  ultimately show ?thesis by (simp add: ip4addr_ntoa_def ipaddr_addr_def split: option.splits)
qed

text \<open>A number with a leading zero is octal: 192.168.010.1 is 192.168.8.1.\<close>

lemma leading_zero_octal:
  "ip4addr_aton (ascii ''192.168.010.1'') = ip4addr_aton (ascii ''192.168.8.1'')"
  "ip4addr_aton (ascii ''10.1'') = ip4addr_aton (ascii ''10.0.0.1'')" "ip4addr_aton (ascii ''256.0.0.1'') = None"
  by code_simp+

end
