(* ===== verification/IpCmdParse.thy ===== *)
theory IpCmdParse
  imports MediaFsm Jsmn Ip4Addr
begin

text \<open>
  Requests of the private control protocol: \<^verbatim>\<open>exts/cmd/udpCmdRequest.c\<close> and the parser object of
  \<^verbatim>\<open>jsmn.h\<close> and \<^verbatim>\<open>exts/cmn/cmnJsonUtils.c\<close> (under \<^verbatim>\<open>src/supports/lwip/lwip/src\<close>).

  The parser object holds the tokens, the reply and the texts of errors; it is shared with the media thread, whose record
  (with the configuration and the FPGA) is the field \<open>p_media\<close>. What leaves the device is recorded: saved configurations, calls of
  IGMP, bytes and settings of the serial line, and datagrams. A character array is the list of its characters before
  the terminating zero, so that a text of an array of \<open>n\<close> bytes has at most \<open>n - 1\<close>. Reading of numbers is \<open>sscanf\<close> with a conversion of
  the width of the target; a number that does not fit into 32 bits saturates.
\<close>

record 'd EXT_JSON_PARSER =
  p_jsmn :: jsmn_parser
  p_status :: nat
  p_out :: bytes
  p_outIndex :: nat
  p_msg :: bytes
  p_target :: bytes
  p_cmd :: bytes
  p_json :: bytes
  p_hexData :: bytes
  p_isFeedBack :: u8
  p_waitMs :: u16
  p_scKey :: bytes
  p_scID :: bytes
  p_read :: bytes
  p_media :: "'d media"
  p_saved :: "DEV_CFG list"
  p_igmp :: "(bool \<times> u32w) list"
  p_serial :: bytes
  p_serialCfg :: "MuxRs232Cfg list"
  p_net :: "(bytes \<times> u32w \<times> u16) list"

abbreviation (input) JSON_STATUS_OK :: nat where "JSON_STATUS_OK \<equiv> 200"
abbreviation (input) JSON_STATUS_PARSE_ERROR :: nat where "JSON_STATUS_PARSE_ERROR \<equiv> 551"
abbreviation (input) JSON_STATUS_PARSE_PARAM_ERROR :: nat where "JSON_STATUS_PARSE_PARAM_ERROR \<equiv> 552"
abbreviation (input) JSON_STATUS_TAG_ERROR :: nat where "JSON_STATUS_TAG_ERROR \<equiv> 553"
abbreviation (input) JSON_STATUS_CRC_ERROR :: nat where "JSON_STATUS_CRC_ERROR \<equiv> 554"

text \<open>The configuration all threads share.\<close>

definition cfg_of :: "'d EXT_JSON_PARSER \<Rightarrow> DEV_CFG" where
  "cfg_of p = m_cfg (p_media p)"

definition upd_cfg :: "(DEV_CFG \<Rightarrow> DEV_CFG) \<Rightarrow> 'd EXT_JSON_PARSER \<Rightarrow> 'd EXT_JSON_PARSER" where
  "upd_cfg f p = p\<lparr>p_media := (p_media p)\<lparr>m_cfg := f (m_cfg (p_media p))\<rparr>\<rparr>"

text \<open>\<open>snprintf\<close> into the message of 64 bytes, and with the status of a wrong parameter.\<close>

definition set_msg :: "bytes \<Rightarrow> 'd EXT_JSON_PARSER \<Rightarrow> 'd EXT_JSON_PARSER" where
  "set_msg s p = p\<lparr>p_msg := take 63 s\<rparr>"

definition param_error :: "bytes \<Rightarrow> 'd EXT_JSON_PARSER \<Rightarrow> 'd EXT_JSON_PARSER" where
  "param_error s p = (set_msg s p)\<lparr>p_status := JSON_STATUS_PARSE_PARAM_ERROR\<rparr>"

subsection \<open>Tokens\<close>

definition extJsonInit :: "bytes \<Rightarrow> 'd EXT_JSON_PARSER \<Rightarrow> 'd EXT_JSON_PARSER" where
  "extJsonInit js p = p\<lparr>p_jsmn := jsmn_init (p_jsmn p), p_json := js, p_outIndex := 0\<rparr>"

definition extJsonParse :: "bytes \<Rightarrow> nat \<Rightarrow> 'd EXT_JSON_PARSER \<Rightarrow> 'd EXT_JSON_PARSER" where
  "extJsonParse js len p =
     (let p1 = extJsonInit js p;
          (ret, q) = jsmn_parse len js (p_jsmn p1)
      in p1\<lparr>p_jsmn := q, p_status := (if ret < 0 then JSON_STATUS_PARSE_ERROR else JSON_STATUS_OK)\<rparr>)"

text \<open>
  The token behind the one of the key. Behind the last token of the array lies \<open>tokenCount\<close>, read as a type that is
  none of the types.
\<close>

definition value_token :: "string \<Rightarrow> 'd EXT_JSON_PARSER \<Rightarrow> jsmntok_t option" where
  "value_token key p =
     (case extJsonFindKeyToken (p_json p) (ascii key) (p_jsmn p) of
        None \<Rightarrow> None
      | Some i \<Rightarrow> Some (if i < length (tokens (p_jsmn p)) then tokens (p_jsmn p) ! i
                        else \<lparr>tok_type = JSMN_UNDEFINED, tok_start = 0, tok_end = 0, tok_size = 0\<rparr>))"

text \<open>\<open>%.*s\<close> of a token.\<close>

definition token_text :: "bytes \<Rightarrow> jsmntok_t \<Rightarrow> bytes" where
  "token_text js t = c_string (get_bytes (nat (tok_start t)) (nat (tok_end t - tok_start t)) js)"

definition string_value :: "string \<Rightarrow> 'd EXT_JSON_PARSER \<Rightarrow> bytes option" where
  "string_value key p =
     (case value_token key p of
        None \<Rightarrow> None
      | Some t \<Rightarrow> if tok_type t \<noteq> JSMN_STRING then None else Some (token_text (p_json p) t))"

text \<open>A name in single quotes.\<close>

definition sq :: "string \<Rightarrow> string" where
  "sq s = CHR 0x27 # s @ [CHR 0x27]"

definition extJsonGetArrayObject :: "string \<Rightarrow> 'd EXT_JSON_PARSER \<Rightarrow> bool \<times> 'd EXT_JSON_PARSER" where
  "extJsonGetArrayObject key p =
     (case value_token key p of
        None \<Rightarrow> (False, param_error (ascii (''ERROR can't find array '' @ sq key @ '' object'')) p)
      | Some t \<Rightarrow>
          if tok_type t \<noteq> JSMN_ARRAY then (False, param_error (ascii (sq key @ '' was not an array'')) p)
          else (True, p))"

definition extJsonGetPrimitiveValueObject :: "string \<Rightarrow> 'd EXT_JSON_PARSER \<Rightarrow> jsmntok_t option \<times> 'd EXT_JSON_PARSER" where
  "extJsonGetPrimitiveValueObject key p =
     (case value_token key p of
        None \<Rightarrow> (None, param_error (ascii (''ERROR can't find primitive '' @ sq key @ '' object'')) p)
      | Some t \<Rightarrow>
          if tok_type t \<noteq> JSMN_PRIMITIVE then (None, param_error (ascii (sq key @ '' was not an primitive'')) p)
          else (Some t, p))"

text \<open>\<open>sscanf\<close> with \<open>%u\<close>: blanks, a sign, digits.\<close>

definition scan_unsigned :: "bytes \<Rightarrow> u32w option" where
  "scan_unsigned s =
     (let s1 = dropWhile is_space s;
          neg = (cur s1 = 45);
          ds = takeWhile is_digit (if cur s1 = 45 \<or> cur s1 = 43 then tl s1 else s1);
          v = digits_value ds
      in if ds = [] then None
         else if 4294967296 \<le> int v then Some 0xFFFFFFFF
         else if neg then Some (- of_nat v) else Some (of_nat v))"

definition extJsonParseUnsignedInteger :: "string \<Rightarrow> 'd EXT_JSON_PARSER \<Rightarrow> u32w option \<times> 'd EXT_JSON_PARSER" where
  "extJsonParseUnsignedInteger key p =
     (case extJsonGetPrimitiveValueObject key p of
        (None, p1) \<Rightarrow> (None, p1)
      | (Some t, p1) \<Rightarrow> (scan_unsigned (drop (nat (tok_start t)) (p_json p1)), p1))"

definition extJsonParseUnsignedShort :: "string \<Rightarrow> 'd EXT_JSON_PARSER \<Rightarrow> u16 option \<times> 'd EXT_JSON_PARSER" where
  "extJsonParseUnsignedShort key p =
     (case extJsonGetPrimitiveValueObject key p of
        (None, p1) \<Rightarrow> (None, p1)
      | (Some t, p1) \<Rightarrow> (map_option ucast (scan_unsigned (drop (nat (tok_start t)) (p_json p1))), p1))"

definition extJsonParseUnsignedChar :: "string \<Rightarrow> 'd EXT_JSON_PARSER \<Rightarrow> u8 option \<times> 'd EXT_JSON_PARSER" where
  "extJsonParseUnsignedChar key p =
     (case extJsonGetPrimitiveValueObject key p of
        (None, p1) \<Rightarrow> (None, p1)
      | (Some t, p1) \<Rightarrow> (map_option ucast (scan_unsigned (drop (nat (tok_start t)) (p_json p1))), p1))"

text \<open>A string for an array of \<open>n\<close> bytes; without a result the array keeps its contents.\<close>

definition extJsonParseString :: "string \<Rightarrow> nat \<Rightarrow> 'd EXT_JSON_PARSER \<Rightarrow> bytes option \<times> 'd EXT_JSON_PARSER" where
  "extJsonParseString key n p =
     (case value_token key p of
        None \<Rightarrow> (None, param_error (ascii (''ERROR can't find string '' @ sq key @ '' object'')) p)
      | Some t \<Rightarrow>
          if tok_type t \<noteq> JSMN_STRING then (None, param_error (ascii (sq key @ '' was not an string'')) p)
          else (Some (take (n - 1) (token_text (p_json p) t)), p))"

definition extJsonFindCommand :: "'d EXT_JSON_PARSER \<Rightarrow> bool \<times> 'd EXT_JSON_PARSER" where
  "extJsonFindCommand p =
     (case extJsonParseString ''cmd'' 32 p of
        (None, p1) \<Rightarrow> (False, set_msg (ascii (''ERROR can't find '' @ sq ''cmd'' @ '' object'')) p1)
      | (Some s, p1) \<Rightarrow> (True, p1\<lparr>p_cmd := s\<rparr>))"

text \<open>The value of an address that is missing is \<open>IPADDR_NONE\<close>.\<close>

definition extJsonParseIpAddress :: "string \<Rightarrow> 'd EXT_JSON_PARSER \<Rightarrow> bool \<times> u32w \<times> 'd EXT_JSON_PARSER" where
  "extJsonParseIpAddress key p =
     (case extJsonParseString key 64 p of
        (None, p1) \<Rightarrow> (False, IPADDR_NONE, p1)
      | (Some s, p1) \<Rightarrow> (True, ipaddr_addr s, p1\<lparr>p_msg := s\<rparr>))"

definition extJsonParseMacAddress :: "string \<Rightarrow> bytes \<Rightarrow> 'd EXT_JSON_PARSER \<Rightarrow> bool \<times> bytes \<times> 'd EXT_JSON_PARSER" where
  "extJsonParseMacAddress key old p =
     (case extJsonParseString key 64 p of
        (None, p1) \<Rightarrow> (False, old, p1)
      | (Some s, p1) \<Rightarrow> (let (ok, m) = extMacAddressParse s old in (ok, m, p1\<lparr>p_msg := s\<rparr>)))"

definition extJsonParseUuid :: "string \<Rightarrow> bytes \<Rightarrow> 'd EXT_JSON_PARSER \<Rightarrow> bool \<times> bytes \<times> 'd EXT_JSON_PARSER" where
  "extJsonParseUuid key old p =
     (case extJsonParseString key 64 p of
        (None, p1) \<Rightarrow> (False, old, p1)
      | (Some s, p1) \<Rightarrow> (True, snd (extUuidParse s), p1\<lparr>p_msg := s\<rparr>))"

definition extJsonParseDataArray :: "'d EXT_JSON_PARSER \<Rightarrow> bool \<times> 'd EXT_JSON_PARSER" where
  "extJsonParseDataArray p = extJsonGetArrayObject ''data'' p"

subsection \<open>Parameters of a request\<close>

text \<open>
  \<open>extJsonRequestParse\<close> is a sequence of steps on the parser, the received configuration and the number of parameters found; a step
  may end it with an error.
\<close>

type_synonym 'd req = "'d EXT_JSON_PARSER \<times> DEV_CFG \<times> nat"
type_synonym 'd step = "'d req \<Rightarrow> 'd EXT_JSON_PARSER + 'd req"

fun run_steps :: "'d step list \<Rightarrow> 'd step" where
  "run_steps [] s = Inr s"
| "run_steps (f # fs) s = (case f s of Inl p \<Rightarrow> Inl p | Inr t \<Rightarrow> run_steps fs t)"

definition number_step :: "('d EXT_JSON_PARSER \<Rightarrow> 'w option \<times> 'd EXT_JSON_PARSER) \<Rightarrow> ('w \<Rightarrow> DEV_CFG \<Rightarrow> DEV_CFG) \<Rightarrow> 'd step" where
  "number_step parse put = (\<lambda>(p, c, n).
     case parse p of
       (None, p1) \<Rightarrow> Inr (p1, c, n)
     | (Some v, p1) \<Rightarrow> Inr (p1, put v c, n + 1))"

text \<open>\<open>%d\<close> of a number.\<close>

definition int_text :: "int \<Rightarrow> bytes" where
  "int_text i = (if i < 0 then 45 # decimal (nat (- i)) else decimal (nat i))"

definition invalid_value :: "bytes \<Rightarrow> string \<Rightarrow> bytes" where
  "invalid_value v key = ascii ''ERROR invalidate value '' @ [39] @ v @ [39] @ ascii ('' for '' @ sq key @ '' object'')"

text \<open>A number that must be one of the allowed ones.\<close>

definition checked_step ::
  "string \<Rightarrow> (string \<Rightarrow> 'd EXT_JSON_PARSER \<Rightarrow> 'w option \<times> 'd EXT_JSON_PARSER) \<Rightarrow> ('w \<Rightarrow> DEV_CFG \<Rightarrow> DEV_CFG) \<Rightarrow> 'w set \<Rightarrow> ('w \<Rightarrow> int) \<Rightarrow> 'd step" where
  "checked_step key parse put allowed val = (\<lambda>(p, c, n).
     case parse key p of
       (None, p1) \<Rightarrow> Inr (p1, c, n)
     | (Some v, p1) \<Rightarrow> if v \<in> allowed then Inr (p1, put v c, n + 1)
                       else Inl (param_error (invalid_value (int_text (val v)) key) p1))"

text \<open>The name of a value; the array \<open>model\<close> serves as the buffer.\<close>

definition named_step :: "string \<Rightarrow> CMN_STR_TYPE \<Rightarrow> (u8 \<Rightarrow> DEV_CFG \<Rightarrow> DEV_CFG) \<Rightarrow> 'd step" where
  "named_step key strType put = (\<lambda>(p, c, n).
     case extJsonParseString key 32 p of
       (None, p1) \<Rightarrow> Inr (p1, c\<lparr>model := []\<rparr>, n)
     | (Some s, p1) \<Rightarrow>
         let c1 = c\<lparr>model := s\<rparr>; t = extCmnTypeFind strType s
         in if s = [] then Inr (p1, c1, n + 1)
            else if t < 0 then Inl (param_error (invalid_value s key) p1)
            else Inr (p1, put (word_of_int (t + 1)) c1, n + 1))"

definition string_step :: "string \<Rightarrow> nat \<Rightarrow> (bytes \<Rightarrow> DEV_CFG \<Rightarrow> DEV_CFG) \<Rightarrow> 'd step" where
  "string_step key k put = number_step (extJsonParseString key k) put"

definition mac_step :: "string \<Rightarrow> 'd step" where
  "mac_step key = (\<lambda>(p, c, n).
     let (ok, m, p1) = extJsonParseMacAddress key (mac (local_cfg c)) p
     in Inr (p1, c\<lparr>local_cfg := (local_cfg c)\<lparr>mac := m\<rparr>\<rparr>, if ok then n + 1 else n))"

definition ip_step :: "string \<Rightarrow> (u32w \<Rightarrow> DEV_CFG \<Rightarrow> DEV_CFG) \<Rightarrow> 'd step" where
  "ip_step key put = (\<lambda>(p, c, n).
     let (ok, a, p1) = extJsonParseIpAddress key p in Inr (p1, put a c, if ok then n + 1 else n))"

text \<open>The destination has to be a multicast address if the device is set to multicast, or zero.\<close>

definition mcast_step :: "'d step" where
  "mcast_step = (\<lambda>(p, c, n).
     let (ok, a, p1) = extJsonParseIpAddress ''MCASTip'' p;
         c1 = c\<lparr>dest_cfg := (dest_cfg c)\<lparr>ip := a\<rparr>\<rparr>
     in if \<not> ok then Inr (p1, c1, n)
        else if isMCast (cfg_of p1) \<noteq> 0 \<and> \<not> ip_is_multicast a \<and> a \<noteq> 0
        then Inl (param_error (ascii ''ERROR: '' @ [39, 39] @ ip4addr_ntoa a @ [39] @ ascii ('' of '' @ sq ''MCASTip'' @ '' object is not multicast address'')) p1)
        else Inr (p1, c1, n + 1))"

definition put_rs232 :: "(MuxRs232Cfg \<Rightarrow> MuxRs232Cfg) \<Rightarrow> DEV_CFG \<Rightarrow> DEV_CFG" where
  "put_rs232 f c = c\<lparr>rs232Cfg := f (rs232Cfg c)\<rparr>"

definition put_dest :: "(EXT_VIDEO_CONFIG \<Rightarrow> EXT_VIDEO_CONFIG) \<Rightarrow> DEV_CFG \<Rightarrow> DEV_CFG" where
  "put_dest f c = c\<lparr>dest_cfg := f (dest_cfg c)\<rparr>"

definition put_runtime :: "(MuxRunTimeParam \<Rightarrow> MuxRunTimeParam) \<Rightarrow> DEV_CFG \<Rightarrow> DEV_CFG" where
  "put_runtime f c = c\<lparr>runtime := f (runtime c)\<rparr>"

definition system_params :: "'d step" where
  "system_params s =
     run_steps
       [string_step ''cName'' 32 (\<lambda>s c. c\<lparr>dev_name := s\<rparr>),
        mac_step ''mac'',
        ip_step ''ip'' (\<lambda>a c. c\<lparr>local_cfg := (local_cfg c)\<lparr>ip := a\<rparr>\<rparr>),
        ip_step ''mask'' (\<lambda>a c. c\<lparr>ipMask := a\<rparr>),
        ip_step ''gateway'' (\<lambda>a c. c\<lparr>ipGateway := a\<rparr>),
        number_step (extJsonParseUnsignedInteger ''isDhcp'') (\<lambda>v c. c\<lparr>netMode := ucast (v + 1)\<rparr>),
        number_step (extJsonParseUnsignedInteger ''isDipOn'') (\<lambda>v c. c\<lparr>isDipOn := ucast (v + 1)\<rparr>)] s"

definition rs232_params :: "'d step" where
  "rs232_params s =
     run_steps
       [checked_step ''RS232Baudrate'' extJsonParseUnsignedInteger (\<lambda>v. put_rs232 (\<lambda>r. r\<lparr>baudRate := v\<rparr>)) {9600, 19200, 38400, 57600, 115200, 0} sint,
        checked_step ''RS232Databits'' extJsonParseUnsignedChar (\<lambda>v. put_rs232 (\<lambda>r. r\<lparr>charLength := v\<rparr>)) {5, 6, 7, 8, 0} uint,
        checked_step ''RS232Stopbits'' extJsonParseUnsignedChar (\<lambda>v. put_rs232 (\<lambda>r. r\<lparr>stopbits := v\<rparr>)) {1, 2, 0} uint,
        named_step ''RS232Parity'' CMN_STR_T_RS_PARITY (\<lambda>v. put_rs232 (\<lambda>r. r\<lparr>parityType := v\<rparr>))] s"

definition protocol_params :: "'d step" where
  "protocol_params s =
     run_steps
       [number_step (extJsonParseUnsignedInteger ''isMCAST'') (\<lambda>v c. c\<lparr>isMCast := ucast (v + 1)\<rparr>),
        mcast_step,
        number_step (extJsonParseUnsignedShort ''vidPort'') (\<lambda>v. put_dest (\<lambda>d. d\<lparr>vport := v\<rparr>)),
        number_step (extJsonParseUnsignedShort ''audPort'') (\<lambda>v. put_dest (\<lambda>d. d\<lparr>aport := v\<rparr>)),
        number_step (extJsonParseUnsignedShort ''datPort'') (\<lambda>v. put_dest (\<lambda>d. d\<lparr>dport := v\<rparr>)),
        number_step (extJsonParseUnsignedShort ''strPort'') (\<lambda>v. put_dest (\<lambda>d. d\<lparr>sport := v\<rparr>))] s"

definition media_params :: "'d step" where
  "media_params s =
     run_steps
       [number_step (extJsonParseUnsignedShort ''vidW'') (\<lambda>v. put_runtime (\<lambda>r. r\<lparr>vWidth := v\<rparr>)),
        number_step (extJsonParseUnsignedShort ''vidH'') (\<lambda>v. put_runtime (\<lambda>r. r\<lparr>vHeight := v\<rparr>)),
        number_step (extJsonParseUnsignedChar ''vidFps'') (\<lambda>v. put_runtime (\<lambda>r. r\<lparr>vFrameRate := v\<rparr>)),
        number_step (extJsonParseUnsignedChar ''vidDepth'') (\<lambda>v. put_runtime (\<lambda>r. r\<lparr>vDepth := v\<rparr>)),
        number_step (extJsonParseUnsignedInteger ''vidIsIntlc'') (\<lambda>v. put_runtime (\<lambda>r. r\<lparr>vIsInterlaced := ucast (v + 1)\<rparr>)),
        number_step (extJsonParseUnsignedInteger ''vidIsSgmt'') (\<lambda>v. put_runtime (\<lambda>r. r\<lparr>vIsSegmented := ucast (v + 1)\<rparr>)),
        named_step ''vidClrSpace'' CMN_STR_T_V_COLORSPACE (\<lambda>v. put_runtime (\<lambda>r. r\<lparr>vColorSpace := v\<rparr>)),
        checked_step ''audFrq'' extJsonParseUnsignedShort (\<lambda>v. put_runtime (\<lambda>r. r\<lparr>aSampleRate := v\<rparr>)) {44100, 48000, 0} uint,
        checked_step ''audBit'' extJsonParseUnsignedChar (\<lambda>v. put_runtime (\<lambda>r. r\<lparr>aDepth := v\<rparr>)) {16, 24, 0} uint,
        checked_step ''audChan'' extJsonParseUnsignedChar (\<lambda>v. put_runtime (\<lambda>r. r\<lparr>aChannels := v\<rparr>)) {1, 2, 0} uint,
        number_step (extJsonParseUnsignedInteger ''IsConnect'') (\<lambda>v. put_runtime (\<lambda>r. r\<lparr>isConnect := ucast (v + 1)\<rparr>))] s"

definition extJsonRequestParse :: "'d EXT_JSON_PARSER \<Rightarrow> DEV_CFG \<Rightarrow> 'd EXT_JSON_PARSER + 'd EXT_JSON_PARSER \<times> DEV_CFG" where
  "extJsonRequestParse p tmpCfg =
     (case run_steps [system_params, rs232_params, protocol_params, media_params] (p, tmpCfg, 0) of
        Inl p1 \<Rightarrow> Inl p1
      | Inr (p1, c, n) \<Rightarrow>
          if n = 0 then Inl (set_msg (ascii ''No validate parameter or param type wrong in this command'') p1)
          else Inr (p1\<lparr>p_status := JSON_STATUS_OK\<rparr>, c))"

definition extJsonRequestParseCommand :: "bytes \<Rightarrow> nat \<Rightarrow> 'd EXT_JSON_PARSER \<Rightarrow> bool \<times> 'd EXT_JSON_PARSER" where
  "extJsonRequestParseCommand js len p =
     (let p1 = extJsonParse js len p
      in if p_status p1 \<noteq> JSON_STATUS_OK
         then (False, (set_msg (ascii ''ERROR: JSON library parsing failed'') p1)\<lparr>p_status := JSON_STATUS_PARSE_ERROR\<rparr>)
         else
           let (ok, m, p2) = extJsonParseMacAddress ''targ'' (p_target p1) p1;
               p3 = p2\<lparr>p_target := m\<rparr>
           in if \<not> ok
              then (False, (set_msg (ascii (''ERROR: can't find or invalidate '' @ sq ''targ'' @ '' object'')) p3)\<lparr>p_status := JSON_STATUS_PARSE_ERROR\<rparr>)
              else
                let (found, p4) = extJsonFindCommand p3
                in if found then (True, p4) else (False, p4\<lparr>p_status := JSON_STATUS_PARSE_ERROR\<rparr>))"

subsection \<open>What parsing changes\<close>

text \<open>Parsing of a parameter changes the message and the status only, and the message stays within its array.\<close>

definition rest_of :: "'d EXT_JSON_PARSER \<Rightarrow> 'd EXT_JSON_PARSER" where
  "rest_of p = p\<lparr>p_msg := [], p_status := 0\<rparr>"

definition parsed :: "'d EXT_JSON_PARSER \<Rightarrow> 'd EXT_JSON_PARSER \<Rightarrow> bool" where
  "parsed p q \<longleftrightarrow> rest_of q = rest_of p \<and> (length (p_msg p) \<le> 63 \<longrightarrow> length (p_msg q) \<le> 63)"

lemma parsed_refl [intro, simp]: "parsed p p"
  by (simp add: parsed_def)

lemma parsed_trans [trans]: "parsed p q \<Longrightarrow> parsed q r \<Longrightarrow> parsed p r"
  by (simp add: parsed_def)

lemma rest_of_fields:
  "p_media (rest_of p) = p_media p" "p_json (rest_of p) = p_json p" "p_jsmn (rest_of p) = p_jsmn p" "p_target (rest_of p) = p_target p"
  "p_cmd (rest_of p) = p_cmd p" "p_saved (rest_of p) = p_saved p" "p_igmp (rest_of p) = p_igmp p" "p_serial (rest_of p) = p_serial p"
  "p_serialCfg (rest_of p) = p_serialCfg p" "p_out (rest_of p) = p_out p" "p_read (rest_of p) = p_read p" "p_net (rest_of p) = p_net p"
  "p_outIndex (rest_of p) = p_outIndex p" "cfg_of (rest_of p) = cfg_of p"
  by (simp_all add: rest_of_def cfg_of_def)

lemma string_value_cong:
  assumes "p_json q = p_json p" "p_jsmn q = p_jsmn p"
  shows "string_value key q = string_value key p"
  unfolding string_value_def value_token_def assms ..

lemma parsed_keeps:
  assumes "parsed p q"
  shows "p_media q = p_media p" "p_json q = p_json p" "p_jsmn q = p_jsmn p" "p_target q = p_target p" "p_cmd q = p_cmd p" "p_saved q = p_saved p"
    "p_igmp q = p_igmp p" "p_serial q = p_serial p" "p_serialCfg q = p_serialCfg p" "p_out q = p_out p" "p_read q = p_read p" "p_net q = p_net p"
    "p_outIndex q = p_outIndex p" "cfg_of q = cfg_of p" "string_value key q = string_value key p" "length (p_msg p) \<le> 63 \<Longrightarrow> length (p_msg q) \<le> 63"
proof -
  have r: "rest_of q = rest_of p" using assms by (simp add: parsed_def)
  show "p_media q = p_media p" "p_target q = p_target p" "p_cmd q = p_cmd p" "p_saved q = p_saved p"
    "p_igmp q = p_igmp p" "p_serial q = p_serial p" "p_serialCfg q = p_serialCfg p" "p_out q = p_out p" "p_read q = p_read p" "p_net q = p_net p"
    "p_outIndex q = p_outIndex p" "cfg_of q = cfg_of p"
    using arg_cong [OF r, of p_media] arg_cong [OF r, of p_target] arg_cong [OF r, of p_cmd] arg_cong [OF r, of p_saved] arg_cong [OF r, of p_igmp]
      arg_cong [OF r, of p_serial] arg_cong [OF r, of p_serialCfg] arg_cong [OF r, of p_out] arg_cong [OF r, of p_read] arg_cong [OF r, of p_net]
      arg_cong [OF r, of p_outIndex] arg_cong [OF r, of cfg_of]
    by (simp_all only: rest_of_fields)
  show j: "p_json q = p_json p" "p_jsmn q = p_jsmn p"
    using arg_cong [OF r, of p_json] arg_cong [OF r, of p_jsmn] by (simp_all only: rest_of_fields)
  show "string_value key q = string_value key p" by (rule string_value_cong [OF j])
  show "length (p_msg p) \<le> 63 \<Longrightarrow> length (p_msg q) \<le> 63" using assms by (simp add: parsed_def)
qed

lemma parsed_set_msg [simp]: "parsed p (set_msg m p)"
  by (simp add: parsed_def rest_of_def set_msg_def)

lemma parsed_param_error [simp]: "parsed p (param_error m p)"
  by (simp add: parsed_def rest_of_def set_msg_def param_error_def)

lemma parsed_status [simp]: "parsed p (p\<lparr>p_status := s\<rparr>)"
  by (simp add: parsed_def rest_of_def)

lemma parsed_msg: "length m \<le> 63 \<Longrightarrow> parsed p (p\<lparr>p_msg := m\<rparr>)"
  by (simp add: parsed_def rest_of_def)

lemma parse_string_some:
  "extJsonParseString key n p = (Some s, q) \<Longrightarrow> q = p \<and> length s \<le> n - 1 \<and> (\<exists>t. string_value key p = Some t \<and> s = take (n - 1) t)"
  by (auto simp: extJsonParseString_def string_value_def split: option.splits if_splits)

lemma parse_string_none:
  "extJsonParseString key n p = (None, q) \<Longrightarrow> parsed p q \<and> string_value key p = None \<and> p_status q = JSON_STATUS_PARSE_PARAM_ERROR"
  by (auto simp: extJsonParseString_def string_value_def param_error_def split: option.splits if_splits
      intro: parsed_param_error [unfolded param_error_def])

lemma parsed_string: "extJsonParseString key n p = (v, q) \<Longrightarrow> parsed p q"
  using parse_string_some parse_string_none by (cases v) blast+

lemma parsed_ip:
  assumes "extJsonParseIpAddress key p = (ok, a, q)"
  shows "parsed p q"
proof (cases "fst (extJsonParseString key 64 p)")
  case None
  with assms show ?thesis
    by (cases "extJsonParseString key 64 p") (auto simp: extJsonParseIpAddress_def dest: parsed_string)
next
  case (Some s)
  then obtain r where e: "extJsonParseString key 64 p = (Some s, r)" by (cases "extJsonParseString key 64 p") simp
  with assms parse_string_some [OF e] show ?thesis by (auto simp: extJsonParseIpAddress_def intro: parsed_msg)
qed

lemma length_macParse: "length (snd (macParse i n str m)) = length m"
  by (induction i n str m rule: macParse.induct) (auto simp: Let_def split: option.splits prod.splits)

lemma parsed_mac:
  assumes "extJsonParseMacAddress key old p = (ok, m, q)"
  shows "parsed p q" "length m = length old"
proof -
  obtain v r where e: "extJsonParseString key 64 p = (v, r)" by fastforce
  have "length (snd (extMacAddressParse s old)) = length old" for s by (simp add: extMacAddressParse_def length_macParse)
  with assms e show "length m = length old" by (auto simp: extJsonParseMacAddress_def Let_def split: option.splits prod.splits) (metis snd_conv)
  from assms e parsed_string [OF e] parse_string_some [of key 64 p] show "parsed p q"
    by (auto simp: extJsonParseMacAddress_def Let_def intro: parsed_msg split: option.splits prod.splits)
qed

lemma parsed_primitive: "extJsonGetPrimitiveValueObject key p = (v, q) \<Longrightarrow> parsed p q"
  by (auto simp: extJsonGetPrimitiveValueObject_def split: option.splits if_splits)

lemma parsed_array: "extJsonParseDataArray p = (v, q) \<Longrightarrow> parsed p q"
  by (auto simp: extJsonParseDataArray_def extJsonGetArrayObject_def split: option.splits if_splits)

text \<open>
  The steps of a request keep the received texts within their arrays. The functions that read one parameter share an
  interface, on which the steps are built.
\<close>

definition rx_ok :: "DEV_CFG \<Rightarrow> bool" where
  "rx_ok c \<longleftrightarrow> length (dev_name c) \<le> 31 \<and> length (mac (local_cfg c)) = 6"

definition step_ok :: "'d step \<Rightarrow> bool" where
  "step_ok f \<longleftrightarrow> (\<forall>p c n. rx_ok c \<longrightarrow> (case f (p, c, n) of Inl q \<Rightarrow> parsed p q | Inr (q, c', n') \<Rightarrow> parsed p q \<and> rx_ok c'))"

lemma step_okD:
  assumes "step_ok f" "rx_ok c"
  shows "f (p, c, n) = Inl q \<Longrightarrow> parsed p q" "f (p, c, n) = Inr (q, c', n') \<Longrightarrow> parsed p q \<and> rx_ok c'"
  using assms(1) [unfolded step_ok_def, rule_format, OF assms(2), of p n] by auto

lemma run_steps_ok: "list_all step_ok fs \<Longrightarrow> step_ok (run_steps fs)"
proof (induction fs)
  case (Cons f fs)
  then have f: "step_ok f" and g: "step_ok (run_steps fs)" by simp_all
  show ?case
    unfolding step_ok_def
  proof (intro allI impI)
    fix p c n assume c: "rx_ok c"
    show "case run_steps (f # fs) (p, c, n) of Inl q \<Rightarrow> parsed p q | Inr (q, c', n') \<Rightarrow> parsed p q \<and> rx_ok c'"
    proof (cases "f (p, c, n)")
      case (Inl q)
      with step_okD(1) [OF f c Inl] show ?thesis by simp
    next
      case (Inr t)
      obtain q c' n' where t: "t = (q, c', n')" by (cases t)
      have q: "parsed p q" "rx_ok c'" using step_okD(2) [OF f c] Inr t by blast+
      show ?thesis
        using g [unfolded step_ok_def, rule_format, OF q(2), of q n'] q(1) Inr t
        by (auto split: sum.splits intro: parsed_trans)
    qed
  qed
qed (simp add: step_ok_def)

locale param_reader =
  fixes parse :: "'d EXT_JSON_PARSER \<Rightarrow> 'w option \<times> 'd EXT_JSON_PARSER"
  assumes reads: "parse p = (v, q) \<Longrightarrow> parsed p q"
begin

lemma number_step_ok:
  assumes "\<And>p v c. fst (parse p) = Some v \<Longrightarrow> rx_ok c \<Longrightarrow> rx_ok (put v c)"
  shows "step_ok (number_step parse put)"
  unfolding step_ok_def
proof (intro allI impI)
  fix p c n assume c: "rx_ok c"
  obtain v q where e: "parse p = (v, q)" by fastforce
  with reads [OF e] c assms [of p _ c] show "case number_step parse put (p, c, n) of Inl q \<Rightarrow> parsed p q | Inr (q, c', n') \<Rightarrow> parsed p q \<and> rx_ok c'"
    by (cases v) (auto simp: number_step_def)
qed

end

interpretation int_param: param_reader "extJsonParseUnsignedInteger key" for key
  by unfold_locales (auto simp: extJsonParseUnsignedInteger_def split: prod.splits option.splits dest: parsed_primitive)

interpretation short_param: param_reader "extJsonParseUnsignedShort key" for key
  by unfold_locales (auto simp: extJsonParseUnsignedShort_def split: prod.splits option.splits dest: parsed_primitive)

interpretation char_param: param_reader "extJsonParseUnsignedChar key" for key
  by unfold_locales (auto simp: extJsonParseUnsignedChar_def split: prod.splits option.splits dest: parsed_primitive)

interpretation string_param: param_reader "extJsonParseString key n" for key n
  by unfold_locales (rule parsed_string)

lemma checked_step_ok:
  assumes "\<And>p v q. parse key p = (v, q) \<Longrightarrow> parsed p q" "\<And>v c. rx_ok c \<Longrightarrow> rx_ok (put v c)"
  shows "step_ok (checked_step key parse put allowed val)"
  unfolding step_ok_def
proof (intro allI impI)
  fix p c n assume c: "rx_ok c"
  obtain v q where e: "parse key p = (v, q)" by fastforce
  with assms(1) [OF e] assms(2) [OF c] c
  show "case checked_step key parse put allowed val (p, c, n) of Inl q \<Rightarrow> parsed p q | Inr (q, c', n') \<Rightarrow> parsed p q \<and> rx_ok c'"
    by (cases v) (auto simp: checked_step_def intro: parsed_trans)
qed

lemma named_step_ok:
  assumes "\<And>v c. rx_ok c \<Longrightarrow> rx_ok (put v c)"
  shows "step_ok (named_step key strType put)"
  unfolding step_ok_def
proof (intro allI impI)
  fix p :: "'d EXT_JSON_PARSER" and c n assume c: "rx_ok c"
  obtain v q where e: "extJsonParseString key 32 p = (v, q)" by fastforce
  have m: "rx_ok (c\<lparr>model := s\<rparr>)" for s using c by (simp add: rx_ok_def)
  show "case named_step key strType put (p, c, n) of Inl q \<Rightarrow> parsed p q | Inr (q, c', n') \<Rightarrow> parsed p q \<and> rx_ok c'"
    using e parsed_string [OF e] m assms [OF m] by (cases v) (auto simp: named_step_def Let_def intro: parsed_trans)
qed

lemma mac_step_ok: "step_ok (mac_step key)"
  using parsed_mac by (fastforce simp: step_ok_def mac_step_def rx_ok_def split: prod.splits)

lemma ip_step_ok: "(\<And>a c. rx_ok c \<Longrightarrow> rx_ok (put a c)) \<Longrightarrow> step_ok (ip_step key put)"
  using parsed_ip by (fastforce simp: step_ok_def ip_step_def split: prod.splits)

lemma mcast_step_ok: "step_ok mcast_step"
  unfolding step_ok_def
proof (intro allI impI)
  fix p :: "'d EXT_JSON_PARSER" and c n assume c: "rx_ok c"
  obtain ok a q where e: "extJsonParseIpAddress ''MCASTip'' p = (ok, a, q)" by (cases "extJsonParseIpAddress ''MCASTip'' p")
  with parsed_ip [OF e] c show "case mcast_step (p, c, n) of Inl q \<Rightarrow> parsed p q | Inr (q, c', n') \<Rightarrow> parsed p q \<and> rx_ok c'"
    by (auto simp: mcast_step_def rx_ok_def Let_def intro: parsed_trans)
qed

lemmas put_defs = put_rs232_def put_dest_def put_runtime_def rx_ok_def

lemmas param_steps_ok = int_param.number_step_ok short_param.number_step_ok char_param.number_step_ok string_param.number_step_ok
  checked_step_ok named_step_ok mac_step_ok ip_step_ok mcast_step_ok int_param.reads short_param.reads char_param.reads

lemma name_step_ok: "step_ok (string_step ''cName'' 32 (\<lambda>s c. c\<lparr>dev_name := s\<rparr>))"
  unfolding string_step_def
proof (rule string_param.number_step_ok)
  fix p :: "'d EXT_JSON_PARSER" and v c assume "fst (extJsonParseString ''cName'' 32 p) = Some v" "rx_ok c"
  then show "rx_ok (c\<lparr>dev_name := v\<rparr>)"
    using parse_string_some [of "''cName''" 32 p v] by (cases "extJsonParseString ''cName'' 32 p") (auto simp: rx_ok_def)
qed

lemma params_ok: "step_ok system_params" "step_ok rs232_params" "step_ok protocol_params" "step_ok media_params"
  unfolding system_params_def [abs_def] rs232_params_def [abs_def] protocol_params_def [abs_def] media_params_def [abs_def]
  by (rule run_steps_ok; unfold list.pred_inject; intro conjI TrueI name_step_ok param_steps_ok; simp add: put_defs)+

lemma request_parse:
  assumes "rx_ok tmp"
  shows "extJsonRequestParse p tmp = Inl q \<Longrightarrow> parsed p q"
    "extJsonRequestParse p tmp = Inr (q, c) \<Longrightarrow> parsed p q \<and> rx_ok c \<and> p_status q = JSON_STATUS_OK"
proof -
  have "step_ok (run_steps [system_params, rs232_params, protocol_params, media_params])" by (rule run_steps_ok) (simp add: params_ok)
  note r = step_okD [OF this assms, of p 0]
  show "extJsonRequestParse p tmp = Inl q \<Longrightarrow> parsed p q"
    using r unfolding extJsonRequestParse_def by (auto split: sum.splits prod.splits if_splits intro: parsed_trans simp del: run_steps.simps)
  show "extJsonRequestParse p tmp = Inr (q, c) \<Longrightarrow> parsed p q \<and> rx_ok c \<and> p_status q = JSON_STATUS_OK"
    using r unfolding extJsonRequestParse_def by (auto split: sum.splits prod.splits if_splits intro: parsed_trans simp del: run_steps.simps)
qed

text \<open>
  A MAC address that ends in the middle fails, but its first bytes are stored in the received configuration; with another valid parameter
  the request succeeds.
\<close>

definition blank_parser :: "nat \<Rightarrow> nat \<Rightarrow> nat \<Rightarrow> 'd media \<Rightarrow> 'd EXT_JSON_PARSER" where
  "blank_parser ntok nread nout m =
     \<lparr>p_jsmn = blank_tokens ntok, p_status = 0, p_out = replicate nout 0, p_outIndex = 0, p_msg = [], p_target = replicate 6 0, p_cmd = [], p_json = [],
      p_hexData = [], p_isFeedBack = 0, p_waitMs = 0, p_scKey = [], p_scID = [], p_read = replicate nread 0, p_media = m, p_saved = [], p_igmp = [],
      p_serial = [], p_serialCfg = [], p_net = []\<rparr>"

lemma broken_mac_stored:
  "let js = ascii ''{\"mac\":\"12:zz\"}'';
       r = extJsonParseMacAddress ''mac'' (replicate 6 0) (extJsonParse js (length js) (blank_parser 4 0 0 (extMediaInit (blank_cfg 0) ())))
   in \<not> fst r \<and> fst (snd r) = [0x12, 0, 0, 0, 0, 0]"
  by code_simp

end
