(* ===== verification/IpCmd.thy ===== *)
theory IpCmd
  imports IpCmdParse
begin

text \<open>
  The private control protocol: \<^verbatim>\<open>exts/cmd/udpCmdMain.c\<close>, \<^verbatim>\<open>udpCmdResponses.c\<close>, \<^verbatim>\<open>udpCmdSetup.c\<close> and
  \<^verbatim>\<open>udpCmdExecs.c\<close>. A datagram holds a tag, a length, a JSON text and its CRC-32. A server sends requests that read or change the
  configuration, write to the serial line or check the security chip; the device answers each with a frame of the same form.

  The result \<open>None\<close> of an operation means that the code would leave its memory: a frame that does not fit the output buffer of 2048
  bytes, or a read behind the input buffer. What the device cannot know is in the record \<open>cmd_env\<close>: the FPGA, answers of
  lwIP, and the build. Traces are left out. The lemmas show when a frame is accepted, that a reply always fits, what a request may change and that
  it needs the name and password for it.
\<close>

record 'd cmd_env =
  e_dev :: "'d i2c"
  e_junk :: u32w
  e_igmp_flag :: bool
  e_igmp :: "bool \<Rightarrow> u32w \<Rightarrow> int"
  e_event :: bool
  e_pbuf :: bool
  e_signed :: bool
  e_version :: "u8 \<times> u8 \<times> u8"

subsection \<open>Replies\<close>

definition json_text :: "string \<Rightarrow> bytes \<Rightarrow> bytes" where
  "json_text key t = ascii (''\"'' @ key @ ''\":\"'') @ t @ ascii ''\"''"

definition json_num :: "string \<Rightarrow> int \<Rightarrow> bytes" where
  "json_num key n = ascii (''\"'' @ key @ ''\":'') @ int_text n"

definition flag_num :: "bool \<Rightarrow> int" where
  "flag_num b = (if b then 1 else 0)"

text \<open>Texts with a comma between them, as the format strings have them.\<close>

fun commas :: "bytes list \<Rightarrow> bytes" where
  "commas [] = []"
| "commas [x] = x"
| "commas (x # y # xs) = x @ 44 # commas (y # xs)"

definition extIpCmdPrintMediaCfg :: "DEV_CFG \<Rightarrow> bytes" where
  "extIpCmdPrintMediaCfg c =
     commas [json_num ''isMCAST'' (flag_num (isMCast c \<noteq> 0)), json_text ''MCASTip'' (ip4addr_ntoa (ip (dest_cfg c))),
       json_num ''vidPort'' (uint (vport (dest_cfg c))), json_num ''audPort'' (uint (aport (dest_cfg c))),
       json_num ''datPort'' (uint (dport (dest_cfg c))), json_num ''strPort'' (uint (sport (dest_cfg c))),
       json_num ''vidW'' (uint (vWidth (runtime c))), json_num ''vidH'' (uint (vHeight (runtime c))),
       json_num ''vidFps'' (uint (vFrameRate (runtime c))), json_num ''vidDepth'' (uint (vDepth (runtime c))),
       json_num ''vidIsSgmt'' (uint (vIsSegmented (runtime c))),
       json_text ''vidClrSpace'' (extCmnStringFind CMN_STR_T_V_COLORSPACE (unat (vColorSpace (runtime c)))),
       json_num ''audFrq'' (uint (aSampleRate (runtime c))), json_num ''audBit'' (uint (aDepth (runtime c))),
       json_num ''audChan'' (uint (aChannels (runtime c))), json_num ''IsConnect'' (uint (isConnect (runtime c)))]"

definition extIpCmdRequestHeaderPrint :: "string \<Rightarrow> DEV_CFG \<Rightarrow> bytes" where
  "extIpCmdRequestHeaderPrint command c =
     123 # commas [json_text ''targ'' (mac_text (mac (dest_cfg c))), json_text ''cmd'' (ascii command),
       json_text ''login-ack'' (user c), json_text ''pwd-msg'' (password c)]"

definition extIpCmdResponseHeaderPrint :: "'d EXT_JSON_PARSER \<Rightarrow> bytes" where
  "extIpCmdResponseHeaderPrint p =
     (let ok = (p_status p = JSON_STATUS_OK)
      in 123 # commas [json_text ''targ'' (mac_text (mac (local_cfg (cfg_of p)))), json_text ''cmd'' (p_cmd p),
           json_text ''login-ack'' (if ok then ascii ''OK'' else ascii ''NOK''), json_text ''pwd-msg'' (if ok then ascii ''OK'' else p_msg p)])"

text \<open>The tag is not converted to network byte order, the length and the checksum are.\<close>

definition CMD_TAG_REQUEST :: u16 where "CMD_TAG_REQUEST = 0xa0fa"
definition CMD_TAG_RESPONSE :: u16 where "CMD_TAG_RESPONSE = 0xa0fb"

definition frame :: "bool \<Rightarrow> u16 \<Rightarrow> bytes \<Rightarrow> bytes" where
  "frame char_is_signed tag t =
     le16 tag @ le16 (flip16 (of_nat (length t + 4))) @ t @ le32 (flip32 (cmnMuxCRC32b char_is_signed t))"

text \<open>\<open>extIpCmdResponseTailCalculate\<close> for the text printed so far: the closing brace and the rest of the frame.\<close>

definition extIpCmdResponseTailCalculate :: "'d cmd_env \<Rightarrow> bytes \<Rightarrow> bool \<Rightarrow> 'd EXT_JSON_PARSER \<Rightarrow> 'd EXT_JSON_PARSER option" where
  "extIpCmdResponseTailCalculate env printed isRequest p =
     (let t = printed @ [125];
          f = frame (e_signed env) (if isRequest then CMD_TAG_REQUEST else CMD_TAG_RESPONSE) t
      in if length (p_out p) < length f then None
         else Some (p\<lparr>p_out := f @ drop (length f) (p_out p), p_outIndex := length f\<rparr>))"

definition extIpCmdResponseReply :: "'d cmd_env \<Rightarrow> 'd EXT_JSON_PARSER \<Rightarrow> 'd EXT_JSON_PARSER option" where
  "extIpCmdResponseReply env p = extIpCmdResponseTailCalculate env (extIpCmdResponseHeaderPrint p) False p"

definition dec2 :: "u8 \<Rightarrow> bytes" where
  "dec2 v = (if v < 10 then [48] else []) @ decimal (unat v)"

definition config_text :: "u8 \<times> u8 \<times> u8 \<Rightarrow> DEV_CFG \<Rightarrow> bytes" where
  "config_text ver c =
     (case ver of (major, minor, revision) \<Rightarrow>
        commas [json_text ''pName'' (ascii ''SdiOverIP-767''), json_text ''model'' (ascii (''500767-'' @ (if EXT_IS_TX c then ''TX'' else ''RX''))),
          json_text ''fwVer'' (dec2 major @ 46 # dec2 minor @ 46 # dec2 revision), json_text ''cName'' (dev_name c),
          json_text ''mac'' (mac_text (mac (local_cfg c))), json_text ''ip'' (ip4addr_ntoa (netif_addr c)),
          json_text ''mask'' (ip4addr_ntoa (ipMask c)), json_text ''gateway'' (ip4addr_ntoa (ipGateway c)),
          json_num ''isDhcp'' (flag_num (netMode c AND 1 \<noteq> 0)), json_num ''isDipOn'' (flag_num (isDipOn c \<noteq> 0)),
          json_text ''bMcIp'' (ip4addr_ntoa (ipMulticast c)),
          json_num ''RS232Baudrate'' (sint (baudRate (rs232Cfg c))), json_num ''RS232Databits'' (uint (charLength (rs232Cfg c))),
          json_text ''RS232Parity'' (extCmnStringFind CMN_STR_T_RS_PARITY (unat (parityType (rs232Cfg c)))),
          json_num ''RS232Stopbits'' (uint (stopbits (rs232Cfg c))), extIpCmdPrintMediaCfg c])"

definition data_array :: "bytes \<Rightarrow> bytes" where
  "data_array t = ascii '',\"data\":[{'' @ t @ ascii ''}]''"

definition extJsonResponsePrintConfig :: "'d cmd_env \<Rightarrow> 'd EXT_JSON_PARSER \<Rightarrow> 'd EXT_JSON_PARSER option" where
  "extJsonResponsePrintConfig env p =
     extIpCmdResponseTailCalculate env (extIpCmdResponseHeaderPrint p @ data_array (config_text (e_version env) (cfg_of p))) False p"

definition extIpCmdSendout :: "'d cmd_env \<Rightarrow> u32w \<Rightarrow> u16 \<Rightarrow> 'd EXT_JSON_PARSER \<Rightarrow> bool \<times> 'd EXT_JSON_PARSER" where
  "extIpCmdSendout env addr port p =
     (if p_outIndex p = 0 then (True, p)
      else if \<not> e_pbuf env then (False, p)
      else (True, p\<lparr>p_net := p_net p @ [(take (p_outIndex p) (p_out p), addr, port)]\<rparr>))"

subsection \<open>Who may do what\<close>

definition starts_with :: "bytes \<Rightarrow> bytes \<Rightarrow> bool" where
  "starts_with name prefix \<longleftrightarrow> take (length prefix) name = prefix"

definition extJsonUserValidate :: "'d EXT_JSON_PARSER \<Rightarrow> bool \<times> 'd EXT_JSON_PARSER" where
  "extJsonUserValidate p =
     (case extJsonParseString ''login-ack'' 16 p of
        (None, p1) \<Rightarrow> (False, p1)
      | (Some name, p1) \<Rightarrow>
          if \<not> starts_with name (user (cfg_of p1)) then (False, p1)
          else
            (case extJsonParseString ''pwd-msg'' 16 p1 of
               (None, p2) \<Rightarrow> (False, p2)
             | (Some pwd, p2) \<Rightarrow>
                 if \<not> starts_with pwd (password (cfg_of p2))
                 then (False, set_msg (39 # pwd @ 39 # ascii '' authentication failed'') p2)
                 else (True, p2)))"

definition MAC_ADDR_IS_EQUAL :: "bytes \<Rightarrow> bytes \<Rightarrow> bool" where
  "MAC_ADDR_IS_EQUAL a b \<longleftrightarrow> a ! 0 = b ! 0 \<and> a ! 1 = b ! 1 \<and> a ! 2 = b ! 2 \<and> a ! 3 = b ! 3 \<and> a ! 4 = b ! 4 \<and> a ! 5 = b ! 5"

definition MAC_ADDR_IS_BOARDCAST :: "bytes \<Rightarrow> bool" where
  "MAC_ADDR_IS_BOARDCAST a \<longleftrightarrow> a ! 0 = 0xFF \<and> a ! 1 = 0xFF \<and> a ! 4 = 0xFF \<and> a ! 5 = 0xFF"

definition MAC_ADDR_IS_NULL :: "bytes \<Rightarrow> bool" where
  "MAC_ADDR_IS_NULL a \<longleftrightarrow> a ! 0 = 0 \<and> a ! 1 = 0 \<and> a ! 4 = 0 \<and> a ! 5 = 0"

definition extCmdGetParams :: "'d cmd_env \<Rightarrow> 'd EXT_JSON_PARSER \<Rightarrow> (bool \<times> 'd EXT_JSON_PARSER) option" where
  "extCmdGetParams env p =
     (case extJsonUserValidate p of
        (False, p1) \<Rightarrow> Some (False, p1)
      | (True, p1) \<Rightarrow>
          if \<not> MAC_ADDR_IS_EQUAL (p_target p1) (mac (local_cfg (cfg_of p1))) \<and> \<not> MAC_ADDR_IS_BOARDCAST (p_target p1) \<and>
             \<not> MAC_ADDR_IS_EQUAL (p_target p1) (mac (dest_cfg (cfg_of p1)))
          then Some (False, set_msg (ascii (sq ''targ'' @ '' is not boardcast or local address'')) p1)
          else
            let (ok, a, p2) = extJsonParseIpAddress ''811Ip'' p1;
                p3 = upd_cfg (\<lambda>c. c\<lparr>ipSvr811 := a\<rparr>) p2;
                (v, p4) = extJsonParseUnsignedShort ''811Port'' p3;
                p5 = (case v of None \<Rightarrow> p4 | Some port \<Rightarrow> upd_cfg (\<lambda>c. c\<lparr>portSvr811 := port\<rparr>) p4)
            in map_option (Pair True) (extJsonResponsePrintConfig env p5))"

definition extIpCmdIsLocal :: "'d EXT_JSON_PARSER \<Rightarrow> bool \<times> 'd EXT_JSON_PARSER" where
  "extIpCmdIsLocal p =
     (case extJsonUserValidate p of
        (False, p1) \<Rightarrow> (False, p1)
      | (True, p1) \<Rightarrow>
          if \<not> MAC_ADDR_IS_EQUAL (p_target p1) (mac (local_cfg (cfg_of p1)))
          then (False, set_msg (ascii (sq ''targ'' @ '' is not my address'')) p1)
          else (True, p1))"

subsection \<open>Serial line and security\<close>

text \<open>\<open>n\<close> pairs of digits are left; what was written before an error stays written.\<close>

fun rs232_hex :: "nat \<Rightarrow> bytes \<Rightarrow> bytes \<Rightarrow> bool \<times> bytes" where
  "rs232_hex 0 str written = (True, written)"
| "rs232_hex (Suc n) str written =
     (let (ok, v) = extSysAtoInt8 str
      in if ok then rs232_hex n (drop 2 str) (written @ [v]) else (False, written))"

definition rs232SendHexStr :: "'d EXT_JSON_PARSER \<Rightarrow> bool \<times> 'd EXT_JSON_PARSER" where
  "rs232SendHexStr p =
     (let (ok, w) = rs232_hex (length (p_hexData p) div 2) (p_hexData p) (p_serial p) in (ok, p\<lparr>p_serial := w\<rparr>))"

definition not_found_msg :: "string \<Rightarrow> bytes" where
  "not_found_msg key = ascii (''No '' @ sq key @ '' is found or it is invalidate value'')"

definition exec_error :: "bytes \<Rightarrow> 'd EXT_JSON_PARSER \<Rightarrow> (bool \<times> 'd EXT_JSON_PARSER) option" where
  "exec_error m p = Some (False, param_error m p)"

definition extIpCmdSendRsData :: "'d cmd_env \<Rightarrow> 'd EXT_JSON_PARSER \<Rightarrow> (bool \<times> 'd EXT_JSON_PARSER) option" where
  "extIpCmdSendRsData env p =
     (case extIpCmdIsLocal p of
        (False, p1) \<Rightarrow> Some (False, p1)
      | (True, p1) \<Rightarrow>
     (case extJsonParseDataArray p1 of
        (False, p2) \<Rightarrow> exec_error (ascii (''No '' @ sq ''Data'' @ '' array is found'')) p2
      | (True, p2) \<Rightarrow>
     (case extJsonParseString ''hexdata'' 128 p2 of
        (None, p3) \<Rightarrow> exec_error (not_found_msg ''hexdata'') p3
      | (Some hex, p3) \<Rightarrow>
     (case extJsonParseUnsignedShort ''waitTime'' (p3\<lparr>p_hexData := hex\<rparr>) of
        (None, p4) \<Rightarrow> exec_error (not_found_msg ''waitTime'') p4
      | (Some w, p4) \<Rightarrow>
     (case extJsonParseUnsignedChar ''isFeedback'' (p4\<lparr>p_waitMs := w\<rparr>) of
        (None, p5) \<Rightarrow> exec_error (not_found_msg ''isFeedback'') p5
      | (Some fb, p5) \<Rightarrow>
     (case rs232SendHexStr (p5\<lparr>p_isFeedBack := fb\<rparr>) of
        (False, p6) \<Rightarrow> exec_error (39 # p_hexData p6 @ 39 # ascii '' is not validate when sent to RS232'') p6
      | (True, p6) \<Rightarrow> map_option (Pair True) (extIpCmdResponseReply env (p6\<lparr>p_status := JSON_STATUS_OK\<rparr>))))))))"

text \<open>The identifier is a constant, cut to the array of eight bytes; all eight are printed.\<close>

definition sc_id :: bytes where "sc_id = take 7 (ascii ''1234567890'')"

definition hex2_upper :: "u8 \<Rightarrow> bytes" where
  "hex2_upper b = map (\<lambda>c. if 97 \<le> c \<and> c \<le> 102 then c - 32 else c) (hex2 b)"

definition securityCheckId :: "'d cmd_env \<Rightarrow> 'd EXT_JSON_PARSER \<Rightarrow> 'd EXT_JSON_PARSER option" where
  "securityCheckId env p =
     (let p1 = p\<lparr>p_scID := sc_id, p_status := JSON_STATUS_OK\<rparr>
      in extIpCmdResponseTailCalculate env
           (extIpCmdResponseHeaderPrint p1 @ data_array (json_text ''get_id'' (concat (map hex2_upper (p_scID p1 @ [0]))))) False p1)"

definition extIpCmdSendMediaData :: "'d cmd_env \<Rightarrow> bool \<Rightarrow> 'd EXT_JSON_PARSER \<Rightarrow> (bool \<times> 'd EXT_JSON_PARSER) option" where
  "extIpCmdSendMediaData env isRequest p =
     (let p1 = p\<lparr>p_scID := sc_id, p_status := JSON_STATUS_OK\<rparr>; c = cfg_of p1
      in map_option (\<lambda>q. extIpCmdSendout env (ipSvr811 c) (portSvr811 c) q)
           (extIpCmdResponseTailCalculate env
              (extIpCmdRequestHeaderPrint ''set_param'' c @ data_array (extIpCmdPrintMediaCfg c)) isRequest p1))"

definition extIpCmdSecurityCheck :: "'d cmd_env \<Rightarrow> 'd EXT_JSON_PARSER \<Rightarrow> (bool \<times> 'd EXT_JSON_PARSER) option" where
  "extIpCmdSecurityCheck env p =
     (case extIpCmdSendMediaData env False p of
        None \<Rightarrow> None
      | Some (done0, p0) \<Rightarrow>
     (case extIpCmdIsLocal p0 of
        (False, p1) \<Rightarrow> Some (False, p1)
      | (True, p1) \<Rightarrow>
     (case extJsonParseDataArray p1 of
        (False, p2) \<Rightarrow> exec_error (ascii (''No '' @ sq ''Data'' @ '' array is found'')) p2
      | (True, p2) \<Rightarrow>
     (case extJsonParseString ''set_key'' 32 p2 of
        (Some key, p3) \<Rightarrow> map_option (Pair True) (extIpCmdResponseReply env (p3\<lparr>p_scKey := key, p_status := JSON_STATUS_OK\<rparr>))
      | (None, p3) \<Rightarrow>
     (case extJsonParseString ''get_status'' 32 p3 of
        (Some key, p4) \<Rightarrow> map_option (Pair True) (extIpCmdResponseReply env (p4\<lparr>p_scKey := key, p_status := JSON_STATUS_OK\<rparr>))
      | (None, p4) \<Rightarrow>
     (case extJsonParseString ''get_id'' 32 p4 of
        (None, p5) \<Rightarrow> exec_error (ascii (''No validate sub-command is found for '' @ sq ''security_check'')) p5
      | (Some key, p5) \<Rightarrow> map_option (Pair True) (securityCheckId env (p5\<lparr>p_scKey := key\<rparr>))))))))"

subsection \<open>Changing the configuration\<close>

datatype SETUP_TYPE = SETUP_TYPE_SYSTEM | SETUP_TYPE_NAME | SETUP_TYPE_RS232 | SETUP_TYPE_PROTOCOL | SETUP_TYPE_MEDIA | SETUP_TYPE_CONNECT

text \<open>A field of a request that is zero was not given. The result tells whether the field of the device changes, and its value.\<close>

definition checkIntegerField :: "u32w \<Rightarrow> u32w \<Rightarrow> bool \<times> u32w" where
  "checkIntegerField dest src = (if src \<noteq> 0 \<and> src \<noteq> dest then (True, src) else (False, dest))"

definition checkShortField :: "u16 \<Rightarrow> u16 \<Rightarrow> bool \<times> u16" where
  "checkShortField dest src = (if src \<noteq> 0 \<and> src \<noteq> dest then (True, src) else (False, dest))"

definition checkBoolField :: "bool \<Rightarrow> u8 \<Rightarrow> u8 \<Rightarrow> bool \<times> u8" where
  "checkBoolField isBool dest src =
     (if src \<noteq> 0 then
        (if isBool then (if dest \<noteq> src - 1 then (True, src - 1) else (False, dest))
         else (if dest \<noteq> src then (True, src) else (False, dest)))
      else (False, dest))"

text \<open>One field of a record \<open>'r\<close>, by its selector and its update, from the record \<open>x\<close> that was received.\<close>

definition setup_field :: "('w \<Rightarrow> 'w \<Rightarrow> bool \<times> 'w) \<Rightarrow> ('r \<Rightarrow> 'w) \<Rightarrow> (('w \<Rightarrow> 'w) \<Rightarrow> 'r \<Rightarrow> 'r) \<Rightarrow> SETUP_TYPE \<Rightarrow> 'r \<Rightarrow> 'r \<times> SETUP_TYPE set \<Rightarrow> 'r \<times> SETUP_TYPE set" where
  "setup_field check get upd t x rS =
     (case check (get (fst rS)) (get x) of (changed, v) \<Rightarrow>
        if changed then (upd (\<lambda>_. v) (fst rS), insert t (snd rS)) else rS)"

fun setup_fields :: "('r \<Rightarrow> 'r \<times> SETUP_TYPE set \<Rightarrow> 'r \<times> SETUP_TYPE set) list \<Rightarrow> 'r \<Rightarrow> 'r \<times> SETUP_TYPE set \<Rightarrow> 'r \<times> SETUP_TYPE set" where
  "setup_fields [] x rS = rS"
| "setup_fields (f # fs) x rS = setup_fields fs x (f x rS)"

definition compareRs232Config :: "MuxRs232Cfg \<Rightarrow> MuxRs232Cfg \<times> SETUP_TYPE set \<Rightarrow> MuxRs232Cfg \<times> SETUP_TYPE set" where
  "compareRs232Config =
     setup_fields
       [setup_field checkIntegerField baudRate baudRate_update SETUP_TYPE_RS232,
        setup_field (checkBoolField False) charLength charLength_update SETUP_TYPE_RS232,
        setup_field (checkBoolField False) stopbits stopbits_update SETUP_TYPE_RS232,
        setup_field (checkBoolField True) parityType parityType_update SETUP_TYPE_RS232]"

definition compareMediaCfg :: "MuxRunTimeParam \<Rightarrow> MuxRunTimeParam \<times> SETUP_TYPE set \<Rightarrow> MuxRunTimeParam \<times> SETUP_TYPE set" where
  "compareMediaCfg =
     setup_fields
       [setup_field checkShortField vWidth vWidth_update SETUP_TYPE_MEDIA,
        setup_field checkShortField vHeight vHeight_update SETUP_TYPE_MEDIA,
        setup_field (checkBoolField False) vFrameRate vFrameRate_update SETUP_TYPE_MEDIA,
        setup_field (checkBoolField False) vDepth vDepth_update SETUP_TYPE_MEDIA,
        setup_field (checkBoolField True) vColorSpace vColorSpace_update SETUP_TYPE_MEDIA,
        setup_field (checkBoolField True) vIsInterlaced vIsInterlaced_update SETUP_TYPE_MEDIA,
        setup_field (checkBoolField True) vIsSegmented vIsSegmented_update SETUP_TYPE_MEDIA,
        setup_field checkShortField aSampleRate aSampleRate_update SETUP_TYPE_MEDIA,
        setup_field (checkBoolField False) aChannels aChannels_update SETUP_TYPE_MEDIA,
        setup_field (checkBoolField False) aDepth aDepth_update SETUP_TYPE_MEDIA]"

definition compare_ports :: "EXT_VIDEO_CONFIG \<Rightarrow> EXT_VIDEO_CONFIG \<times> SETUP_TYPE set \<Rightarrow> EXT_VIDEO_CONFIG \<times> SETUP_TYPE set" where
  "compare_ports =
     setup_fields
       [setup_field checkShortField vport vport_update SETUP_TYPE_PROTOCOL,
        setup_field checkShortField aport aport_update SETUP_TYPE_PROTOCOL,
        setup_field checkShortField dport dport_update SETUP_TYPE_PROTOCOL,
        setup_field checkShortField sport sport_update SETUP_TYPE_PROTOCOL]"

text \<open>The configuration goes to the FPGA.\<close>

definition config_fpga :: "'d cmd_env \<Rightarrow> 'd EXT_JSON_PARSER \<Rightarrow> 'd EXT_JSON_PARSER" where
  "config_fpga env p =
     (let (calls, d) = extFpgaConfig (e_dev env) (e_junk env) (e_igmp_flag env) (e_igmp env) (cfg_of p) (m_fpga (p_media p))
      in p\<lparr>p_igmp := p_igmp p @ calls, p_media := (p_media p)\<lparr>m_fpga := d\<rparr>\<rparr>)"

definition group_mgr :: "'d cmd_env \<Rightarrow> u32w \<Rightarrow> bool \<Rightarrow> 'd EXT_JSON_PARSER \<Rightarrow> 'd EXT_JSON_PARSER" where
  "group_mgr env a isAdd p = p\<lparr>p_igmp := p_igmp p @ snd (extLwipGroupMgr (e_igmp_flag env) (e_igmp env) a isAdd)\<rparr>"

definition extCmnNewDestIpEffective :: "'d cmd_env \<Rightarrow> u32w \<Rightarrow> 'd EXT_JSON_PARSER \<Rightarrow> 'd EXT_JSON_PARSER" where
  "extCmnNewDestIpEffective env newIp p =
     (let p1 = (if EXT_IS_TX (cfg_of p) then p else group_mgr env (ip (dest_cfg (cfg_of p))) False p);
          p2 = upd_cfg (\<lambda>c. c\<lparr>dest_cfg := (dest_cfg c)\<lparr>ip := newIp\<rparr>\<rparr>) p1;
          p3 = (if EXT_IS_TX (cfg_of p2) then p2 else upd_cfg (\<lambda>c. snd (extTxMulticastIP2Mac c)) p2)
      in config_fpga env p3)"

type_synonym 'd setup_state = "'d EXT_JSON_PARSER \<times> SETUP_TYPE set"

definition setup_dhcp :: "DEV_CFG \<Rightarrow> 'd setup_state \<Rightarrow> 'd setup_state" where
  "setup_dhcp rx = (\<lambda>(p, S).
     if netMode rx \<noteq> 0 \<and> netMode (cfg_of p) \<noteq> netMode rx - 1
     then (upd_cfg (\<lambda>c. c\<lparr>netMode := (if netMode rx - 1 = 0 then netMode c AND NOT 1 else netMode c OR 1)\<rparr>) p, insert SETUP_TYPE_SYSTEM S)
     else (p, S))"

text \<open>The addresses; they count as changed whenever they are given.\<close>

definition setup_address :: "u32w \<Rightarrow> (DEV_CFG \<Rightarrow> DEV_CFG) \<Rightarrow> 'd setup_state \<Rightarrow> 'd setup_state" where
  "setup_address a f = (\<lambda>(p, S). if a \<noteq> IPADDR_NONE then (upd_cfg f p, insert SETUP_TYPE_SYSTEM S) else (p, S))"

definition setup_mac :: "DEV_CFG \<Rightarrow> 'd setup_state \<Rightarrow> 'd setup_state" where
  "setup_mac rx = (\<lambda>(p, S).
     if \<not> MAC_ADDR_IS_NULL (mac (local_cfg rx)) \<and> \<not> MAC_ADDR_IS_EQUAL (mac (local_cfg (cfg_of p))) (mac (local_cfg rx))
     then (upd_cfg (\<lambda>c. c\<lparr>local_cfg := (local_cfg c)\<lparr>mac := mac (local_cfg rx)\<rparr>, isMacConfiged := EXT_TRUE\<rparr>) p, insert SETUP_TYPE_SYSTEM S)
     else (p, S))"

definition setup_name :: "DEV_CFG \<Rightarrow> 'd setup_state \<Rightarrow> 'd setup_state" where
  "setup_name rx = (\<lambda>(p, S).
     if dev_name rx \<noteq> [] \<and> \<not> is_string_equal (dev_name (cfg_of p)) (dev_name rx)
     then (upd_cfg (\<lambda>c. c\<lparr>dev_name := take 31 (dev_name rx)\<rparr>) p, insert SETUP_TYPE_SYSTEM S)
     else (p, S))"

definition setup_dip :: "'d cmd_env \<Rightarrow> DEV_CFG \<Rightarrow> 'd setup_state \<Rightarrow> 'd setup_state" where
  "setup_dip env rx = (\<lambda>(p, S).
     case checkBoolField True (isDipOn (cfg_of p)) (isDipOn rx) of (changed, v) \<Rightarrow>
       if changed
       then (let p1 = upd_cfg (\<lambda>c. c\<lparr>isDipOn := v\<rparr>) p
             in (if isDipOn (cfg_of p1) = 0 then extCmnNewDestIpEffective env (ipMulticast (cfg_of p1)) p1 else p1, insert SETUP_TYPE_SYSTEM S))
       else (p, S))"

definition compareSystemCfg :: "'d cmd_env \<Rightarrow> DEV_CFG \<Rightarrow> 'd setup_state \<Rightarrow> 'd setup_state" where
  "compareSystemCfg env rx st =
     setup_dip env rx (setup_name rx (setup_mac rx
       (setup_address (ipGateway rx) (\<lambda>c. c\<lparr>ipGateway := ipGateway rx\<rparr>)
         (setup_address (ipMask rx) (\<lambda>c. c\<lparr>ipMask := ipMask rx\<rparr>)
           (setup_address (ip (local_cfg rx)) (\<lambda>c. c\<lparr>local_cfg := (local_cfg c)\<lparr>ip := ip (local_cfg rx)\<rparr>\<rparr>)
             (setup_dhcp rx st))))))"

definition setup_mcast :: "DEV_CFG \<Rightarrow> 'd setup_state \<Rightarrow> 'd setup_state" where
  "setup_mcast rx = (\<lambda>(p, S).
     case checkBoolField True (isMCast (cfg_of p)) (isMCast rx) of (changed, v) \<Rightarrow>
       if changed then (upd_cfg (\<lambda>c. c\<lparr>isMCast := v\<rparr>) p, insert SETUP_TYPE_PROTOCOL S) else (p, S))"

definition setup_group :: "'d cmd_env \<Rightarrow> DEV_CFG \<Rightarrow> 'd setup_state \<Rightarrow> 'd setup_state" where
  "setup_group env rx = (\<lambda>(p, S).
     if ip (dest_cfg rx) \<noteq> IPADDR_NONE \<and> ip (dest_cfg rx) \<noteq> ipMulticast (cfg_of p)
     then (let p1 = upd_cfg (\<lambda>c. c\<lparr>ipMulticast := ip (dest_cfg rx)\<rparr>) p
           in (if isDipOn (cfg_of p1) = 0 then extCmnNewDestIpEffective env (ipMulticast (cfg_of p1)) p1 else p1, insert SETUP_TYPE_SYSTEM S))
     else (p, S))"

text \<open>A comparison of one part of the configuration.\<close>

definition setup_part :: "(DEV_CFG \<Rightarrow> 'r) \<Rightarrow> (('r \<Rightarrow> 'r) \<Rightarrow> DEV_CFG \<Rightarrow> DEV_CFG) \<Rightarrow> ('r \<Rightarrow> 'r \<times> SETUP_TYPE set \<Rightarrow> 'r \<times> SETUP_TYPE set) \<Rightarrow> DEV_CFG \<Rightarrow> 'd setup_state \<Rightarrow> 'd setup_state" where
  "setup_part get upd compare rx = (\<lambda>(p, S).
     let (r, S1) = compare (get rx) (get (cfg_of p), S) in (upd_cfg (upd (\<lambda>_. r)) p, S1))"

definition compareProtocolConfig :: "'d cmd_env \<Rightarrow> DEV_CFG \<Rightarrow> 'd setup_state \<Rightarrow> 'd setup_state" where
  "compareProtocolConfig env rx st = setup_part dest_cfg dest_cfg_update compare_ports rx (setup_group env rx (setup_mcast rx st))"

definition extJsonIsResponse :: "'d cmd_env \<Rightarrow> 'd EXT_JSON_PARSER \<Rightarrow> bool \<times> 'd EXT_JSON_PARSER" where
  "extJsonIsResponse env p =
     (case extJsonParseString ''login-ack'' 16 p of
        (None, p1) \<Rightarrow> (False, p1)
      | (Some name, p1) \<Rightarrow>
          if \<not> starts_with name (ascii ''OK'') \<and> \<not> starts_with name (ascii ''NOK'') then (False, p1)
          else (True, p1\<lparr>p_outIndex := 0, p_media := snd (extMediaPostEvent (e_event env) EXT_MEDIA_EVENT_ACK (p_media p1))\<rparr>))"

definition extCmdConnect :: "'d cmd_env \<Rightarrow> u8 \<Rightarrow> 'd EXT_JSON_PARSER \<Rightarrow> 'd EXT_JSON_PARSER" where
  "extCmdConnect env isStart p =
     (if EXT_IS_TX (cfg_of p)
      then p\<lparr>p_media := (p_media p)\<lparr>m_fpga := extFpgaEnable (e_dev env) (isStart \<noteq> 0) (m_fpga (p_media p))\<rparr>\<rparr>
      else if ip_is_multicast (ip (dest_cfg (cfg_of p))) then group_mgr env (ip (dest_cfg (cfg_of p))) (isStart \<noteq> 0) p
      else p)"

definition save_cfg :: "'d EXT_JSON_PARSER \<Rightarrow> 'd EXT_JSON_PARSER" where
  "save_cfg p = p\<lparr>p_saved := p_saved p @ [cfg_of p]\<rparr>"

text \<open>What the kinds of changes lead to, after the reply was written.\<close>

definition setup_effects :: "'d cmd_env \<Rightarrow> DEV_CFG \<Rightarrow> 'd setup_state \<Rightarrow> 'd EXT_JSON_PARSER" where
  "setup_effects env rx = (\<lambda>(p, S).
     let p1 = (if SETUP_TYPE_SYSTEM \<in> S then save_cfg p else p);
         p2 = (if SETUP_TYPE_RS232 \<in> S \<or> SETUP_TYPE_NAME \<in> S
               then (let q = save_cfg p1 in if SETUP_TYPE_RS232 \<in> S then q\<lparr>p_serialCfg := p_serialCfg q @ [rs232Cfg (cfg_of q)]\<rparr> else q)
               else p1);
         p3 = (if SETUP_TYPE_PROTOCOL \<in> S then config_fpga env (save_cfg p2) else p2);
         p4 = (if SETUP_TYPE_MEDIA \<in> S
               then p3\<lparr>p_media := (p_media p3)\<lparr>m_fpga := extFpgaConfigParams (e_dev env) (runtime (cfg_of p3)) (m_fpga (p_media p3))\<rparr>\<rparr>
               else p3)
     in if isConnect (runtime rx) \<noteq> 0 then extCmdConnect env (isConnect (runtime rx) - 1) p4 else p4)"

definition setup_compare :: "'d cmd_env \<Rightarrow> DEV_CFG \<Rightarrow> 'd EXT_JSON_PARSER \<Rightarrow> 'd setup_state" where
  "setup_compare env rx p =
     setup_part runtime runtime_update compareMediaCfg rx
       (compareProtocolConfig env rx
         (setup_part rs232Cfg rs232Cfg_update compareRs232Config rx
           (compareSystemCfg env rx (p, {}))))"

definition extIpCmdSetupParams :: "'d cmd_env \<Rightarrow> 'd EXT_JSON_PARSER \<Rightarrow> (bool \<times> 'd EXT_JSON_PARSER) option" where
  "extIpCmdSetupParams env p =
     (case extJsonIsResponse env p of
        (True, p1) \<Rightarrow> Some (True, p1)
      | (False, p1) \<Rightarrow>
     (case extIpCmdIsLocal p1 of
        (False, p2) \<Rightarrow> Some (False, p2)
      | (True, p2) \<Rightarrow>
     (case extJsonRequestParse p2 (blank_cfg 0) of
        Inl p3 \<Rightarrow> Some (False, p3\<lparr>p_status := JSON_STATUS_PARSE_PARAM_ERROR\<rparr>)
      | Inr (p3, rx) \<Rightarrow>
          let (p4, S) = setup_compare env rx p3
          in map_option (\<lambda>p5. (True, setup_effects env rx (p5, S))) (extJsonResponsePrintConfig env p4))))"

subsection \<open>Dispatch\<close>

datatype ipcmd = CMD_GET_PARAMS | CMD_SET_PARAMS | CMD_SEND_RS232 | CMD_SECURITY_CHECK

definition extCmdTable :: "(string \<times> ipcmd) list" where
  "extCmdTable =
     [(''get_param'', CMD_GET_PARAMS), (''set_param'', CMD_SET_PARAMS), (''send_data_rs232'', CMD_SEND_RS232), (''security_check'', CMD_SECURITY_CHECK)]"

fun call_cmd :: "'d cmd_env \<Rightarrow> ipcmd \<Rightarrow> 'd EXT_JSON_PARSER \<Rightarrow> (bool \<times> 'd EXT_JSON_PARSER) option" where
  "call_cmd env CMD_GET_PARAMS p = extCmdGetParams env p"
| "call_cmd env CMD_SET_PARAMS p = extIpCmdSetupParams env p"
| "call_cmd env CMD_SEND_RS232 p = extIpCmdSendRsData env p"
| "call_cmd env CMD_SECURITY_CHECK p = extIpCmdSecurityCheck env p"

definition cmd_matches :: "bytes \<Rightarrow> string \<Rightarrow> bool" where
  "cmd_matches command entry \<longleftrightarrow> starts_with (map to_lower command) (map to_lower (ascii entry))"

definition extJsonHandle :: "'d cmd_env \<Rightarrow> 'd EXT_JSON_PARSER \<Rightarrow> (bool \<times> 'd EXT_JSON_PARSER) option" where
  "extJsonHandle env p =
     (case find (\<lambda>(name, h). cmd_matches (p_cmd p) name) extCmdTable of
        Some (name, h) \<Rightarrow>
          (case call_cmd env h p of
             None \<Rightarrow> None
           | Some (ok, q) \<Rightarrow> Some (ok, if ok then q else q\<lparr>p_status := JSON_STATUS_PARSE_PARAM_ERROR\<rparr>))
      | None \<Rightarrow> Some (False, param_error (ascii ''No command '' @ [39] @ p_cmd p @ [39] @ ascii '' is found!'') p))"

text \<open>\<open>%x\<close> of a number.\<close>

fun hex_text :: "nat \<Rightarrow> bytes" where
  "hex_text n = (if n < 16 then [hex_digit n] else hex_text (n div 16) @ [hex_digit (n mod 16)])"

declare hex_text.simps [simp del]

definition fail_reply :: "'d cmd_env \<Rightarrow> 'd EXT_JSON_PARSER \<Rightarrow> (bool \<times> 'd EXT_JSON_PARSER) option" where
  "fail_reply env p = map_option (Pair False) (extIpCmdResponseReply env p)"

text \<open>The JSON text is checked and executed; every failure is answered.\<close>

definition json_command :: "'d cmd_env \<Rightarrow> bytes \<Rightarrow> nat \<Rightarrow> 'd EXT_JSON_PARSER \<Rightarrow> (bool \<times> 'd EXT_JSON_PARSER) option" where
  "json_command env js len p =
     (if length js < len then None
      else
        let (ok, p1) = extJsonRequestParseCommand js len (p\<lparr>p_msg := []\<rparr>)
        in if \<not> ok then fail_reply env p1
           else
             (case extJsonHandle env p1 of
                None \<Rightarrow> None
              | Some (True, p2) \<Rightarrow> Some (True, p2)
              | Some (False, p2) \<Rightarrow> fail_reply env p2))"

text \<open>The length in the header is converted in place.\<close>

definition host_length :: "'d EXT_JSON_PARSER \<Rightarrow> 'd EXT_JSON_PARSER" where
  "host_length p = p\<lparr>p_read := take 2 (p_read p) @ le16 (flip16 (un16 (get_bytes 2 2 (p_read p)))) @ drop 4 (p_read p)\<rparr>"

text \<open>
  \<open>extCmdPaserHandler\<close> on the buffer \<open>p_read\<close>; \<open>datagram_len\<close> is the number of bytes received. The length of the text for the checksum is the one in the
  header, the length of the text for the tokenizer is the one of the datagram.
\<close>

definition extCmdPaserHandler :: "'d cmd_env \<Rightarrow> nat \<Rightarrow> 'd EXT_JSON_PARSER \<Rightarrow> (bool \<times> 'd EXT_JSON_PARSER) option" where
  "extCmdPaserHandler env datagram_len p0 =
     (let buf = p_read p0;
          p = host_length p0;
          tag = un16 (get_bytes 0 2 buf);
          len = unat (flip16 (un16 (get_bytes 2 2 buf)))
      in if tag \<noteq> CMD_TAG_REQUEST
         then fail_reply env ((set_msg (ascii ''Tag of command is wrong:0x'' @ hex_text (unat tag)) p)\<lparr>p_status := JSON_STATUS_TAG_ERROR\<rparr>)
         else if length buf < len + 4 then None
         else
           let crcReceived = un32 (get_bytes len 4 buf);
               crcDecoded = flip32 (cmnMuxCRC32b (e_signed env) (get_bytes 4 (len - 4) buf))
           in if crcReceived \<noteq> crcDecoded
              then fail_reply env
                ((set_msg (ascii ''CRC of command is wrong:received CRC: 0x'' @ hex_text (unat crcReceived) @ ascii '', Decoded CRC:0x'' @ hex_text (unat crcDecoded)) p)
                  \<lparr>p_status := JSON_STATUS_CRC_ERROR\<rparr>)
              else json_command env (drop 4 buf) (nat ((int datagram_len - 8) mod 65536)) p)"

text \<open>One round of the thread: the datagram is copied to the buffer, handled, and the reply goes back to the sender.\<close>

definition extUdpCmdThread :: "'d cmd_env \<Rightarrow> bytes \<Rightarrow> u32w \<Rightarrow> u16 \<Rightarrow> 'd EXT_JSON_PARSER \<Rightarrow> 'd EXT_JSON_PARSER option" where
  "extUdpCmdThread env payload addr port p =
     (let n = min (length payload) (length (p_read p));
          p1 = p\<lparr>p_read := take n payload @ drop n (p_read p)\<rparr>
      in map_option (\<lambda>(ok, q). snd (extIpCmdSendout env addr port q)) (extCmdPaserHandler env n p1))"

subsection \<open>Frames\<close>

lemma length_frame [simp]: "length (frame g tag t) = length t + 8"
  by (simp add: frame_def le16_def le32_def)

text \<open>The checks of the handler, for a buffer that starts with a header of the length of \<open>t\<close>, then \<open>t\<close> and a checksum.\<close>

lemma handler_checks:
  assumes "p_read p = le16 CMD_TAG_REQUEST @ le16 (flip16 (of_nat (length t + 4))) @ t @ le32 (flip32 crc) @ rest" "length t + 4 < 65536"
  shows "extCmdPaserHandler env (length t + 8) p =
    (if crc = cmnMuxCRC32b (e_signed env) t then json_command env (t @ le32 (flip32 crc) @ rest) (length t) (host_length p)
     else fail_reply env
       ((set_msg (ascii ''CRC of command is wrong:received CRC: 0x'' @ hex_text (unat (flip32 crc)) @ ascii '', Decoded CRC:0x'' @
           hex_text (unat (flip32 (cmnMuxCRC32b (e_signed env) t)))) (host_length p))\<lparr>p_status := JSON_STATUS_CRC_ERROR\<rparr>))"
proof -
  let ?b = "p_read p" and ?c = "cmnMuxCRC32b (e_signed env) t"
  have tag: "un16 (get_bytes 0 2 ?b) = CMD_TAG_REQUEST"
    using un16_le16 [of CMD_TAG_REQUEST] by (simp add: assms(1) get_bytes_def le16_def)
  have "flip16 (un16 (get_bytes 2 2 ?b)) = of_nat (length t + 4)"
    using un16_le16 [of "flip16 (of_nat (length t + 4))"] flip16_flip16 [of "of_nat (length t + 4)"] by (simp add: assms(1) get_bytes_def le16_def)
  moreover have "unat (of_nat (length t + 4) :: u16) = length t + 4" using assms(2) by (simp only: unat_of_nat take_bit_nat_eq_self_iff) simp
  ultimately have len: "unat (flip16 (un16 (get_bytes 2 2 ?b))) = length t + 4" by simp
  have l: "length ?b = length t + 8 + length rest" by (simp add: assms(1) le16_def le32_def)
  have rest: "drop 4 ?b = t @ le32 (flip32 crc) @ rest" by (simp add: assms(1) le16_def)
  have "drop (length t) (drop 4 ?b) = le32 (flip32 crc) @ rest" unfolding rest by simp
  then have "get_bytes (length t + 4) 4 ?b = le32 (flip32 crc)" by (simp add: get_bytes_def le32_def)
  then have crc: "un32 (get_bytes (length t + 4) 4 ?b) = flip32 crc" by (simp add: un32_le32)
  have body: "get_bytes 4 (length t + 4 - 4) ?b = t" by (simp add: assms(1) get_bytes_def le16_def)
  have eq: "flip32 crc = flip32 ?c \<longleftrightarrow> crc = ?c" by (metis flip32_flip32)
  have n: "nat ((int (length t + 8) - 8) mod 65536) = length t" using assms(2) by (simp add: nat_mod_distrib)
  show ?thesis
    unfolding extCmdPaserHandler_def Let_def tag len crc body rest n using l eq by simp
qed

text \<open>
  C36: What one device sends as a request, another accepts: the handler passes exactly the text that was printed to the JSON parser, whatever
  the buffer holds behind it.
\<close>

theorem command_frame_accepted:
  assumes "extIpCmdResponseTailCalculate env printed True sender = Some s" "length (p_out sender) \<le> 2048"
    "p_read p = take (p_outIndex s) (p_out s) @ rest" "e_signed env' = e_signed env"
  shows "let t = printed @ [125]
         in extCmdPaserHandler env' (p_outIndex s) p =
              json_command env' (t @ le32 (flip32 (cmnMuxCRC32b (e_signed env) t)) @ rest) (length t) (host_length p)"
proof -
  let ?t = "printed @ [125]" and ?f = "frame (e_signed env) CMD_TAG_REQUEST (printed @ [125])"
  have s: "s = sender\<lparr>p_out := ?f @ drop (length ?f) (p_out sender), p_outIndex := length ?f\<rparr>" "length ?f \<le> length (p_out sender)"
    using assms(1) by (auto simp: extIpCmdResponseTailCalculate_def Let_def split: if_splits)
  have "take (p_outIndex s) (p_out s) = ?f" using s(2) by (simp add: s(1))
  then have r: "p_read p = le16 CMD_TAG_REQUEST @ le16 (flip16 (of_nat (length ?t + 4))) @ ?t @ le32 (flip32 (cmnMuxCRC32b (e_signed env) ?t)) @ rest"
    using assms(3) by (simp add: frame_def)
  have "length ?t + 4 < 65536" "p_outIndex s = length ?t + 8" using s assms(2) by simp_all
  with handler_checks [OF r this(1), of env'] assms(4) show ?thesis by (simp only: Let_def simp_thms if_True)
qed

subsection \<open>Lengths of replies\<close>

lemma length_int_text:
  "length (int_text (uint (w8 :: u8))) \<le> 3" "length (int_text (uint (w16 :: u16))) \<le> 5" "length (int_text (sint (w32 :: u32w))) \<le> 11"
  "length (int_text (flag_num b)) = 1"
proof -
  have u: "length (int_text (int n)) \<le> k" if "n < 10 ^ k" "0 < k" for n k
    using length_decimal_le [OF that] by (simp add: int_text_def)
  have "unat w8 < 10 ^ 3" "unat w16 < 10 ^ 5"
    using unsigned_less [of w8, where ?'a = nat] unsigned_less [of w16, where ?'a = nat] by simp_all
  from u [OF this(1)] u [OF this(2)] show "length (int_text (uint w8)) \<le> 3" "length (int_text (uint w16)) \<le> 5" by simp_all
  have "- (2 ^ 31) \<le> sint w32" "sint w32 < 2 ^ 31" using sint_ge [of w32] sint_lt [of w32] by simp_all
  then have "nat (- sint w32) < 10 ^ 10" "nat (sint w32) < 10 ^ 10" by simp_all
  from length_decimal_le [OF this(1)] length_decimal_le [OF this(2)] show "length (int_text (sint w32)) \<le> 11"
    by (simp add: int_text_def)
  show "length (int_text (flag_num b)) = 1" by (simp add: flag_num_def int_text_def decimal_small)
qed

lemma length_ascii [simp]: "length (ascii s) = length s"
  by (simp add: ascii_def)

lemma length_dec2: "length (dec2 v) \<le> 4"
proof -
  have "unat v < 10 ^ 3" using unsigned_less [of v, where ?'a = nat] by simp
  from length_decimal_le [OF this] show ?thesis by (simp add: dec2_def)
qed

lemma length_mac_text: "length m = 6 \<Longrightarrow> length (mac_text m) = 17"
proof -
  assume "length m = 6"
  moreover have "length (concat (map (\<lambda>b. 58 # hex2 b) l)) = 3 * length l" for l by (induction l) auto
  ultimately show ?thesis by (simp add: mac_text_def)
qed

lemma find_in_set: "find P xs = Some x \<Longrightarrow> x \<in> set xs"
  by (induction xs) (auto split: if_splits)

lemma length_string_find: "length (extCmnStringFind t n) \<le> 19"
proof -
  have "list_all (\<lambda>(k, n). length n \<le> 11) ipcmdStringRsParities" "list_all (\<lambda>(k, n). length n \<le> 11) videoColorSpaces"
    by (simp_all add: ipcmdStringRsParities_def videoColorSpaces_def)
  then show ?thesis
    by (cases t) (fastforce simp: extCmnStringFind_def list_all_iff split: option.splits prod.splits dest: find_in_set)+
qed

lemma length_ntoa: "length (ip4addr_ntoa a) \<le> 15"
  using ntoa_length [of a] by (simp add: ip4addr_ntoa_def ip4addr_ntoa_r_def)

lemma length_json [simp]:
  "length (json_text key t) = length key + length t + 5" "length (json_num key n) = length key + length (int_text n) + 3"
  by (simp_all add: json_text_def json_num_def)

definition text_ok :: "DEV_CFG \<Rightarrow> bool" where
  "text_ok c \<longleftrightarrow> length (user c) \<le> 15 \<and> length (password c) \<le> 15 \<and> length (dev_name c) \<le> 31 \<and> length (mac (local_cfg c)) = 6 \<and> length (mac (dest_cfg c)) = 6"

lemma length_media_text: "length (extIpCmdPrintMediaCfg c) \<le> 300"
  using length_ntoa [of "ip (dest_cfg c)"] length_string_find [of CMN_STR_T_V_COLORSPACE "unat (vColorSpace (runtime c))"]
    length_int_text(4) [of "isMCast c \<noteq> 0"]
    length_int_text(2) [of "vport (dest_cfg c)"] length_int_text(2) [of "aport (dest_cfg c)"] length_int_text(2) [of "dport (dest_cfg c)"]
    length_int_text(2) [of "sport (dest_cfg c)"] length_int_text(2) [of "vWidth (runtime c)"] length_int_text(2) [of "vHeight (runtime c)"]
    length_int_text(1) [of "vFrameRate (runtime c)"] length_int_text(1) [of "vDepth (runtime c)"] length_int_text(1) [of "vIsSegmented (runtime c)"]
    length_int_text(2) [of "aSampleRate (runtime c)"] length_int_text(1) [of "aDepth (runtime c)"] length_int_text(1) [of "aChannels (runtime c)"]
    length_int_text(1) [of "isConnect (runtime c)"]
  unfolding extIpCmdPrintMediaCfg_def commas.simps length_append list.size length_json by simp

definition dev_ok :: "'d EXT_JSON_PARSER \<Rightarrow> bool" where
  "dev_ok p \<longleftrightarrow> length (p_out p) = 2048 \<and> length (p_msg p) \<le> 63 \<and> length (p_cmd p) \<le> 31 \<and> length (p_target p) = 6 \<and> text_ok (cfg_of p)"

lemma length_response_header: "dev_ok p \<Longrightarrow> length (extIpCmdResponseHeaderPrint p) \<le> 200"
  by (simp add: extIpCmdResponseHeaderPrint_def Let_def dev_ok_def text_ok_def length_mac_text)

lemma length_request_header: "text_ok c \<Longrightarrow> length k \<le> 32 \<Longrightarrow> length (extIpCmdRequestHeaderPrint k c) \<le> 200"
  by (simp add: extIpCmdRequestHeaderPrint_def Let_def text_ok_def length_mac_text)

lemma length_config_text:
  assumes "text_ok c"
  shows "length (config_text v c) \<le> 1000"
proof -
  obtain a b d where v: "v = (a, b, d)" by (cases v)
  have "length (mac_text (mac (local_cfg c))) = 17" "length (dev_name c) \<le> 31" using assms by (simp_all add: text_ok_def length_mac_text)
  then show ?thesis
    using length_dec2 [of a] length_dec2 [of b] length_dec2 [of d] length_ntoa [of "netif_addr c"] length_ntoa [of "ipMask c"] length_ntoa [of "ipGateway c"]
      length_ntoa [of "ipMulticast c"] length_int_text(4) [of "netMode c AND 1 \<noteq> 0"] length_int_text(4) [of "isDipOn c \<noteq> 0"]
      length_int_text(3) [of "baudRate (rs232Cfg c)"] length_int_text(1) [of "charLength (rs232Cfg c)"] length_int_text(1) [of "stopbits (rs232Cfg c)"]
      length_string_find [of CMN_STR_T_RS_PARITY "unat (parityType (rs232Cfg c))"] length_media_text [of c]
    unfolding config_text_def v prod.case commas.simps length_append list.size length_json length_ascii by simp
qed

subsection \<open>Nothing overruns\<close>

lemma tail_result:
  assumes "extIpCmdResponseTailCalculate env printed isRequest p = Some q"
  shows "p_media q = p_media p" "p_json q = p_json p" "p_jsmn q = p_jsmn p" "p_target q = p_target p" "p_cmd q = p_cmd p" "p_saved q = p_saved p"
    "p_igmp q = p_igmp p" "p_serial q = p_serial p" "p_serialCfg q = p_serialCfg p" "p_read q = p_read p" "p_net q = p_net p" "cfg_of q = cfg_of p"
    "p_msg q = p_msg p" "p_status q = p_status p" "length (p_out q) = length (p_out p)" "p_outIndex q \<le> length (p_out q)"
  using assms by (auto simp: extIpCmdResponseTailCalculate_def Let_def cfg_of_def split: if_splits)

lemma tail_dev_ok: "extIpCmdResponseTailCalculate env printed isRequest p = Some q \<Longrightarrow> dev_ok p \<Longrightarrow> dev_ok q"
  using tail_result [of env printed isRequest p q] by (simp add: dev_ok_def)

lemma tail_fits:
  assumes "dev_ok p" "length printed \<le> 2000"
  obtains q where "extIpCmdResponseTailCalculate env printed isRequest p = Some q" "dev_ok q"
proof -
  have "extIpCmdResponseTailCalculate env printed isRequest p \<noteq> None"
    using assms by (simp add: extIpCmdResponseTailCalculate_def Let_def dev_ok_def)
  then show thesis using that tail_dev_ok [OF _ assms(1)] by blast
qed

lemma parsed_dev_ok: "parsed p q \<Longrightarrow> dev_ok p \<Longrightarrow> dev_ok q"
  using parsed_keeps [of p q] by (auto simp: dev_ok_def)

lemma reply_fits: "dev_ok p \<Longrightarrow> \<exists>q. extIpCmdResponseReply env p = Some q \<and> dev_ok q"
  unfolding extIpCmdResponseReply_def by (rule tail_fits [of p "extIpCmdResponseHeaderPrint p" env False]) (use length_response_header [of p] in auto)

lemma config_fits: "dev_ok p \<Longrightarrow> \<exists>q. extJsonResponsePrintConfig env p = Some q \<and> dev_ok q"
  unfolding extJsonResponsePrintConfig_def
  by (rule tail_fits [of p "extIpCmdResponseHeaderPrint p @ data_array (config_text (e_version env) (cfg_of p))" env False])
    (use length_response_header [of p] length_config_text [of "cfg_of p" "e_version env"] in \<open>auto simp: data_array_def dev_ok_def\<close>)

lemma cfg_of_upd [simp]: "cfg_of (upd_cfg f p) = f (cfg_of p)"
  by (simp add: cfg_of_def upd_cfg_def)

lemma upd_cfg_keeps [simp]:
  "p_json (upd_cfg f p) = p_json p" "p_jsmn (upd_cfg f p) = p_jsmn p" "p_target (upd_cfg f p) = p_target p" "p_cmd (upd_cfg f p) = p_cmd p"
  "p_out (upd_cfg f p) = p_out p" "p_msg (upd_cfg f p) = p_msg p" "p_status (upd_cfg f p) = p_status p" "p_saved (upd_cfg f p) = p_saved p"
  "p_igmp (upd_cfg f p) = p_igmp p" "p_serial (upd_cfg f p) = p_serial p" "p_serialCfg (upd_cfg f p) = p_serialCfg p" "p_read (upd_cfg f p) = p_read p"
  "m_fpga (p_media (upd_cfg f p)) = m_fpga (p_media p)"
  by (simp_all add: upd_cfg_def)

lemma upd_cfg_dev_ok: "dev_ok p \<Longrightarrow> text_ok (f (cfg_of p)) \<Longrightarrow> dev_ok (upd_cfg f p)"
  by (simp add: dev_ok_def)

lemma dev_ok_text: "dev_ok p \<Longrightarrow> text_ok (cfg_of p)"
  by (simp add: dev_ok_def)

lemma validate_true: "extJsonUserValidate p = (True, q) \<Longrightarrow> q = p"
  by (auto simp: extJsonUserValidate_def split: prod.splits option.splits if_splits dest: parse_string_some)

lemma parsed_validate:
  assumes "extJsonUserValidate p = (ok, q)"
  shows "parsed p q"
proof -
  obtain v1 q1 where a: "extJsonParseString ''login-ack'' 16 p = (v1, q1)" by fastforce
  obtain v2 q2 where b: "extJsonParseString ''pwd-msg'' 16 q1 = (v2, q2)" by fastforce
  note ab = parsed_string [OF a] parsed_string [OF b]
  have "parsed p q2" using parsed_trans [OF ab] .
  with ab assms a b show ?thesis
    by (auto simp: extJsonUserValidate_def split: option.splits if_splits intro: parsed_trans)
qed

lemma parsed_local: "extIpCmdIsLocal p = (ok, q) \<Longrightarrow> parsed p q"
  using parsed_validate by (fastforce simp: extIpCmdIsLocal_def split: prod.splits bool.splits if_splits intro: parsed_trans)

lemma dev_ok_other [simp]:
  "dev_ok (p\<lparr>p_hexData := h\<rparr>) = dev_ok p" "dev_ok (p\<lparr>p_waitMs := w\<rparr>) = dev_ok p" "dev_ok (p\<lparr>p_isFeedBack := f\<rparr>) = dev_ok p"
  "dev_ok (p\<lparr>p_serial := b\<rparr>) = dev_ok p" "dev_ok (p\<lparr>p_status := s\<rparr>) = dev_ok p" "dev_ok (p\<lparr>p_scKey := k\<rparr>) = dev_ok p"
  "dev_ok (p\<lparr>p_scID := k\<rparr>) = dev_ok p" "dev_ok (p\<lparr>p_outIndex := i\<rparr>) = dev_ok p" "dev_ok (p\<lparr>p_net := ns\<rparr>) = dev_ok p" "dev_ok (p\<lparr>p_igmp := gs\<rparr>) = dev_ok p"
  "dev_ok (p\<lparr>p_saved := cs\<rparr>) = dev_ok p" "dev_ok (p\<lparr>p_serialCfg := rs\<rparr>) = dev_ok p" "dev_ok (p\<lparr>p_read := b\<rparr>) = dev_ok p"
  "m_cfg m = cfg_of p \<Longrightarrow> dev_ok (p\<lparr>p_media := m\<rparr>) = dev_ok p"
  by (simp_all add: dev_ok_def cfg_of_def)

text \<open>The operations run without a fault and keep the device in order.\<close>

definition runs :: "(bool \<times> 'd EXT_JSON_PARSER) option \<Rightarrow> bool" where
  "runs r \<longleftrightarrow> (\<exists>ok q. r = Some (ok, q) \<and> dev_ok q)"

lemma runs_Some [simp]: "runs (Some (ok, q)) = dev_ok q"
  by (simp add: runs_def)

lemma runs_map: "\<exists>q. r = Some q \<and> dev_ok q \<Longrightarrow> runs (map_option (Pair ok) r)"
  by (auto simp: runs_def)

lemma runs_error: "dev_ok p \<Longrightarrow> runs (exec_error m p)"
  using parsed_dev_ok [OF parsed_param_error] by (simp add: exec_error_def)

text \<open>The two forms in which the code tests what a function returned.\<close>

lemma case_value:
  assumes "\<And>v q. x = (v, q) \<Longrightarrow> Q q" "\<And>q. Q q \<Longrightarrow> P (E q)" "\<And>v q. Q q \<Longrightarrow> P (F v q)"
  shows "P (case x of (None, q) \<Rightarrow> E q | (Some v, q) \<Rightarrow> F v q)"
  using assms by (cases x; cases "fst x") auto

lemma case_status:
  assumes "\<And>v q. x = (v, q) \<Longrightarrow> Q q" "\<And>q. Q q \<Longrightarrow> P (E q)" "\<And>q. Q q \<Longrightarrow> P (F q)"
  shows "P (case x of (False, q) \<Rightarrow> E q | (True, q) \<Rightarrow> F q)"
  using assms by (cases x; cases "fst x") auto

lemmas runs_value = case_value [where P = runs and Q = dev_ok]
lemmas runs_status = case_status [where P = runs and Q = dev_ok]

lemma parsers_dev_ok:
  "extIpCmdIsLocal p = (ok, q) \<Longrightarrow> dev_ok p \<Longrightarrow> dev_ok q" "extJsonParseDataArray p = (ok, q) \<Longrightarrow> dev_ok p \<Longrightarrow> dev_ok q"
  "extJsonParseString key n p = (s, q) \<Longrightarrow> dev_ok p \<Longrightarrow> dev_ok q" "extJsonParseUnsignedShort key p = (w16, q) \<Longrightarrow> dev_ok p \<Longrightarrow> dev_ok q"
  "extJsonParseUnsignedChar key p = (w8, q) \<Longrightarrow> dev_ok p \<Longrightarrow> dev_ok q"
  by (erule parsed_dev_ok [OF parsed_local] parsed_dev_ok [OF parsed_array] parsed_dev_ok [OF parsed_string]
      parsed_dev_ok [OF short_param.reads] parsed_dev_ok [OF char_param.reads]; assumption)+

lemma serial_dev_ok: "rs232SendHexStr p = (ok, q) \<Longrightarrow> dev_ok p \<Longrightarrow> dev_ok q"
  by (auto simp: rs232SendHexStr_def Let_def split: prod.splits)

lemma get_params_ok:
  assumes "dev_ok p"
  shows "runs (extCmdGetParams env p)"
proof -
  obtain ok1 p1 where v: "extJsonUserValidate p = (ok1, p1)" by fastforce
  note d1 = parsed_dev_ok [OF parsed_validate [OF v] assms]
  obtain ok a p2 where i: "extJsonParseIpAddress ''811Ip'' p1 = (ok, a, p2)" by (cases "extJsonParseIpAddress ''811Ip'' p1")
  let ?p3 = "upd_cfg (\<lambda>c. c\<lparr>ipSvr811 := a\<rparr>) p2"
  have d3: "dev_ok ?p3"
    using parsed_dev_ok [OF parsed_ip [OF i] d1] by (intro upd_cfg_dev_ok) (auto simp: text_ok_def dest: dev_ok_text)
  obtain w p4 where s: "extJsonParseUnsignedShort ''811Port'' ?p3 = (w, p4)" by fastforce
  let ?p5 = "case w of None \<Rightarrow> p4 | Some port \<Rightarrow> upd_cfg (\<lambda>c. c\<lparr>portSvr811 := port\<rparr>) p4"
  have "dev_ok p4" by (rule parsed_dev_ok [OF short_param.reads [OF s] d3])
  then have "dev_ok ?p5" by (cases w) (auto intro!: upd_cfg_dev_ok simp: text_ok_def dest: dev_ok_text)
  from config_fits [OF this, of env] show ?thesis
    using parsed_dev_ok [OF parsed_set_msg d1] d1 unfolding extCmdGetParams_def v
    by (cases ok1) (auto simp: i s Let_def)
qed

lemma rs_data_ok: "dev_ok p \<Longrightarrow> runs (extIpCmdSendRsData env p)"
  unfolding extIpCmdSendRsData_def
  by (intro runs_value runs_status runs_error runs_map reply_fits;
      (erule parsers_dev_ok | erule serial_dev_ok)?; simp)

lemma send_media_ok:
  assumes "dev_ok p"
  shows "\<exists>ok q. extIpCmdSendMediaData env isRequest p = Some (ok, q) \<and> dev_ok q"
proof -
  let ?p = "p\<lparr>p_scID := sc_id, p_status := JSON_STATUS_OK\<rparr>" and ?c = "cfg_of (p\<lparr>p_scID := sc_id, p_status := JSON_STATUS_OK\<rparr>)"
  have "dev_ok ?p" using assms by simp
  moreover from this have "length (extIpCmdRequestHeaderPrint ''set_param'' ?c @ data_array (extIpCmdPrintMediaCfg ?c)) \<le> 2000"
    using length_request_header [of ?c "''set_param''"] length_media_text [of ?c] by (simp add: data_array_def dev_ok_def)
  ultimately obtain q where "extIpCmdResponseTailCalculate env
    (extIpCmdRequestHeaderPrint ''set_param'' ?c @ data_array (extIpCmdPrintMediaCfg ?c)) isRequest ?p = Some q" "dev_ok q"
    by (rule tail_fits)
  then show ?thesis by (auto simp: extIpCmdSendMediaData_def Let_def extIpCmdSendout_def split: if_splits)
qed

lemma check_id_fits:
  assumes "dev_ok p"
  shows "\<exists>q. securityCheckId env p = Some q \<and> dev_ok q"
proof -
  let ?p = "p\<lparr>p_scID := sc_id, p_status := JSON_STATUS_OK\<rparr>"
  have l: "length (concat (map hex2_upper x)) = 2 * length x" for x by (induction x) (auto simp: hex2_upper_def)
  have "dev_ok ?p" using assms by simp
  moreover from this
  have "length (extIpCmdResponseHeaderPrint ?p @ data_array (json_text ''get_id'' (concat (map hex2_upper (p_scID ?p @ [0]))))) \<le> 2000"
    using length_response_header [of ?p] unfolding data_array_def length_append length_json l by (simp add: sc_id_def)
  ultimately show ?thesis unfolding securityCheckId_def Let_def by (rule tail_fits) blast
qed

lemma security_ok:
  assumes "dev_ok p"
  shows "runs (extIpCmdSecurityCheck env p)"
proof -
  obtain b0 p0 where m: "extIpCmdSendMediaData env False p = Some (b0, p0)" "dev_ok p0" using send_media_ok [OF assms] by blast
  show ?thesis
    unfolding extIpCmdSecurityCheck_def m(1) option.case prod.case
    by (intro runs_value runs_status runs_error runs_map reply_fits check_id_fits; (erule parsers_dev_ok)?; simp add: m(2))
qed

subsection \<open>Setup keeps the device in order\<close>

lemma config_fpga_keeps [simp]:
  "cfg_of (config_fpga env p) = cfg_of p" "p_json (config_fpga env p) = p_json p" "p_jsmn (config_fpga env p) = p_jsmn p"
  "p_target (config_fpga env p) = p_target p" "p_saved (config_fpga env p) = p_saved p" "p_serial (config_fpga env p) = p_serial p"
  "p_serialCfg (config_fpga env p) = p_serialCfg p" "p_status (config_fpga env p) = p_status p" "p_read (config_fpga env p) = p_read p"
  "dev_ok (config_fpga env p) = dev_ok p"
  by (simp_all add: config_fpga_def cfg_of_def dev_ok_def split: prod.splits)

lemma group_mgr_keeps [simp]:
  "cfg_of (group_mgr env a b p) = cfg_of p" "p_json (group_mgr env a b p) = p_json p" "p_jsmn (group_mgr env a b p) = p_jsmn p"
  "p_target (group_mgr env a b p) = p_target p" "p_saved (group_mgr env a b p) = p_saved p" "p_serial (group_mgr env a b p) = p_serial p"
  "p_serialCfg (group_mgr env a b p) = p_serialCfg p" "p_status (group_mgr env a b p) = p_status p" "p_read (group_mgr env a b p) = p_read p"
  "dev_ok (group_mgr env a b p) = dev_ok p"
  by (simp_all add: group_mgr_def cfg_of_def dev_ok_def)

text \<open>A new destination address changes the address and, on a receiver, the MAC address that belongs to it.\<close>

definition new_dest :: "u32w \<Rightarrow> DEV_CFG \<Rightarrow> DEV_CFG" where
  "new_dest a c = (let c1 = c\<lparr>dest_cfg := (dest_cfg c)\<lparr>ip := a\<rparr>\<rparr> in if EXT_IS_TX c then c1 else snd (extTxMulticastIP2Mac c1))"

lemma EXT_IS_TX_dest [simp]: "EXT_IS_TX (c\<lparr>dest_cfg := d\<rparr>) = EXT_IS_TX c"
  by (simp add: EXT_IS_TX_def)

lemma new_dest_effective [simp]:
  "cfg_of (extCmnNewDestIpEffective env a p) = new_dest a (cfg_of p)" "p_json (extCmnNewDestIpEffective env a p) = p_json p"
  "p_jsmn (extCmnNewDestIpEffective env a p) = p_jsmn p" "p_target (extCmnNewDestIpEffective env a p) = p_target p"
  "p_saved (extCmnNewDestIpEffective env a p) = p_saved p" "p_serial (extCmnNewDestIpEffective env a p) = p_serial p"
  "p_serialCfg (extCmnNewDestIpEffective env a p) = p_serialCfg p" "p_status (extCmnNewDestIpEffective env a p) = p_status p"
  "p_read (extCmnNewDestIpEffective env a p) = p_read p"
  by (simp_all add: extCmnNewDestIpEffective_def Let_def new_dest_def)

lemma new_dest_text_ok: "text_ok c \<Longrightarrow> text_ok (new_dest a c)"
  by (simp add: new_dest_def Let_def text_ok_def extTxMulticastIP2Mac_def)

lemma new_dest_dev_ok: "dev_ok p \<Longrightarrow> dev_ok (extCmnNewDestIpEffective env a p)"
  using dev_ok_text [of p] unfolding extCmnNewDestIpEffective_def Let_def
  by (auto intro!: upd_cfg_dev_ok simp: text_ok_def extTxMulticastIP2Mac_def Let_def)

lemma compare_ports_mac: "mac (fst (compare_ports x rS)) = mac (fst rS)"
  by (simp add: compare_ports_def setup_field_def split: prod.splits if_splits)

lemma setup_ok:
  assumes "dev_ok (fst st)" "rx_ok rx"
  shows "dev_ok (fst (setup_dhcp rx st))" "text_ok (f (cfg_of (fst st))) \<Longrightarrow> dev_ok (fst (setup_address a f st))" "dev_ok (fst (setup_mac rx st))"
    "dev_ok (fst (setup_name rx st))" "dev_ok (fst (setup_dip env rx st))" "dev_ok (fst (setup_mcast rx st))" "dev_ok (fst (setup_group env rx st))"
    "dev_ok (fst (setup_part rs232Cfg rs232Cfg_update cmp rx st))" "dev_ok (fst (setup_part runtime runtime_update cmp2 rx st))"
    "dev_ok (fst (setup_part dest_cfg dest_cfg_update compare_ports rx st))"
proof -
  obtain p S where st: "st = (p, S)" by (cases st)
  have p: "dev_ok p" "text_ok (cfg_of p)" using assms(1) st dev_ok_text by auto
  note u = upd_cfg_dev_ok [OF p(1)] and n = new_dest_dev_ok
  show "dev_ok (fst (setup_dhcp rx st))" using p u by (auto simp: st setup_dhcp_def text_ok_def)
  show "text_ok (f (cfg_of (fst st))) \<Longrightarrow> dev_ok (fst (setup_address a f st))" using p u by (auto simp: st setup_address_def)
  show "dev_ok (fst (setup_mac rx st))" using p u assms(2) by (auto simp: st setup_mac_def text_ok_def rx_ok_def)
  show "dev_ok (fst (setup_name rx st))" using p u by (auto simp: st setup_name_def text_ok_def)
  show "dev_ok (fst (setup_dip env rx st))" using p u by (auto simp: st setup_dip_def text_ok_def Let_def intro!: n split: prod.splits)
  show "dev_ok (fst (setup_mcast rx st))" using p u by (auto simp: st setup_mcast_def text_ok_def split: prod.splits)
  show "dev_ok (fst (setup_group env rx st))" using p u by (auto simp: st setup_group_def text_ok_def Let_def intro!: n)
  show "dev_ok (fst (setup_part rs232Cfg rs232Cfg_update cmp rx st))" "dev_ok (fst (setup_part runtime runtime_update cmp2 rx st))"
    using p u by (auto simp: st setup_part_def text_ok_def split: prod.splits)
  have "mac (fst (compare_ports (dest_cfg rx) (dest_cfg (cfg_of p), S))) = mac (dest_cfg (cfg_of p))" by (simp add: compare_ports_mac)
  then show "dev_ok (fst (setup_part dest_cfg dest_cfg_update compare_ports rx st))"
    using p u by (auto simp: st setup_part_def text_ok_def split: prod.splits)
qed

lemma setup_compare_ok:
  assumes "dev_ok p" "rx_ok rx"
  shows "dev_ok (fst (setup_compare env rx p))"
proof -
  have t: "text_ok c \<Longrightarrow> text_ok (c\<lparr>ipGateway := g\<rparr>)" "text_ok c \<Longrightarrow> text_ok (c\<lparr>ipMask := g\<rparr>)"
    "text_ok c \<Longrightarrow> text_ok (c\<lparr>local_cfg := (local_cfg c)\<lparr>ip := g\<rparr>\<rparr>)" for c g by (simp_all add: text_ok_def)
  show ?thesis
    unfolding setup_compare_def compareSystemCfg_def compareProtocolConfig_def
    by (intro setup_ok [OF _ assms(2)] t dev_ok_text) (simp_all add: assms)
qed

lemma setup_effects_ok: "dev_ok p \<Longrightarrow> dev_ok (setup_effects env rx (p, S))"
  by (simp add: setup_effects_def Let_def save_cfg_def extCmdConnect_def cfg_of_def)

lemma post_event_cfg [simp]: "m_cfg (snd (extMediaPostEvent alloc ev m)) = m_cfg m" "m_fpga (snd (extMediaPostEvent alloc ev m)) = m_fpga m"
  by (simp_all add: extMediaPostEvent_def)

lemma is_response_dev_ok: "extJsonIsResponse env p = (ok, q) \<Longrightarrow> dev_ok p \<Longrightarrow> dev_ok q"
  using parsers_dev_ok(3) [of "''login-ack''" 16 p] by (auto simp: extJsonIsResponse_def cfg_of_def split: prod.splits option.splits if_splits)

lemma rx_ok_blank: "rx_ok (blank_cfg 0)"
  by (simp add: rx_ok_def blank_cfg_def blank_video_def)

lemma setup_request_ok:
  assumes "dev_ok p"
  shows "runs (case extJsonRequestParse p (blank_cfg 0) of
        Inl p3 \<Rightarrow> Some (False, p3\<lparr>p_status := JSON_STATUS_PARSE_PARAM_ERROR\<rparr>)
      | Inr (p3, rx) \<Rightarrow>
          let (p4, S) = setup_compare env rx p3
          in map_option (\<lambda>p5. (True, setup_effects env rx (p5, S))) (extJsonResponsePrintConfig env p4))"
proof (cases "extJsonRequestParse p (blank_cfg 0)")
  case (Inl p3)
  with parsed_dev_ok [OF request_parse(1) [OF rx_ok_blank Inl] assms] show ?thesis by simp
next
  case (Inr t)
  obtain p3 rx where t: "t = (p3, rx)" by fastforce
  note r = request_parse(2) [OF rx_ok_blank Inr [unfolded t]]
  obtain p4 S where c: "setup_compare env rx p3 = (p4, S)" by fastforce
  have "dev_ok p4" using setup_compare_ok [of p3 rx env] parsed_dev_ok [OF _ assms, of p3] r c by simp
  then obtain p5 where "extJsonResponsePrintConfig env p4 = Some p5" "dev_ok p5" using config_fits by blast
  with Inr t c setup_effects_ok show ?thesis by simp
qed

lemma setup_params_ok: "dev_ok p \<Longrightarrow> runs (extIpCmdSetupParams env p)"
  unfolding extIpCmdSetupParams_def
  by (rule runs_status, erule is_response_dev_ok, assumption, rule runs_status, erule parsers_dev_ok, assumption, simp, erule setup_request_ok, simp)

lemma call_cmd_ok: "dev_ok p \<Longrightarrow> runs (call_cmd env h p)"
  by (cases h) (simp_all add: get_params_ok setup_params_ok rs_data_ok security_ok)

lemma handle_ok: "dev_ok p \<Longrightarrow> runs (extJsonHandle env p)"
  using call_cmd_ok [of p env] parsed_dev_ok [OF parsed_param_error, of p]
  by (auto simp: extJsonHandle_def runs_def split: option.splits prod.splits) (metis option.distinct(1) option.inject prod.inject)+

lemma fail_reply_ok: "dev_ok p \<Longrightarrow> runs (fail_reply env p)"
  unfolding fail_reply_def by (rule runs_map, rule reply_fits)

lemma request_command_ok:
  assumes "dev_ok p" "extJsonRequestParseCommand js len p = (ok, q)"
  shows "dev_ok q"
proof -
  let ?p1 = "extJsonParse js len p"
  have d1: "dev_ok ?p1" using assms(1) by (simp add: extJsonParse_def extJsonInit_def Let_def dev_ok_def cfg_of_def split: prod.splits)
  obtain b m p2 where t: "extJsonParseMacAddress ''targ'' (p_target ?p1) ?p1 = (b, m, p2)" by (cases "extJsonParseMacAddress ''targ'' (p_target ?p1) ?p1")
  have "dev_ok p2" by (rule parsed_dev_ok [OF parsed_mac(1) [OF t] d1])
  moreover have "length m = 6" using parsed_mac(2) [OF t] d1 by (simp add: dev_ok_def)
  ultimately have d3: "dev_ok (p2\<lparr>p_target := m\<rparr>)" by (simp add: dev_ok_def cfg_of_def)
  obtain s p4 where c: "extJsonParseString ''cmd'' 32 (p2\<lparr>p_target := m\<rparr>) = (s, p4)" by fastforce
  have d4: "dev_ok p4" by (rule parsers_dev_ok(3) [OF c d3])
  have d5: "s = Some v \<Longrightarrow> dev_ok (p4\<lparr>p_cmd := v\<rparr>)" for v using parse_string_some [of "''cmd''" 32 "p2\<lparr>p_target := m\<rparr>" v p4] c d4 by (simp add: dev_ok_def cfg_of_def)
  have e: "dev_ok x \<Longrightarrow> dev_ok (set_msg y x)" for x :: "'a EXT_JSON_PARSER" and y by (rule parsed_dev_ok [OF parsed_set_msg])
  show ?thesis
    using assms(2) d1 d3 d4 d5 unfolding extJsonRequestParseCommand_def Let_def t prod.case
    by (cases s) (auto simp: extJsonFindCommand_def c intro: e split: if_splits)
qed

lemma json_command_ok:
  assumes "dev_ok p" "len \<le> length js"
  shows "runs (json_command env js len p)"
proof -
  have d: "dev_ok (p\<lparr>p_msg := []\<rparr>)" using assms(1) by (simp add: dev_ok_def cfg_of_def)
  obtain ok q where r: "extJsonRequestParseCommand js len (p\<lparr>p_msg := []\<rparr>) = (ok, q)" by fastforce
  note dq = request_command_ok [OF d r]
  obtain ok2 q2 where "extJsonHandle env q = Some (ok2, q2)" "dev_ok q2" using handle_ok [OF dq, of env] unfolding runs_def by blast
  with assms(2) r fail_reply_ok dq show ?thesis by (cases ok; cases ok2) (auto simp: json_command_def)
qed

text \<open>What a datagram has to satisfy: the length in its header stays within the buffer, and it has eight bytes.\<close>

definition datagram_ok :: "nat \<Rightarrow> bytes \<Rightarrow> bool" where
  "datagram_ok n buf \<longleftrightarrow> 8 \<le> n \<and> n \<le> length buf \<and> unat (flip16 (un16 (get_bytes 2 2 buf))) + 4 \<le> length buf"

lemma handler_ok:
  assumes "dev_ok p" "datagram_ok n (p_read p)"
  shows "runs (extCmdPaserHandler env n p)"
proof -
  have h: "dev_ok (host_length p)" using assms(1) by (simp add: host_length_def)
  have m: "dev_ok ((set_msg m (host_length p))\<lparr>p_status := s\<rparr>)" for m s using parsed_dev_ok [OF parsed_set_msg h] by simp
  have "nat ((int n - 8) mod 65536) \<le> n - 8" using assms(2) zmod_le_nonneg_dividend [of "int n - 8" 65536] by (simp add: datagram_ok_def nat_le_iff)
  then have "runs (json_command env (drop 4 (p_read p)) (nat ((int n - 8) mod 65536)) (host_length p))"
    using assms(2) by (intro json_command_ok h) (auto simp: datagram_ok_def)
  then show ?thesis using assms(2) fail_reply_ok [OF m] by (simp add: extCmdPaserHandler_def Let_def datagram_ok_def)
qed

text \<open>
  The steps of the device: a datagram that is well formed, a step of the media control, and the message the media control sends to
  the server. Each uses the parser object as a whole; the code does not lock it.
\<close>

definition received :: "bytes \<Rightarrow> 'd EXT_JSON_PARSER \<Rightarrow> bytes" where
  "received payload p = take (min (length payload) (length (p_read p))) payload @ drop (min (length payload) (length (p_read p))) (p_read p)"

inductive cmd_step :: "'d EXT_JSON_PARSER \<Rightarrow> 'd EXT_JSON_PARSER \<Rightarrow> bool" where
  datagram: "datagram_ok (min (length payload) (length (p_read p))) (received payload p) \<Longrightarrow> extUdpCmdThread env payload addr port p = Some q \<Longrightarrow> cmd_step p q"
| control: "cmd_step p (p\<lparr>p_media := media_do dev act (p_media p)\<rparr>)"
| message: "extIpCmdSendMediaData env True p = Some (ok, q) \<Longrightarrow> cmd_step p q"

lemma thread_ok:
  assumes "dev_ok p" "datagram_ok (min (length payload) (length (p_read p))) (received payload p)"
  shows "\<exists>q. extUdpCmdThread env payload addr port p = Some q \<and> dev_ok q"
proof -
  let ?n = "min (length payload) (length (p_read p))" and ?p = "p\<lparr>p_read := received payload p\<rparr>"
  have "dev_ok ?p" "datagram_ok ?n (p_read ?p)" using assms by simp_all
  from handler_ok [OF this, of env] obtain ok q where q: "extCmdPaserHandler env ?n ?p = Some (ok, q)" "dev_ok q" unfolding runs_def by blast
  have "extUdpCmdThread env payload addr port p = Some (snd (extIpCmdSendout env addr port q))"
    using q(1) by (simp add: extUdpCmdThread_def Let_def received_def)
  moreover have "dev_ok (snd (extIpCmdSendout env addr port q))" using q(2) by (simp add: extIpCmdSendout_def)
  ultimately show ?thesis by simp
qed

lemma media_cfg_text: "text_ok (m_cfg (media_do dev act m)) = text_ok (m_cfg m)"
proof -
  have r: "text_ok (c\<lparr>runtime := r\<rparr>) = text_ok c" for c r by (simp add: text_ok_def)
  have h: "m_cfg (snd (call_handler ok h m)) = m_cfg m" for ok h and m :: "'a media" by (cases h) (simp_all add: handler_defs)
  have f: "m_cfg (fsm_rows (call_handler ok) rows m) = m_cfg m" for ok rows and m :: "'a media"
  proof (induction "call_handler ok :: media_handler \<Rightarrow> 'a media \<Rightarrow> _" rows m rule: fsm_rows.induct)
    case (3 st hs rows m)
    then show ?case using h [of ok] by (auto simp: Let_def split: prod.splits option.splits) (metis snd_conv)+
  qed simp_all
  show ?thesis
    by (cases act) (simp_all add: extMediaPollDevice_def Let_def r msg_timer_fire_def msgTimerCallback_def extMediaControlThread_def extFsmHandle_def f
        split: prod.splits list.splits)
qed

definition cmd_init :: "'d EXT_JSON_PARSER \<Rightarrow> bool" where
  "cmd_init p \<longleftrightarrow> (\<exists>bc tx d n. p = blank_parser 100 n 2048 (extMediaInit (extCfgFromFactory bc (blank_cfg tx)) d))"

lemma factory_text_ok: "text_ok (extCfgFromFactory bc (blank_cfg tx))"
  by (simp add: text_ok_def factory_defs blank_cfg_def blank_video_def Let_def extTxMulticastIP2Mac_def)

interpretation commands: step_system cmd_init cmd_step dev_ok
proof
  show "cmd_init p \<Longrightarrow> dev_ok p" for p :: "'a EXT_JSON_PARSER"
    using factory_text_ok by (auto simp: cmd_init_def dev_ok_def blank_parser_def cfg_of_def extMediaInit_def)
  show "dev_ok p \<Longrightarrow> cmd_step p q \<Longrightarrow> dev_ok q" for p q :: "'a EXT_JSON_PARSER"
  proof (erule cmd_step.cases)
    fix payload env addr port p' q' assume "dev_ok p" "p = p'" "q = q'" "extUdpCmdThread env payload addr port p' = Some q'"
      "datagram_ok (min (length payload) (length (p_read p'))) (received payload p')"
    then show "dev_ok q" using thread_ok [of p payload env addr port] by simp
  next
    fix p' dev act assume "dev_ok p" "p = p'" "q = p'\<lparr>p_media := media_do dev act (p_media p')\<rparr>"
    then show "dev_ok q" by (simp add: dev_ok_def cfg_of_def media_cfg_text)
  next
    fix env p' ok q' assume "dev_ok p" "p = p'" "q = q'" "extIpCmdSendMediaData env True p' = Some (ok, q')"
    then show "dev_ok q" using send_media_ok [of p env True] by simp
  qed
qed

text \<open>
  C7: The control protocol never writes behind its buffers. In every state that a device with factory settings can reach by well-formed datagrams of
  any contents, steps of the media control and messages to the server, in any order, the texts are within their
  arrays, and the next well-formed datagram is answered without a fault: every reply fits the output buffer. So does the message to the server.
\<close>

theorem commands_never_overrun:
  assumes "cmd_init p0" "cmd_step\<^sup>*\<^sup>* p0 p" "datagram_ok (min (length payload) (length (p_read p))) (received payload p)"
  shows "dev_ok p \<and> (\<exists>q. extUdpCmdThread env payload addr port p = Some q \<and> dev_ok q) \<and> (\<exists>ok q. extIpCmdSendMediaData env True p = Some (ok, q))"
proof -
  have d: "dev_ok p" by (rule commands.inv_reachable [OF assms(1,2)])
  from thread_ok [OF d assms(3)] send_media_ok [OF d] d show ?thesis by blast
qed

text \<open>A device with factory settings, one with a name and a password, and what surrounds them.\<close>

definition sample_env :: "(u8 \<Rightarrow> u8) cmd_env" where
  "sample_env = \<lparr>e_dev = memory_dev, e_junk = 0, e_igmp_flag = True, e_igmp = (\<lambda>_ _. 0), e_event = True, e_pbuf = True, e_signed = False, e_version = (1, 0, 0)\<rparr>"

definition sample_device :: "nat \<Rightarrow> (u8 \<Rightarrow> u8) EXT_JSON_PARSER" where
  "sample_device n = blank_parser 24 n 2048 (extMediaInit ((blank_cfg 0)\<lparr>user := ascii ''root'', password := ascii ''key'', local_cfg := blank_video\<lparr>mac := [1, 2, 3, 4, 5, 6]\<rparr>\<rparr>) (\<lambda>_. 0))"

definition factory_device :: "nat \<Rightarrow> (u8 \<Rightarrow> u8) EXT_JSON_PARSER" where
  "factory_device n = blank_parser 100 n 2048 (extMediaInit (extCfgFromFactory sample_conf (blank_cfg 1)) (\<lambda>_. 0))"

theorem command_frame_accepted_witness:
  "let p = sample_device 11
   in extCmdPaserHandler sample_env 10 (p\<lparr>p_read := frame False CMD_TAG_REQUEST [123, 125] @ [7]\<rparr>) =
      json_command sample_env ([123, 125] @ le32 (flip32 (cmnMuxCRC32b False [123, 125])) @ [7]) 2 (host_length (p\<lparr>p_read := frame False CMD_TAG_REQUEST [123, 125] @ [7]\<rparr>))"
proof -
  let ?f = "frame False CMD_TAG_REQUEST [123, 125]"
  let ?s = "sample_device 11"
  let ?o = "?s\<lparr>p_out := ?f @ drop (length ?f) (p_out ?s), p_outIndex := length ?f\<rparr>"
  have e: "e_signed sample_env = False" and l: "length (p_out ?s) = 2048" by (simp_all add: sample_env_def sample_device_def blank_parser_def)
  have "extIpCmdResponseTailCalculate sample_env [123] True ?s = Some ?o"
    by (simp add: extIpCmdResponseTailCalculate_def Let_def e l)
  moreover have "length (p_out ?s) \<le> 2048" "p_read (?s\<lparr>p_read := ?f @ [7]\<rparr>) = take (p_outIndex ?o) (p_out ?o) @ [7]" by (simp_all add: l)
  ultimately have "let t = [123] @ [125] in extCmdPaserHandler sample_env (p_outIndex ?o) (?s\<lparr>p_read := ?f @ [7]\<rparr>) =
      json_command sample_env (t @ le32 (flip32 (cmnMuxCRC32b (e_signed sample_env) t)) @ [7]) (length t) (host_length (?s\<lparr>p_read := ?f @ [7]\<rparr>))"
    by (rule command_frame_accepted) simp
  then show ?thesis by (simp add: Let_def e numeral_2_eq_2)
qed

theorem commands_never_overrun_witness:
  "dev_ok (factory_device 8) \<and> (\<exists>q. extUdpCmdThread sample_env (replicate 8 0) 0 0 (factory_device 8) = Some q \<and> dev_ok q)"
proof -
  have "cmd_init (factory_device 8)" unfolding cmd_init_def factory_device_def by blast
  moreover have "datagram_ok 8 (replicate 8 0)" by code_simp
  then have "datagram_ok (min (length (replicate 8 0 :: bytes)) (length (p_read (factory_device 8)))) (received (replicate 8 0) (factory_device 8))"
    by (simp add: received_def blank_parser_def factory_device_def)
  ultimately show ?thesis using commands_never_overrun [of "factory_device 8" "factory_device 8" "replicate 8 0" sample_env 0 0] by blast
qed

end
