(* ===== verification/IpCmdAccess.thy ===== *)
theory IpCmdAccess
  imports IpCmd
begin

text \<open>
  Properties of the control protocol: that a change of the device needs name and password, that damaged commands change nothing, and
  what exactly the configuration is after a request. The model is in \<open>IpCmdParse\<close> and \<open>IpCmd\<close>.
\<close>

subsection \<open>Changes need a login\<close>

text \<open>What a command can change of the device.\<close>

definition device :: "'d EXT_JSON_PARSER \<Rightarrow> DEV_CFG \<times> 'd \<times> DEV_CFG list \<times> (bool \<times> u32w) list \<times> bytes \<times> MuxRs232Cfg list" where
  "device p = (cfg_of p, m_fpga (p_media p), p_saved p, p_igmp p, p_serial p, p_serialCfg p)"

definition login :: "'d EXT_JSON_PARSER \<Rightarrow> DEV_CFG \<Rightarrow> bool" where
  "login p c \<longleftrightarrow>
     (\<exists>u w. string_value ''login-ack'' p = Some u \<and> starts_with (take 15 u) (user c) \<and>
            string_value ''pwd-msg'' p = Some w \<and> starts_with (take 15 w) (password c))"

definition same_request :: "'d EXT_JSON_PARSER \<Rightarrow> 'd EXT_JSON_PARSER \<Rightarrow> bool" where
  "same_request p q \<longleftrightarrow> p_json q = p_json p \<and> p_jsmn q = p_jsmn p \<and> p_target q = p_target p"

lemma same_request_simps [simp]:
  "same_request p p" "same_request p (upd_cfg f q) = same_request p q" "same_request p (config_fpga env q) = same_request p q"
  "same_request p (group_mgr env a b q) = same_request p q" "same_request p (extCmnNewDestIpEffective env a q) = same_request p q"
  "same_request p (q\<lparr>p_hexData := h\<rparr>) = same_request p q" "same_request p (q\<lparr>p_waitMs := w\<rparr>) = same_request p q" "same_request p (q\<lparr>p_isFeedBack := fb\<rparr>) = same_request p q"
  "same_request p (q\<lparr>p_serial := sb\<rparr>) = same_request p q" "same_request p (q\<lparr>p_status := s\<rparr>) = same_request p q" "same_request p (q\<lparr>p_scKey := k\<rparr>) = same_request p q"
  "same_request p (q\<lparr>p_scID := k\<rparr>) = same_request p q" "same_request p (q\<lparr>p_outIndex := i\<rparr>) = same_request p q" "same_request p (q\<lparr>p_net := ns\<rparr>) = same_request p q"
  "same_request p (q\<lparr>p_saved := cs\<rparr>) = same_request p q" "same_request p (q\<lparr>p_serialCfg := rs\<rparr>) = same_request p q" "same_request p (q\<lparr>p_media := m\<rparr>) = same_request p q"
  by (simp_all add: same_request_def)

lemma login_cong: "same_request p q \<Longrightarrow> login q c = login p c"
  using string_value_cong [of q p] by (simp add: login_def same_request_def)

lemma parsed_same: "parsed p q \<Longrightarrow> same_request p q \<and> device q = device p"
  using parsed_keeps [of p q] by (simp add: same_request_def device_def)

lemma same_request_parsed: "parsed q r \<Longrightarrow> same_request p q \<Longrightarrow> same_request p r"
  using parsed_same [of q r] by (simp add: same_request_def)

lemma tail_same: "extIpCmdResponseTailCalculate env printed isRequest p = Some q \<Longrightarrow> same_request p q \<and> device q = device p"
  using tail_result [of env printed isRequest p q] by (simp add: same_request_def device_def)

lemma validate_login:
  assumes "extJsonUserValidate p = (True, q)"
  shows "q = p \<and> login p (cfg_of p)"
proof (cases "extJsonParseString ''login-ack'' 16 p")
  case (Pair v1 q1)
  note a = this
  show ?thesis
  proof (cases v1)
    case None
    with a assms show ?thesis by (simp add: extJsonUserValidate_def)
  next
    case (Some name)
    note a = a [unfolded Some] and q1 = parse_string_some [OF a [unfolded Some]]
    have n: "starts_with name (user (cfg_of p))" using assms a q1 by (auto simp: extJsonUserValidate_def split: if_splits)
    obtain v2 q2 where b: "extJsonParseString ''pwd-msg'' 16 p = (v2, q2)" by fastforce
    then obtain pwd where v2: "v2 = Some pwd" using assms a q1 n by (cases v2) (auto simp: extJsonUserValidate_def)
    note q2 = parse_string_some [OF b [unfolded v2]]
    have w: "starts_with pwd (password (cfg_of p))" "q = p"
      using assms a b q1 q2 n v2 by (auto simp: extJsonUserValidate_def split: if_splits)
    with q1 q2 n show ?thesis by (auto simp: login_def)
  qed
qed

lemma local_login:
  "extIpCmdIsLocal p = (True, q) \<Longrightarrow> q = p \<and> login p (cfg_of p) \<and> MAC_ADDR_IS_EQUAL (p_target p) (mac (local_cfg (cfg_of p)))"
  using validate_login by (fastforce simp: extIpCmdIsLocal_def split: prod.splits bool.splits if_splits)

text \<open>The result of a command is about the same request, and a change of the device needs the login.\<close>

definition same_result :: "'d EXT_JSON_PARSER \<Rightarrow> (bool \<times> 'd EXT_JSON_PARSER) option \<Rightarrow> bool" where
  "same_result p r \<longleftrightarrow> (case r of None \<Rightarrow> True | Some (ok, q) \<Rightarrow> same_request p q)"

lemma same_result_simps [simp]:
  "same_result p (Some (ok, q)) = same_request p q" "same_result p None" "same_result p (exec_error m q) = same_request p q"
  using parsed_same [OF parsed_param_error [of q m]] by (auto simp: same_result_def exec_error_def same_request_def)

lemma same_result_tail: "same_request p q \<Longrightarrow> same_result p (map_option (Pair ok) (extIpCmdResponseTailCalculate env printed isRequest q))"
  using tail_same [of env printed isRequest q] by (cases "extIpCmdResponseTailCalculate env printed isRequest q") (simp_all add: same_request_def)

lemma same_result_reply: "same_request p q \<Longrightarrow> same_result p (map_option (Pair ok) (extIpCmdResponseReply env q))"
  unfolding extIpCmdResponseReply_def by (rule same_result_tail)

lemma same_result_id: "same_request p q \<Longrightarrow> same_result p (map_option (Pair ok) (securityCheckId env q))"
  unfolding securityCheckId_def Let_def by (rule same_result_tail) simp

lemmas same_value = case_value [where P = "same_result p" and Q = "same_request p" for p]
lemmas same_status = case_status [where P = "same_result p" and Q = "same_request p" for p]

lemma parsers_same:
  "extIpCmdIsLocal q = (ok, r) \<Longrightarrow> same_request p q \<Longrightarrow> same_request p r" "extJsonParseDataArray q = (ok, r) \<Longrightarrow> same_request p q \<Longrightarrow> same_request p r"
  "extJsonParseString key n q = (s, r) \<Longrightarrow> same_request p q \<Longrightarrow> same_request p r" "extJsonParseUnsignedShort key q = (w16, r) \<Longrightarrow> same_request p q \<Longrightarrow> same_request p r"
  "extJsonParseUnsignedChar key q = (w8, r) \<Longrightarrow> same_request p q \<Longrightarrow> same_request p r"
  by (erule same_request_parsed [OF parsed_local] same_request_parsed [OF parsed_array] same_request_parsed [OF parsed_string]
      same_request_parsed [OF short_param.reads] same_request_parsed [OF char_param.reads]; assumption)+

lemma serial_same: "rs232SendHexStr q = (ok, r) \<Longrightarrow> same_request p q \<Longrightarrow> same_request p r"
  by (auto simp: rs232SendHexStr_def Let_def split: prod.splits)

lemma rs_data_same: "same_result p (extIpCmdSendRsData env p)"
  unfolding extIpCmdSendRsData_def
  by (intro same_value same_status same_result_reply; (erule parsers_same | erule serial_same)?; simp)

lemma send_media_same:
  assumes "extIpCmdSendMediaData env isRequest p = Some (ok, q)"
  shows "same_request p q \<and> device q = device p"
proof -
  let ?p = "p\<lparr>p_scID := sc_id, p_status := JSON_STATUS_OK\<rparr>"
  let ?t = "extIpCmdRequestHeaderPrint ''set_param'' (cfg_of ?p) @ data_array (extIpCmdPrintMediaCfg (cfg_of ?p))"
  obtain r where r: "extIpCmdResponseTailCalculate env ?t isRequest ?p = Some r" "extIpCmdSendout env (ipSvr811 (cfg_of ?p)) (portSvr811 (cfg_of ?p)) r = (ok, q)"
    using assms unfolding extIpCmdSendMediaData_def Let_def by (cases "extIpCmdResponseTailCalculate env ?t isRequest ?p") simp_all
  have "device ?p = device p" "same_request p ?p" by (simp_all add: device_def cfg_of_def)
  moreover have "same_request r q" "device q = device r" using r(2) by (auto simp: extIpCmdSendout_def device_def cfg_of_def split: if_splits)
  ultimately show ?thesis using tail_same [OF r(1)] by (simp add: same_request_def)
qed

lemma security_same: "same_result p (extIpCmdSecurityCheck env p)"
proof (cases "extIpCmdSendMediaData env False p")
  case (Some x)
  obtain b p0 where x: "x = (b, p0)" by fastforce
  have s: "same_request p p0" using send_media_same Some x by blast
  show ?thesis
    unfolding extIpCmdSecurityCheck_def Some x option.case prod.case
    by (intro same_value same_status same_result_reply same_result_id; (erule parsers_same)?; simp add: s)
qed (simp add: extIpCmdSecurityCheck_def)

lemma setup_same [simp]:
  "same_request p (fst (setup_dhcp rx st)) = same_request p (fst st)" "same_request p (fst (setup_address a f st)) = same_request p (fst st)"
  "same_request p (fst (setup_mac rx st)) = same_request p (fst st)" "same_request p (fst (setup_name rx st)) = same_request p (fst st)"
  "same_request p (fst (setup_dip env rx st)) = same_request p (fst st)" "same_request p (fst (setup_mcast rx st)) = same_request p (fst st)"
  "same_request p (fst (setup_group env rx st)) = same_request p (fst st)" "same_request p (fst (setup_part get upd cmp rx st)) = same_request p (fst st)"
  by (cases st; simp add: setup_dhcp_def setup_address_def setup_mac_def setup_name_def setup_dip_def setup_mcast_def setup_group_def setup_part_def Let_def
      split: prod.splits)+

lemma setup_compare_same [simp]: "same_request p (fst (setup_compare env rx q)) = same_request p q"
  by (simp add: setup_compare_def compareSystemCfg_def compareProtocolConfig_def)

lemma setup_effects_same: "same_request p q \<Longrightarrow> same_request p (setup_effects env rx (q, S))"
  by (simp add: setup_effects_def Let_def save_cfg_def extCmdConnect_def)

lemma is_response_same:
  assumes "extJsonIsResponse env p = (ok, q)"
  shows "same_request p q \<and> device q = device p"
proof -
  obtain v r where a: "extJsonParseString ''login-ack'' 16 p = (v, r)" by fastforce
  note pr = parsed_same [OF parsed_string [OF a]]
  have "device (r\<lparr>p_outIndex := 0, p_media := snd (extMediaPostEvent b ev (p_media r))\<rparr>) = device r" for b ev by (simp add: device_def cfg_of_def)
  with assms a pr show ?thesis by (cases v) (auto simp: extJsonIsResponse_def split: if_splits)
qed

text \<open>A change of the device is authorised: the login is right, and the target is this device, or only the address of the server changes.\<close>

definition authorised :: "'d EXT_JSON_PARSER \<Rightarrow> 'd EXT_JSON_PARSER \<Rightarrow> bool" where
  "authorised p q \<longleftrightarrow>
     login q (cfg_of p) \<and>
     (MAC_ADDR_IS_EQUAL (p_target q) (mac (local_cfg (cfg_of p))) \<or>
      (\<exists>a port. device q = device (upd_cfg (\<lambda>c. c\<lparr>ipSvr811 := a, portSvr811 := port\<rparr>) p)))"

definition guarded :: "'d EXT_JSON_PARSER \<Rightarrow> (bool \<times> 'd EXT_JSON_PARSER) option \<Rightarrow> bool" where
  "guarded p r \<longleftrightarrow> same_result p r \<and> (case r of None \<Rightarrow> True | Some (ok, q) \<Rightarrow> device q = device p \<or> authorised p q)"

lemma guarded_local:
  assumes "same_result p r" "login p (cfg_of p)" "MAC_ADDR_IS_EQUAL (p_target p) (mac (local_cfg (cfg_of p)))"
  shows "guarded p r"
proof (cases r)
  case (Some x)
  obtain ok q where "x = (ok, q)" by fastforce
  with assms Some login_cong [of p q "cfg_of p"] show ?thesis by (simp add: guarded_def authorised_def same_request_def)
qed (simp add: guarded_def)

lemma guarded_unchanged: "same_request p q \<Longrightarrow> device q = device p \<Longrightarrow> guarded p (Some (ok, q))"
  by (simp add: guarded_def)

lemma guarded_trans:
  assumes "same_request p q" "device q = device p" "guarded q r"
  shows "guarded p r"
proof (cases r)
  case (Some x)
  obtain ok s where x: "x = (ok, s)" by fastforce
  have c: "cfg_of q = cfg_of p" using assms(2) by (simp add: device_def)
  have "device (upd_cfg f q) = device (upd_cfg f p)" for f using assms(2) by (simp add: device_def)
  with assms c Some x show ?thesis by (auto simp: guarded_def authorised_def same_request_def)
qed (simp add: guarded_def)

lemma rs_data_guarded: "guarded p (extIpCmdSendRsData env p)"
proof (cases "extIpCmdIsLocal p")
  case (Pair b q)
  show ?thesis
  proof (cases b)
    case True
    with Pair local_login [of p q] rs_data_same show ?thesis by (auto intro: guarded_local)
  next
    case False
    with Pair parsed_same [OF parsed_local [OF Pair]] show ?thesis by (simp add: extIpCmdSendRsData_def guarded_unchanged)
  qed
qed

lemma security_guarded: "guarded p (extIpCmdSecurityCheck env p)"
proof (cases "extIpCmdSendMediaData env False p")
  case (Some x)
  obtain b0 p0 where x: "x = (b0, p0)" by fastforce
  have s: "same_request p p0" "device p0 = device p" using send_media_same Some x by blast+
  obtain b q where l: "extIpCmdIsLocal p0 = (b, q)" by fastforce
  show ?thesis
  proof (cases b)
    case True
    with l local_login [of p0 q] have "login p0 (cfg_of p0)" "MAC_ADDR_IS_EQUAL (p_target p0) (mac (local_cfg (cfg_of p0)))" by auto
    moreover have "cfg_of p0 = cfg_of p" "p_target p0 = p_target p" using s by (simp_all add: device_def same_request_def)
    ultimately show ?thesis using login_cong [OF s(1)] by (auto intro: guarded_local security_same)
  next
    case False
    with l parsed_same [OF parsed_local [OF l]] s Some x show ?thesis
      by (simp add: extIpCmdSecurityCheck_def guarded_unchanged same_request_def)
  qed
qed (simp add: extIpCmdSecurityCheck_def guarded_def)

lemma setup_params_guarded: "guarded p (extIpCmdSetupParams env p)"
proof (cases "extJsonIsResponse env p")
  case (Pair b0 p0)
  note s = is_response_same [OF Pair]
  show ?thesis
  proof (cases b0)
    case True
    with Pair s show ?thesis by (simp add: extIpCmdSetupParams_def guarded_unchanged)
  next
    case False
    obtain b q where l: "extIpCmdIsLocal p0 = (b, q)" by fastforce
    note ps = parsed_same [OF parsed_local [OF l]]
    show ?thesis
    proof (cases b)
      case False
      with Pair \<open>\<not> b0\<close> l ps s show ?thesis by (simp add: extIpCmdSetupParams_def guarded_unchanged same_request_def)
    next
      case True
      with l local_login [of p0 q] have q: "q = p0" "login p0 (cfg_of p0)" "MAC_ADDR_IS_EQUAL (p_target p0) (mac (local_cfg (cfg_of p0)))" by auto
      have "same_result p0 (extIpCmdSetupParams env p)"
      proof (cases "extJsonRequestParse p0 (blank_cfg 0)")
        case (Inl p3)
        with Pair \<open>\<not> b0\<close> l True q(1) parsed_same [OF request_parse(1) [OF rx_ok_blank Inl]] show ?thesis by (simp add: extIpCmdSetupParams_def)
      next
        case (Inr t)
        obtain p3 rx where t: "t = (p3, rx)" by fastforce
        obtain p4 S where c: "setup_compare env rx p3 = (p4, S)" by fastforce
        have "same_request p0 p3" using parsed_same request_parse(2) [OF rx_ok_blank Inr [unfolded t]] by blast
        then have p4: "same_request p0 p4" using setup_compare_same [of p0 env rx p3] c by simp
        show ?thesis
        proof (cases "extJsonResponsePrintConfig env p4")
          case (Some p5)
          with p4 tail_same [of env _ False p4 p5] have "same_request p0 p5" by (auto simp: extJsonResponsePrintConfig_def same_request_def)
          from setup_effects_same [OF this] Pair \<open>\<not> b0\<close> l True q(1) Inr t c Some show ?thesis by (simp add: extIpCmdSetupParams_def)
        qed (use Pair \<open>\<not> b0\<close> l True q(1) Inr t c in \<open>simp add: extIpCmdSetupParams_def\<close>)
      qed
      from guarded_trans [OF _ _ guarded_local [OF this q(2,3)]] s show ?thesis by blast
    qed
  qed
qed

lemma map_pair_some: "map_option (Pair b) r = Some (ok, q) \<Longrightarrow> r = Some q \<and> ok = b"
  by (cases r) auto

text \<open>The address and the port of the server that \<open>get_param\<close> stores.\<close>

lemma get_params_stores:
  assumes "extJsonUserValidate p = (True, p)" "extCmdGetParams env p = Some (ok, q)"
  shows "same_request p q \<and> (device q = device p \<or> (\<exists>a port. device q = device (upd_cfg (\<lambda>c. c\<lparr>ipSvr811 := a, portSvr811 := port\<rparr>) p)))"
proof (cases "\<not> MAC_ADDR_IS_EQUAL (p_target p) (mac (local_cfg (cfg_of p))) \<and> \<not> MAC_ADDR_IS_BOARDCAST (p_target p) \<and>
      \<not> MAC_ADDR_IS_EQUAL (p_target p) (mac (dest_cfg (cfg_of p)))")
  case True
  with assms have "q = set_msg (ascii (sq ''targ'' @ '' is not boardcast or local address'')) p" by (simp add: extCmdGetParams_def)
  with parsed_same [OF parsed_set_msg [of p]] show ?thesis by simp
next
  case False
  then have n: "(\<not> MAC_ADDR_IS_EQUAL (p_target p) (mac (local_cfg (cfg_of p))) \<and> \<not> MAC_ADDR_IS_BOARDCAST (p_target p) \<and>
      \<not> MAC_ADDR_IS_EQUAL (p_target p) (mac (dest_cfg (cfg_of p)))) = False" by blast
  obtain b a p2 where i: "extJsonParseIpAddress ''811Ip'' p = (b, a, p2)" by (cases "extJsonParseIpAddress ''811Ip'' p")
  let ?p3 = "upd_cfg (\<lambda>c. c\<lparr>ipSvr811 := a\<rparr>) p2"
  obtain v p4 where w: "extJsonParseUnsignedShort ''811Port'' ?p3 = (v, p4)" by fastforce
  let ?p5 = "case v of None \<Rightarrow> p4 | Some port \<Rightarrow> upd_cfg (\<lambda>c. c\<lparr>portSvr811 := port\<rparr>) p4"
  note s2 = parsed_same [OF parsed_ip [OF i]] and s4 = parsed_same [OF short_param.reads [OF w]]
  have "map_option (Pair True) (extJsonResponsePrintConfig env ?p5) = Some (ok, q)"
    using assms(2) by (simp only: extCmdGetParams_def assms(1) prod.case bool.case n if_False i Let_def w)
  from map_pair_some [OF this] have q: "extJsonResponsePrintConfig env ?p5 = Some q" ..
  have c2: "cfg_of p2 = cfg_of p" using s2 by (simp add: device_def)
  have c4: "cfg_of p4 = (cfg_of p)\<lparr>ipSvr811 := a\<rparr>" using s4 c2 by (simp add: device_def)
  have f: "m_fpga (p_media p4) = m_fpga (p_media p)" "p_saved p4 = p_saved p" "p_igmp p4 = p_igmp p" "p_serial p4 = p_serial p" "p_serialCfg p4 = p_serialCfg p"
    using s2 s4 by (simp_all add: device_def)
  have "device p4 = device (upd_cfg (\<lambda>c. c\<lparr>ipSvr811 := a, portSvr811 := portSvr811 (cfg_of p)\<rparr>) p)"
    unfolding device_def cfg_of_upd upd_cfg_keeps c4 f by simp
  moreover have "device (upd_cfg (\<lambda>c. c\<lparr>portSvr811 := port\<rparr>) p4) = device (upd_cfg (\<lambda>c. c\<lparr>ipSvr811 := a, portSvr811 := port\<rparr>) p)" for port
    unfolding device_def cfg_of_upd upd_cfg_keeps c4 f ..
  ultimately have d5: "\<exists>a port. device ?p5 = device (upd_cfg (\<lambda>c. c\<lparr>ipSvr811 := a, portSvr811 := port\<rparr>) p)" by (cases v) auto
  have s5: "same_request p ?p5" using s2 s4 by (cases v) (auto simp: same_request_def)
  from tail_same [OF q [unfolded extJsonResponsePrintConfig_def]]
  show ?thesis using d5 s5 by (simp add: same_request_def)
qed

lemma get_params_guarded: "guarded p (extCmdGetParams env p)"
proof (cases "extJsonUserValidate p")
  case (Pair b q)
  show ?thesis
  proof (cases b)
    case False
    with Pair parsed_same [OF parsed_validate [OF Pair]] show ?thesis by (simp add: extCmdGetParams_def guarded_unchanged)
  next
    case True
    with Pair validate_login [of p q] have v: "extJsonUserValidate p = (True, p)" and l: "login p (cfg_of p)" by auto
    show ?thesis
    proof (cases "extCmdGetParams env p")
      case (Some x)
      obtain ok r where x: "x = (ok, r)" by fastforce
      note s = get_params_stores [OF v Some [unfolded x]]
      show ?thesis
        using s l login_cong [of p r "cfg_of p"] unfolding Some x guarded_def authorised_def same_result_simps option.case prod.case by blast
    qed (simp add: guarded_def)
  qed
qed

lemma call_cmd_guarded: "guarded p (call_cmd env h p)"
  by (cases h) (simp_all add: get_params_guarded setup_params_guarded rs_data_guarded security_guarded)

lemma guarded_status: "guarded p (Some (ok, q)) \<Longrightarrow> guarded p (Some (ok', q\<lparr>p_status := s\<rparr>))"
proof -
  have "device (q\<lparr>p_status := s\<rparr>) = device q" by (simp add: device_def cfg_of_def)
  moreover have "login (q\<lparr>p_status := s\<rparr>) c = login q c" for c by (rule login_cong) simp
  ultimately show "guarded p (Some (ok, q)) \<Longrightarrow> guarded p (Some (ok', q\<lparr>p_status := s\<rparr>))" by (simp add: guarded_def authorised_def)
qed

lemma handle_guarded: "guarded p (extJsonHandle env p)"
proof (cases "find (\<lambda>(name, h). cmd_matches (p_cmd p) name) extCmdTable")
  case None
  with parsed_same [OF parsed_param_error [of p]] show ?thesis by (simp add: extJsonHandle_def guarded_unchanged)
next
  case (Some e)
  obtain name h where e: "e = (name, h)" by fastforce
  show ?thesis
  proof (cases "call_cmd env h p")
    case (Some x)
    obtain ok q where x: "x = (ok, q)" by fastforce
    from call_cmd_guarded [of p env h] guarded_status [of p ok q ok] Some x e \<open>find _ _ = Some e\<close> show ?thesis by (cases ok) (simp_all add: extJsonHandle_def)
  qed (use Some e in \<open>simp add: extJsonHandle_def guarded_def\<close>)
qed

lemma fail_reply_guarded: "guarded p (Some (ok, q)) \<Longrightarrow> guarded p (fail_reply env q)"
proof (cases "extIpCmdResponseReply env q")
  case (Some r)
  note t = tail_same [OF Some [unfolded extIpCmdResponseReply_def]]
  then have "login r c = login q c" for c by (intro login_cong) simp
  moreover assume "guarded p (Some (ok, q))"
  ultimately show ?thesis using t Some by (auto simp: fail_reply_def guarded_def authorised_def same_request_def)
qed (simp add: fail_reply_def guarded_def)

text \<open>The part of a request that is the text and its tokens.\<close>

definition tokens_of :: "'d EXT_JSON_PARSER \<Rightarrow> bytes \<times> jsmn_parser" where
  "tokens_of p = (p_json p, p_jsmn p)"

lemma login_tokens: "tokens_of q = tokens_of p \<Longrightarrow> login q c = login p c"
  using string_value_cong [of q p] by (simp add: login_def tokens_of_def)

lemma request_command_keeps:
  assumes "extJsonRequestParseCommand js len p = (ok, q)"
  shows "device q = device p" "tokens_of q = tokens_of (extJsonParse js len p)"
proof -
  let ?p1 = "extJsonParse js len p"
  have d1: "device ?p1 = device p" by (simp add: extJsonParse_def extJsonInit_def Let_def device_def cfg_of_def split: prod.splits)
  obtain b m p2 where t: "extJsonParseMacAddress ''targ'' (p_target ?p1) ?p1 = (b, m, p2)" by (cases "extJsonParseMacAddress ''targ'' (p_target ?p1) ?p1")
  note s2 = parsed_same [OF parsed_mac(1) [OF t]]
  let ?p3 = "p2\<lparr>p_target := m\<rparr>"
  have d3: "device ?p3 = device p" "tokens_of ?p3 = tokens_of ?p1" using s2 d1 by (simp_all add: device_def cfg_of_def tokens_of_def same_request_def)
  obtain s p4 where c: "extJsonParseString ''cmd'' 32 ?p3 = (s, p4)" by fastforce
  have d4: "device p4 = device p" "tokens_of p4 = tokens_of ?p1"
    using parsed_same [OF parsed_string [OF c]] d3 by (simp_all add: tokens_of_def same_request_def)
  have e: "device (set_msg y x) = device x" "device (x\<lparr>p_status := st\<rparr>) = device x" "device (x\<lparr>p_cmd := cm\<rparr>) = device x"
    "tokens_of (set_msg y x) = tokens_of x" "tokens_of (x\<lparr>p_status := st\<rparr>) = tokens_of x" "tokens_of (x\<lparr>p_cmd := cm\<rparr>) = tokens_of x"
    for x :: "'a EXT_JSON_PARSER" and y st cm by (simp_all add: set_msg_def device_def cfg_of_def tokens_of_def)
  show "device q = device p" "tokens_of q = tokens_of ?p1"
    using assms d1 d3 d4 unfolding extJsonRequestParseCommand_def Let_def t prod.case
    by (cases s; auto simp: extJsonFindCommand_def c e split: if_splits)+
qed

lemma json_command_guarded:
  assumes "json_command env js len p = Some (ok, q)"
  shows "device q = device p \<or> login (extJsonParse js len p) (cfg_of p) \<and> authorised p q"
proof -
  obtain b p1 where r: "extJsonRequestParseCommand js len (p\<lparr>p_msg := []\<rparr>) = (b, p1)" by fastforce
  have d: "device p1 = device p" using request_command_keeps(1) [OF r] by (simp add: device_def cfg_of_def)
  have g: "guarded p1 (Some (ok, q))"
  proof (cases b)
    case False
    with assms r fail_reply_guarded [OF guarded_unchanged [of p1 p1], of env] show ?thesis by (simp add: json_command_def split: if_splits)
  next
    case True
    then obtain b2 p2 where h: "extJsonHandle env p1 = Some (b2, p2)" using assms r by (auto simp: json_command_def split: if_splits option.splits)
    with handle_guarded [of p1 env] have g: "guarded p1 (Some (b2, p2))" by simp
    show ?thesis
    proof (cases b2)
      case True
      with assms r h g \<open>b\<close> show ?thesis by (simp add: json_command_def split: if_splits)
    next
      case False
      with assms r h fail_reply_guarded [OF g, of env] \<open>b\<close> show ?thesis by (simp add: json_command_def split: if_splits)
    qed
  qed
  have t: "tokens_of q = tokens_of (extJsonParse js len p)"
    using g request_command_keeps(2) [OF r]
    by (simp add: guarded_def same_request_def tokens_of_def extJsonParse_def extJsonInit_def Let_def split: prod.splits)
  have "device (upd_cfg f p1) = device (upd_cfg f p)" "cfg_of p1 = cfg_of p" for f using d by (simp_all add: device_def)
  with g d login_tokens [OF t] show ?thesis by (simp add: guarded_def authorised_def)
qed

lemma handler_guarded:
  assumes "extCmdPaserHandler env n p = Some (ok, q)"
  shows "let len = unat (flip16 (un16 (get_bytes 2 2 (p_read p)))) in
    device q = device p \<or>
    (un16 (get_bytes 0 2 (p_read p)) = CMD_TAG_REQUEST \<and>
     un32 (get_bytes len 4 (p_read p)) = flip32 (cmnMuxCRC32b (e_signed env) (get_bytes 4 (len - 4) (p_read p))) \<and>
     login (extJsonParse (drop 4 (p_read p)) (nat ((int n - 8) mod 65536)) p) (cfg_of p) \<and> authorised p q)"
proof -
  let ?p = "host_length p"
  have f: "device q = device p" if "fail_reply env ((set_msg m ?p)\<lparr>p_status := s\<rparr>) = Some (ok, q)" for m s
    using that tail_same [of env _ False "(set_msg m ?p)\<lparr>p_status := s\<rparr>" q]
    by (auto simp: fail_reply_def extIpCmdResponseReply_def device_def set_msg_def cfg_of_def host_length_def)
  have h: "device ?p = device p" "cfg_of ?p = cfg_of p" "device (upd_cfg u ?p) = device (upd_cfg u p)" for u
    by (simp_all add: host_length_def device_def cfg_of_def upd_cfg_def)
  have t: "login (extJsonParse js len ?p) c = login (extJsonParse js len p) c" for js len c
    by (rule login_tokens) (simp add: tokens_of_def extJsonParse_def extJsonInit_def host_length_def Let_def split: prod.splits)
  show ?thesis
    using assms f json_command_guarded [of env "drop 4 (p_read p)" _ ?p ok q] unfolding extCmdPaserHandler_def Let_def authorised_def h t
    by (auto split: if_splits)
qed


subsection \<open>Damaged datagrams\<close>


subsection \<open>What a request changes\<close>

text \<open>A field of the device after a request: a number that was given replaces it, a flag or an enumeration value is sent with one added.\<close>

definition given :: "'w::zero \<Rightarrow> 'w \<Rightarrow> 'w" where
  "given x old = (if x = 0 then old else x)"

definition given_flag :: "u8 \<Rightarrow> u8 \<Rightarrow> u8" where
  "given_flag x old = (if x = 0 then old else x - 1)"

lemma setup_field_result:
  shows "\<And>get upd. upd (\<lambda>_. get r) r = r \<Longrightarrow> setup_field checkIntegerField get upd t x (r, S) =
      (upd (\<lambda>_. given (get x) (get r)) r, if given (get x) (get r) = get r then S else insert t S)"
    "\<And>get upd. upd (\<lambda>_. get r) r = r \<Longrightarrow> setup_field checkShortField get upd t x (r, S) =
      (upd (\<lambda>_. given (get x) (get r)) r, if given (get x) (get r) = get r then S else insert t S)"
    "\<And>get upd. upd (\<lambda>_. get r) r = r \<Longrightarrow> setup_field (checkBoolField False) get upd t x (r, S) =
      (upd (\<lambda>_. given (get x) (get r)) r, if given (get x) (get r) = get r then S else insert t S)"
    "\<And>get upd. upd (\<lambda>_. get r) r = r \<Longrightarrow> setup_field (checkBoolField True) get upd t x (r, S) =
      (upd (\<lambda>_. given_flag (get x) (get r)) r, if given_flag (get x) (get r) = get r then S else insert t S)"
  by (auto simp: setup_field_def checkIntegerField_def checkShortField_def checkBoolField_def given_def given_flag_def)

definition merged_rs232 :: "MuxRs232Cfg \<Rightarrow> MuxRs232Cfg \<Rightarrow> MuxRs232Cfg" where
  "merged_rs232 x r =
     r\<lparr>baudRate := given (baudRate x) (baudRate r), charLength := given (charLength x) (charLength r),
       parityType := given_flag (parityType x) (parityType r), stopbits := given (stopbits x) (stopbits r)\<rparr>"

definition merged_ports :: "EXT_VIDEO_CONFIG \<Rightarrow> EXT_VIDEO_CONFIG \<Rightarrow> EXT_VIDEO_CONFIG" where
  "merged_ports x r =
     r\<lparr>vport := given (vport x) (vport r), aport := given (aport x) (aport r), dport := given (dport x) (dport r), sport := given (sport x) (sport r)\<rparr>"

definition merged_media :: "MuxRunTimeParam \<Rightarrow> MuxRunTimeParam \<Rightarrow> MuxRunTimeParam" where
  "merged_media x r =
     r\<lparr>vWidth := given (vWidth x) (vWidth r), vHeight := given (vHeight x) (vHeight r), vFrameRate := given (vFrameRate x) (vFrameRate r),
       vColorSpace := given_flag (vColorSpace x) (vColorSpace r), vDepth := given (vDepth x) (vDepth r),
       vIsInterlaced := given_flag (vIsInterlaced x) (vIsInterlaced r), vIsSegmented := given_flag (vIsSegmented x) (vIsSegmented r),
       aSampleRate := given (aSampleRate x) (aSampleRate r), aChannels := given (aChannels x) (aChannels r), aDepth := given (aDepth x) (aDepth r)\<rparr>"

lemma rs232_merged: "compareRs232Config x (r, S) = (merged_rs232 x r, if merged_rs232 x r = r then S else insert SETUP_TYPE_RS232 S)"
proof -
  have e: "merged_rs232 x r = r \<longleftrightarrow> given (baudRate x) (baudRate r) = baudRate r \<and> given (charLength x) (charLength r) = charLength r \<and>
    given_flag (parityType x) (parityType r) = parityType r \<and> given (stopbits x) (stopbits r) = stopbits r"
    by (cases r) (simp add: merged_rs232_def)
  show ?thesis unfolding e by (simp add: compareRs232Config_def setup_field_result merged_rs232_def)
qed

lemma ports_merged: "compare_ports x (r, S) = (merged_ports x r, if merged_ports x r = r then S else insert SETUP_TYPE_PROTOCOL S)"
proof -
  have e: "merged_ports x r = r \<longleftrightarrow> given (vport x) (vport r) = vport r \<and> given (aport x) (aport r) = aport r \<and>
    given (dport x) (dport r) = dport r \<and> given (sport x) (sport r) = sport r"
    by (cases r) (simp add: merged_ports_def)
  show ?thesis unfolding e by (simp add: compare_ports_def setup_field_result merged_ports_def)
qed

lemma media_merged: "compareMediaCfg x (r, S) = (merged_media x r, if merged_media x r = r then S else insert SETUP_TYPE_MEDIA S)"
proof -
  have e: "merged_media x r = r \<longleftrightarrow> given (vWidth x) (vWidth r) = vWidth r \<and> given (vHeight x) (vHeight r) = vHeight r \<and>
    given (vFrameRate x) (vFrameRate r) = vFrameRate r \<and> given (vDepth x) (vDepth r) = vDepth r \<and>
    given_flag (vColorSpace x) (vColorSpace r) = vColorSpace r \<and> given_flag (vIsInterlaced x) (vIsInterlaced r) = vIsInterlaced r \<and>
    given_flag (vIsSegmented x) (vIsSegmented r) = vIsSegmented r \<and> given (aSampleRate x) (aSampleRate r) = aSampleRate r \<and>
    given (aChannels x) (aChannels r) = aChannels r \<and> given (aDepth x) (aDepth r) = aDepth r"
    by (cases r) (auto simp: merged_media_def)
  show ?thesis unfolding e by (simp add: compareMediaCfg_def setup_field_result merged_media_def)
qed

text \<open>The steps of a request on the configuration.\<close>

definition given_addr :: "u32w \<Rightarrow> u32w \<Rightarrow> u32w" where
  "given_addr x old = (if x = IPADDR_NONE then old else x)"

lemma new_dest_fields [simp]:
  "runtime (new_dest a c) = runtime c" "rs232Cfg (new_dest a c) = rs232Cfg c" "isMCast (new_dest a c) = isMCast c" "isDipOn (new_dest a c) = isDipOn c"
  "ipMulticast (new_dest a c) = ipMulticast c" "ipMask (new_dest a c) = ipMask c" "ipGateway (new_dest a c) = ipGateway c" "local_cfg (new_dest a c) = local_cfg c"
  "user (new_dest a c) = user c" "password (new_dest a c) = password c" "isTx (new_dest a c) = isTx c" "dev_name (new_dest a c) = dev_name c"
  "ip (dest_cfg (new_dest a c)) = a" "vport (dest_cfg (new_dest a c)) = vport (dest_cfg c)" "aport (dest_cfg (new_dest a c)) = aport (dest_cfg c)"
  "dport (dest_cfg (new_dest a c)) = dport (dest_cfg c)" "sport (dest_cfg (new_dest a c)) = sport (dest_cfg c)"
  by (simp_all add: new_dest_def Let_def extTxMulticastIP2Mac_def)

lemma flag_field: "checkBoolField True old x = (given_flag x old \<noteq> old, given_flag x old)"
  by (auto simp: checkBoolField_def given_flag_def)

definition dip_cfg :: "DEV_CFG \<Rightarrow> DEV_CFG \<Rightarrow> DEV_CFG" where
  "dip_cfg rx c =
     (let d = c\<lparr>isDipOn := given_flag (isDipOn rx) (isDipOn c)\<rparr>
      in if isDipOn d = 0 \<and> isDipOn c \<noteq> 0 then new_dest (ipMulticast c) d else d)"

definition group_cfg :: "DEV_CFG \<Rightarrow> DEV_CFG \<Rightarrow> DEV_CFG" where
  "group_cfg rx c =
     (let a = given_addr (ip (dest_cfg rx)) (ipMulticast c); d = c\<lparr>ipMulticast := a\<rparr>
      in if isDipOn c = 0 \<and> a \<noteq> ipMulticast c then new_dest a d else d)"

lemma setup_step_cfg:
  "cfg_of (fst (setup_address a f st)) = (if a = IPADDR_NONE then cfg_of (fst st) else f (cfg_of (fst st)))"
  "cfg_of (fst (setup_dip env rx st)) = dip_cfg rx (cfg_of (fst st))"
  "cfg_of (fst (setup_group env rx st)) = group_cfg rx (cfg_of (fst st))"
  "cfg_of (fst (setup_mcast rx st)) = (cfg_of (fst st))\<lparr>isMCast := given_flag (isMCast rx) (isMCast (cfg_of (fst st)))\<rparr>"
  "cfg_of (fst (setup_part get upd compare rx st)) = upd (\<lambda>_. fst (compare (get rx) (get (cfg_of (fst st)), snd st))) (cfg_of (fst st))"
  by (cases st; auto simp: setup_address_def setup_dip_def setup_group_def setup_mcast_def setup_part_def flag_field dip_cfg_def group_cfg_def given_addr_def Let_def
      split: prod.splits)+

lemma setup_step_kinds:
  "SETUP_TYPE_MEDIA \<in> snd (setup_dhcp rx st) \<longleftrightarrow> SETUP_TYPE_MEDIA \<in> snd st" "SETUP_TYPE_MEDIA \<in> snd (setup_address a f st) \<longleftrightarrow> SETUP_TYPE_MEDIA \<in> snd st"
  "SETUP_TYPE_MEDIA \<in> snd (setup_mac rx st) \<longleftrightarrow> SETUP_TYPE_MEDIA \<in> snd st" "SETUP_TYPE_MEDIA \<in> snd (setup_name rx st) \<longleftrightarrow> SETUP_TYPE_MEDIA \<in> snd st"
  "SETUP_TYPE_MEDIA \<in> snd (setup_dip env rx st) \<longleftrightarrow> SETUP_TYPE_MEDIA \<in> snd st" "SETUP_TYPE_MEDIA \<in> snd (setup_mcast rx st) \<longleftrightarrow> SETUP_TYPE_MEDIA \<in> snd st"
  "SETUP_TYPE_MEDIA \<in> snd (setup_group env rx st) \<longleftrightarrow> SETUP_TYPE_MEDIA \<in> snd st"
  "SETUP_TYPE_RS232 \<in> snd (setup_dhcp rx st) \<longleftrightarrow> SETUP_TYPE_RS232 \<in> snd st" "SETUP_TYPE_RS232 \<in> snd (setup_address a f st) \<longleftrightarrow> SETUP_TYPE_RS232 \<in> snd st"
  "SETUP_TYPE_RS232 \<in> snd (setup_mac rx st) \<longleftrightarrow> SETUP_TYPE_RS232 \<in> snd st" "SETUP_TYPE_RS232 \<in> snd (setup_name rx st) \<longleftrightarrow> SETUP_TYPE_RS232 \<in> snd st"
  "SETUP_TYPE_RS232 \<in> snd (setup_dip env rx st) \<longleftrightarrow> SETUP_TYPE_RS232 \<in> snd st" "SETUP_TYPE_RS232 \<in> snd (setup_mcast rx st) \<longleftrightarrow> SETUP_TYPE_RS232 \<in> snd st"
  "SETUP_TYPE_RS232 \<in> snd (setup_group env rx st) \<longleftrightarrow> SETUP_TYPE_RS232 \<in> snd st"
  by (cases st; simp add: setup_dhcp_def setup_address_def setup_mac_def setup_name_def setup_dip_def setup_mcast_def setup_group_def Let_def split: prod.splits)+

lemma setup_part_kinds:
  "snd (setup_part get upd compare rx st) = snd (compare (get rx) (get (cfg_of (fst st)), snd st))"
  by (cases st) (simp add: setup_part_def Let_def split: prod.splits)

definition before_dip :: "DEV_CFG \<Rightarrow> DEV_CFG \<Rightarrow> DEV_CFG \<Rightarrow> bool" where
  "before_dip rx c d \<longleftrightarrow>
     runtime d = runtime c \<and> rs232Cfg d = rs232Cfg c \<and> isMCast d = isMCast c \<and> isDipOn d = isDipOn c \<and> ipMulticast d = ipMulticast c \<and>
     dest_cfg d = dest_cfg c \<and> user d = user c \<and> password d = password c \<and> isTx d = isTx c \<and>
     ip (local_cfg d) = given_addr (ip (local_cfg rx)) (ip (local_cfg c)) \<and> ipMask d = given_addr (ipMask rx) (ipMask c) \<and>
     ipGateway d = given_addr (ipGateway rx) (ipGateway c)"

lemma before_dip:
  "before_dip rx (cfg_of p) (cfg_of (fst (setup_name rx (setup_mac rx
       (setup_address (ipGateway rx) (\<lambda>c. c\<lparr>ipGateway := ipGateway rx\<rparr>)
         (setup_address (ipMask rx) (\<lambda>c. c\<lparr>ipMask := ipMask rx\<rparr>)
           (setup_address (ip (local_cfg rx)) (\<lambda>c. c\<lparr>local_cfg := (local_cfg c)\<lparr>ip := ip (local_cfg rx)\<rparr>\<rparr>)
             (setup_dhcp rx (p, S)))))))))"
proof -
  let ?a = "setup_dhcp rx (p, S)"
  obtain p1 S1 where a: "?a = (p1, S1)" by fastforce
  have d1: "\<exists>m. cfg_of p1 = (cfg_of p)\<lparr>netMode := m\<rparr>" using a by (auto simp: setup_dhcp_def split: if_splits intro: exI [of _ "netMode (cfg_of p)"])
  let ?b = "setup_address (ipGateway rx) (\<lambda>c. c\<lparr>ipGateway := ipGateway rx\<rparr>)
         (setup_address (ipMask rx) (\<lambda>c. c\<lparr>ipMask := ipMask rx\<rparr>)
           (setup_address (ip (local_cfg rx)) (\<lambda>c. c\<lparr>local_cfg := (local_cfg c)\<lparr>ip := ip (local_cfg rx)\<rparr>\<rparr>) (p1, S1)))"
  have d2: "before_dip rx (cfg_of p) (cfg_of (fst ?b))" using d1 by (auto simp: setup_step_cfg before_dip_def given_addr_def)
  have m: "before_dip rx c (cfg_of (fst st)) \<Longrightarrow> before_dip rx c (cfg_of (fst (setup_mac rx st)))" for c st
    by (cases st) (simp add: setup_mac_def before_dip_def)
  have n: "before_dip rx c (cfg_of (fst st)) \<Longrightarrow> before_dip rx c (cfg_of (fst (setup_name rx st)))" for c st
    by (cases st) (simp add: setup_name_def before_dip_def)
  show ?thesis unfolding a by (rule n [OF m [OF d2]])
qed

lemma dip_fields:
  "runtime (dip_cfg x c) = runtime c" "rs232Cfg (dip_cfg x c) = rs232Cfg c" "isMCast (dip_cfg x c) = isMCast c"
  "isDipOn (dip_cfg x c) = given_flag (isDipOn x) (isDipOn c)" "ipMulticast (dip_cfg x c) = ipMulticast c" "local_cfg (dip_cfg x c) = local_cfg c"
  "ipMask (dip_cfg x c) = ipMask c" "ipGateway (dip_cfg x c) = ipGateway c" "user (dip_cfg x c) = user c" "password (dip_cfg x c) = password c"
  "isTx (dip_cfg x c) = isTx c" "ip (dest_cfg (dip_cfg x c)) = (if given_flag (isDipOn x) (isDipOn c) = 0 \<and> isDipOn c \<noteq> 0 then ipMulticast c else ip (dest_cfg c))"
  "vport (dest_cfg (dip_cfg x c)) = vport (dest_cfg c)" "aport (dest_cfg (dip_cfg x c)) = aport (dest_cfg c)"
  "dport (dest_cfg (dip_cfg x c)) = dport (dest_cfg c)" "sport (dest_cfg (dip_cfg x c)) = sport (dest_cfg c)"
  by (simp_all add: dip_cfg_def Let_def)

lemma group_fields:
  "runtime (group_cfg x c) = runtime c" "rs232Cfg (group_cfg x c) = rs232Cfg c" "isMCast (group_cfg x c) = isMCast c"
  "isDipOn (group_cfg x c) = isDipOn c" "ipMulticast (group_cfg x c) = given_addr (ip (dest_cfg x)) (ipMulticast c)" "local_cfg (group_cfg x c) = local_cfg c"
  "ipMask (group_cfg x c) = ipMask c" "ipGateway (group_cfg x c) = ipGateway c" "user (group_cfg x c) = user c" "password (group_cfg x c) = password c"
  "isTx (group_cfg x c) = isTx c" "ip (dest_cfg (group_cfg x c)) = (if isDipOn c = 0 \<and> given_addr (ip (dest_cfg x)) (ipMulticast c) \<noteq> ipMulticast c
    then given_addr (ip (dest_cfg x)) (ipMulticast c) else ip (dest_cfg c))"
  "vport (dest_cfg (group_cfg x c)) = vport (dest_cfg c)" "aport (dest_cfg (group_cfg x c)) = aport (dest_cfg c)"
  "dport (dest_cfg (group_cfg x c)) = dport (dest_cfg c)" "sport (dest_cfg (group_cfg x c)) = sport (dest_cfg c)"
  by (simp_all add: group_cfg_def Let_def)


text \<open>
  A request for the parameters that does not name a server sets the address of the server to 255.255.255.255, and its answer carries the parameters with
  the status of an error.
\<close>

lemma get_param_without_server:
  assumes "extCmdGetParams env p = Some (True, q)" "string_value ''811Ip'' p = None"
  shows "ipSvr811 (cfg_of q) = IPADDR_NONE \<and> p_status q = JSON_STATUS_PARSE_PARAM_ERROR"
proof -
  have v: "extJsonUserValidate p = (True, p)"
    using assms(1) validate_login [of p] by (cases "extJsonUserValidate p"; cases "fst (extJsonUserValidate p)") (auto simp: extCmdGetParams_def)
  obtain p2 where i: "extJsonParseIpAddress ''811Ip'' p = (False, IPADDR_NONE, p2)" "p_status p2 = JSON_STATUS_PARSE_PARAM_ERROR"
    using assms(2) parse_string_some [of "''811Ip''" 64 p] parse_string_none [of "''811Ip''" 64 p]
    by (cases "extJsonParseString ''811Ip'' 64 p"; cases "fst (extJsonParseString ''811Ip'' 64 p)") (auto simp: extJsonParseIpAddress_def)
  let ?p3 = "upd_cfg (\<lambda>c. c\<lparr>ipSvr811 := IPADDR_NONE\<rparr>) p2"
  obtain w p4 where s: "extJsonParseUnsignedShort ''811Port'' ?p3 = (w, p4)" by fastforce
  have p4: "ipSvr811 (cfg_of p4) = IPADDR_NONE" using parsed_keeps(14) [OF short_param.reads [OF s]] by simp
  have "p_status p4 = JSON_STATUS_PARSE_PARAM_ERROR"
    using s i(2) by (auto simp: extJsonParseUnsignedShort_def extJsonGetPrimitiveValueObject_def param_error_def split: option.splits if_splits)
  with p4 show ?thesis
    using assms(1) v i(1) s tail_result(12,14)
    by (cases w) (fastforce simp: extCmdGetParams_def extJsonResponsePrintConfig_def Let_def split: if_splits)+
qed

subsection \<open>Examples\<close>

lemma sample_dev_ok: "dev_ok (factory_device n)"
  using factory_text_ok by (simp add: dev_ok_def factory_device_def blank_parser_def cfg_of_def extMediaInit_def)



end
