(* ===== verification/Spec2Isabelle.thy ===== *)
theory Spec2Isabelle
  imports PtpMain TftpServer HttpServe Console XyModem IpCmdAccess
begin

text \<open>
  A verification development for the firmware of a digital TV controller: a board with its own
  boot loader, FreeRTOS and lwIP, a web server, TFTP, telnet, a command line and an IEEE 1588 (PTP)
  clock. The development models the parts that carry the firmware's own logic, function by function,
  in HOL. File names below are relative to \<^verbatim>\<open>src/\<close>; \<^verbatim>\<open>exts\<close> stands for
  \<^verbatim>\<open>src/supports/lwip/lwip/src/exts\<close>.

  \<^bold>\<open>Conventions.\<close> A C structure is a record, an enumeration a datatype. Bytes, ports and other wire
  fields are words of their width; signed C integers are HOL integers wrapped at every store
  (theory \<open>Prelude\<close>); buffers are lists of bytes. A function that changes state takes and returns the
  state. What the code gets from outside, from lwIP, the hardware or the C library (allocations,
  transmissions, time, random numbers, the flash device, the bus), is an environment, a record of functions that
  is an argument of the definitions; what the program needs of it is a hypothesis with a name, such as
  \<open>nor_ok\<close> (a NOR flash stores what is programmed after an erase), \<open>bus_ok\<close> (no packet times out) and \<open>fpga_ok\<close> (a
  configuration register holds what was written).
  Ghost fields record what was sent, and operations that C leaves undefined.

  \<^bold>\<open>The PTP daemon\<close> (\<^verbatim>\<open>exts/ptp\<close>).
  \<^item> \<open>PtpTypes\<close>: the data sets and messages of \<^verbatim>\<open>datatypes.h\<close> and \<^verbatim>\<open>constants.h\<close>.
  \<^item> \<open>PtpArith\<close>: \<^verbatim>\<open>ptpArith.c\<close>. Addition, subtraction and halving of normalised times are exact; the
    logarithm is the floor of the binary logarithm.
  \<^item> \<open>PtpMsg\<close>: \<^verbatim>\<open>ptpMsg.c\<close>. Round trips of packed messages.
  \<^item> \<open>PtpNet\<close>: \<^verbatim>\<open>dep/ptpNet.c\<close>. The packet ring refines a bounded queue; reception delivers the oldest
    packet and loses no buffer.
  \<^item> \<open>PtpTimer\<close>: \<^verbatim>\<open>dep/ptpTimer.c\<close>, \<^verbatim>\<open>dep/ptpSysTime.c\<close> and the system timers of the port.
  \<^item> \<open>PtpServo\<close>: \<^verbatim>\<open>dep/ptpServo.c\<close>. The exchange of time stamps recovers offset and delay, the filter
    and the controller are bounded.
  \<^item> \<open>PtpBmc\<close>: \<^verbatim>\<open>ptpBmc.c\<close>. The foreign master table, the comparison as a lexicographic order, the state decision.
  \<^item> \<open>PtpProtocol\<close>: \<^verbatim>\<open>ptpProtocol.c\<close>. Every issue and handle function and the state machine.
  \<^item> \<open>PtpMain\<close>: \<^verbatim>\<open>ptpMain.c\<close>. The daemon as a step relation over state machine runs, packets and timers
    in any order, with its invariants.

  \<^bold>\<open>Firmware update.\<close>
  \<^item> \<open>SpiFlash\<close>: \<^verbatim>\<open>an767/bsp/src/bspSpiFlash.c\<close> and \<^verbatim>\<open>hw/bspHwSpiFlash.c\<close>. The buffered stream of writes ends up
    in the flash byte by byte, and the FPGA image is copied at boot.
  \<^item> \<open>FirmUpload\<close>: \<^verbatim>\<open>exts/cmn/cmnUploadFile.c\<close> and the update of \<^verbatim>\<open>an767/boot/src/bootMain.c\<close>. The collection
    of TFTP blocks in the buffer shared with the flash driver, and the installation of an RTOS image.
  \<^item> \<open>TftpServer\<close>: \<^verbatim>\<open>exts/misc/tftpServer.c\<close>. A write transfer block by block on any file system that keeps
    the contract \<open>tftp_storage\<close>, and on the one of \<open>FirmUpload\<close>; the server as a step relation with its invariant, its timeout.
  \<^item> The theorem of this theory follows an image from the network into the internal flash.

  \<^bold>\<open>Serial transfers\<close> (\<^verbatim>\<open>an767/bsp/src/modem\<close>).
  \<^item> \<open>Crc16\<close>: \<^verbatim>\<open>crc16.c\<close>. The table is the one of the polynomial, and the routine computes the division.
  \<^item> \<open>XyModem\<close>: \<^verbatim>\<open>xyModem.c\<close> and the loader of \<^verbatim>\<open>bspSpiFlash.c\<close>. Damaged blocks are rejected; a file sent over a disturbed line is
    in the flash, on the interfaces \<open>byte_source\<close> and \<open>byte_sink\<close>.

  \<^bold>\<open>Device control.\<close>
  \<^item> \<open>SysConfig\<close>: the configuration record of \<^verbatim>\<open>extSysParams.h\<close>, its factory settings (\<^verbatim>\<open>exts/cmn/cmnSysConfig.c\<close>), texts of
    addresses and identifiers, names of values and the checksum of the control protocol (\<^verbatim>\<open>cmnUtils.c\<close>, \<^verbatim>\<open>cmnJsonUtils.c\<close>,
    \<^verbatim>\<open>cmnLwipUtils.c\<close>). Round trips, the CRC-32, and that factory settings of two devices fit together.
  \<^item> \<open>Fpga\<close>: \<^verbatim>\<open>an767/os/src/hw/eosHwFpgaDrv.c\<close>. What the registers hold after a configuration.
  \<^item> \<open>MediaFsm\<close>: \<^verbatim>\<open>exts/extFsm.c\<close> and \<^verbatim>\<open>exts/extMediaTask.c\<close>. The threads of the media control as a step relation: the type
    invariant, the state machine follows the signal, and the number of messages sent.
  \<^item> \<open>Jsmn\<close>: \<^verbatim>\<open>exts/cmn/jsmn.c\<close> and the search for a key of \<^verbatim>\<open>cmnJsonUtils.c\<close>. The tokenizer stays within its array and its text for every
    input, and finds the values of a flat object.
  \<^item> \<open>Ip4Addr\<close>: reading and printing of addresses, from \<^verbatim>\<open>core/ipv4/ip4_addr.c\<close> of lwIP. Round trip.
  \<^item> \<open>IpCmdParse\<close>: \<^verbatim>\<open>exts/cmd/udpCmdRequest.c\<close>. The parameters of a request, one step each, and what parsing leaves unchanged.
  \<^item> \<open>IpCmd\<close>: the control protocol, \<^verbatim>\<open>udpCmdMain.c\<close>, \<^verbatim>\<open>udpCmdResponses.c\<close>, \<^verbatim>\<open>udpCmdSetup.c\<close> and \<^verbatim>\<open>udpCmdExecs.c\<close>. Frames, replies, the four commands and
    the thread, as a step relation together with the media control: no reply overruns the buffer, and a printed frame is accepted.
  \<^item> \<open>IpCmdAccess\<close>: a change of the device needs the login, damaged datagrams change nothing, and what a request makes of the configuration.

  \<^bold>\<open>Utilities.\<close>
  \<^item> \<open>Base64\<close>: \<^verbatim>\<open>exts/cmn/base64.c\<close>. Round trip and bounds.
  \<^item> \<open>Console\<close>: the line editor and command loop of \<^verbatim>\<open>an767/boot/src/bootMain.c\<close> and the interpreter of
    \<^verbatim>\<open>exts/cmn/cmnCmdLine.c\<close>.

  \<^bold>\<open>Web server.\<close>
  \<^item> \<open>HttpRequest\<close>: \<^verbatim>\<open>exts/http/httpRequest.c\<close>. Collection and parsing of requests, and their dispatch.
  \<^item> \<open>HttpUpload\<close>: \<^verbatim>\<open>exts/http/httpPost.c\<close> and the length of the contents of \<^verbatim>\<open>httpRequest.c\<close>. A multipart upload packet by
    packet: for which lengths the image is stored, and for which the boundary is missed.
  \<^item> \<open>HttpServe\<close>: \<^verbatim>\<open>exts/http/httpSend.c\<close>, \<^verbatim>\<open>httpConns.c\<close>, \<^verbatim>\<open>httpFs.c\<close>, \<^verbatim>\<open>httpResponseFile.c\<close> and the callbacks of \<^verbatim>\<open>httpMain.c\<close> that send.
    A file is sent in order whatever TCP accepts at a time, and arrives completely when every acknowledgement makes room.
  \<^item> \<open>WebSocket\<close>: \<^verbatim>\<open>exts/http/httpWebSocket.c\<close>. The handshake, on \<open>Base64\<close>, and the frames.

  \<^bold>\<open>Interfaces.\<close> \<open>field_codec\<close> (a field of a packet buffer, interpreted for bytes and big endian words),
  \<open>step_system\<close> (an invariant of a step relation holds in every reachable state; interpreted for the daemon,
  the TFTP server, the media control, the control protocol and the transmission of a page), \<open>param_reader\<close> (a function that reads one parameter of a request; interpreted for the four kinds of parameters), \<open>time_arith\<close> (exact arithmetic on bounded times, for the servo), \<open>bounded_fifo\<close> (the packet ring),
  \<open>byte_sink\<close> (a store that appends a stream; interpreted for the flash driver and for the upload functions of TFTP and of the web server), \<open>tftp_storage\<close> (the
  file system of the TFTP server), \<open>byte_source\<close> (a stream read in pieces) and \<open>source_to_sink\<close>, which extends it and \<open>byte_sink\<close> by the copy
  loop (interpreted for the modem and the flash).

  \<^bold>\<open>Loops and fuel.\<close> Loops are recursive functions with a termination proof. The copy loops of the boot
  loader (\<open>bootCopy\<close>, \<open>bootRtos\<close>), the command loop (\<open>commandLoop\<close>) and the loop of the serial loader (\<open>load_loop\<close>) depend on what devices and commands answer and take fuel, a bound on the
  number of rounds; \<open>None\<close> means that it did not suffice. An image of \<open>n\<close> bytes needs a round per
  kilobyte and one to stop, so \<open>n div 1024 + 2\<close> is enough; the help command needs as many calls as the table has entries, and the
  serial loader one round per buffer and one to stop. The
  theorems prove that the loops end.

  \<^bold>\<open>Not modelled.\<close> The lwIP core (but for the texts of addresses), FreeRTOS, the Ethernet switch driver, the JSON library of the NMOS clients and the chip headers are
  third-party code. The list of connections, the receive callback and the page texts of the web server, telnet, mDNS, MQTT and the NMOS clients are adaptations of
  lwIP applications, driven by callbacks of its TCP and DNS code, which would have to be parameters throughout. Reference counts of packet buffers are not modelled, nor the locking
  between threads: a step of a thread is one step of the model. Traces and console output are left out throughout. Of the firmware upload only
  the build for the board is modelled, not the simulation that writes files.
\<close>

section \<open>From the network to the next boot\<close>

text \<open>
  C2: A firmware update over the network works end to end. An RTOS image is sent to the idle TFTP server
  block by block, and the board is started again with the flash as the transfer left it and the update
  request of the configuration saved last. Then the boot loader ends, the bytes it gives to the internal
  flash are the image that was sent, padded to whole kilobytes, on consecutive pairs of pages, and the request is cleared in
  the configuration it saves.
\<close>
theorem tftp_image_installed:
  fixes s :: "EXT_RUNTIME_CFG tftp_state" and v :: tftp_env and addr :: u32w and port :: u16
  assumes "nor_ok e" "bus_ok e" "idle s" "\<not> t_fault s" "board_ready (board_of (fs s))"
    and "0 \<notin> set f" "0 \<notin> set m" "length f \<le> 20" "length m \<le> 9" "image_type f = EXT_FM_TYPE_RTOS"
    and "\<forall>d\<in>set ds. length d = 512" "length l < 512" "length (concat ds @ l) < 7339776"
  defines "s' \<equiv> recvBlocks v (extTftp e) addr port 1 (ds @ [l]) (tftpRecv v (extTftp e) (wrq_packet f m) addr port s)"
    and "img \<equiv> concat ds @ l"
  assumes "mem (board_of r) = mem (board_of (fs s'))" "(fu_type r, fu_size r) = last (cfgSaved (fs s'))"
    and "length (bufRead (board_of r)) = RW_BUFFER_SIZE"
    and "efc_init efc" "\<forall>pg c. efc_program efc pg c" "length img div 1024 + 2 \<le> fuel"
  shows "\<exists>out r'. bootUpdate fuel e efc startPage r = Some (out, r') \<and> take (length img) (concat (map snd out)) = img \<and>
    map fst out = map (\<lambda>k. startPage + 2 * k) [0..<length out] \<and> last (cfgSaved r') = (EXT_FM_TYPE_NONE, 0)"
proof -
  have ty: "image_type (f @ replicate (20 - length f) 0) = EXT_FM_TYPE_RTOS" using image_type_buffer [OF assms(6)] assms(10) by simp
  have "length (concat ds) = 512 * length ds" using assms(11) by (induction ds) auto
  then have n: "0 + length ds + 1 < 65536" using assms(13) by simp
  have i: "\<not> t_handle s" "t_addr s = 0" "t_port s = 0" using assms(3) by (auto simp: idle_def)
  have r: "nor_ok e \<and> bus_ok e \<and> length (bufWrite (board_of (fs s))) = RW_BUFFER_SIZE \<and> \<not> memFault (board_of (fs s)) \<and>
      mem (board_of (fs s)) = mem (board_of (fs s)) \<and> cfgSaved (fs s) = cfgSaved (fs s)" using assms(1,2,5) by (simp add: board_ready_def)
  note rq = ext.request [OF r i assms(4,6-9), where v = v and addr = addr and port = port]
  have room: "length [] + length (concat ds) + length l < 7339776" using assms(13) by simp
  have st: "image_at 8454144 img (mem (board_of (fs s))) (mem (board_of r))" "fu_type r = EXT_FM_TYPE_RTOS" "fu_size r = length img"
    using ext.transfer [OF rq(1) assms(11,12) n room, where v = v] assms(16,17) ty
    unfolding s'_def img_def by (auto simp: updateSector_def simp del: upt_Suc recvBlocks.simps)
  then have size: "fu_size r \<le> 8000000" "fu_size r div 1024 + 2 \<le> fuel" using assms(13,21) by (simp_all add: img_def)
  obtain k out b' where c: "bootUpdate fuel e efc startPage r = Some (out, bspCfgSave (clearUpdate (setBoard b' r)))" "fu_size r \<le> k"
      "concat (map snd out) = map (mem (board_of r)) [8454144..<8454144 + k]" "map fst out = map (\<lambda>k. startPage + 2 * k) [0..<length out]"
    using boot_rtos_image [OF assms(1,2,19,20) st(2) size(1) assms(18) size(2)] by blast
  have "take (length img) (concat (map snd out)) = img"
    using st(1,3) c(2) unfolding c(3) by (intro nth_equalityI) (simp_all add: take_map image_at_def)
  then show ?thesis using c(1,4) by (auto simp: bspCfgSave_def clearUpdate_def)
qed

definition uploaded_example :: EXT_RUNTIME_CFG where
  "uploaded_example = fs (recvBlocks tx_example (extTftp nor_example) 167772161 2000 1 ([] @ [[7, 8, 9]])
     (tftpRecv tx_example (extTftp nor_example) (wrq_packet (ascii ''firmos'') (ascii ''octet'')) 167772161 2000 tftp_zero))"

definition restarted_example :: EXT_RUNTIME_CFG where
  "restarted_example = cfg_zero\<lparr>board_of := board_zero\<lparr>mem := mem (board_of uploaded_example)\<rparr>,
     fu_type := fst (last (cfgSaved uploaded_example)), fu_size := snd (last (cfgSaved uploaded_example))\<rparr>"

theorem tftp_image_installed_witness:
  "\<exists>out r'. bootUpdate 2 nor_example \<lparr>efc_init = True, efc_program = (\<lambda>_ _. True)\<rparr> 128 restarted_example = Some (out, r') \<and>
     take 3 (concat (map snd out)) = [7, 8, 9]"
proof -
  have a: "0 \<notin> set (ascii ''firmos'')" "0 \<notin> set (ascii ''octet'')" "length (ascii ''firmos'') \<le> 20" "length (ascii ''octet'') \<le> 9"
      "image_type (ascii ''firmos'') = EXT_FM_TYPE_RTOS" "\<forall>d\<in>set []. length d = 512"
      "length [7, 8, 9::u8] < 512" "length (concat [] @ [7, 8, 9::u8]) < 7339776"
    by (simp_all add: ascii_def image_type_def is_string_equal_def c_string_def to_lower_def)
  let ?efc = "\<lparr>efc_init = True, efc_program = (\<lambda>_ _. True)\<rparr>"
  have r: "mem (board_of restarted_example) = mem (board_of uploaded_example)" "(fu_type restarted_example, fu_size restarted_example) = last (cfgSaved uploaded_example)"
      "length (bufRead (board_of restarted_example)) = RW_BUFFER_SIZE"
    by (simp_all add: restarted_example_def cfg_zero_def)
  have f: "efc_init ?efc" "\<forall>pg c. efc_program ?efc pg c" "length (concat [] @ [7, 8, 9::u8]) div 1024 + 2 \<le> 2" by simp_all
  from tftp_image_installed [OF nor_example_ok tftp_zero_simps a r [unfolded uploaded_example_def] f, of 128]
  have "\<exists>out r'. bootUpdate 2 nor_example ?efc 128 restarted_example = Some (out, r') \<and> take (length (concat [] @ [7, 8, 9::u8])) (concat (map snd out)) = concat [] @ [7, 8, 9]"
    by blast
  then show ?thesis by (simp add: numeral_3_eq_3)
qed

end
